(* ===== verification/Shoebox_Prelude.thy ===== *)
theory Shoebox_Prelude
  imports Main "HOL-Library.Word" "HOL-Library.Multiset" "HOL-Library.Sublist"
begin

text \<open>
  Shared types, the small part of the Go standard library the program relies on, and the
  generic lemmas of the development.

  \<^item> \<open>time\<close> is a Go \<open>time.Time\<close>: the number of nanoseconds since the zero time (1 January of
    the year 1, UTC), an unbounded integer, so that \<open>IsZero\<close> is equality with \<open>0\<close>.
  \<^item> \<open>duration\<close> is a Go \<open>time.Duration\<close>: a signed 64-bit count of nanoseconds, kept at its
    width (\<open>sint\<close> reads it). \<open>time_add\<close> is \<open>Time.Add\<close>.
  \<^item> \<open>err\<close> is a Go \<open>error\<close>: the sentinel errors of the program, a message, or a wrapped error
    (\<open>fmt.Errorf\<close> with \<open>%w\<close>); \<open>errors_Is\<close> follows the wrapping. A Go pair \<open>(T, error)\<close> is
    a value of \<open>err + T\<close>. A run-time panic is the value \<open>GoPanic\<close>, which no code returns as an
    error of its own.
  \<^item> \<open>SliceStable\<close> is \<open>sort.SliceStable\<close> with its comparison function; the locale
    \<open>strict_weak_order\<close> states what the comparison has to satisfy and proves that the result
    is a sorted, stable permutation.
  \<^item> \<open>strings_HasSuffix\<close>, \<open>strings_HasPrefix\<close> are the functions of package \<open>strings\<close>.
  A Go string is its list of bytes; a \<open>[]byte\<close> is a list of bytes in which the nil slice and the
  empty slice are the same value.
\<close>

named_theorems store_simps "equations of the storage operations"

type_synonym byte = "8 word"
type_synonym time = int
type_synonym duration = "64 word"

definition IsZero :: "time \<Rightarrow> bool" where
  "IsZero t \<longleftrightarrow> t = 0"

definition time_add :: "time \<Rightarrow> duration \<Rightarrow> time" where
  "time_add t d = t + sint d"

definition microsecond :: duration where "microsecond = 1000"
definition millisecond :: duration where "millisecond = 1000000"
definition second :: duration where "second = 1000000000"

lemmas duration_units = microsecond_def millisecond_def second_def

datatype err =
    ErrEmpty
  | ErrScheduleExists
  | ErrAlreadyClosed
  | ErrNilTaskCodec
  | ErrMsg string
  | ErrWrap string err
  | GoPanic string

type_synonym 'a result = "err + 'a"

fun errors_Is :: "err \<Rightarrow> err \<Rightarrow> bool" where
  "errors_Is (ErrWrap m e) target = (ErrWrap m e = target \<or> errors_Is e target)"
| "errors_Is e target = (e = target)"

text \<open>\<open>err.Error()\<close>: the text of an error; a wrapping prefixes its own text.\<close>

fun Error_text :: "err \<Rightarrow> string" where
  "Error_text ErrEmpty = ''shoebox/storage: queue empty''"
| "Error_text ErrScheduleExists = ''shoebox/storage: schedule already exists''"
| "Error_text ErrAlreadyClosed = ''shoebox: queue already shut down''"
| "Error_text ErrNilTaskCodec = ''shoebox: task codec is nil''"
| "Error_text (ErrMsg m) = m"
| "Error_text (ErrWrap m e) = m @ '': '' @ Error_text e"
| "Error_text (GoPanic m) = ''panic: '' @ m"

definition strings_HasSuffix :: "string \<Rightarrow> string \<Rightarrow> bool" where
  "strings_HasSuffix s suf \<longleftrightarrow>
     length suf \<le> length s \<and> drop (length s - length suf) s = suf"

definition strings_HasPrefix :: "string \<Rightarrow> string \<Rightarrow> bool" where
  "strings_HasPrefix s p \<longleftrightarrow> length p \<le> length s \<and> take (length p) s = p"

text \<open>\<open>strconv.FormatInt\<close> and \<open>strconv.Itoa\<close> in base 10, \<open>hex.EncodeToString\<close>.\<close>

fun decimal_digits :: "nat \<Rightarrow> string" where
  "decimal_digits n =
     (if n < 10 then [char_of (48 + n)] else decimal_digits (n div 10) @ [char_of (48 + n mod 10)])"

declare decimal_digits.simps [simp del]

definition FormatInt :: "int \<Rightarrow> string" where
  "FormatInt i = (if i < 0 then ''-'' @ decimal_digits (nat (- i)) else decimal_digits (nat i))"

definition hex_digit :: "nat \<Rightarrow> char" where
  "hex_digit n = (if n < 10 then char_of (48 + n) else char_of (87 + n))"

fun hex_EncodeToString :: "byte list \<Rightarrow> string" where
  "hex_EncodeToString [] = []"
| "hex_EncodeToString (b # bs) =
     hex_digit (unat b div 16) # hex_digit (unat b mod 16) # hex_EncodeToString bs"

text \<open>
  \<open>strconv.Quote\<close>, the \<open>%q\<close> of package \<open>fmt\<close>: quotes around the text, escapes for the quote, the
  backslash and the control characters. Bytes from \<open>0x80\<close> on are copied, as Go does for printable
  text in UTF-8.
\<close>

definition quote_char :: "char \<Rightarrow> string" where
  "quote_char c =
     (let n = (of_char c :: nat); bs = char_of (92 :: nat)
      in if n = 34 \<or> n = 92 then [bs, c]
         else if n = 7 then [bs, CHR ''a''] else if n = 8 then [bs, CHR ''b'']
         else if n = 9 then [bs, CHR ''t''] else if n = 10 then [bs, CHR ''n'']
         else if n = 11 then [bs, CHR ''v''] else if n = 12 then [bs, CHR ''f'']
         else if n = 13 then [bs, CHR ''r'']
         else if n < 32 \<or> n = 127 then [bs, CHR ''x'', hex_digit (n div 16), hex_digit (n mod 16)]
         else [c])"

definition strconv_Quote :: "string \<Rightarrow> string" where
  "strconv_Quote s = char_of (34 :: nat) # concat (map quote_char s) @ [char_of (34 :: nat)]"

definition bytes_of_string :: "string \<Rightarrow> byte list" where
  "bytes_of_string s = map of_char s"

fun insert_before :: "('a \<Rightarrow> 'a \<Rightarrow> bool) \<Rightarrow> 'a \<Rightarrow> 'a list \<Rightarrow> 'a list" where
  "insert_before lt x [] = [x]"
| "insert_before lt x (y # ys) =
     (if lt y x then y # insert_before lt x ys else x # y # ys)"

definition SliceStable :: "('a \<Rightarrow> 'a \<Rightarrow> bool) \<Rightarrow> 'a list \<Rightarrow> 'a list" where
  "SliceStable lt xs = foldr (insert_before lt) xs []"

subsection \<open>Strings\<close>

lemma HasSuffix_iff [simp]: "strings_HasSuffix s suf \<longleftrightarrow> (\<exists>p. s = p @ suf)"
proof
  assume "strings_HasSuffix s suf"
  then have "s = take (length s - length suf) s @ suf"
    by (metis strings_HasSuffix_def append_take_drop_id)
  then show "\<exists>p. s = p @ suf" by blast
qed (auto simp: strings_HasSuffix_def)

lemma HasPrefix_iff [simp]: "strings_HasPrefix s p \<longleftrightarrow> (\<exists>t. s = p @ t)"
proof
  assume "strings_HasPrefix s p"
  then have "s = p @ drop (length p) s"
    by (metis strings_HasPrefix_def append_take_drop_id)
  then show "\<exists>t. s = p @ t" by blast
qed (auto simp: strings_HasPrefix_def)

text \<open>A separator that occurs in neither head determines where a composite key is split.\<close>

lemma append_separator_inject:
  assumes "c \<notin> set a" "c \<notin> set b"
  shows "a @ c # x = b @ c # y \<longleftrightarrow> a = b \<and> x = y"
proof
  assume eq: "a @ c # x = b @ c # y"
  have "a = takeWhile (\<lambda>z. z \<noteq> c) (a @ c # x)"
    using assms(1) by (induction a) auto
  also have "\<dots> = takeWhile (\<lambda>z. z \<noteq> c) (b @ c # y)"
    by (simp only: eq)
  also have "\<dots> = b"
    using assms(2) by (induction b) auto
  finally show "a = b \<and> x = y" using eq by simp
qed simp

subsection \<open>Hexadecimal encoding\<close>

lemma of_char_hex_digit:
  "n < 16 \<Longrightarrow> of_char (hex_digit n) = (if n < 10 then 48 + n else 87 + n)"
  by (simp add: hex_digit_def)

lemma hex_digit_inject:
  assumes "a < 16" "b < 16"
  shows "hex_digit a = hex_digit b \<longleftrightarrow> a = b"
proof
  assume "hex_digit a = hex_digit b"
  then have "(of_char (hex_digit a) :: nat) = of_char (hex_digit b)" by simp
  with assms show "a = b" by (auto simp: of_char_hex_digit split: if_splits)
qed simp

lemma byte_nibbles_inject:
  fixes a b :: byte
  assumes "unat a div 16 = unat b div 16" "unat a mod 16 = unat b mod 16"
  shows "a = b"
  using assms by (metis div_mult_mod_eq word_unat_eq_iff)

lemma byte_div_16: "unat (b :: byte) div 16 < 16"
proof -
  have "unat b < 2 ^ LENGTH(8)" by (rule unsigned_less)
  then show ?thesis by simp
qed

lemma byte_mod_16: "unat (b :: byte) mod 16 < 16"
  by simp

lemma length_hex_EncodeToString [simp]: "length (hex_EncodeToString bs) = 2 * length bs"
  by (induction bs) auto

lemma hex_EncodeToString_inject:
  "hex_EncodeToString bs = hex_EncodeToString cs \<longleftrightarrow> bs = cs"
proof (induction bs arbitrary: cs)
  case Nil
  then show ?case by (cases cs) auto
next
  case (Cons b bs)
  then show ?case
    by (cases cs) (auto simp: hex_digit_inject byte_div_16 intro: byte_nibbles_inject)
qed

lemma hex_EncodeToString_digits:
  "c \<in> set (hex_EncodeToString bs) \<Longrightarrow> \<exists>n < 16. c = hex_digit n"
proof (induction bs)
  case (Cons b bs)
  then consider "c = hex_digit (unat b div 16)" | "c = hex_digit (unat b mod 16)"
    | "c \<in> set (hex_EncodeToString bs)"
    by auto
  then show ?case
    using Cons.IH byte_div_16 [of b] byte_mod_16 [of b] by cases blast+
qed simp

subsection \<open>Errors\<close>

lemma errors_Is_refl [simp]: "errors_Is e e"
  by (cases e) auto

lemma errors_Is_wrap [simp]: "errors_Is e t \<Longrightarrow> errors_Is (ErrWrap m e) t"
  by simp

subsection \<open>Sorting with a comparison function\<close>

lemma mset_insert_before [simp]: "mset (insert_before lt x xs) = add_mset x (mset xs)"
  by (induction xs) auto

lemma mset_SliceStable [simp]: "mset (SliceStable lt xs) = mset xs"
  unfolding SliceStable_def by (induction xs) auto

lemma set_SliceStable [simp]: "set (SliceStable lt xs) = set xs"
  by (metis mset_SliceStable set_mset_mset)

lemma length_SliceStable [simp]: "length (SliceStable lt xs) = length xs"
  by (metis mset_SliceStable size_mset)

lemma set_insert_before [simp]: "set (insert_before lt x xs) = insert x (set xs)"
  by (induction xs) auto

lemma SliceStable_Nil [simp]: "SliceStable lt [] = []"
  by (simp add: SliceStable_def)

lemma SliceStable_Cons: "SliceStable lt (x # xs) = insert_before lt x (SliceStable lt xs)"
  by (simp add: SliceStable_def)

locale strict_weak_order =
  fixes lt :: "'a \<Rightarrow> 'a \<Rightarrow> bool"
  assumes asym: "lt x y \<Longrightarrow> \<not> lt y x"
    and negtrans: "lt x z \<Longrightarrow> lt x y \<or> lt y z"
begin

lemma insert_before_sorted:
  "sorted_wrt (\<lambda>a b. \<not> lt b a) xs \<Longrightarrow> sorted_wrt (\<lambda>a b. \<not> lt b a) (insert_before lt x xs)"
proof (induction xs)
  case (Cons y ys)
  then show ?case using asym negtrans by auto blast
qed simp

lemma SliceStable_sorted: "sorted_wrt (\<lambda>a b. \<not> lt b a) (SliceStable lt xs)"
  by (induction xs) (simp_all add: SliceStable_Cons insert_before_sorted)

lemma insert_before_filter:
  assumes "\<And>a b. P a \<Longrightarrow> P b \<Longrightarrow> \<not> lt a b"
  shows "filter P (insert_before lt x xs) = (if P x then x # filter P xs else filter P xs)"
  using assms by (induction xs) auto

lemma SliceStable_stable:
  assumes "\<And>a b. P a \<Longrightarrow> P b \<Longrightarrow> \<not> lt a b"
  shows "filter P (SliceStable lt xs) = filter P xs"
  by (induction xs) (simp_all add: SliceStable_Cons insert_before_filter [OF assms])

lemma insert_before_id:
  assumes "\<And>y. y \<in> set ys \<Longrightarrow> \<not> lt y x"
  shows "insert_before lt x ys = x # ys"
  using assms by (cases ys) auto

text \<open>Sorting a slice that is already in order changes nothing.\<close>

lemma SliceStable_id: "sorted_wrt (\<lambda>a b. \<not> lt b a) xs \<Longrightarrow> SliceStable lt xs = xs"
  by (induction xs) (simp_all add: SliceStable_Cons insert_before_id)

end

subsection \<open>Lists\<close>

lemma sorted_wrt_take: "sorted_wrt R xs \<Longrightarrow> sorted_wrt R (take n xs)"
  by (metis append_take_drop_id sorted_wrt_append)

lemma sorted_wrt_take_drop:
  "sorted_wrt R xs \<Longrightarrow> x \<in> set (take n xs) \<Longrightarrow> y \<in> set (drop n xs) \<Longrightarrow> R x y"
  by (metis append_take_drop_id sorted_wrt_append)

lemma subseq_set_distinct: "subseq xs ys \<Longrightarrow> set xs \<subseteq> set ys \<and> (distinct ys \<longrightarrow> distinct xs)"
  by (induction rule: list_emb.induct) auto

end
