(* ===== verification/Storage.thy ===== *)
theory Storage
  imports Shoebox_Prelude
begin

text \<open>
  Package \<open>internal/storage\<close>, file \<open>storage.go\<close>: the data every backend stores, the helpers the
  backends share, and the two interfaces a backend implements.

  A Go interface value is a record of functions over the backend's state (\<open>'s storage_ops\<close>,
  \<open>'s schedule_ops\<close>). An operation takes the readings of the clock and the fresh message
  identifiers it uses as arguments and returns its result with the new state. Contexts only let a
  backend fail early, which the backends' own driver parameters cover.
\<close>

type_synonym metadata = "string \<rightharpoonup> string"

record message =
  mID :: string
  mQueue :: string
  mPayload :: "byte list"
  mAttempts :: int
  mMaxRetries :: int
  mCreatedAt :: time
  mScheduledAt :: time
  mDedupeKey :: string
  mMetadata :: metadata
  mPriority :: int
  mError :: string
  mDeadAt :: time

record schedule =
  sID :: string
  sQueue :: string
  sPayload :: "byte list"
  sEnqueueOptions :: "byte list"
  sInterval :: duration
  sNextRunAt :: time
  sEnabled :: bool
  sCreatedAt :: time
  sUpdatedAt :: time

record queue_stats =
  qQueue :: string
  qDepth :: nat
  qProcessed :: "64 word"
  qErrors :: "64 word"
  qRetries :: "64 word"
  qDead :: "64 word"

definition zero_message :: message where
  "zero_message = \<lparr>mID = '''', mQueue = '''', mPayload = [], mAttempts = 0, mMaxRetries = 0,
     mCreatedAt = 0, mScheduledAt = 0, mDedupeKey = '''', mMetadata = Map.empty, mPriority = 0,
     mError = '''', mDeadAt = 0\<rparr>"

definition zero_stats :: "string \<Rightarrow> queue_stats" where
  "zero_stats q = \<lparr>qQueue = q, qDepth = 0, qProcessed = 0, qErrors = 0, qRetries = 0, qDead = 0\<rparr>"

definition nonNegativeUint64 :: "64 word \<Rightarrow> 64 word" where
  "nonNegativeUint64 v = (if sint v < 0 then 0 else v)"

text \<open>
  \<open>NewMessageID\<close> reads 16 bytes from the system's random source (\<open>None\<close> where that fails) and
  falls back to the clock, in nanoseconds of Unix time.
\<close>

definition NewMessageID :: "byte list option \<Rightarrow> int \<Rightarrow> string" where
  "NewMessageID rnd unix_nano =
     (case rnd of
        None \<Rightarrow> ''ts-'' @ hex_EncodeToString (bytes_of_string (FormatInt unix_nano))
      | Some b \<Rightarrow> hex_EncodeToString b)"

definition deadLetterMessage :: "string \<Rightarrow> string \<Rightarrow> message \<Rightarrow> err option \<Rightarrow> time \<Rightarrow> message" where
  "deadLetterMessage nid queue msg err now =
     msg\<lparr>mQueue := queue @ ''.dlq'', mID := nid, mScheduledAt := now, mDeadAt := now,
         mError := (case err of None \<Rightarrow> '''' | Some e \<Rightarrow> Error_text e)\<rparr>"

definition replayMessage :: "string \<Rightarrow> message \<Rightarrow> time \<Rightarrow> message" where
  "replayMessage queue msg now =
     msg\<lparr>mQueue := queue, mScheduledAt := now, mError := '''', mDeadAt := 0\<rparr>"

definition periodicMessage :: "string \<Rightarrow> schedule \<Rightarrow> time \<Rightarrow> message" where
  "periodicMessage nid s now =
     zero_message\<lparr>mID := nid, mQueue := sQueue s, mPayload := sPayload s,
                  mCreatedAt := now, mScheduledAt := now\<rparr>"

record 's storage_ops =
  Enqueue_op :: "time \<Rightarrow> string \<Rightarrow> message \<Rightarrow> 's \<Rightarrow> unit result \<times> 's"
  EnqueueBatch_op :: "time \<Rightarrow> string \<Rightarrow> message list \<Rightarrow> 's \<Rightarrow> unit result \<times> 's"
  Dequeue_op :: "time \<Rightarrow> string \<Rightarrow> int \<Rightarrow> 's \<Rightarrow> message list result \<times> 's"
  Ack_op :: "string \<Rightarrow> string \<Rightarrow> 's \<Rightarrow> unit result \<times> 's"
  AckBatch_op :: "string \<Rightarrow> string list \<Rightarrow> 's \<Rightarrow> unit result \<times> 's"
  Retry_op :: "time \<Rightarrow> string \<Rightarrow> message \<Rightarrow> err option \<Rightarrow> 's \<Rightarrow> unit result \<times> 's"
  DeadLetter_op :: "time \<Rightarrow> string \<Rightarrow> string \<Rightarrow> message \<Rightarrow> err option \<Rightarrow> 's \<Rightarrow> unit result \<times> 's"
  Replay_op :: "time \<Rightarrow> string \<Rightarrow> string \<Rightarrow> 's \<Rightarrow> unit result \<times> 's"
  Stats_op :: "string \<Rightarrow> 's \<Rightarrow> queue_stats result \<times> 's"
  List_op :: "string \<Rightarrow> int \<Rightarrow> 's \<Rightarrow> message list result \<times> 's"
  Reclaim_op :: "string \<Rightarrow> 's \<Rightarrow> unit result \<times> 's"
  Close_op :: "'s \<Rightarrow> unit result \<times> 's"

record 's schedule_ops =
  CreateSchedule_op :: "schedule \<Rightarrow> 's \<Rightarrow> unit result \<times> 's"
  UpdateSchedule_op :: "schedule \<Rightarrow> 's \<Rightarrow> unit result \<times> 's"
  DeleteSchedule_op :: "string \<Rightarrow> 's \<Rightarrow> unit result \<times> 's"
  ListSchedules_op :: "string \<Rightarrow> 's \<Rightarrow> schedule list result \<times> 's"
  RunSchedule_op :: "time \<Rightarrow> string \<Rightarrow> schedule \<Rightarrow> time \<Rightarrow> time \<Rightarrow> 's \<Rightarrow> bool result \<times> 's"
  DueSchedules_op :: "time \<Rightarrow> int \<Rightarrow> 's \<Rightarrow> schedule list result \<times> 's"

text \<open>
  The order in which every backend delivers: higher priority first, then the earlier creation
  time (the comparison function of \<open>Memory.Dequeue\<close>, the \<open>ORDER BY\<close> of the SQL backends).
\<close>

definition delivered_before :: "message \<Rightarrow> message \<Rightarrow> bool" where
  "delivered_before a b \<longleftrightarrow>
     (if mPriority a \<noteq> mPriority b then mPriority a > mPriority b
      else mCreatedAt a < mCreatedAt b)"

subsection \<open>The delivery order\<close>

interpretation delivery: strict_weak_order delivered_before
  by unfold_locales (auto simp: delivered_before_def split: if_splits)

lemma delivered_before_irrefl [simp]: "\<not> delivered_before m m"
  by (simp add: delivered_before_def)

lemma not_delivered_before_trans:
  "\<not> delivered_before y x \<Longrightarrow> \<not> delivered_before z y \<Longrightarrow> \<not> delivered_before z x"
  using delivery.negtrans by blast

subsection \<open>Message identifiers\<close>

lemma hex_digit_not_t: "n < 16 \<Longrightarrow> hex_digit n \<noteq> CHR ''t''"
proof
  assume n: "n < 16" and "hex_digit n = CHR ''t''"
  then have "(of_char (hex_digit n) :: nat) = of_char (CHR ''t'')" by simp
  also have "\<dots> = 116" by (simp add: of_char_def)
  finally show False using n by (simp add: of_char_hex_digit split: if_splits)
qed

lemma hex_not_ts: "hex_EncodeToString bs \<noteq> ''ts-'' @ r"
proof
  assume eq: "hex_EncodeToString bs = ''ts-'' @ r"
  then have "CHR ''t'' \<in> set (hex_EncodeToString bs)" by simp
  then show False using hex_EncodeToString_digits hex_digit_not_t by metis
qed

lemma NewMessageID_Some [simp]: "NewMessageID (Some b) t = hex_EncodeToString b"
  by (simp add: NewMessageID_def)

lemma deadLetterMessage_sel [simp]:
  "mID (deadLetterMessage nid q m e now) = nid"
  "mQueue (deadLetterMessage nid q m e now) = q @ ''.dlq''"
  "mPayload (deadLetterMessage nid q m e now) = mPayload m"
  "mAttempts (deadLetterMessage nid q m e now) = mAttempts m"
  "mMaxRetries (deadLetterMessage nid q m e now) = mMaxRetries m"
  "mCreatedAt (deadLetterMessage nid q m e now) = mCreatedAt m"
  "mScheduledAt (deadLetterMessage nid q m e now) = now"
  "mDedupeKey (deadLetterMessage nid q m e now) = mDedupeKey m"
  "mMetadata (deadLetterMessage nid q m e now) = mMetadata m"
  "mPriority (deadLetterMessage nid q m e now) = mPriority m"
  "mError (deadLetterMessage nid q m e now) = (case e of None \<Rightarrow> '''' | Some e \<Rightarrow> Error_text e)"
  "mDeadAt (deadLetterMessage nid q m e now) = now"
  by (simp_all add: deadLetterMessage_def)

lemma replayMessage_sel [simp]:
  "mID (replayMessage q m now) = mID m"
  "mQueue (replayMessage q m now) = q"
  "mPayload (replayMessage q m now) = mPayload m"
  "mAttempts (replayMessage q m now) = mAttempts m"
  "mMaxRetries (replayMessage q m now) = mMaxRetries m"
  "mCreatedAt (replayMessage q m now) = mCreatedAt m"
  "mScheduledAt (replayMessage q m now) = now"
  "mDedupeKey (replayMessage q m now) = mDedupeKey m"
  "mMetadata (replayMessage q m now) = mMetadata m"
  "mPriority (replayMessage q m now) = mPriority m"
  "mError (replayMessage q m now) = ''''"
  "mDeadAt (replayMessage q m now) = 0"
  by (simp_all add: replayMessage_def)

lemma periodicMessage_sel [simp]:
  "mID (periodicMessage nid s now) = nid"
  "mQueue (periodicMessage nid s now) = sQueue s"
  "mPayload (periodicMessage nid s now) = sPayload s"
  "mAttempts (periodicMessage nid s now) = 0"
  "mCreatedAt (periodicMessage nid s now) = now"
  "mScheduledAt (periodicMessage nid s now) = now"
  "mPriority (periodicMessage nid s now) = 0"
  "mDedupeKey (periodicMessage nid s now) = ''''"
  by (simp_all add: periodicMessage_def zero_message_def)

end
