(* ===== verification/Memory_Store.thy ===== *)
theory Memory_Store
  imports Storage
begin

text \<open>
  File \<open>internal/storage/memory.go\<close>: the in-process backend.

  The maps of the Go struct that are only read through their zero value (\<open>queues\<close>, \<open>inflight\<close>,
  \<open>dirty\<close>) are total functions: a missing key reads as the empty slice, the empty set or
  \<open>false\<close>. \<open>counters\<close> and \<open>schedules\<close>, whose missing keys the code tests for, are partial maps.
  The mutex makes each method one atomic step. Where the code ranges over a Go map, the order of
  the visit is a parameter (\<open>ks\<close>): Go leaves it unspecified.
\<close>

record memory =
  mem_queues :: "string \<Rightarrow> message list"
  mem_counters :: "string \<rightharpoonup> queue_stats"
  mem_inflight :: "string \<Rightarrow> string set"
  mem_dirty :: "string \<Rightarrow> bool"
  mem_schedules :: "string \<rightharpoonup> schedule"

definition NewMemory :: memory where
  "NewMemory = \<lparr>mem_queues = (\<lambda>_. []), mem_counters = Map.empty, mem_inflight = (\<lambda>_. {}),
                mem_dirty = (\<lambda>_. False), mem_schedules = Map.empty\<rparr>"

definition statsFor :: "string \<Rightarrow> memory \<Rightarrow> queue_stats \<times> memory" where
  "statsFor queue m =
     (case mem_counters m queue of
        Some s \<Rightarrow> (s, m)
      | None \<Rightarrow> (zero_stats queue, m\<lparr>mem_counters := (mem_counters m)(queue \<mapsto> zero_stats queue)\<rparr>))"

text \<open>An update through the pointer \<open>statsFor\<close> returns.\<close>

definition update_stats :: "(queue_stats \<Rightarrow> queue_stats) \<Rightarrow> string \<Rightarrow> memory \<Rightarrow> memory" where
  "update_stats f queue m =
     (let (s, m') = statsFor queue m
      in m'\<lparr>mem_counters := (mem_counters m')(queue \<mapsto> f s)\<rparr>)"

definition push_queue :: "string \<Rightarrow> message \<Rightarrow> memory \<Rightarrow> memory" where
  "push_queue queue msg m =
     m\<lparr>mem_queues := (mem_queues m)(queue := mem_queues m queue @ [msg]),
       mem_dirty := (mem_dirty m)(queue := True)\<rparr>"

definition mem_Enqueue :: "time \<Rightarrow> string \<Rightarrow> message \<Rightarrow> memory \<Rightarrow> unit result \<times> memory" where
  "mem_Enqueue now queue msg m =
     (let msg = (if IsZero (mCreatedAt msg) then msg\<lparr>mCreatedAt := now\<rparr> else msg);
          msg = (if IsZero (mScheduledAt msg) then msg\<lparr>mScheduledAt := mCreatedAt msg\<rparr> else msg)
      in (Inr (), push_queue queue msg m))"

text \<open>One message of a batch, the \<open>i\<close>-th: the same stamping is in all three backends.\<close>

definition stamp_batch :: "time \<Rightarrow> nat \<Rightarrow> message \<Rightarrow> message" where
  "stamp_batch now i msg =
     (let assignedCreatedAt = IsZero (mCreatedAt msg);
          msg = (if assignedCreatedAt
                 then msg\<lparr>mCreatedAt := time_add now (of_nat i * microsecond)\<rparr> else msg)
      in if IsZero (mScheduledAt msg)
         then (if assignedCreatedAt then msg\<lparr>mScheduledAt := now\<rparr>
               else msg\<lparr>mScheduledAt := mCreatedAt msg\<rparr>)
         else msg)"

fun mem_EnqueueBatch_loop :: "time \<Rightarrow> string \<Rightarrow> nat \<Rightarrow> message list \<Rightarrow> memory \<Rightarrow> memory" where
  "mem_EnqueueBatch_loop now queue i [] m = m"
| "mem_EnqueueBatch_loop now queue i (msg # msgs) m =
     mem_EnqueueBatch_loop now queue (Suc i) msgs
       (m\<lparr>mem_queues := (mem_queues m)(queue := mem_queues m queue @ [stamp_batch now i msg])\<rparr>)"

definition mem_EnqueueBatch :: "time \<Rightarrow> string \<Rightarrow> message list \<Rightarrow> memory \<Rightarrow> unit result \<times> memory" where
  "mem_EnqueueBatch now queue messages m =
     (if messages = [] then (Inr (), m)
      else let m' = mem_EnqueueBatch_loop now queue 0 messages m
           in (Inr (), m'\<lparr>mem_dirty := (mem_dirty m')(queue := True)\<rparr>))"

text \<open>The scan of \<open>Dequeue\<close>: \<open>out\<close> and \<open>kept\<close> are the two slices it appends to.\<close>

fun dequeue_scan ::
  "time \<Rightarrow> int \<Rightarrow> message list \<Rightarrow> message list \<Rightarrow> message list \<Rightarrow> message list \<times> message list" where
  "dequeue_scan now limit [] out kept = (out, kept)"
| "dequeue_scan now limit (msg # pending) out kept =
     (if int (length out) \<ge> limit then dequeue_scan now limit pending out (kept @ [msg])
      else if mScheduledAt msg > now then dequeue_scan now limit pending out (kept @ [msg])
      else dequeue_scan now limit pending (out @ [msg]) kept)"

definition sort_pending :: "string \<Rightarrow> memory \<Rightarrow> memory" where
  "sort_pending queue m =
     (if mem_dirty m queue
      then m\<lparr>mem_queues := (mem_queues m)(queue := SliceStable delivered_before (mem_queues m queue)),
             mem_dirty := (mem_dirty m)(queue := False)\<rparr>
      else m)"

definition mem_Dequeue :: "time \<Rightarrow> string \<Rightarrow> int \<Rightarrow> memory \<Rightarrow> message list result \<times> memory" where
  "mem_Dequeue now queue limit m =
     (if mem_queues m queue = [] then (Inl ErrEmpty, m)
      else let m = sort_pending queue m
           in if limit < 0 then (Inl (GoPanic ''makeslice: cap out of range''), m)
              else let (out, kept) = dequeue_scan now limit (mem_queues m queue) [] [];
                       m = m\<lparr>mem_queues := (mem_queues m)(queue := kept)\<rparr>
                   in if out = [] then (Inl ErrEmpty, m)
                      else (Inr out,
                            m\<lparr>mem_inflight :=
                                (mem_inflight m)(queue := mem_inflight m queue \<union> set (map mID out))\<rparr>))"

definition mem_Ack :: "string \<Rightarrow> string \<Rightarrow> memory \<Rightarrow> unit result \<times> memory" where
  "mem_Ack queue msgID m =
     (if msgID \<notin> mem_inflight m queue then (Inr (), m)
      else let m = m\<lparr>mem_inflight := (mem_inflight m)(queue := mem_inflight m queue - {msgID})\<rparr>
           in (Inr (), update_stats (\<lambda>s. s\<lparr>qProcessed := qProcessed s + 1\<rparr>) queue m))"

fun mem_AckBatch_loop :: "string \<Rightarrow> string list \<Rightarrow> 64 word \<Rightarrow> memory \<Rightarrow> 64 word \<times> memory" where
  "mem_AckBatch_loop queue [] processed m = (processed, m)"
| "mem_AckBatch_loop queue (msgID # msgIDs) processed m =
     (if msgID \<notin> mem_inflight m queue then mem_AckBatch_loop queue msgIDs processed m
      else mem_AckBatch_loop queue msgIDs (processed + 1)
             (m\<lparr>mem_inflight := (mem_inflight m)(queue := mem_inflight m queue - {msgID})\<rparr>))"

definition mem_AckBatch :: "string \<Rightarrow> string list \<Rightarrow> memory \<Rightarrow> unit result \<times> memory" where
  "mem_AckBatch queue msgIDs m =
     (if msgIDs = [] then (Inr (), m)
      else let (processed, m) = mem_AckBatch_loop queue msgIDs 0 m
           in (Inr (), if processed > 0
                       then update_stats (\<lambda>s. s\<lparr>qProcessed := qProcessed s + processed\<rparr>) queue m
                       else m))"

definition mem_Retry :: "time \<Rightarrow> string \<Rightarrow> message \<Rightarrow> err option \<Rightarrow> memory \<Rightarrow> unit result \<times> memory" where
  "mem_Retry now queue msg err m =
     (let m = m\<lparr>mem_inflight := (mem_inflight m)(queue := mem_inflight m queue - {mID msg})\<rparr>;
          m = push_queue queue (msg\<lparr>mQueue := queue\<rparr>) m
      in (Inr (), update_stats (\<lambda>s. s\<lparr>qErrors := qErrors s + 1, qRetries := qRetries s + 1\<rparr>) queue m))"

definition mem_DeadLetter ::
  "time \<Rightarrow> string \<Rightarrow> string \<Rightarrow> message \<Rightarrow> err option \<Rightarrow> memory \<Rightarrow> unit result \<times> memory" where
  "mem_DeadLetter now nid queue msg err m =
     (let m = m\<lparr>mem_inflight := (mem_inflight m)(queue := mem_inflight m queue - {mID msg})\<rparr>;
          dead = deadLetterMessage nid queue msg err now;
          m = push_queue (mQueue dead) dead m
      in (Inr (), update_stats (\<lambda>s. s\<lparr>qDead := qDead s + 1\<rparr>) queue m))"

text \<open>
  The loop of \<open>Replay\<close>: the first message with the identifier, and the slice without it
  (\<open>append(pending[:i], pending[i+1:]...)\<close>).
\<close>

fun replay_find :: "string \<Rightarrow> message list \<Rightarrow> message list \<Rightarrow> (message \<times> message list) option" where
  "replay_find msgID before [] = None"
| "replay_find msgID before (msg # rest) =
     (if mID msg \<noteq> msgID then replay_find msgID (before @ [msg]) rest
      else Some (msg, before @ rest))"

definition mem_Replay :: "time \<Rightarrow> string \<Rightarrow> string \<Rightarrow> memory \<Rightarrow> unit result \<times> memory" where
  "mem_Replay now queue msgID m =
     (let dlq = queue @ ''.dlq''
      in case replay_find msgID [] (mem_queues m dlq) of
           None \<Rightarrow> (Inl ErrEmpty, m)
         | Some (msg, rest) \<Rightarrow>
             (let m = push_queue queue (replayMessage queue msg now) m;
                  m = update_stats (\<lambda>s. s\<lparr>qProcessed := qProcessed s + 1\<rparr>) dlq m
              in (Inr (), m\<lparr>mem_queues := (mem_queues m)(dlq := rest)\<rparr>)))"

definition mem_Stats :: "string \<Rightarrow> memory \<Rightarrow> queue_stats result \<times> memory" where
  "mem_Stats queue m =
     (let (s, m') = statsFor queue m
      in (Inr (s\<lparr>qDepth := length (mem_queues m' queue)\<rparr>), m'))"

definition mem_List :: "string \<Rightarrow> int \<Rightarrow> memory \<Rightarrow> message list result \<times> memory" where
  "mem_List queue limit m =
     (let pending = mem_queues m queue
      in if pending = [] then (Inl ErrEmpty, m)
         else let limit = (if limit > int (length pending) then int (length pending) else limit)
              in if limit < 0 then (Inl (GoPanic ''makeslice: len out of range''), m)
                 else (Inr (take (nat limit) pending), m))"

definition mem_Reclaim :: "string \<Rightarrow> memory \<Rightarrow> unit result \<times> memory" where
  "mem_Reclaim queue m = (Inr (), m)"

definition mem_CreateSchedule :: "schedule \<Rightarrow> memory \<Rightarrow> unit result \<times> memory" where
  "mem_CreateSchedule s m =
     (if mem_schedules m (sID s) \<noteq> None then (Inl ErrScheduleExists, m)
      else (Inr (), m\<lparr>mem_schedules := (mem_schedules m)(sID s \<mapsto> s)\<rparr>))"

definition mem_UpdateSchedule :: "schedule \<Rightarrow> memory \<Rightarrow> unit result \<times> memory" where
  "mem_UpdateSchedule s m =
     (if mem_schedules m (sID s) = None then (Inl ErrEmpty, m)
      else (Inr (), m\<lparr>mem_schedules := (mem_schedules m)(sID s \<mapsto> s)\<rparr>))"

definition mem_DeleteSchedule :: "string \<Rightarrow> memory \<Rightarrow> unit result \<times> memory" where
  "mem_DeleteSchedule sid m = (Inr (), m\<lparr>mem_schedules := (mem_schedules m)(sid := None)\<rparr>)"

text \<open>Byte-wise string comparison, Go's \<open><\<close> on strings.\<close>

fun string_less :: "string \<Rightarrow> string \<Rightarrow> bool" where
  "string_less [] [] = False"
| "string_less [] (b # bs) = True"
| "string_less (a # as) [] = False"
| "string_less (a # as) (b # bs) =
     ((of_char a :: nat) < of_char b \<or> (a = b \<and> string_less as bs))"

fun list_schedules_loop :: "string \<Rightarrow> string list \<Rightarrow> (string \<rightharpoonup> schedule) \<Rightarrow> schedule list" where
  "list_schedules_loop queue [] ss = []"
| "list_schedules_loop queue (k # ks) ss =
     (case ss k of
        Some s \<Rightarrow> if queue = '''' \<or> sQueue s = queue then s # list_schedules_loop queue ks ss
                  else list_schedules_loop queue ks ss
      | None \<Rightarrow> list_schedules_loop queue ks ss)"

definition mem_ListSchedules ::
  "string list \<Rightarrow> string \<Rightarrow> memory \<Rightarrow> schedule list result \<times> memory" where
  "mem_ListSchedules ks queue m =
     (Inr (SliceStable (\<lambda>a b. string_less (sID a) (sID b))
             (list_schedules_loop queue ks (mem_schedules m))), m)"

fun due_schedules_loop ::
  "time \<Rightarrow> int \<Rightarrow> string list \<Rightarrow> (string \<rightharpoonup> schedule) \<Rightarrow> schedule list \<Rightarrow> schedule list" where
  "due_schedules_loop now limit [] ss out = out"
| "due_schedules_loop now limit (k # ks) ss out =
     (case ss k of
        Some s \<Rightarrow>
          if sEnabled s \<and> \<not> sNextRunAt s > now then
            (let out = out @ [s]
             in if int (length out) = limit then out else due_schedules_loop now limit ks ss out)
          else due_schedules_loop now limit ks ss out
      | None \<Rightarrow> due_schedules_loop now limit ks ss out)"

definition mem_DueSchedules ::
  "string list \<Rightarrow> time \<Rightarrow> int \<Rightarrow> memory \<Rightarrow> schedule list result \<times> memory" where
  "mem_DueSchedules ks now limit m =
     (if limit < 0 then (Inl (GoPanic ''makeslice: cap out of range''), m)
      else (Inr (due_schedules_loop now limit ks (mem_schedules m) []), m))"

text \<open>\<open>clk\<close> is the reading of the clock for \<open>UpdatedAt\<close>; \<open>now\<close> and \<open>next\<close> are the caller's.\<close>

definition mem_RunSchedule ::
  "time \<Rightarrow> string \<Rightarrow> schedule \<Rightarrow> time \<Rightarrow> time \<Rightarrow> memory \<Rightarrow> bool result \<times> memory" where
  "mem_RunSchedule clk nid s now nxt m =
     (case mem_schedules m (sID s) of
        None \<Rightarrow> (Inr False, m)
      | Some current \<Rightarrow>
          if \<not> sEnabled current \<or> sNextRunAt current > now \<or> sNextRunAt current \<noteq> sNextRunAt s
          then (Inr False, m)
          else let m = push_queue (sQueue s) (periodicMessage nid s now) m;
                   current = current\<lparr>sNextRunAt := nxt, sUpdatedAt := clk\<rparr>
               in (Inr True, m\<lparr>mem_schedules := (mem_schedules m)(sID s \<mapsto> current)\<rparr>))"

definition mem_Close :: "memory \<Rightarrow> unit result \<times> memory" where
  "mem_Close m = (Inr (), m)"

definition memory_ops :: "memory storage_ops" where
  "memory_ops = \<lparr>Enqueue_op = mem_Enqueue, EnqueueBatch_op = mem_EnqueueBatch,
     Dequeue_op = mem_Dequeue, Ack_op = mem_Ack, AckBatch_op = mem_AckBatch, Retry_op = mem_Retry,
     DeadLetter_op = mem_DeadLetter, Replay_op = mem_Replay, Stats_op = mem_Stats,
     List_op = mem_List, Reclaim_op = mem_Reclaim, Close_op = mem_Close\<rparr>"

definition memory_schedule_ops :: "string list \<Rightarrow> memory schedule_ops" where
  "memory_schedule_ops ks = \<lparr>CreateSchedule_op = mem_CreateSchedule,
     UpdateSchedule_op = mem_UpdateSchedule, DeleteSchedule_op = mem_DeleteSchedule,
     ListSchedules_op = mem_ListSchedules ks, RunSchedule_op = mem_RunSchedule,
     DueSchedules_op = mem_DueSchedules ks\<rparr>"


subsection \<open>Bookkeeping\<close>

text \<open>The statistics are a field of their own: updating them touches nothing else.\<close>

lemma statsFor_sel [simp]:
  "mem_queues (snd (statsFor q m)) = mem_queues m"
  "mem_inflight (snd (statsFor q m)) = mem_inflight m"
  "mem_dirty (snd (statsFor q m)) = mem_dirty m"
  "mem_schedules (snd (statsFor q m)) = mem_schedules m"
  by (simp_all add: statsFor_def split: option.split)

lemma update_stats_sel [simp]:
  "mem_queues (update_stats f q m) = mem_queues m"
  "mem_inflight (update_stats f q m) = mem_inflight m"
  "mem_dirty (update_stats f q m) = mem_dirty m"
  "mem_schedules (update_stats f q m) = mem_schedules m"
  by (simp_all add: update_stats_def split_beta)

lemma push_queue_sel [simp]:
  "mem_queues (push_queue q msg m) = (mem_queues m)(q := mem_queues m q @ [msg])"
  "mem_dirty (push_queue q msg m) = (mem_dirty m)(q := True)"
  "mem_inflight (push_queue q msg m) = mem_inflight m"
  "mem_counters (push_queue q msg m) = mem_counters m"
  "mem_schedules (push_queue q msg m) = mem_schedules m"
  by (simp_all add: push_queue_def)

text \<open>The counters of a queue as \<open>Stats\<close> reports them.\<close>

definition stats_of :: "string \<Rightarrow> memory \<Rightarrow> queue_stats" where
  "stats_of q m = (case mem_counters m q of Some s \<Rightarrow> s | None \<Rightarrow> zero_stats q)"

lemma stats_of_update_stats [simp]:
  "stats_of q' (update_stats f q m) = (if q' = q then f (stats_of q m) else stats_of q' m)"
  by (simp add: stats_of_def update_stats_def statsFor_def split: option.split)

lemma stats_of_frame [simp]:
  "stats_of q (m\<lparr>mem_queues := a\<rparr>) = stats_of q m"
  "stats_of q (m\<lparr>mem_inflight := b\<rparr>) = stats_of q m"
  "stats_of q (m\<lparr>mem_dirty := c\<rparr>) = stats_of q m"
  "stats_of q (m\<lparr>mem_schedules := d\<rparr>) = stats_of q m"
  "stats_of q (push_queue q' msg m) = stats_of q m"
  by (simp_all add: stats_of_def)

lemma fst_statsFor [simp]: "fst (statsFor q m) = stats_of q m"
  by (simp add: stats_of_def statsFor_def split: option.split)

lemma stats_of_cong: "mem_counters m = mem_counters m' \<Longrightarrow> stats_of q m = stats_of q m'"
  by (simp add: stats_of_def)

lemma update_stats_twice:
  "update_stats g q (update_stats f q m) = update_stats (\<lambda>s. g (f s)) q m"
  by (simp add: update_stats_def statsFor_def split: option.split)

lemma update_stats_inflight:
  "(update_stats f q m)\<lparr>mem_inflight := x\<rparr> = update_stats f q (m\<lparr>mem_inflight := x\<rparr>)"
  by (simp add: update_stats_def statsFor_def split: option.split)

subsection \<open>The scan of Dequeue\<close>

abbreviation due :: "time \<Rightarrow> message \<Rightarrow> bool" where
  "due now msg \<equiv> mScheduledAt msg \<le> now"

text \<open>What is not taken: the messages that are not due, and the due ones beyond the first \<open>n\<close>.\<close>

fun skip_due :: "time \<Rightarrow> nat \<Rightarrow> message list \<Rightarrow> message list" where
  "skip_due now n [] = []"
| "skip_due now n (x # xs) =
     (if due now x \<and> 0 < n then skip_due now (n - 1) xs else x # skip_due now n xs)"

lemma skip_due_0 [simp]: "skip_due now 0 xs = xs"
  by (induction xs) auto

lemma dequeue_scan_eq:
  assumes "0 \<le> limit"
  shows "dequeue_scan now limit xs out kept =
    (out @ take (nat limit - length out) (filter (due now) xs),
     kept @ skip_due now (nat limit - length out) xs)"
  using assms
proof (induction xs arbitrary: out kept)
  case (Cons x xs)
  show ?case
  proof (cases "nat limit - length out")
    case 0
    with Cons show ?thesis by auto
  next
    case (Suc k)
    then have "nat limit - Suc (length out) = k" "\<not> limit \<le> int (length out)" by auto
    with Cons Suc show ?thesis by auto
  qed
qed simp

lemma mset_skip_due:
  "mset (take n (filter (due now) xs)) + mset (skip_due now n xs) = mset xs"
proof (induction xs arbitrary: n)
  case (Cons x xs)
  then show ?case by (cases n) auto
qed simp

lemma sorted_wrt_skip_due: "sorted_wrt R xs \<Longrightarrow> sorted_wrt R (skip_due now n xs)"
proof (induction xs arbitrary: n)
  case (Cons x xs)
  have "set (skip_due now n xs) \<subseteq> set xs" for n
    using mset_skip_due [of n now xs] by (metis mset_subset_eq_add_right set_mset_mono set_mset_mset)
  with Cons show ?case by (auto dest: subsetD)
qed simp

text \<open>A due message that is left behind follows every message that is taken.\<close>

lemma skip_due_after:
  assumes "sorted_wrt R xs" "x \<in> set (take n (filter (due now) xs))"
    "y \<in> set (skip_due now n xs)" "due now y"
  shows "R x y"
  using assms
proof (induction xs arbitrary: n)
  case (Cons z zs)
  have sub: "set (skip_due now n zs) \<subseteq> set zs" for n
    using mset_skip_due [of n now zs] by (metis mset_subset_eq_add_right set_mset_mono set_mset_mset)
  show ?case
  proof (cases "due now z \<and> 0 < n")
    case True
    then obtain k where k: "n = Suc k" using gr0_conv_Suc by blast
    show ?thesis using Cons sub k True by auto
  next
    case False
    then show ?thesis
      using Cons by (cases n) (auto dest: in_set_takeD)
  qed
qed simp


subsection \<open>The invariant of the backend\<close>

text \<open>
  A queue that is not marked dirty is in delivery order, which is why \<open>Dequeue\<close> may skip the
  sort; a schedule is stored under its own identifier.
\<close>

definition mem_inv :: "memory \<Rightarrow> bool" where
  "mem_inv m \<longleftrightarrow>
     (\<forall>q. \<not> mem_dirty m q \<longrightarrow> sorted_wrt (\<lambda>a b. \<not> delivered_before b a) (mem_queues m q)) \<and>
     (\<forall>k s. mem_schedules m k = Some s \<longrightarrow> sID s = k)"

lemma mem_invI:
  assumes "\<And>q. \<not> mem_dirty m q \<Longrightarrow> sorted_wrt (\<lambda>a b. \<not> delivered_before b a) (mem_queues m q)"
    and "\<And>k s. mem_schedules m k = Some s \<Longrightarrow> sID s = k"
  shows "mem_inv m"
  using assms by (auto simp: mem_inv_def)

lemma mem_invD:
  "mem_inv m \<Longrightarrow> \<not> mem_dirty m q \<Longrightarrow> sorted_wrt (\<lambda>a b. \<not> delivered_before b a) (mem_queues m q)"
  "mem_inv m \<Longrightarrow> mem_schedules m k = Some s \<Longrightarrow> sID s = k"
  by (auto simp: mem_inv_def)

lemma mem_inv_NewMemory: "mem_inv NewMemory"
  by (simp add: mem_inv_def NewMemory_def)

lemma mem_inv_frame:
  assumes "mem_queues m' = mem_queues m" "mem_dirty m' = mem_dirty m"
    "mem_schedules m' = mem_schedules m"
  shows "mem_inv m' = mem_inv m"
  using assms by (simp add: mem_inv_def)

lemma mem_inv_update_stats [simp]: "mem_inv (update_stats f q m) = mem_inv m"
  by (rule mem_inv_frame) simp_all

lemma mem_inv_inflight [simp]: "mem_inv (m\<lparr>mem_inflight := x\<rparr>) = mem_inv m"
  by (rule mem_inv_frame) simp_all

lemma mem_inv_push_queue: "mem_inv m \<Longrightarrow> mem_inv (push_queue q msg m)"
  by (rule mem_invI) (auto dest: mem_invD split: if_splits)

lemma mem_inv_subqueue:
  assumes "mem_inv m" "\<And>R. sorted_wrt R (mem_queues m q) \<Longrightarrow> sorted_wrt R xs"
  shows "mem_inv (m\<lparr>mem_queues := (mem_queues m)(q := xs)\<rparr>)"
  using assms by (auto simp: mem_inv_def)

subsection \<open>Every operation keeps the invariant\<close>

lemma mem_inv_Enqueue: "mem_inv m \<Longrightarrow> mem_inv (snd (mem_Enqueue now q msg m))"
  by (simp add: mem_Enqueue_def Let_def mem_inv_push_queue)

lemma mem_EnqueueBatch_loop_sel [simp]:
  "mem_schedules (mem_EnqueueBatch_loop now q i msgs m) = mem_schedules m"
  "mem_dirty (mem_EnqueueBatch_loop now q i msgs m) = mem_dirty m"
  "mem_inflight (mem_EnqueueBatch_loop now q i msgs m) = mem_inflight m"
  "mem_counters (mem_EnqueueBatch_loop now q i msgs m) = mem_counters m"
  by (induction msgs arbitrary: i m) simp_all

lemma mem_EnqueueBatch_loop_queues:
  "mem_queues (mem_EnqueueBatch_loop now q i msgs m) =
     (mem_queues m)(q := mem_queues m q @ map2 (stamp_batch now) [i..<i + length msgs] msgs)"
proof (induction msgs arbitrary: i m)
  case (Cons msg msgs)
  then show ?case
    by (auto simp: fun_eq_iff upt_conv_Cons simp del: upt_Suc)
qed simp

lemma mem_inv_EnqueueBatch: "mem_inv m \<Longrightarrow> mem_inv (snd (mem_EnqueueBatch now q msgs m))"
  by (auto simp: mem_EnqueueBatch_def mem_EnqueueBatch_loop_queues Let_def mem_inv_def
      split: if_splits)

lemma sort_pending_sel [simp]:
  "mem_inflight (sort_pending q m) = mem_inflight m"
  "mem_counters (sort_pending q m) = mem_counters m"
  "mem_schedules (sort_pending q m) = mem_schedules m"
  by (simp_all add: sort_pending_def)

text \<open>Skipping the sort of a clean queue gives what sorting it would give.\<close>

lemma sort_pending_queues:
  assumes "mem_inv m"
  shows "mem_queues (sort_pending q m) =
    (mem_queues m)(q := SliceStable delivered_before (mem_queues m q))"
  using delivery.SliceStable_id [OF mem_invD(1) [OF assms]]
  by (auto simp: sort_pending_def)

lemma mem_inv_sort_pending: "mem_inv m \<Longrightarrow> mem_inv (sort_pending q m)"
  using delivery.SliceStable_sorted
  by (auto simp: sort_pending_def mem_inv_def)

lemma mem_inv_Dequeue: "mem_inv m \<Longrightarrow> mem_inv (snd (mem_Dequeue now q limit m))"
  using mem_inv_sort_pending [of m q] mem_inv_subqueue [of "sort_pending q m" q]
  by (auto simp: mem_Dequeue_def Let_def dequeue_scan_eq sorted_wrt_skip_due)

lemma mem_inv_Ack: "mem_inv m \<Longrightarrow> mem_inv (snd (mem_Ack q i m))"
  by (simp add: mem_Ack_def Let_def)

lemma mem_AckBatch_loop_sel [simp]:
  "mem_queues (snd (mem_AckBatch_loop q ids p m)) = mem_queues m"
  "mem_dirty (snd (mem_AckBatch_loop q ids p m)) = mem_dirty m"
  "mem_schedules (snd (mem_AckBatch_loop q ids p m)) = mem_schedules m"
  "mem_counters (snd (mem_AckBatch_loop q ids p m)) = mem_counters m"
  "mem_inflight (snd (mem_AckBatch_loop q ids p m)) =
     (mem_inflight m)(q := mem_inflight m q - set ids)"
  by (induction ids arbitrary: p m) (auto simp: fun_eq_iff)

lemma mem_inv_AckBatch: "mem_inv m \<Longrightarrow> mem_inv (snd (mem_AckBatch q ids m))"
  using mem_inv_frame [of "snd (mem_AckBatch_loop q ids 0 m)" m]
  by (simp add: mem_AckBatch_def split_beta)

lemma mem_inv_Retry: "mem_inv m \<Longrightarrow> mem_inv (snd (mem_Retry now q msg e m))"
  by (simp add: mem_Retry_def Let_def mem_inv_push_queue)

lemma mem_inv_DeadLetter: "mem_inv m \<Longrightarrow> mem_inv (snd (mem_DeadLetter now nid q msg e m))"
  by (simp add: mem_DeadLetter_def Let_def mem_inv_push_queue)

lemma replay_find_Some:
  "replay_find i pre xs = Some (msg, rest) \<Longrightarrow>
     \<exists>a b. xs = a @ msg # b \<and> rest = pre @ a @ b \<and> mID msg = i"
proof (induction xs arbitrary: pre)
  case (Cons x xs)
  show ?case
  proof (cases "mID x = i")
    case True
    with Cons.prems have "x # xs = [] @ msg # xs \<and> rest = pre @ [] @ xs \<and> mID msg = i" by simp
    then show ?thesis by blast
  next
    case False
    with Cons obtain a b where "xs = a @ msg # b \<and> rest = (pre @ [x]) @ a @ b \<and> mID msg = i"
      by fastforce
    then have "x # xs = (x # a) @ msg # b \<and> rest = pre @ (x # a) @ b \<and> mID msg = i" by simp
    then show ?thesis by blast
  qed
qed simp

lemma replay_find_first:
  "mID msg \<notin> mID ` set a \<Longrightarrow> replay_find (mID msg) pre (a @ msg # b) = Some (msg, pre @ a @ b)"
  by (induction a arbitrary: pre) auto

lemma replay_find_None: "replay_find i pre xs = None \<longleftrightarrow> i \<notin> mID ` set xs"
  by (induction xs arbitrary: pre) auto

lemma mem_Replay_Some:
  assumes "replay_find i [] (mem_queues m (q @ ''.dlq'')) = Some (msg, rest)"
  shows "mem_Replay now q i m =
    (Inr (), (update_stats (\<lambda>s. s\<lparr>qProcessed := qProcessed s + 1\<rparr>) (q @ ''.dlq'')
                (push_queue q (replayMessage q msg now) m))
               \<lparr>mem_queues := (mem_queues m)(q := mem_queues m q @ [replayMessage q msg now],
                                          q @ ''.dlq'' := rest)\<rparr>)"
  using assms by (simp add: mem_Replay_def Let_def)

lemma mem_Replay_None:
  "replay_find i [] (mem_queues m (q @ ''.dlq'')) = None \<Longrightarrow> mem_Replay now q i m = (Inl ErrEmpty, m)"
  by (simp add: mem_Replay_def Let_def)

lemma mem_inv_Replay:
  assumes "mem_inv m"
  shows "mem_inv (snd (mem_Replay now q i m))"
proof (cases "replay_find i [] (mem_queues m (q @ ''.dlq''))")
  case None
  with assms show ?thesis by (simp add: mem_Replay_None)
next
  case (Some p)
  then obtain msg rest where r: "replay_find i [] (mem_queues m (q @ ''.dlq'')) = Some (msg, rest)"
    by (cases p) auto
  then have "sorted_wrt R (mem_queues m (q @ ''.dlq'')) \<Longrightarrow> sorted_wrt R rest" for R
    by (auto dest!: replay_find_Some simp: sorted_wrt_append)
  with assms show ?thesis
    by (auto simp: mem_Replay_Some [OF r] mem_inv_def)
qed

lemma mem_inv_schedules:
  "mem_inv m \<Longrightarrow> (\<And>k s. ss k = Some s \<Longrightarrow> sID s = k) \<Longrightarrow> mem_inv (m\<lparr>mem_schedules := ss\<rparr>)"
  by (simp add: mem_inv_def)

lemma mem_inv_RunSchedule: "mem_inv m \<Longrightarrow> mem_inv (snd (mem_RunSchedule clk nid s now nxt m))"
  using mem_invD(2) [of m]
  by (auto simp: mem_RunSchedule_def Let_def split: option.split if_splits
      intro!: mem_inv_schedules mem_inv_push_queue)

lemma mem_inv_CreateSchedule: "mem_inv m \<Longrightarrow> mem_inv (snd (mem_CreateSchedule s m))"
  by (auto simp: mem_CreateSchedule_def intro!: mem_inv_schedules dest: mem_invD split: if_splits)

lemma mem_inv_UpdateSchedule: "mem_inv m \<Longrightarrow> mem_inv (snd (mem_UpdateSchedule s m))"
  by (auto simp: mem_UpdateSchedule_def intro!: mem_inv_schedules dest: mem_invD split: if_splits)

lemma mem_inv_DeleteSchedule: "mem_inv m \<Longrightarrow> mem_inv (snd (mem_DeleteSchedule i m))"
  by (auto simp: mem_DeleteSchedule_def intro!: mem_inv_schedules dest: mem_invD split: if_splits)

lemma mem_inv_Stats: "mem_inv m \<Longrightarrow> mem_inv (snd (mem_Stats q m))"
  using mem_inv_frame [of "snd (statsFor q m)" m] by (simp add: mem_Stats_def split_beta)

lemma mem_inv_List: "mem_inv m \<Longrightarrow> mem_inv (snd (mem_List q n m))"
  by (simp add: mem_List_def Let_def)


subsection \<open>Reachable states\<close>

inductive mem_step :: "memory \<Rightarrow> memory \<Rightarrow> bool" where
  step_Enqueue: "mem_step m (snd (mem_Enqueue now q msg m))"
| step_EnqueueBatch: "mem_step m (snd (mem_EnqueueBatch now q msgs m))"
| step_Dequeue: "mem_step m (snd (mem_Dequeue now q limit m))"
| step_Ack: "mem_step m (snd (mem_Ack q i m))"
| step_AckBatch: "mem_step m (snd (mem_AckBatch q ids m))"
| step_Retry: "mem_step m (snd (mem_Retry now q msg e m))"
| step_DeadLetter: "mem_step m (snd (mem_DeadLetter now nid q msg e m))"
| step_Replay: "mem_step m (snd (mem_Replay now q i m))"
| step_Stats: "mem_step m (snd (mem_Stats q m))"
| step_CreateSchedule: "mem_step m (snd (mem_CreateSchedule s m))"
| step_UpdateSchedule: "mem_step m (snd (mem_UpdateSchedule s m))"
| step_DeleteSchedule: "mem_step m (snd (mem_DeleteSchedule i m))"
| step_RunSchedule: "mem_step m (snd (mem_RunSchedule clk nid s now nxt m))"

inductive mem_reachable :: "memory \<Rightarrow> bool" where
  reach_new: "mem_reachable NewMemory"
| reach_step: "mem_reachable m \<Longrightarrow> mem_step m m' \<Longrightarrow> mem_reachable m'"

lemmas mem_inv_ops = mem_inv_Enqueue mem_inv_EnqueueBatch mem_inv_Dequeue mem_inv_Ack
  mem_inv_AckBatch mem_inv_Retry mem_inv_DeadLetter mem_inv_Replay mem_inv_Stats
  mem_inv_CreateSchedule mem_inv_UpdateSchedule mem_inv_DeleteSchedule mem_inv_RunSchedule

lemma mem_step_inv: "mem_step m m' \<Longrightarrow> mem_inv m \<Longrightarrow> mem_inv m'"
  by (induction rule: mem_step.induct) (rule mem_inv_ops, assumption)+

lemma mem_reachable_inv: "mem_reachable m \<Longrightarrow> mem_inv m"
  by (induction rule: mem_reachable.induct) (auto intro: mem_inv_NewMemory mem_step_inv)

text \<open>
  The lazy sort of the memory backend is sound. In every state reachable from an empty store
  by any sequence of its operations, a queue that is not marked dirty is in delivery order
  (priority descending, creation time ascending), so that skipping the sort in \<open>Dequeue\<close> leaves
  the queue exactly as sorting it would.
\<close>

theorem mem_lazy_sort_sound:
  assumes "mem_reachable m"
  shows "mem_queues (sort_pending q m) q = SliceStable delivered_before (mem_queues m q) \<and>
    (\<not> mem_dirty m q \<longrightarrow> sorted_wrt (\<lambda>a b. \<not> delivered_before b a) (mem_queues m q))"
  using mem_reachable_inv [OF assms] by (simp add: sort_pending_queues mem_invD)

text \<open>The pending messages of a queue in delivery order.\<close>

definition delivery_list :: "string \<Rightarrow> memory \<Rightarrow> message list" where
  "delivery_list q m = SliceStable delivered_before (mem_queues m q)"

lemma mem_Dequeue_eq:
  assumes "mem_inv m" "0 \<le> limit"
  shows "fst (mem_Dequeue now q limit m) =
      (let out = take (nat limit) (filter (due now) (delivery_list q m))
       in if out = [] then Inl ErrEmpty else Inr out)"
    and "mem_queues (snd (mem_Dequeue now q limit m)) =
      (mem_queues m)(q := skip_due now (nat limit) (delivery_list q m))"
    and "mem_inflight (snd (mem_Dequeue now q limit m)) =
      (mem_inflight m)(q := mem_inflight m q \<union>
         mID ` set (take (nat limit) (filter (due now) (delivery_list q m))))"
    and "mem_schedules (snd (mem_Dequeue now q limit m)) = mem_schedules m"
    and "mem_counters (snd (mem_Dequeue now q limit m)) = mem_counters m"
  using assms
  by (auto simp: mem_Dequeue_def Let_def dequeue_scan_eq sort_pending_queues delivery_list_def)

lemma mset_delivery_list [simp]: "mset (delivery_list q m) = mset (mem_queues m q)"
  by (simp add: delivery_list_def)

lemma set_delivery_list [simp]: "set (delivery_list q m) = set (mem_queues m q)"
  by (simp add: delivery_list_def)

lemma delivery_list_sorted: "sorted_wrt (\<lambda>a b. \<not> delivered_before b a) (delivery_list q m)"
  by (simp add: delivery_list_def delivery.SliceStable_sorted)

text \<open>
  C32. A successful \<open>Dequeue\<close> takes the first \<open>limit\<close> due messages in delivery order. It removes
  exactly those from the queue and marks them in flight; every message it returns is due; no due
  message that stays behind should have been delivered before one that was returned; messages of
  one priority and creation time leave in the order they were stored; other queues are untouched.
\<close>

theorem mem_Dequeue_correct:
  assumes "mem_reachable m" "0 \<le> limit" "mem_Dequeue now q limit m = (Inr out, m')"
  shows "out \<noteq> [] \<and> int (length out) \<le> limit \<and>
    mset (mem_queues m q) = mset out + mset (mem_queues m' q) \<and>
    mem_inflight m' q = mem_inflight m q \<union> mID ` set out \<and>
    (\<forall>x \<in> set out. due now x) \<and>
    sorted_wrt (\<lambda>a b. \<not> delivered_before b a) out \<and>
    (\<forall>x \<in> set out. \<forall>y \<in> set (mem_queues m' q). due now y \<longrightarrow> \<not> delivered_before y x) \<and>
    (\<forall>p t. prefix (filter (\<lambda>x. mPriority x = p \<and> mCreatedAt x = t) out)
             (filter (\<lambda>x. mPriority x = p \<and> mCreatedAt x = t \<and> due now x) (mem_queues m q))) \<and>
    (\<forall>q'. q' \<noteq> q \<longrightarrow> mem_queues m' q' = mem_queues m q' \<and> mem_inflight m' q' = mem_inflight m q')"
proof -
  let ?d = "delivery_list q m" and ?n = "nat limit"
  from assms(1) have inv: "mem_inv m" by (rule mem_reachable_inv)
  note eq = mem_Dequeue_eq [OF inv assms(2), of now q, unfolded assms(3), simplified]
  from eq(1) have out: "out = take ?n (filter (due now) ?d)" and ne: "out \<noteq> []"
    by (auto simp: Let_def split: if_splits)
  have fifo: "prefix (filter P out) (filter (\<lambda>x. P x \<and> due now x) (mem_queues m q))"
    if P: "\<And>a b. P a \<Longrightarrow> P b \<Longrightarrow> \<not> delivered_before a b" for P
  proof -
    have "filter (\<lambda>x. P x \<and> due now x) (mem_queues m q) = filter (\<lambda>x. P x \<and> due now x) ?d"
      unfolding delivery_list_def using P by (intro delivery.SliceStable_stable [symmetric]) auto
    also have "\<dots> = filter P (filter (due now) ?d)" by (simp add: conj_commute)
    also have "\<dots> = filter P out @ filter P (drop ?n (filter (due now) ?d))"
      unfolding out by (metis append_take_drop_id filter_append)
    finally show ?thesis by simp
  qed
  have "\<forall>x \<in> set out. due now x" unfolding out by (auto dest: in_set_takeD)
  moreover have "sorted_wrt (\<lambda>a b. \<not> delivered_before b a) out"
    unfolding out by (intro sorted_wrt_take sorted_wrt_filter delivery_list_sorted)
  moreover have "mset (mem_queues m q) = mset out + mset (mem_queues m' q)"
    using mset_skip_due [of ?n now ?d] by (simp add: out eq(2))
  moreover have "\<not> delivered_before y x"
    if "x \<in> set out" "y \<in> set (mem_queues m' q)" "due now y" for x y
    using skip_due_after [OF delivery_list_sorted, of x ?n now q m y] that by (simp add: out eq(2))
  moreover have "prefix (filter (\<lambda>x. mPriority x = p \<and> mCreatedAt x = t) out)
      (filter (\<lambda>x. mPriority x = p \<and> mCreatedAt x = t \<and> due now x) (mem_queues m q))" for p t
    using fifo [of "\<lambda>x. mPriority x = p \<and> mCreatedAt x = t"] by (simp add: delivered_before_def)
  moreover have "int (length out) \<le> limit" using assms(2) by (simp add: out)
  moreover have "mem_inflight m' q = mem_inflight m q \<union> mID ` set out" by (simp add: eq(3) out)
  moreover have "q' \<noteq> q \<Longrightarrow> mem_queues m' q' = mem_queues m q' \<and> mem_inflight m' q' = mem_inflight m q'"
    for q'
    by (simp add: eq(2,3))
  ultimately show ?thesis
    using ne by blast
qed


definition example_message :: "string \<Rightarrow> int \<Rightarrow> time \<Rightarrow> message" where
  "example_message i p t =
     zero_message\<lparr>mID := i, mQueue := ''orders'', mPriority := p, mCreatedAt := t, mScheduledAt := t\<rparr>"

text \<open>A queue with a message of low priority, one of high priority and one that is not due.\<close>

definition example_memory :: memory where
  "example_memory =
     snd (mem_Enqueue 9 ''orders'' (example_message ''later'' 2 90)
       (snd (mem_Enqueue 9 ''orders'' (example_message ''high'' 2 8)
         (snd (mem_Enqueue 9 ''orders'' (example_message ''low'' 0 7) NewMemory)))))"

lemma example_memory_reachable: "mem_reachable example_memory"
  unfolding example_memory_def
  by (rule reach_step [OF reach_step [OF reach_step [OF reach_new step_Enqueue] step_Enqueue] step_Enqueue])

lemmas example_simps = example_memory_def example_message_def mem_Enqueue_def push_queue_def
  NewMemory_def zero_message_def IsZero_def

lemma example_Dequeue:
  "mem_Dequeue 10 ''orders'' 1 example_memory =
     (Inr [example_message ''high'' 2 8], snd (mem_Dequeue 10 ''orders'' 1 example_memory))"
  by (simp add: mem_Dequeue_def example_simps sort_pending_def SliceStable_def delivered_before_def)

theorem mem_lazy_sort_sound_witness:
  "let m' = snd (mem_Dequeue 10 ''orders'' 1 example_memory) in
     map mID (mem_queues m' ''orders'') = [''later'', ''low''] \<and>
     sorted_wrt (\<lambda>a b. \<not> delivered_before b a) (mem_queues m' ''orders'') \<and>
     mem_queues (sort_pending ''orders'' example_memory) ''orders'' =
       SliceStable delivered_before (mem_queues example_memory ''orders'')"
proof -
  let ?m = "snd (mem_Dequeue 10 ''orders'' 1 example_memory)"
  have reach: "mem_reachable ?m" by (rule reach_step [OF example_memory_reachable step_Dequeue])
  have "\<not> mem_dirty ?m ''orders''" "map mID (mem_queues ?m ''orders'') = [''later'', ''low'']"
    by (simp_all add: mem_Dequeue_def example_simps sort_pending_def SliceStable_def delivered_before_def)
  then show ?thesis
    using mem_lazy_sort_sound [OF reach] mem_lazy_sort_sound [OF example_memory_reachable] by (simp add: Let_def)
qed

theorem mem_Dequeue_correct_witness:
  "let m' = snd (mem_Dequeue 10 ''orders'' 1 example_memory) in
     mset (mem_queues example_memory ''orders'') =
       mset [example_message ''high'' 2 8] + mset (mem_queues m' ''orders'') \<and>
     mem_inflight m' ''orders'' = mem_inflight example_memory ''orders'' \<union> {''high''}"
  using mem_Dequeue_correct [OF example_memory_reachable _ example_Dequeue]
  by (simp add: Let_def example_message_def)


subsection \<open>Progress of Dequeue\<close>

text \<open>
  \<open>Dequeue\<close> with a positive limit reports \<open>ErrEmpty\<close> exactly when no pending message is due,
  and then no message is lost: the queue still holds the same messages and nothing goes in
  flight. A due message is never overlooked.
\<close>

theorem mem_Dequeue_ErrEmpty:
  assumes "mem_reachable m" "0 < limit" "mem_Dequeue now q limit m = (r, m')"
  shows "(r = Inl ErrEmpty \<longleftrightarrow> (\<forall>x \<in> set (mem_queues m q). \<not> due now x)) \<and>
    (r = Inl ErrEmpty \<longrightarrow> mset (mem_queues m' q) = mset (mem_queues m q) \<and>
       mem_inflight m' q = mem_inflight m q)"
proof -
  let ?d = "delivery_list q m"
  have inv: "mem_inv m" using assms(1) by (rule mem_reachable_inv)
  note eq = mem_Dequeue_eq [OF inv order.strict_implies_order [OF assms(2)], of now q,
      unfolded assms(3), simplified]
  have none: "r = Inl ErrEmpty \<longleftrightarrow> filter (due now) ?d = []"
    using assms(2) by (auto simp: eq(1) Let_def)
  moreover have "filter (due now) ?d = [] \<longleftrightarrow> (\<forall>x \<in> set (mem_queues m q). \<not> due now x)"
    by (simp add: filter_empty_conv)
  moreover have "filter (due now) ?d = [] \<Longrightarrow>
      mset (mem_queues m' q) = mset (mem_queues m q) \<and> mem_inflight m' q = mem_inflight m q"
    using mset_skip_due [of "nat limit" now ?d] by (simp add: eq(2,3))
  ultimately show ?thesis by simp
qed

theorem mem_Dequeue_ErrEmpty_witness:
  "fst (mem_Dequeue 1 ''orders'' 4 example_memory) = Inl ErrEmpty"
proof -
  have "\<forall>x \<in> set (mem_queues example_memory ''orders''). \<not> due 1 x"
    by (simp add: example_simps)
  then show ?thesis
    using mem_Dequeue_ErrEmpty [OF example_memory_reachable _ prod.collapse [symmetric], of 4 1 "''orders''"]
    by simp
qed

subsection \<open>Acknowledgements in batches\<close>

lemma mem_AckBatch_loop_update_stats:
  "snd (mem_AckBatch_loop q ids p (update_stats f q m)) =
   update_stats f q (snd (mem_AckBatch_loop q ids p m))"
  by (induction ids arbitrary: p m) (simp_all add: update_stats_inflight)

lemma mem_AckBatch_loop_snd: "snd (mem_AckBatch_loop q ids p m) = snd (mem_AckBatch_loop q ids p' m)"
proof (induction ids arbitrary: p p' m)
  case (Cons i ids)
  show ?case by (metis mem_AckBatch_loop.simps(2) Cons.IH)
qed simp

lemma card_inflight_Cons:
  "i \<in> A \<Longrightarrow> card (A \<inter> set (i # ids)) = Suc (card ((A - {i}) \<inter> set ids))"
proof -
  assume "i \<in> A"
  then have "A \<inter> set (i # ids) = insert i ((A - {i}) \<inter> set ids)" by auto
  then show ?thesis by simp
qed

lemma mem_AckBatch_loop_fst:
  "fst (mem_AckBatch_loop q ids p m) = p + of_nat (card (mem_inflight m q \<inter> set ids))"
proof (induction ids arbitrary: p m)
  case (Cons i ids)
  then show ?case
    using card_inflight_Cons [of i "mem_inflight m q" ids] by simp
qed simp

lemma fold_mem_Ack:
  "fold (\<lambda>i m. snd (mem_Ack q i m)) ids m =
     (let m' = snd (mem_AckBatch_loop q ids 0 m); k = card (mem_inflight m q \<inter> set ids)
      in if k = 0 then m' else update_stats (\<lambda>s. s\<lparr>qProcessed := qProcessed s + of_nat k\<rparr>) q m')"
proof (induction ids arbitrary: m)
  case (Cons i ids)
  show ?case
  proof (cases "i \<in> mem_inflight m q")
    case False
    with Cons show ?thesis by (simp add: mem_Ack_def)
  next
    case True
    let ?m = "m\<lparr>mem_inflight := (mem_inflight m)(q := mem_inflight m q - {i})\<rparr>"
    show ?thesis
      using Cons.IH [of "snd (mem_Ack q i m)"] True card_inflight_Cons [OF True, of ids]
      by (simp add: mem_Ack_def Let_def mem_AckBatch_loop_snd [of q ids 1 ?m 0]
          mem_AckBatch_loop_update_stats update_stats_twice
          ac_simps split: if_splits)
  qed
qed simp

text \<open>
  Acknowledging a batch is acknowledging its identifiers one after the other: the same messages leave the
  in-flight set and the processed counter grows by the same amount, also for identifiers that are unknown
  or repeated.
\<close>

lemma mem_AckBatch_is_fold_Ack:
  assumes "length ids < 2 ^ 64"
  shows "mem_AckBatch q ids m = (Inr (), fold (\<lambda>i m. snd (mem_Ack q i m)) ids m)"
proof -
  define k where "k = card (mem_inflight m q \<inter> set ids)"
  have "k \<le> length ids"
    unfolding k_def by (metis card_length card_mono finite_set inf_le2 le_trans)
  with assms have "(0 :: 64 word) < of_nat k \<longleftrightarrow> k \<noteq> 0"
    by (cases "k = 0") (auto simp: word_gt_0 word_of_nat_eq_0_iff dest: dvd_imp_le)
  then have "ids \<noteq> [] \<Longrightarrow> ?thesis"
    unfolding mem_AckBatch_def split_beta Let_def fold_mem_Ack mem_AckBatch_loop_fst
    by (simp flip: k_def)
  then show ?thesis by (cases "ids = []") (simp_all add: mem_AckBatch_def)
qed

lemma update_stats_commute:
  "update_stats f q (update_stats f q' m) = update_stats f q' (update_stats f q m)"
  by (cases "q = q'") (simp_all add: update_stats_def statsFor_def fun_upd_twist split: option.split)

text \<open>Acknowledgements commute, whatever their queues and identifiers.\<close>

lemma mem_Ack_commute:
  "snd (mem_Ack q i (snd (mem_Ack q' j m))) = snd (mem_Ack q' j (snd (mem_Ack q i m)))"
proof (cases "q = q'")
  case True
  have "A - {i} - {j} = A - {j} - {i}" for A :: "string set" by blast
  with True show ?thesis by (auto simp: mem_Ack_def Let_def update_stats_inflight)
next
  case False
  then show ?thesis by (simp add: mem_Ack_def Let_def update_stats_inflight fun_upd_twist update_stats_commute [of _ q q'])
qed

subsection \<open>Enqueueing in batches\<close>

lemma stamp_batch_created:
  "\<not> IsZero (mCreatedAt msg) \<Longrightarrow> stamp_batch now i msg =
     (if IsZero (mScheduledAt msg) then msg\<lparr>mScheduledAt := mCreatedAt msg\<rparr> else msg)"
  by (simp add: stamp_batch_def Let_def)

lemma mem_EnqueueBatch_loop_fold:
  assumes "\<forall>msg \<in> set msgs. \<not> IsZero (mCreatedAt msg)" and "d q"
  shows "(mem_EnqueueBatch_loop now q i msgs m)\<lparr>mem_dirty := d\<rparr> =
    fold (\<lambda>msg m. snd (mem_Enqueue now q msg m)) msgs (m\<lparr>mem_dirty := d\<rparr>)"
  using assms(1)
proof (induction msgs arbitrary: i m)
  case (Cons msg msgs)
  let ?m = "m\<lparr>mem_queues := (mem_queues m)(q := mem_queues m q @ [stamp_batch now i msg])\<rparr>"
  have "d(q := True) = d" using assms(2) by (simp add: fun_eq_iff)
  then have "snd (mem_Enqueue now q msg (m\<lparr>mem_dirty := d\<rparr>)) = ?m\<lparr>mem_dirty := d\<rparr>"
    using Cons.prems by (simp add: mem_Enqueue_def push_queue_def stamp_batch_created)
  then show ?case using Cons.IH [where i = "Suc i" and m = ?m] Cons.prems by simp
qed simp

text \<open>
  Enqueueing a batch of messages that carry their creation time (as the broker's do) is
  enqueueing them one after the other.
\<close>

theorem mem_EnqueueBatch_is_fold_Enqueue:
  assumes "\<forall>msg \<in> set msgs. \<not> IsZero (mCreatedAt msg)"
  shows "mem_EnqueueBatch now q msgs m = (Inr (), fold (\<lambda>msg m. snd (mem_Enqueue now q msg m)) msgs m)"
proof (cases msgs)
  case (Cons msg rest)
  have "snd (mem_Enqueue now q msg (m\<lparr>mem_dirty := (mem_dirty m)(q := True)\<rparr>)) = snd (mem_Enqueue now q msg m)"
    by (simp add: mem_Enqueue_def push_queue_def Let_def)
  then show ?thesis
    using mem_EnqueueBatch_loop_fold [OF assms, where q = q and d = "(mem_dirty m)(q := True)" and i = 0]
    by (simp add: mem_EnqueueBatch_def Let_def Cons del: mem_EnqueueBatch_loop.simps)
qed (simp add: mem_EnqueueBatch_def)

theorem mem_EnqueueBatch_is_fold_Enqueue_witness:
  "mem_EnqueueBatch 9 ''orders'' [example_message ''a'' 0 7, example_message ''b'' 1 8] NewMemory =
     (Inr (), fold (\<lambda>msg m. snd (mem_Enqueue 9 ''orders'' msg m))
                [example_message ''a'' 0 7, example_message ''b'' 1 8] NewMemory)"
  by (rule mem_EnqueueBatch_is_fold_Enqueue) (simp add: example_message_def IsZero_def)

subsection \<open>Dead letters\<close>

text \<open>
  Dead-lettering and replay are inverse up to the message's new identity. A message that is
  dead-lettered and replayed is at the end of its queue with payload, attempts, priority,
  creation time and metadata as they were, a fresh identifier, due at the time of the replay and
  without its error; the dead-letter queue holds what it held before, every other queue is
  untouched, and each transition is counted once.
\<close>

theorem mem_DeadLetter_Replay_roundtrip:
  assumes "nid \<notin> mID ` set (mem_queues m (q @ ''.dlq''))"
    and "mem_DeadLetter now nid q msg e m = (r1, m1)" and "mem_Replay now' q nid m1 = (r2, m2)"
  shows "r1 = Inr () \<and> r2 = Inr () \<and>
    mem_queues m2 = (mem_queues m)(q := mem_queues m q @
      [msg\<lparr>mID := nid, mQueue := q, mScheduledAt := now', mError := '''', mDeadAt := 0\<rparr>]) \<and>
    mem_inflight m2 = (mem_inflight m)(q := mem_inflight m q - {mID msg}) \<and>
    qDead (stats_of q m2) = qDead (stats_of q m) + 1 \<and>
    qProcessed (stats_of (q @ ''.dlq'') m2) = qProcessed (stats_of (q @ ''.dlq'') m) + 1"
proof -
  let ?dlq = "q @ ''.dlq''" and ?dead = "deadLetterMessage nid q msg e now"
  have m1: "mem_queues m1 = (mem_queues m)(?dlq := mem_queues m ?dlq @ [?dead])"
    "mem_inflight m1 = (mem_inflight m)(q := mem_inflight m q - {mID msg})"
    "qDead (stats_of q m1) = qDead (stats_of q m) + 1"
    "qProcessed (stats_of ?dlq m1) = qProcessed (stats_of ?dlq m)" "r1 = Inr ()"
    using assms(2) by (auto simp: mem_DeadLetter_def Let_def stats_of_frame)
  have "replay_find (mID ?dead) [] (mem_queues m ?dlq @ ?dead # []) = Some (?dead, [] @ mem_queues m ?dlq @ [])"
    using assms(1) by (intro replay_find_first) simp
  then have "replay_find nid [] (mem_queues m1 ?dlq) = Some (?dead, mem_queues m ?dlq)"
    by (simp add: m1)
  note replay = mem_Replay_Some [OF this, of now', unfolded assms(3), simplified]
  have "replayMessage q ?dead now' =
      msg\<lparr>mID := nid, mQueue := q, mScheduledAt := now', mError := '''', mDeadAt := 0\<rparr>"
    by (simp add: replayMessage_def deadLetterMessage_def)
  with replay m1 show ?thesis
    by (auto simp: fun_eq_iff stats_of_frame)
qed

theorem mem_DeadLetter_Replay_roundtrip_witness:
  "fst (mem_Replay 20 ''orders'' ''fresh''
     (snd (mem_DeadLetter 15 ''fresh'' ''orders'' (example_message ''high'' 2 8) None example_memory))) = Inr ()"
proof -
  have "''fresh'' \<notin> mID ` set (mem_queues example_memory (''orders'' @ ''.dlq''))"
    by (simp add: example_simps)
  from mem_DeadLetter_Replay_roundtrip [OF this prod.collapse [symmetric] prod.collapse [symmetric]]
  show ?thesis by blast
qed

subsection \<open>Schedules\<close>

lemma mem_RunSchedule_True:
  assumes "mem_RunSchedule clk nid s now nxt m = (Inr True, m')"
  obtains current where "mem_schedules m (sID s) = Some current" "sEnabled current"
    "sNextRunAt current = sNextRunAt s" "sNextRunAt s \<le> now"
    "mem_schedules m' = (mem_schedules m)(sID s \<mapsto> current\<lparr>sNextRunAt := nxt, sUpdatedAt := clk\<rparr>)"
    "mem_queues m' = (mem_queues m)(sQueue s := mem_queues m (sQueue s) @ [periodicMessage nid s now])"
  using assms
  by (auto simp: mem_RunSchedule_def Let_def split: option.splits if_splits)

lemma mem_RunSchedule_False:
  "mem_RunSchedule clk nid s now nxt m = (Inr False, m') \<Longrightarrow> m' = m"
  by (auto simp: mem_RunSchedule_def Let_def split: option.splits if_splits)

text \<open>
  An occurrence of a schedule fires at most once. A successful run appends exactly one message,
  due at once, to the schedule's queue and advances the schedule; a second run from the same
  snapshot of the schedule, by whichever process and at whatever time, changes nothing.
\<close>

theorem mem_RunSchedule_once:
  assumes "mem_RunSchedule clk nid s now nxt m = (Inr True, m')" "now < nxt"
  shows "mem_queues m' = (mem_queues m)(sQueue s := mem_queues m (sQueue s) @ [periodicMessage nid s now]) \<and>
    mScheduledAt (periodicMessage nid s now) = now \<and>
    map_option sNextRunAt (mem_schedules m' (sID s)) = Some nxt \<and>
    mem_RunSchedule clk' nid' s now' nxt' m' = (Inr False, m')"
  using assms
  by (elim mem_RunSchedule_True) (simp add: mem_RunSchedule_def)

definition example_schedule :: schedule where
  "example_schedule = \<lparr>sID = ''hourly'', sQueue = ''reports'', sPayload = [], sEnqueueOptions = [],
     sInterval = 3600 * second, sNextRunAt = 100, sEnabled = True, sCreatedAt = 1, sUpdatedAt = 1\<rparr>"

theorem mem_RunSchedule_once_witness:
  "let m = snd (mem_RunSchedule 150 ''n1'' example_schedule 120 3700
                 (snd (mem_CreateSchedule example_schedule NewMemory)))
   in mem_RunSchedule 151 ''n2'' example_schedule 121 3700 m = (Inr False, m)"
proof -
  let ?m0 = "snd (mem_CreateSchedule example_schedule NewMemory)"
  have "mem_RunSchedule 150 ''n1'' example_schedule 120 3700 ?m0 =
        (Inr True, snd (mem_RunSchedule 150 ''n1'' example_schedule 120 3700 ?m0))"
    by (simp add: mem_RunSchedule_def mem_CreateSchedule_def NewMemory_def example_schedule_def)
  from mem_RunSchedule_once [OF this, of 151 "''n2''" 121 3700]
  show ?thesis by (simp add: Let_def)
qed

end
