(* ===== verification/Naming.thy ===== *)
theory Naming
  imports Shoebox_Prelude
begin

text \<open>
  Package \<open>internal/naming\<close>: which queue names the public API and the HTTP API accept.

  The source ranges over the runes of the name. A byte of \<open>0x80\<close> or more is part of a rune that
  lies outside every accepted range (or decodes to U+FFFD, which does too), so ranging over the
  bytes gives the same answer.
\<close>

definition queue_rune_ok :: "char \<Rightarrow> bool" where
  "queue_rune_ok r \<longleftrightarrow>
     \<not> ((of_char r < (97 :: nat) \<or> of_char r > (122 :: nat)) \<and>
        (of_char r < (65 :: nat) \<or> of_char r > (90 :: nat)) \<and>
        (of_char r < (48 :: nat) \<or> of_char r > (57 :: nat)) \<and>
        r \<noteq> CHR ''.'' \<and> r \<noteq> CHR ''-'' \<and> r \<noteq> CHR ''_'')"

fun runes_ok :: "string \<Rightarrow> bool" where
  "runes_ok [] = True"
| "runes_ok (r # rs) = (if \<not> queue_rune_ok r then False else runes_ok rs)"

definition ValidQueueName :: "string \<Rightarrow> bool" where
  "ValidQueueName name \<longleftrightarrow>
     (if name = '''' \<or> length name > 128 \<or> strings_HasSuffix name ''.dlq'' then False
      else runes_ok name)"

lemma runes_ok_iff: "runes_ok s \<longleftrightarrow> (\<forall>r \<in> set s. queue_rune_ok r)"
  by (induction s) auto

lemma queue_rune_ok_colon: "\<not> queue_rune_ok CHR '':''"
  by (simp add: queue_rune_ok_def of_char_def)

lemma ValidQueueName_no_colon: "ValidQueueName q \<Longrightarrow> CHR '':'' \<notin> set q"
  using queue_rune_ok_colon by (auto simp: ValidQueueName_def runes_ok_iff split: if_splits)

lemma ValidQueueName_not_dlq: "ValidQueueName q \<Longrightarrow> q \<noteq> p @ ''.dlq''"
  by (auto simp: ValidQueueName_def split: if_splits)

text \<open>
  The key under which the broker deduplicates is \<open>queue ++ ":" ++ key\<close>. On valid queue names it
  determines the queue and the key.
\<close>

lemma dedupe_key_inject:
  assumes "ValidQueueName q" "ValidQueueName q'"
  shows "q @ '':'' @ k = q' @ '':'' @ k' \<longleftrightarrow> q = q' \<and> k = k'"
  using append_separator_inject [of "CHR '':''" q q' k k'] assms
  by (simp add: ValidQueueName_no_colon)

end
