(* ===== verification/Store_Contract.thy ===== *)
theory Store_Contract
  imports Memory_Store Naming
begin

text \<open>
  What the broker relies on when it talks to a storage backend, stated on identifiers.

  The abstract state \<open>qabs\<close> of a backend gives, per queue, the identifiers that are pending, in
  flight and dead-lettered. An operation that reports success performs the abstract transition of
  the same name; one that reports an error leaves the abstract state as it was. The locale
  \<open>queue_store\<close> is this contract; the memory backend is interpreted into it. Dead-letter queues
  (\<open>.dlq\<close>) are only written by the backend itself, so the laws speak of the other queues.
\<close>

definition user_queue :: "string \<Rightarrow> bool" where
  "user_queue q \<longleftrightarrow> \<not> strings_HasSuffix q ''.dlq''"

lemma user_queue_q: "user_queue ''q''"
  by (auto simp: user_queue_def strings_HasSuffix_def simp del: HasSuffix_iff)

record qabs =
  aPend :: "string \<Rightarrow> string multiset"
  aInfl :: "string \<Rightarrow> string set"
  aDead :: "string \<Rightarrow> string multiset"

definition a_Enqueue :: "string \<Rightarrow> string \<Rightarrow> qabs \<Rightarrow> qabs" where
  "a_Enqueue q i a = a\<lparr>aPend := (aPend a)(q := add_mset i (aPend a q))\<rparr>"

definition a_EnqueueBatch :: "string \<Rightarrow> string list \<Rightarrow> qabs \<Rightarrow> qabs" where
  "a_EnqueueBatch q is a = a\<lparr>aPend := (aPend a)(q := aPend a q + mset is)\<rparr>"

definition a_Dequeue :: "string \<Rightarrow> string list \<Rightarrow> qabs \<Rightarrow> qabs" where
  "a_Dequeue q is a = a\<lparr>aPend := (aPend a)(q := aPend a q - mset is),
                        aInfl := (aInfl a)(q := aInfl a q \<union> set is)\<rparr>"

definition a_AckBatch :: "string \<Rightarrow> string list \<Rightarrow> qabs \<Rightarrow> qabs" where
  "a_AckBatch q is a = a\<lparr>aInfl := (aInfl a)(q := aInfl a q - set is)\<rparr>"

definition a_Retry :: "string \<Rightarrow> string \<Rightarrow> qabs \<Rightarrow> qabs" where
  "a_Retry q i a = a\<lparr>aPend := (aPend a)(q := add_mset i (aPend a q)),
                     aInfl := (aInfl a)(q := aInfl a q - {i})\<rparr>"

definition a_DeadLetter :: "string \<Rightarrow> string \<Rightarrow> string \<Rightarrow> qabs \<Rightarrow> qabs" where
  "a_DeadLetter q i nid a = a\<lparr>aInfl := (aInfl a)(q := aInfl a q - {i}),
                              aDead := (aDead a)(q := add_mset nid (aDead a q))\<rparr>"

definition a_Replay :: "string \<Rightarrow> string \<Rightarrow> qabs \<Rightarrow> qabs" where
  "a_Replay q i a = a\<lparr>aPend := (aPend a)(q := add_mset i (aPend a q)),
                      aDead := (aDead a)(q := aDead a q - {#i#})\<rparr>"

lemmas a_defs = a_Enqueue_def a_EnqueueBatch_def a_Dequeue_def a_AckBatch_def a_Retry_def
  a_DeadLetter_def a_Replay_def

definition on_ok :: "'a result \<Rightarrow> qabs \<Rightarrow> qabs \<Rightarrow> qabs" where
  "on_ok r a' a = (case r of Inr _ \<Rightarrow> a' | Inl _ \<Rightarrow> a)"

lemma on_ok_simps [simp]: "on_ok (Inr x) a' a = a'" "on_ok (Inl e) a' a = a"
  by (simp_all add: on_ok_def)

text \<open>
  An enqueue that succeeds stores its messages, less those that a durable deduplication drops (only
  the PostgreSQL backend drops any).
\<close>

definition accepts :: "string \<Rightarrow> string list \<Rightarrow> 'r result \<Rightarrow> qabs \<Rightarrow> qabs \<Rightarrow> bool" where
  "accepts q is r a a' \<longleftrightarrow> (\<exists>js. subseq js is \<and> a' = on_ok r (a_EnqueueBatch q js a) a)"

lemma a_EnqueueBatch_simps: "a_EnqueueBatch q [] a = a" "a_EnqueueBatch q [i] a = a_Enqueue q i a"
  by (simp_all add: a_defs)

lemma accepts_all: "accepts q is r a (on_ok r (a_EnqueueBatch q is a) a)"
  by (auto simp: accepts_def)

lemma accepts_one: "accepts q [i] r a (on_ok r (a_Enqueue q i a) a)"
  using accepts_all [of q "[i]" r a] by (simp add: a_EnqueueBatch_simps)

text \<open>
  One call of a backend by a client that acknowledges, retries and dead-letters only what is in
  flight and uses fresh identifiers, which \<open>NewMessageID\<close> provides.
\<close>

definition fresh_id :: "string \<Rightarrow> string \<Rightarrow> qabs \<Rightarrow> bool" where
  "fresh_id q i a \<longleftrightarrow> i \<notin># aPend a q \<and> i \<notin> aInfl a q \<and> i \<notin># aDead a q"

inductive store_step :: "'s storage_ops \<Rightarrow> ('s \<Rightarrow> qabs) \<Rightarrow> 's \<Rightarrow> 's \<Rightarrow> bool"
  for ops :: "'s storage_ops" and view :: "'s \<Rightarrow> qabs" where
  st_Enqueue: "user_queue q \<Longrightarrow> fresh_id q (mID msg) (view s) \<Longrightarrow>
     store_step ops view s (snd (Enqueue_op ops t q msg s))"
| st_EnqueueBatch: "user_queue q \<Longrightarrow> distinct (map mID msgs) \<Longrightarrow> \<forall>m \<in> set msgs. fresh_id q (mID m) (view s) \<Longrightarrow>
     store_step ops view s (snd (EnqueueBatch_op ops t q msgs s))"
| st_Dequeue: "user_queue q \<Longrightarrow> 0 < limit \<Longrightarrow> store_step ops view s (snd (Dequeue_op ops t q limit s))"
| st_Ack: "user_queue q \<Longrightarrow> store_step ops view s (snd (Ack_op ops q i s))"
| st_AckBatch: "user_queue q \<Longrightarrow> store_step ops view s (snd (AckBatch_op ops q is s))"
| st_Retry: "user_queue q \<Longrightarrow> mID msg \<in> aInfl (view s) q \<Longrightarrow>
     store_step ops view s (snd (Retry_op ops t q msg e s))"
| st_DeadLetter: "user_queue q \<Longrightarrow> mID msg \<in> aInfl (view s) q \<Longrightarrow> fresh_id q nid (view s) \<Longrightarrow>
     store_step ops view s (snd (DeadLetter_op ops t nid q msg e s))"
| st_Replay: "user_queue q \<Longrightarrow> store_step ops view s (snd (Replay_op ops t q i s))"
| st_Stats: "user_queue q \<Longrightarrow> store_step ops view s (snd (Stats_op ops q s))"

abbreviation store_reach :: "'s storage_ops \<Rightarrow> ('s \<Rightarrow> qabs) \<Rightarrow> 's \<Rightarrow> 's \<Rightarrow> bool" where
  "store_reach ops view \<equiv> (store_step ops view)\<^sup>*\<^sup>*"

text \<open>No identifier of a queue is in two places, or twice in one.\<close>

definition places :: "qabs \<Rightarrow> string \<Rightarrow> string \<Rightarrow> nat" where
  "places a q i = count (aPend a q) i + count (aDead a q) i + of_bool (i \<in> aInfl a q)"

definition exclusive :: "qabs \<Rightarrow> bool" where
  "exclusive a \<longleftrightarrow> (\<forall>q i. places a q i \<le> 1)"

lemma exclusiveD:
  assumes "exclusive a"
  shows "i \<in># aPend a q \<Longrightarrow> i \<notin> aInfl a q" "count (aPend a q) i \<le> 1"
proof -
  have le: "places a q i \<le> 1" using assms by (simp add: exclusive_def)
  then show "count (aPend a q) i \<le> 1" by (simp add: places_def)
  assume "i \<in># aPend a q"
  then have "0 < count (aPend a q) i" by simp
  with le show "i \<notin> aInfl a q" by (auto simp: places_def simp del: count_greater_zero_iff)
qed

lemma exclusiveI:
  assumes "exclusive a"
    and "\<And>q' i. q' \<noteq> q \<Longrightarrow> places b q' i = places a q' i"
    and "\<And>i. places a q i \<le> 1 \<Longrightarrow> places b q i \<le> 1"
  shows "exclusive b"
  using assms unfolding exclusive_def by metis

lemma fresh_id_places: "fresh_id q i a \<longleftrightarrow> places a q i = 0"
  by (auto simp: fresh_id_def places_def not_in_iff)

lemma count_distinct: "distinct is \<Longrightarrow> count (mset is) i = of_bool (i \<in> set is)"
  by (simp add: distinct_count_atmost_1)

lemma exclusive_Enqueue:
  assumes "exclusive a" "fresh_id q i a"
  shows "exclusive (a_Enqueue q i a)"
  using assms(2) by (intro exclusiveI [OF assms(1), of q]) (auto simp: fresh_id_places places_def a_defs)

lemma exclusive_EnqueueBatch:
  assumes "exclusive a" "distinct is" "\<forall>i \<in> set is. fresh_id q i a"
  shows "exclusive (a_EnqueueBatch q is a)"
  using assms(3)
  by (intro exclusiveI [OF assms(1), of q])
    (auto simp: fresh_id_places places_def a_defs count_distinct [OF assms(2)])

lemma exclusive_accepts:
  assumes "exclusive a" "distinct is" "\<forall>i \<in> set is. fresh_id q i a" "accepts q is r a a'"
  shows "exclusive a'"
proof -
  from assms(4) obtain js where js: "subseq js is" and a': "a' = on_ok r (a_EnqueueBatch q js a) a"
    by (auto simp: accepts_def)
  from subseq_set_distinct [OF js] assms(2,3) have "exclusive (a_EnqueueBatch q js a)"
    by (intro exclusive_EnqueueBatch [OF assms(1)]) auto
  with assms(1) show ?thesis by (cases r) (simp_all add: a')
qed

lemma exclusive_Dequeue:
  assumes "exclusive a" "mset is \<subseteq># aPend a q"
  shows "exclusive (a_Dequeue q is a)"
proof (rule exclusiveI [OF assms(1), of q])
  fix i assume le: "places a q i \<le> 1"
  have "i \<in> set is \<Longrightarrow> 0 < count (mset is) i" by simp
  moreover have "count (mset is) i \<le> count (aPend a q) i"
    using assms(2) by (simp add: mset_subset_eq_count)
  ultimately show "places (a_Dequeue q is a) q i \<le> 1"
    using le by (cases "i \<in> set is") (auto simp: places_def a_defs simp del: count_greater_zero_iff)
qed (simp add: places_def a_defs)

lemma exclusive_AckBatch:
  assumes "exclusive a"
  shows "exclusive (a_AckBatch q is a)"
  by (rule exclusiveI [OF assms, of q]) (auto simp: places_def a_defs)

lemma exclusive_Retry:
  assumes "exclusive a" "i \<in> aInfl a q"
  shows "exclusive (a_Retry q i a)"
  using assms(2) by (intro exclusiveI [OF assms(1), of q]) (auto simp: places_def a_defs)

lemma exclusive_DeadLetter:
  assumes "exclusive a" "i \<in> aInfl a q" "fresh_id q nid a"
  shows "exclusive (a_DeadLetter q i nid a)"
  using assms(2,3)
  by (intro exclusiveI [OF assms(1), of q]) (auto simp: fresh_id_places places_def a_defs)

lemma exclusive_Replay:
  assumes "exclusive a" "i \<in># aDead a q"
  shows "exclusive (a_Replay q i a)"
proof (rule exclusiveI [OF assms(1), of q])
  fix j assume le: "places a q j \<le> 1"
  have "0 < count (aDead a q) i" using assms(2) by simp
  with le show "places (a_Replay q i a) q j \<le> 1"
    by (cases "j = i") (auto simp: places_def a_defs simp del: count_greater_zero_iff)
qed (simp add: places_def a_defs)

lemma exclusive_on_ok: "exclusive a \<Longrightarrow> exclusive a' \<Longrightarrow> exclusive (on_ok r a' a)"
  by (cases r) simp_all

subsection \<open>The contract\<close>

locale queue_store =
  fixes ops :: "'s storage_ops"
    and inv :: "'s \<Rightarrow> bool"
    and view :: "'s \<Rightarrow> qabs"
  assumes Enqueue_law: "inv s \<Longrightarrow> user_queue q \<Longrightarrow> Enqueue_op ops t q msg s = (r1, s') \<Longrightarrow>
      inv s' \<and> accepts q [mID msg] r1 (view s) (view s')"
    and EnqueueBatch_law: "inv s \<Longrightarrow> user_queue q \<Longrightarrow> EnqueueBatch_op ops t q msgs s = (r1, s') \<Longrightarrow>
      inv s' \<and> accepts q (map mID msgs) r1 (view s) (view s')"
    and Dequeue_ok: "inv s \<Longrightarrow> user_queue q \<Longrightarrow> 0 < limit \<Longrightarrow> Dequeue_op ops t q limit s = (Inr out, s') \<Longrightarrow>
      inv s' \<and> out \<noteq> [] \<and> int (length out) \<le> limit \<and> mset (map mID out) \<subseteq># aPend (view s) q \<and>
      view s' = a_Dequeue q (map mID out) (view s)"
    and Dequeue_err: "inv s \<Longrightarrow> user_queue q \<Longrightarrow> 0 < limit \<Longrightarrow> Dequeue_op ops t q limit s = (Inl e1, s') \<Longrightarrow>
      inv s' \<and> view s' = view s"
    and Ack_law: "inv s \<Longrightarrow> user_queue q \<Longrightarrow> Ack_op ops q i s = (r1, s') \<Longrightarrow>
      inv s' \<and> view s' = on_ok r1 (a_AckBatch q [i] (view s)) (view s)"
    and AckBatch_law: "inv s \<Longrightarrow> user_queue q \<Longrightarrow> AckBatch_op ops q is s = (r1, s') \<Longrightarrow>
      inv s' \<and> view s' = on_ok r1 (a_AckBatch q is (view s)) (view s)"
    and Retry_law: "inv s \<Longrightarrow> user_queue q \<Longrightarrow> mID msg \<in> aInfl (view s) q \<Longrightarrow>
      Retry_op ops t q msg e s = (r1, s') \<Longrightarrow>
      inv s' \<and> view s' = on_ok r1 (a_Retry q (mID msg) (view s)) (view s)"
    and DeadLetter_law: "inv s \<Longrightarrow> user_queue q \<Longrightarrow> mID msg \<in> aInfl (view s) q \<Longrightarrow>
      DeadLetter_op ops t nid q msg e s = (r1, s') \<Longrightarrow>
      inv s' \<and> view s' = on_ok r1 (a_DeadLetter q (mID msg) nid (view s)) (view s)"
    and Replay_law: "inv s \<Longrightarrow> user_queue q \<Longrightarrow> Replay_op ops t q i s = (r1, s') \<Longrightarrow>
      inv s' \<and> (\<forall>u. r1 = Inr u \<longrightarrow> i \<in># aDead (view s) q) \<and> view s' = on_ok r1 (a_Replay q i (view s)) (view s)"
    and Stats_law: "inv s \<Longrightarrow> user_queue q \<Longrightarrow> Stats_op ops q s = (r2, s') \<Longrightarrow>
      inv s' \<and> view s' = view s \<and> (\<forall>st. r2 = Inr st \<longrightarrow> qDepth st = size (aPend (view s) q))"
    and List_law: "inv s \<Longrightarrow> List_op ops qn limit s = (r6, s') \<Longrightarrow> inv s' \<and> view s' = view s"
    and Close_law: "inv s \<Longrightarrow> Close_op ops s = (r1, s') \<Longrightarrow> inv s' \<and> view s' = view s"
begin

lemma step_exclusive:
  assumes "store_step ops view s s'" "inv s" "exclusive (view s)"
  shows "inv s' \<and> exclusive (view s')"
  using assms(1)
proof (cases rule: store_step.cases)
  case (st_Enqueue q msg t)
  obtain r s1 where eq: "Enqueue_op ops t q msg s = (r, s1)" by fastforce
  from Enqueue_law [OF assms(2) st_Enqueue(2) eq] show ?thesis
    using exclusive_accepts [OF assms(3), of "[mID msg]" q r "view s1"] st_Enqueue(3) by (simp add: st_Enqueue(1) eq)
next
  case (st_EnqueueBatch q msgs t)
  obtain r s1 where eq: "EnqueueBatch_op ops t q msgs s = (r, s1)" by fastforce
  from EnqueueBatch_law [OF assms(2) st_EnqueueBatch(2) eq] show ?thesis
    using exclusive_accepts [OF assms(3) st_EnqueueBatch(3), of q r "view s1"] st_EnqueueBatch(4) by (simp add: st_EnqueueBatch(1) eq)
next
  case (st_Dequeue q limit t)
  obtain r s1 where eq: "Dequeue_op ops t q limit s = (r, s1)" by fastforce
  show ?thesis
  proof (cases r)
    case (Inl e)
    with Dequeue_err [OF assms(2) st_Dequeue(2,3) eq [unfolded Inl]] assms(3) show ?thesis
      by (simp add: st_Dequeue(1) eq)
  next
    case (Inr out)
    with Dequeue_ok [OF assms(2) st_Dequeue(2,3) eq [unfolded Inr]] assms(3) show ?thesis
      by (simp add: st_Dequeue(1) eq exclusive_Dequeue del: mset_map)
  qed
next
  case (st_Ack q i)
  obtain r s1 where eq: "Ack_op ops q i s = (r, s1)" by fastforce
  from Ack_law [OF assms(2) st_Ack(2) eq] show ?thesis
    by (auto simp: st_Ack(1) eq intro!: exclusive_on_ok assms(3) exclusive_AckBatch)
next
  case (st_AckBatch q "is")
  obtain r s1 where eq: "AckBatch_op ops q is s = (r, s1)" by fastforce
  from AckBatch_law [OF assms(2) st_AckBatch(2) eq] show ?thesis
    by (auto simp: st_AckBatch(1) eq intro!: exclusive_on_ok assms(3) exclusive_AckBatch)
next
  case (st_Retry q msg t e)
  obtain r s1 where eq: "Retry_op ops t q msg e s = (r, s1)" by fastforce
  from Retry_law [OF assms(2) st_Retry(2,3) eq] show ?thesis
    by (auto simp: st_Retry(1) eq intro!: exclusive_on_ok assms(3) exclusive_Retry st_Retry(3))
next
  case (st_DeadLetter q msg nid t e)
  obtain r s1 where eq: "DeadLetter_op ops t nid q msg e s = (r, s1)" by fastforce
  from DeadLetter_law [OF assms(2) st_DeadLetter(2,3) eq] show ?thesis
    by (auto simp: st_DeadLetter(1) eq intro!: exclusive_on_ok assms(3) exclusive_DeadLetter st_DeadLetter(3,4))
next
  case (st_Replay q t i)
  obtain r s1 where eq: "Replay_op ops t q i s = (r, s1)" by fastforce
  from Replay_law [OF assms(2) st_Replay(2) eq] assms(3) show ?thesis
    by (cases r) (simp_all add: st_Replay(1) eq exclusive_Replay)
next
  case (st_Stats q)
  obtain r s1 where eq: "Stats_op ops q s = (r, s1)" by fastforce
  from Stats_law [OF assms(2) st_Stats(2) eq] assms(3) show ?thesis
    by (simp add: st_Stats(1) eq)
qed

lemma reach_exclusive:
  "store_reach ops view s s' \<Longrightarrow> inv s \<Longrightarrow> exclusive (view s) \<Longrightarrow> inv s' \<and> exclusive (view s')"
  by (induction rule: rtranclp_induct) (auto dest: step_exclusive)

text \<open>What \<open>Dequeue\<close> hands out is not already held by another consumer, and is handed out once.\<close>

lemma delivery_exclusive:
  assumes "store_reach ops view s0 s" "inv s0" "exclusive (view s0)" "user_queue q" "0 < limit"
    "Dequeue_op ops t q limit s = (Inr out, s')"
  shows "distinct (map mID out) \<and> set (map mID out) \<inter> aInfl (view s) q = {} \<and>
    set (map mID out) \<subseteq> aInfl (view s') q"
proof -
  from reach_exclusive [OF assms(1-3)] have inv: "inv s" and ex: "exclusive (view s)" by auto
  from Dequeue_ok [OF inv assms(4-6)] have sub: "mset (map mID out) \<subseteq># aPend (view s) q"
    and view: "view s' = a_Dequeue q (map mID out) (view s)" by auto
  have "count (mset (map mID out)) i \<le> 1" for i
    using mset_subset_eq_count [OF sub, of i] exclusiveD(2) [OF ex, of q i] by linarith
  then have "distinct (map mID out)"
    using distinct_count_atmost_1 [of "map mID out"] by (metis count_mset_0_iff in_multiset_in_set
        le_antisym less_one not_le)
  moreover have "i \<notin> aInfl (view s) q" if "i \<in> set (map mID out)" for i
    using that sub exclusiveD(1) [OF ex, of i q] by (meson in_multiset_in_set mset_subset_eqD)
  ultimately show ?thesis by (auto simp: view a_defs)
qed

end

subsection \<open>The memory backend\<close>

definition mem_view :: "memory \<Rightarrow> qabs" where
  "mem_view m = \<lparr>aPend = (\<lambda>q. if user_queue q then mset (map mID (mem_queues m q)) else {#}),
     aInfl = mem_inflight m, aDead = (\<lambda>q. mset (map mID (mem_queues m (q @ ''.dlq''))))\<rparr>"

lemma mem_view_sel [simp]:
  "aPend (mem_view m) q = (if user_queue q then mset (map mID (mem_queues m q)) else {#})"
  "aInfl (mem_view m) = mem_inflight m"
  "aDead (mem_view m) q = mset (map mID (mem_queues m (q @ ''.dlq'')))"
  by (simp_all add: mem_view_def)

lemma dlq_not_user [simp]: "\<not> user_queue (q @ ''.dlq'')"
  by (simp add: user_queue_def)

lemma qabs_eqI:
  fixes a b :: qabs
  shows "(\<And>q. aPend a q = aPend b q) \<Longrightarrow> (\<And>q. aInfl a q = aInfl b q) \<Longrightarrow> (\<And>q. aDead a q = aDead b q) \<Longrightarrow> a = b"
  by (rule qabs.equality) auto

text \<open>A slice of the store that an operation leaves alone keeps its view.\<close>

lemma user_queue_neq_dlq: "user_queue q \<Longrightarrow> q' @ ''.dlq'' \<noteq> q"
  by (auto simp: user_queue_def)

lemma mem_EnqueueBatch_loop_ids:
  "map mID (mem_queues (mem_EnqueueBatch_loop now q i msgs m) q') =
     map mID (mem_queues m q') @ (if q' = q then map mID msgs else [])"
  "mem_inflight (mem_EnqueueBatch_loop now q i msgs m) = mem_inflight m"
  by (induction now q i msgs m rule: mem_EnqueueBatch_loop.induct) (simp_all add: stamp_batch_def Let_def)

lemma replay_find_mset:
  "replay_find i before ms = Some (msg, rest) \<Longrightarrow> mID msg = i \<and> add_mset msg (mset rest) = mset before + mset ms"
  by (induction i before ms rule: replay_find.induct) (auto split: if_splits)

lemma mem_view_Enqueue: "user_queue q \<Longrightarrow> mem_Enqueue t q msg m = (r, m') \<Longrightarrow>
    r = Inr () \<and> mem_view m' = a_Enqueue q (mID msg) (mem_view m)"
  using user_queue_neq_dlq [of q]
  by (auto simp: mem_Enqueue_def Let_def a_defs intro!: qabs_eqI)

lemma mem_view_EnqueueBatch: "user_queue q \<Longrightarrow> mem_EnqueueBatch t q msgs m = (r, m') \<Longrightarrow>
    r = Inr () \<and> mem_view m' = a_EnqueueBatch q (map mID msgs) (mem_view m)"
  using user_queue_neq_dlq [of q]
  by (auto simp: mem_EnqueueBatch_def Let_def a_defs mem_EnqueueBatch_loop_ids
      simp flip: mset_map split: if_splits intro!: qabs_eqI)

lemma mem_view_Ack: "mem_Ack q i m = (r, m') \<Longrightarrow> r = Inr () \<and> mem_view m' = a_AckBatch q [i] (mem_view m)"
  by (auto simp: mem_Ack_def Let_def a_defs split: if_splits intro!: qabs_eqI)

lemma mem_view_AckBatch: "mem_AckBatch q ids m = (r, m') \<Longrightarrow> r = Inr () \<and> mem_view m' = a_AckBatch q ids (mem_view m)"
  using mem_AckBatch_loop_sel [of q ids 0 m]
  by (auto simp: mem_AckBatch_def Let_def a_defs split_beta split: if_splits intro!: qabs_eqI)

lemma mem_view_Retry: "user_queue q \<Longrightarrow> mem_Retry t q msg e m = (r, m') \<Longrightarrow>
    r = Inr () \<and> mem_view m' = a_Retry q (mID msg) (mem_view m)"
  using user_queue_neq_dlq [of q]
  by (auto simp: mem_Retry_def Let_def a_defs intro!: qabs_eqI)

lemma mem_view_DeadLetter: "user_queue q \<Longrightarrow> mem_DeadLetter t nid q msg e m = (r, m') \<Longrightarrow>
    r = Inr () \<and> mem_view m' = a_DeadLetter q (mID msg) nid (mem_view m)"
  using user_queue_neq_dlq [of q]
  by (auto simp: mem_DeadLetter_def Let_def a_defs intro!: qabs_eqI)

lemma mem_view_Replay:
  assumes "user_queue q" "mem_Replay t q i m = (r, m')"
  shows "(\<forall>u. r = Inr u \<longrightarrow> i \<in># aDead (mem_view m) q) \<and> mem_view m' = on_ok r (a_Replay q i (mem_view m)) (mem_view m)"
proof (cases "replay_find i [] (mem_queues m (q @ ''.dlq''))")
  case None
  with assms(2) show ?thesis by (auto simp: mem_Replay_def Let_def)
next
  case (Some p)
  obtain msg rest where p: "p = (msg, rest)" by fastforce
  from replay_find_mset Some p have "mID msg = i"
    and ms: "mset (mem_queues m (q @ ''.dlq'')) = add_mset msg (mset rest)" by auto
  then have i: "i = mID msg" by simp
  have "i \<in># aDead (mem_view m) q" by (simp add: i ms)
  moreover have "mem_view m' = a_Replay q i (mem_view m)"
    using assms Some p user_queue_neq_dlq [OF assms(1)] ms
    by (auto simp: mem_Replay_def Let_def a_defs i intro!: qabs_eqI)
  ultimately show ?thesis using assms(2) Some p by (auto simp: mem_Replay_def Let_def)
qed

lemma mem_view_Stats: "user_queue q \<Longrightarrow> mem_Stats q m = (r, m') \<Longrightarrow>
    mem_view m' = mem_view m \<and> (\<forall>st. r = Inr st \<longrightarrow> qDepth st = size (aPend (mem_view m) q))"
  by (auto simp: mem_Stats_def split_beta Let_def intro!: qabs_eqI)

lemma mem_view_Dequeue_ok:
  assumes "mem_inv m" "user_queue q" "0 < limit" "mem_Dequeue t q limit m = (Inr out, m')"
  shows "out \<noteq> [] \<and> int (length out) \<le> limit \<and> mset (map mID out) \<subseteq># aPend (mem_view m) q \<and>
    mem_view m' = a_Dequeue q (map mID out) (mem_view m)"
proof -
  let ?d = "delivery_list q m" and ?n = "nat limit"
  note eq = mem_Dequeue_eq [OF assms(1) order.strict_implies_order [OF assms(3)], of t q, unfolded assms(4)]
  have out: "out = take ?n (filter (due t) ?d)" and ne: "out \<noteq> []"
    using eq(1) by (auto simp: Let_def split: if_splits)
  have split: "mset (mem_queues m q) = mset out + mset (skip_due t ?n ?d)"
    by (simp add: out mset_skip_due flip: mset_delivery_list)
  then have "mset (map mID (mem_queues m q)) = mset (map mID out) + mset (map mID (skip_due t ?n ?d))"
    by (metis image_mset_union mset_map)
  moreover have "mem_view m' = a_Dequeue q (map mID out) (mem_view m)"
    using calculation assms(2) user_queue_neq_dlq [OF assms(2)] eq(2,3)
    by (intro qabs_eqI) (auto simp: a_defs out)
  ultimately show ?thesis
    using ne assms(2,3) by (auto simp: out)
qed

lemma mem_view_Dequeue_err:
  assumes "mem_inv m" "user_queue q" "0 < limit" "mem_Dequeue t q limit m = (Inl e, m')"
  shows "mem_view m' = mem_view m"
proof -
  let ?d = "delivery_list q m" and ?n = "nat limit"
  note eq = mem_Dequeue_eq [OF assms(1) order.strict_implies_order [OF assms(3)], of t q, unfolded assms(4)]
  have none: "take ?n (filter (due t) ?d) = []"
    using eq(1) by (auto simp: Let_def split: if_splits)
  have "mset ?d = mset (take ?n (filter (due t) ?d)) + mset (skip_due t ?n ?d)"
    by (rule mset_skip_due [symmetric])
  then have "mset (map mID (mem_queues m q)) = mset (map mID (skip_due t ?n ?d))"
    by (simp add: none)
  then show ?thesis
    using user_queue_neq_dlq [OF assms(2)] none eq(2,3) by (intro qabs_eqI) auto
qed

interpretation mem: queue_store memory_ops mem_inv mem_view
proof unfold_locales
  fix s s' :: memory and q i nid t msg msgs limit e out r1 r2 r6 e1 qn "is"
  assume inv: "mem_inv s"
  show "List_op memory_ops qn limit s = (r6, s') \<Longrightarrow> mem_inv s' \<and> mem_view s' = mem_view s"
    using inv by (auto simp: memory_ops_def mem_List_def Let_def split: if_splits)
  show "Close_op memory_ops s = (r1, s') \<Longrightarrow> mem_inv s' \<and> mem_view s' = mem_view s"
    using inv by (simp add: memory_ops_def mem_Close_def)
  assume q: "user_queue q"
  show "Enqueue_op memory_ops t q msg s = (r1, s') \<Longrightarrow>
      mem_inv s' \<and> accepts q [mID msg] r1 (mem_view s) (mem_view s')"
    using mem_view_Enqueue [OF q, of t msg s r1 s'] mem_inv_Enqueue [OF inv, of t q msg] accepts_one [of q "mID msg" r1 "mem_view s"]
    by (auto simp: memory_ops_def)
  show "EnqueueBatch_op memory_ops t q msgs s = (r1, s') \<Longrightarrow>
      mem_inv s' \<and> accepts q (map mID msgs) r1 (mem_view s) (mem_view s')"
    using mem_view_EnqueueBatch [OF q, of t msgs s r1 s'] mem_inv_EnqueueBatch [OF inv, of t q msgs]
      accepts_all [of q "map mID msgs" r1 "mem_view s"]
    by (auto simp: memory_ops_def)
  show "mem_inv s' \<and> out \<noteq> [] \<and> int (length out) \<le> limit \<and> mset (map mID out) \<subseteq># aPend (mem_view s) q \<and>
      mem_view s' = a_Dequeue q (map mID out) (mem_view s)"
    if "0 < limit" "Dequeue_op memory_ops t q limit s = (Inr out, s')"
    using that mem_view_Dequeue_ok [OF inv q that(1), of t out s'] mem_inv_Dequeue [OF inv, of t q limit]
    by (auto simp: memory_ops_def)
  show "mem_inv s' \<and> mem_view s' = mem_view s"
    if "0 < limit" "Dequeue_op memory_ops t q limit s = (Inl e1, s')"
    using that mem_view_Dequeue_err [OF inv q that(1), of t e1 s'] mem_inv_Dequeue [OF inv, of t q limit]
    by (auto simp: memory_ops_def)
  show "Ack_op memory_ops q i s = (r1, s') \<Longrightarrow>
      mem_inv s' \<and> mem_view s' = on_ok r1 (a_AckBatch q [i] (mem_view s)) (mem_view s)"
    using mem_view_Ack [of q i s r1 s'] mem_inv_Ack [OF inv, of q i] by (auto simp: memory_ops_def)
  show "AckBatch_op memory_ops q is s = (r1, s') \<Longrightarrow>
      mem_inv s' \<and> mem_view s' = on_ok r1 (a_AckBatch q is (mem_view s)) (mem_view s)"
    using mem_view_AckBatch [of q "is" s r1 s'] mem_inv_AckBatch [OF inv, of q "is"] by (auto simp: memory_ops_def)
  show "Retry_op memory_ops t q msg e s = (r1, s') \<Longrightarrow>
      mem_inv s' \<and> mem_view s' = on_ok r1 (a_Retry q (mID msg) (mem_view s)) (mem_view s)"
    using mem_view_Retry [OF q, of t msg e s r1 s'] mem_inv_Retry [OF inv, of t q msg e] by (auto simp: memory_ops_def)
  show "DeadLetter_op memory_ops t nid q msg e s = (r1, s') \<Longrightarrow>
      mem_inv s' \<and> mem_view s' = on_ok r1 (a_DeadLetter q (mID msg) nid (mem_view s)) (mem_view s)"
    using mem_view_DeadLetter [OF q, of t nid msg e s r1 s'] mem_inv_DeadLetter [OF inv, of t nid q msg e] by (auto simp: memory_ops_def)
  show "Replay_op memory_ops t q i s = (r1, s') \<Longrightarrow>
      mem_inv s' \<and> (\<forall>u. r1 = Inr u \<longrightarrow> i \<in># aDead (mem_view s) q) \<and>
      mem_view s' = on_ok r1 (a_Replay q i (mem_view s)) (mem_view s)"
    using mem_view_Replay [OF q, of t i s r1 s'] mem_inv_Replay [OF inv, of t q i] by (auto simp: memory_ops_def)
  show "Stats_op memory_ops q s = (r2, s') \<Longrightarrow>
      mem_inv s' \<and> mem_view s' = mem_view s \<and> (\<forall>st. r2 = Inr st \<longrightarrow> qDepth st = size (aPend (mem_view s) q))"
    using mem_view_Stats [OF q, of s r2 s'] mem_inv_Stats [OF inv, of q] by (auto simp: memory_ops_def)
qed

text \<open>
  Exclusive delivery. Run the memory backend from empty by any sequence of calls of a client that
  enqueues and dead-letters under fresh identifiers and retries or dead-letters only what it holds.
  Then a batch that \<open>Dequeue\<close> returns holds every identifier once, none of them is in flight at
  another consumer, and all of them are in flight afterwards.
\<close>

theorem mem_delivery_exclusive:
  assumes "store_reach memory_ops mem_view NewMemory m" "user_queue q" "0 < limit"
    "mem_Dequeue t q limit m = (Inr out, m')"
  shows "distinct (map mID out) \<and> set (map mID out) \<inter> mem_inflight m q = {} \<and>
    set (map mID out) \<subseteq> mem_inflight m' q"
proof -
  have "exclusive (mem_view NewMemory)" by (simp add: exclusive_def places_def NewMemory_def)
  moreover have "Dequeue_op memory_ops t q limit m = (Inr out, m')" by (simp add: memory_ops_def assms(4))
  ultimately show ?thesis
    using mem.delivery_exclusive [OF assms(1) mem_inv_NewMemory _ assms(2,3)] by simp
qed

theorem mem_delivery_exclusive_witness:
  "let m = snd (mem_Enqueue 9 ''orders'' (example_message ''a'' 0 7) NewMemory);
       m' = snd (mem_Dequeue 9 ''orders'' 5 m)
   in mem_inflight m ''orders'' \<inter> {''a''} = {} \<and> ''a'' \<in> mem_inflight m' ''orders''"
proof -
  let ?m = "snd (mem_Enqueue 9 ''orders'' (example_message ''a'' 0 7) NewMemory)"
  let ?m' = "snd (mem_Dequeue 9 ''orders'' 5 ?m)"
  have u: "user_queue ''orders''" by (auto simp: user_queue_def strings_HasSuffix_def simp del: HasSuffix_iff)
  have "store_step memory_ops mem_view NewMemory (snd (Enqueue_op memory_ops 9 ''orders'' (example_message ''a'' 0 7) NewMemory))"
    by (rule st_Enqueue [OF u]) (simp add: fresh_id_def NewMemory_def)
  then have reach: "store_reach memory_ops mem_view NewMemory ?m" by (auto simp: memory_ops_def)
  have "mem_Dequeue 9 ''orders'' 5 ?m = (Inr [example_message ''a'' 0 7], ?m')"
    by (simp add: mem_Dequeue_def example_simps sort_pending_def SliceStable_def)
  from mem_delivery_exclusive [OF reach u _ this] show ?thesis
    by (simp add: Let_def example_message_def)
qed

subsection \<open>Schedules\<close>

text \<open>What the schedule loop relies on: looking for due schedules changes nothing, and running one adds at
  most the one message it announces.\<close>

locale schedule_store = queue_store +
  fixes sops :: "'a schedule_ops"
  assumes CreateSchedule_law: "inv s \<Longrightarrow> CreateSchedule_op sops sc s = (r5, s') \<Longrightarrow> inv s' \<and> view s' = view s"
    and DeleteSchedule_law: "inv s \<Longrightarrow> DeleteSchedule_op sops jid s = (r5, s') \<Longrightarrow> inv s' \<and> view s' = view s"
    and ListSchedules_law: "inv s \<Longrightarrow> ListSchedules_op sops qn s = (r3, s') \<Longrightarrow> inv s' \<and> view s' = view s"
    and DueSchedules_law: "inv s \<Longrightarrow> DueSchedules_op sops now l s = (r3, s') \<Longrightarrow> inv s' \<and> view s' = view s"
    and RunSchedule_law: "inv s \<Longrightarrow> user_queue (sQueue sc) \<Longrightarrow> RunSchedule_op sops clk nid sc now nxt s = (r4, s') \<Longrightarrow>
      inv s' \<and> (view s' = view s \<or> view s' = a_Enqueue (sQueue sc) nid (view s))"

lemma mem_view_RunSchedule:
  assumes "user_queue (sQueue sc)" "mem_RunSchedule clk nid sc now nxt m = (r, m')"
  shows "mem_view m' = mem_view m \<or> mem_view m' = a_Enqueue (sQueue sc) nid (mem_view m)"
  using assms user_queue_neq_dlq [OF assms(1)]
  by (auto simp: mem_RunSchedule_def Let_def a_defs split: option.splits if_splits intro!: qabs_eqI)

interpretation mems: schedule_store memory_ops mem_inv mem_view "memory_schedule_ops ks" for ks
proof unfold_locales
  fix s s' :: memory and now l r3 sc clk nid nxt r4 r5 jid qn
  assume inv: "mem_inv s"
  show "mem_inv s' \<and> mem_view s' = mem_view s" if "CreateSchedule_op (memory_schedule_ops ks) sc s = (r5, s')"
    using that mem_inv_CreateSchedule [OF inv, of sc]
    by (auto simp: memory_schedule_ops_def mem_CreateSchedule_def mem_view_def split: if_splits)
  show "mem_inv s' \<and> mem_view s' = mem_view s" if "DeleteSchedule_op (memory_schedule_ops ks) jid s = (r5, s')"
    using that mem_inv_DeleteSchedule [OF inv, of jid]
    by (auto simp: memory_schedule_ops_def mem_DeleteSchedule_def mem_view_def)
  show "mem_inv s' \<and> mem_view s' = mem_view s" if "ListSchedules_op (memory_schedule_ops ks) qn s = (r3, s')"
    using that inv by (auto simp: memory_schedule_ops_def mem_ListSchedules_def)
  show "mem_inv s' \<and> mem_view s' = mem_view s" if "DueSchedules_op (memory_schedule_ops ks) now l s = (r3, s')"
    using that inv by (auto simp: memory_schedule_ops_def mem_DueSchedules_def split: if_splits)
  show "mem_inv s' \<and> (mem_view s' = mem_view s \<or> mem_view s' = a_Enqueue (sQueue sc) nid (mem_view s))"
    if "user_queue (sQueue sc)" "RunSchedule_op (memory_schedule_ops ks) clk nid sc now nxt s = (r4, s')"
    using that mem_view_RunSchedule [OF that(1), of clk nid now nxt s r4 s'] mem_inv_RunSchedule [OF inv, of clk nid sc now nxt]
    by (auto simp: memory_schedule_ops_def)
qed

end
