(* ===== verification/Dedupe.thy ===== *)
theory Dedupe
  imports Naming "HOL-Library.AList"
begin

text \<open>
  File \<open>internal/broker/dedupe.go\<close>: the two in-memory stores that suppress duplicate enqueues.

  A Go map whose length the code reads is an association list with distinct keys. In the LRU store
  the map and the linked list share \<open>list.Element\<close> pointers: an element is an address with its
  immutable value, and the operations of \<open>container/list\<close> compare addresses. The locale
  \<open>dedupe_window\<close> states what the broker relies on; both stores are interpreted into it, and the
  TTL store also into \<open>dedupe_exact\<close>, which rules out early forgetting.
\<close>

definition DefaultDedupeTTL :: duration where
  "DefaultDedupeTTL = 5 * (60 * second)"

definition DefaultDedupeCapacity :: int where
  "DefaultDedupeCapacity = 100000"

record dedupe_options =
  doPolicy :: string
  doCapacity :: int

type_synonym ttl_store = "(string \<times> time) list"

definition newTTLDedupeStore :: ttl_store where
  "newTTLDedupeStore = []"

definition ttl_SeenOrAdd :: "time \<Rightarrow> string \<Rightarrow> duration \<Rightarrow> ttl_store \<Rightarrow> bool \<times> ttl_store" where
  "ttl_SeenOrAdd now key ttl seen =
     (let add = (let seen = AList.update key (time_add now ttl) seen
                 in if length seen > 1024 then filter (\<lambda>(k, exp). now < exp) seen else seen)
      in case map_of seen key of
           Some exp \<Rightarrow> if now < exp then (True, seen) else (False, add)
         | None \<Rightarrow> (False, add))"

definition ttl_Delete :: "string \<Rightarrow> ttl_store \<Rightarrow> ttl_store" where
  "ttl_Delete key seen = AList.delete key seen"

definition ttl_Len :: "ttl_store \<Rightarrow> nat" where
  "ttl_Len seen = length seen"

definition ttl_purgeQueue :: "string \<Rightarrow> ttl_store \<Rightarrow> ttl_store" where
  "ttl_purgeQueue queue seen =
     (let pre = queue @ '':'' in filter (\<lambda>(k, exp). \<not> strings_HasPrefix k pre) seen)"

record dedupe_entry =
  entry_key :: string
  entry_expiresAt :: time

record element =
  el_addr :: nat
  el_value :: dedupe_entry

record lru_store =
  lru_capacity :: int
  lru_items :: "(string \<times> element) list"
  lru_list :: "element list"
  lru_fresh :: nat
  lru_evictions :: nat

definition newLRUDedupeStore :: "int \<Rightarrow> lru_store" where
  "newLRUDedupeStore capacity =
     \<lparr>lru_capacity = (if capacity \<le> 0 then DefaultDedupeCapacity else capacity),
      lru_items = [], lru_list = [], lru_fresh = 0, lru_evictions = 0\<rparr>"

text \<open>\<open>container/list\<close>: \<open>Remove\<close>, \<open>MoveToFront\<close>, \<open>PushFront\<close> with a fresh address.\<close>

definition list_Remove :: "element \<Rightarrow> element list \<Rightarrow> element list" where
  "list_Remove e l = filter (\<lambda>x. el_addr x \<noteq> el_addr e) l"

definition list_MoveToFront :: "element \<Rightarrow> element list \<Rightarrow> element list" where
  "list_MoveToFront e l = e # list_Remove e l"

definition lru_PushFront :: "dedupe_entry \<Rightarrow> lru_store \<Rightarrow> element \<times> lru_store" where
  "lru_PushFront v d =
     (let e = \<lparr>el_addr = lru_fresh d, el_value = v\<rparr>
      in (e, d\<lparr>lru_list := e # lru_list d, lru_fresh := Suc (lru_fresh d)\<rparr>))"

text \<open>The part of \<open>SeenOrAdd\<close> after the lookup: insert, and evict the oldest entry if the map is full.\<close>

definition lru_add :: "time \<Rightarrow> string \<Rightarrow> duration \<Rightarrow> lru_store \<Rightarrow> lru_store" where
  "lru_add now key ttl d =
     (let (e, d) = lru_PushFront \<lparr>entry_key = key, entry_expiresAt = time_add now ttl\<rparr> d;
          d = d\<lparr>lru_items := AList.update key e (lru_items d)\<rparr>
      in if int (length (lru_items d)) > lru_capacity d
         then let oldest = last (lru_list d)
              in d\<lparr>lru_items := AList.delete (entry_key (el_value oldest)) (lru_items d),
                   lru_list := list_Remove oldest (lru_list d),
                   lru_evictions := Suc (lru_evictions d)\<rparr>
         else d)"

definition lru_SeenOrAdd :: "time \<Rightarrow> string \<Rightarrow> duration \<Rightarrow> lru_store \<Rightarrow> bool \<times> lru_store" where
  "lru_SeenOrAdd now key ttl d =
     (case map_of (lru_items d) key of
        Some e \<Rightarrow>
          if now < entry_expiresAt (el_value e)
          then (True, d\<lparr>lru_list := list_MoveToFront e (lru_list d)\<rparr>)
          else (False, lru_add now key ttl
                  (d\<lparr>lru_list := list_Remove e (lru_list d),
                     lru_items := AList.delete key (lru_items d)\<rparr>))
      | None \<Rightarrow> (False, lru_add now key ttl d))"

definition lru_Delete :: "string \<Rightarrow> lru_store \<Rightarrow> lru_store" where
  "lru_Delete key d =
     (case map_of (lru_items d) key of
        Some e \<Rightarrow> d\<lparr>lru_list := list_Remove e (lru_list d), lru_items := AList.delete key (lru_items d)\<rparr>
      | None \<Rightarrow> d)"

definition lru_Len :: "lru_store \<Rightarrow> nat" where
  "lru_Len d = length (lru_items d)"

text \<open>The loop of \<open>purgeQueue\<close> over the keys and elements of the map.\<close>

fun lru_purge_loop :: "string \<Rightarrow> (string \<times> element) list \<Rightarrow> lru_store \<Rightarrow> lru_store" where
  "lru_purge_loop pre [] d = d"
| "lru_purge_loop pre ((key, e) # items) d =
     lru_purge_loop pre items
       (if strings_HasPrefix key pre
        then d\<lparr>lru_list := list_Remove e (lru_list d), lru_items := AList.delete key (lru_items d)\<rparr>
        else d)"

definition lru_purgeQueue :: "string \<Rightarrow> lru_store \<Rightarrow> lru_store" where
  "lru_purgeQueue queue d = lru_purge_loop (queue @ '':'') (lru_items d) d"

text \<open>The interface value the broker holds.\<close>

datatype dedupe_store = TTL ttl_store | LRU lru_store

fun SeenOrAdd :: "time \<Rightarrow> string \<Rightarrow> duration \<Rightarrow> dedupe_store \<Rightarrow> bool \<times> dedupe_store" where
  "SeenOrAdd now key ttl (TTL d) = (let (b, d') = ttl_SeenOrAdd now key ttl d in (b, TTL d'))"
| "SeenOrAdd now key ttl (LRU d) = (let (b, d') = lru_SeenOrAdd now key ttl d in (b, LRU d'))"

fun dedupe_Delete :: "string \<Rightarrow> dedupe_store \<Rightarrow> dedupe_store" where
  "dedupe_Delete key (TTL d) = TTL (ttl_Delete key d)"
| "dedupe_Delete key (LRU d) = LRU (lru_Delete key d)"

fun dedupe_Len :: "dedupe_store \<Rightarrow> nat" where
  "dedupe_Len (TTL d) = ttl_Len d"
| "dedupe_Len (LRU d) = lru_Len d"

fun purgeQueue :: "string \<Rightarrow> dedupe_store \<Rightarrow> dedupe_store" where
  "purgeQueue queue (TTL d) = TTL (ttl_purgeQueue queue d)"
| "purgeQueue queue (LRU d) = LRU (lru_purgeQueue queue d)"

definition newDedupeStore :: "dedupe_options \<Rightarrow> dedupe_store result" where
  "newDedupeStore opts =
     (let policy = (if doPolicy opts = '''' then ''unbounded_ttl'' else doPolicy opts)
      in if policy = ''unbounded_ttl'' then Inr (TTL newTTLDedupeStore)
         else if policy = ''bounded_lru'' then Inr (LRU (newLRUDedupeStore (doCapacity opts)))
         else Inl (ErrMsg (''shoebox: unsupported dedupe policy '' @ strconv_Quote policy)))"

subsection \<open>What the broker relies on\<close>

text \<open>
  \<open>live t k d\<close>: an enqueue with key \<open>k\<close> at time \<open>t\<close> is a duplicate. A store answers by liveness,
  makes a new key live for its window, never makes another key live, and forgets a deleted key.
\<close>

locale dedupe_window =
  fixes inv :: "'d \<Rightarrow> bool"
    and live :: "time \<Rightarrow> string \<Rightarrow> 'd \<Rightarrow> bool"
    and seen_or_add :: "time \<Rightarrow> string \<Rightarrow> duration \<Rightarrow> 'd \<Rightarrow> bool \<times> 'd"
    and del :: "string \<Rightarrow> 'd \<Rightarrow> 'd"
  assumes inv_seen_or_add: "inv d \<Longrightarrow> inv (snd (seen_or_add now k ttl d))"
    and inv_del: "inv d \<Longrightarrow> inv (del k d)"
    and seen_iff: "inv d \<Longrightarrow> fst (seen_or_add now k ttl d) = live now k d"
    and added: "inv d \<Longrightarrow> \<not> live now k d \<Longrightarrow> now \<le> t \<Longrightarrow>
      live t k (snd (seen_or_add now k ttl d)) = (t < time_add now ttl)"
    and seen_kept: "inv d \<Longrightarrow> live now k d \<Longrightarrow> live t k' (snd (seen_or_add now k ttl d)) = live t k' d"
    and no_spurious: "inv d \<Longrightarrow> k' \<noteq> k \<Longrightarrow> live t k' (snd (seen_or_add now k ttl d)) \<Longrightarrow> live t k' d"
    and del_live: "inv d \<Longrightarrow> live t k' (del k d) = (k' \<noteq> k \<and> live t k' d)"
begin

text \<open>A key seen at \<open>now\<close> is a duplicate at every later time inside its window, and not after it.\<close>

lemma duplicate_in_window:
  assumes "inv d" "\<not> live now k d" "now \<le> t"
  shows "fst (seen_or_add t k ttl' (snd (seen_or_add now k ttl d))) = (t < time_add now ttl)"
  using assms by (simp add: seen_iff inv_seen_or_add added)

text \<open>Deleting a key that was just added gives the answers of the store before the addition.\<close>

lemma rollback_forgets:
  assumes "inv d" "\<not> live now k d"
  shows "\<not> fst (seen_or_add t k ttl' (del k (snd (seen_or_add now k ttl d))))"
  using assms by (simp add: seen_iff inv_seen_or_add inv_del del_live)

end

text \<open>
  The reference of an exact store: a map that is never swept. \<open>answers\<close> runs a sequence of
  calls with their clock readings and collects what they return.
\<close>

definition map_SeenOrAdd :: "time \<Rightarrow> string \<Rightarrow> duration \<Rightarrow> (string \<rightharpoonup> time) \<Rightarrow> bool \<times> (string \<rightharpoonup> time)" where
  "map_SeenOrAdd now key ttl r =
     (if \<exists>exp. r key = Some exp \<and> now < exp then (True, r) else (False, r(key \<mapsto> time_add now ttl)))"

fun answers :: "(time \<Rightarrow> string \<Rightarrow> duration \<Rightarrow> 'd \<Rightarrow> bool \<times> 'd) \<Rightarrow>
    (time \<times> string \<times> duration) list \<Rightarrow> 'd \<Rightarrow> bool list" where
  "answers f [] d = []"
| "answers f ((now, k, ttl) # ops) d = fst (f now k ttl d) # answers f ops (snd (f now k ttl d))"

definition map_live :: "time \<Rightarrow> string \<Rightarrow> (string \<rightharpoonup> time) \<Rightarrow> bool" where
  "map_live t k r \<longleftrightarrow> (\<exists>exp. r k = Some exp \<and> t < exp)"

locale dedupe_exact = dedupe_window +
  assumes kept: "inv d \<Longrightarrow> k' \<noteq> k \<Longrightarrow> now \<le> t \<Longrightarrow>
    live t k' (snd (seen_or_add now k ttl d)) = live t k' d"
begin

lemma answers_exact:
  assumes "inv d" "\<And>t k. lo \<le> t \<Longrightarrow> live t k d = map_live t k r"
    "sorted (map fst ops)" "\<And>x. x \<in> set ops \<Longrightarrow> lo \<le> fst x"
  shows "answers seen_or_add ops d = answers map_SeenOrAdd ops r"
  using assms
proof (induction ops arbitrary: lo d r)
  case (Cons op ops)
  obtain now k ttl where op: "op = (now, k, ttl)" by (metis prod_cases3)
  with Cons.prems(4) [of op] have lo: "lo \<le> now" by simp
  let ?d = "snd (seen_or_add now k ttl d)" and ?r = "snd (map_SeenOrAdd now k ttl r)"
  have live: "live now k d = map_live now k r" using Cons.prems(2) lo by blast
  have "live t k' ?d = map_live t k' ?r" if "now \<le> t" for t k'
  proof (cases "live now k d")
    case True
    then have "?r = r" using live by (simp add: map_SeenOrAdd_def map_live_def)
    with True that lo Cons.prems(1,2) show ?thesis by (simp add: seen_kept)
  next
    case False
    then have r: "?r = r(k \<mapsto> time_add now ttl)"
      using live by (auto simp: map_SeenOrAdd_def map_live_def)
    show ?thesis
    proof (cases "k' = k")
      case True
      with False that Cons.prems(1) r show ?thesis by (simp add: added map_live_def)
    next
      case neq: False
      with that Cons.prems(1) have "live t k' ?d = live t k' d" by (simp add: kept)
      with neq that lo Cons.prems(2) r show ?thesis by (simp add: map_live_def)
    qed
  qed
  then have "answers seen_or_add ops ?d = answers map_SeenOrAdd ops ?r"
    using Cons.prems(3,4) op by (intro Cons.IH [of _ now] inv_seen_or_add Cons.prems(1)) auto
  moreover have "fst (seen_or_add now k ttl d) = fst (map_SeenOrAdd now k ttl r)"
    using live Cons.prems(1) by (simp add: seen_iff map_SeenOrAdd_def map_live_def)
  ultimately show ?case by (simp add: op)
qed simp

end

subsection \<open>The TTL store\<close>

definition ttl_inv :: "ttl_store \<Rightarrow> bool" where
  "ttl_inv seen \<longleftrightarrow> distinct (map fst seen)"

definition ttl_live :: "time \<Rightarrow> string \<Rightarrow> ttl_store \<Rightarrow> bool" where
  "ttl_live t k seen \<longleftrightarrow> (case map_of seen k of Some exp \<Rightarrow> t < exp | None \<Rightarrow> False)"

lemma map_of_filter_live:
  assumes "distinct (map fst seen)"
  shows "map_of (filter (\<lambda>(k, exp). P k exp) seen) k =
    (case map_of seen k of Some exp \<Rightarrow> if P k exp then Some exp else None | None \<Rightarrow> None)"
  using assms
proof (induction seen)
  case (Cons p seen)
  then have "k = fst p \<Longrightarrow> map_of seen k = None" by (simp add: map_of_eq_None_iff)
  with Cons show ?case by (cases p) (auto split: option.split)
qed simp

lemma distinct_map_fst_filter: "distinct (map fst xs) \<Longrightarrow> distinct (map fst (filter P xs))"
  by (simp add: distinct_map_filter)

interpretation ttl: dedupe_exact ttl_inv ttl_live ttl_SeenOrAdd ttl_Delete
proof unfold_locales
  fix d now k ttl k' t
  assume d: "ttl_inv d"
  have upd: "distinct (map fst (AList.update k v d))" for v
    using d by (simp add: ttl_inv_def distinct_update)
  show "ttl_inv (snd (ttl_SeenOrAdd now k ttl d))"
    using d upd
    by (auto simp: ttl_SeenOrAdd_def Let_def ttl_inv_def distinct_map_fst_filter split: option.split)
  show "fst (ttl_SeenOrAdd now k ttl d) = ttl_live now k d"
    by (auto simp: ttl_SeenOrAdd_def Let_def ttl_live_def split: option.split)
  show "ttl_live t k' (snd (ttl_SeenOrAdd now k ttl d)) = ttl_live t k' d" if "ttl_live now k d"
    using that
    by (auto simp: ttl_SeenOrAdd_def Let_def ttl_live_def split: option.splits if_splits)
  show "ttl_live t k (snd (ttl_SeenOrAdd now k ttl d)) = (t < time_add now ttl)"
    if "\<not> ttl_live now k d" "now \<le> t"
    using that upd
    by (auto simp: ttl_SeenOrAdd_def Let_def ttl_live_def map_of_filter_live update_conv'
        split: option.splits if_splits)
  show "ttl_live t k' (snd (ttl_SeenOrAdd now k ttl d)) = ttl_live t k' d" if "k' \<noteq> k" "now \<le> t"
    using that upd
    by (auto simp: ttl_SeenOrAdd_def Let_def ttl_live_def map_of_filter_live update_conv'
        split: option.splits if_splits)
  show "ttl_live t k' d" if "k' \<noteq> k" "ttl_live t k' (snd (ttl_SeenOrAdd now k ttl d))"
    using that upd
    by (auto simp: ttl_SeenOrAdd_def Let_def ttl_live_def map_of_filter_live update_conv'
        split: option.splits if_splits)
  show "ttl_inv (ttl_Delete k d)"
    using d by (simp add: ttl_inv_def ttl_Delete_def distinct_delete)
  show "ttl_live t k' (ttl_Delete k d) = (k' \<noteq> k \<and> ttl_live t k' d)"
    by (auto simp: ttl_live_def ttl_Delete_def delete_conv' split: option.splits)
qed

subsection \<open>The LRU store\<close>

text \<open>
  The map and the list hold the same elements, one per key, at distinct addresses. The abstraction
  is the list of keys with their expiry, most recently used first.
\<close>

abbreviation el_key :: "element \<Rightarrow> string" where
  "el_key e \<equiv> entry_key (el_value e)"

definition el_pair :: "element \<Rightarrow> string \<times> time" where
  "el_pair e = (el_key e, entry_expiresAt (el_value e))"

definition lru_abs :: "lru_store \<Rightarrow> (string \<times> time) list" where
  "lru_abs d = map el_pair (lru_list d)"

definition lru_wf :: "lru_store \<Rightarrow> bool" where
  "lru_wf d \<longleftrightarrow> distinct (map el_addr (lru_list d)) \<and> (\<forall>e \<in> set (lru_list d). el_addr e < lru_fresh d) \<and>
     distinct (map el_key (lru_list d)) \<and> distinct (map fst (lru_items d)) \<and>
     set (lru_items d) = (\<lambda>e. (el_key e, e)) ` set (lru_list d)"

definition lru_inv :: "lru_store \<Rightarrow> bool" where
  "lru_inv d \<longleftrightarrow> lru_wf d \<and> 0 < lru_capacity d \<and> int (length (lru_list d)) \<le> lru_capacity d"

text \<open>The reference: an LRU cache as a list of key and expiry.\<close>

definition lru_spec_add :: "int \<Rightarrow> time \<Rightarrow> string \<Rightarrow> duration \<Rightarrow> (string \<times> time) list \<Rightarrow> (string \<times> time) list" where
  "lru_spec_add cap now key ttl xs =
     (if int (length xs) < cap then (key, time_add now ttl) # xs else (key, time_add now ttl) # butlast xs)"

definition lru_spec :: "int \<Rightarrow> time \<Rightarrow> string \<Rightarrow> duration \<Rightarrow> (string \<times> time) list \<Rightarrow> bool \<times> (string \<times> time) list" where
  "lru_spec cap now key ttl xs =
     (case map_of xs key of
        Some exp \<Rightarrow> if now < exp then (True, (key, exp) # AList.delete key xs)
                    else (False, lru_spec_add cap now key ttl (AList.delete key xs))
      | None \<Rightarrow> (False, lru_spec_add cap now key ttl xs))"

lemma lru_wf_lookup:
  assumes "lru_wf d"
  shows "map_of (lru_items d) k = Some e \<longleftrightarrow> e \<in> set (lru_list d) \<and> el_key e = k"
proof -
  have "map_of (lru_items d) k = Some e \<longleftrightarrow> (k, e) \<in> set (lru_items d)"
    using assms by (auto simp: lru_wf_def)
  also have "\<dots> \<longleftrightarrow> e \<in> set (lru_list d) \<and> el_key e = k"
    using assms by (auto simp: lru_wf_def)
  finally show ?thesis .
qed

lemma lru_wf_lookup_None:
  "lru_wf d \<Longrightarrow> map_of (lru_items d) k = None \<longleftrightarrow> k \<notin> el_key ` set (lru_list d)"
proof -
  assume d: "lru_wf d"
  have "map_of (lru_items d) k = None \<longleftrightarrow> (\<forall>e. map_of (lru_items d) k \<noteq> Some e)"
    by (metis not_None_eq)
  also have "\<dots> \<longleftrightarrow> k \<notin> el_key ` set (lru_list d)"
    using lru_wf_lookup [OF d, of k] by auto
  finally show ?thesis .
qed

lemma lru_wf_addr_key:
  assumes "lru_wf d" "x \<in> set (lru_list d)" "e \<in> set (lru_list d)"
  shows "el_addr x = el_addr e \<longleftrightarrow> x = e" "el_key x = el_key e \<longleftrightarrow> x = e"
  using assms by (auto simp: lru_wf_def distinct_map dest: inj_onD)

lemma lru_wf_length: "lru_wf d \<Longrightarrow> length (lru_items d) = length (lru_list d)"
proof -
  assume d: "lru_wf d"
  then have "length (lru_items d) = card (set (lru_items d))"
    by (metis distinct_card distinct_map lru_wf_def)
  also have "\<dots> = card (set (lru_list d))"
    using d by (auto simp: lru_wf_def intro!: card_image inj_onI)
  also have "\<dots> = length (lru_list d)"
    using d by (metis distinct_card distinct_map lru_wf_def)
  finally show ?thesis .
qed

lemma lru_abs_lookup:
  assumes "lru_wf d"
  shows "map_of (lru_abs d) k =
    map_option (\<lambda>e. entry_expiresAt (el_value e)) (map_of (lru_items d) k)"
proof (cases "map_of (lru_items d) k")
  case None
  then have "k \<notin> el_key ` set (lru_list d)" using lru_wf_lookup_None [OF assms] by blast
  then have "map_of (lru_abs d) k = None"
    by (auto simp: map_of_eq_None_iff lru_abs_def el_pair_def)
  with None show ?thesis by simp
next
  case (Some e)
  with assms have e: "e \<in> set (lru_list d)" "el_key e = k" by (auto simp: lru_wf_lookup)
  have "distinct (map fst (lru_abs d))"
    using assms by (simp add: lru_wf_def lru_abs_def el_pair_def comp_def)
  moreover have "(k, entry_expiresAt (el_value e)) \<in> set (lru_abs d)"
    using e by (force simp: lru_abs_def el_pair_def)
  ultimately show ?thesis by (simp add: Some)
qed

lemma lru_abs_Remove:
  assumes "lru_wf d" "e \<in> set (lru_list d)"
  shows "map el_pair (list_Remove e (lru_list d)) = AList.delete (el_key e) (lru_abs d)"
proof -
  have "list_Remove e (lru_list d) = filter (\<lambda>x. el_key x \<noteq> el_key e) (lru_list d)"
    unfolding list_Remove_def using lru_wf_addr_key [OF assms(1) _ assms(2)]
    by (intro filter_cong) auto
  then show ?thesis
    by (simp add: lru_abs_def AList.delete_eq filter_map comp_def el_pair_def split_beta eq_commute)
qed

lemma lru_wf_Remove:
  assumes "lru_wf d" "map_of (lru_items d) k = Some e"
  shows "lru_wf (d\<lparr>lru_list := list_Remove e (lru_list d), lru_items := AList.delete k (lru_items d)\<rparr>)"
    (is "lru_wf ?d")
proof -
  have e: "e \<in> set (lru_list d)" "el_key e = k" using assms by (auto simp: lru_wf_lookup)
  have "set (list_Remove e (lru_list d)) = set (lru_list d) - {e}"
    using lru_wf_addr_key(1) [OF assms(1) _ e(1)] by (auto simp: list_Remove_def)
  moreover have "set (AList.delete k (lru_items d)) = (\<lambda>e. (el_key e, e)) ` (set (lru_list d) - {e})"
    using assms(1) lru_wf_addr_key(2) [OF assms(1) _ e(1)] e
    by (auto simp: AList.delete_eq lru_wf_def)
  ultimately show ?thesis
    using assms(1) by (simp add: lru_wf_def distinct_map_filter list_Remove_def distinct_delete)
qed

lemma update_absent: "map_of xs k = None \<Longrightarrow> AList.update k v xs = xs @ [(k, v)]"
  by (induction xs) (auto split: if_splits)

lemma delete_absent: "k \<notin> fst ` set xs \<Longrightarrow> AList.delete k xs = xs"
  by (induction xs) auto

lemma delete_last:
  assumes "distinct (map fst xs)" "xs \<noteq> []"
  shows "AList.delete (fst (last xs)) xs = butlast xs"
  using assms
proof (induction xs rule: rev_induct)
  case (snoc x xs)
  then have "fst x \<notin> fst ` set xs" by simp
  then have "AList.delete (fst x) xs = xs" by (rule delete_absent)
  then show ?case by (cases x) (simp add: AList.delete_eq)
qed simp

lemma lru_wf_add:
  assumes "lru_wf d" "map_of (lru_items d) k = None" "int (length (lru_list d)) \<le> lru_capacity d"
    "0 < lru_capacity d"
  shows "lru_wf (lru_add now k ttl d)"
    and "lru_abs (lru_add now k ttl d) = lru_spec_add (lru_capacity d) now k ttl (lru_abs d)"
    and "lru_capacity (lru_add now k ttl d) = lru_capacity d"
proof -
  let ?e = "\<lparr>el_addr = lru_fresh d, el_value = \<lparr>entry_key = k, entry_expiresAt = time_add now ttl\<rparr>\<rparr>"
  let ?d = "d\<lparr>lru_list := ?e # lru_list d, lru_fresh := Suc (lru_fresh d),
              lru_items := AList.update k ?e (lru_items d)\<rparr>"
  have upd: "AList.update k ?e (lru_items d) = lru_items d @ [(k, ?e)]"
    using assms(2) by (intro update_absent)
  have wf: "lru_wf ?d"
    using assms(1,2) unfolding upd
    by (auto simp: lru_wf_def lru_wf_lookup_None [OF assms(1)] less_Suc_eq)
  have add: "lru_add now k ttl d =
    (if int (length (lru_list d)) < lru_capacity d then ?d
     else let z = last (?e # lru_list d) in
       ?d\<lparr>lru_items := AList.delete (el_key z) (lru_items ?d),
           lru_list := list_Remove z (lru_list ?d), lru_evictions := Suc (lru_evictions d)\<rparr>)"
    using lru_wf_length [OF wf] by (simp add: lru_add_def lru_PushFront_def Let_def)
  show "lru_capacity (lru_add now k ttl d) = lru_capacity d"
    by (simp add: lru_add_def lru_PushFront_def Let_def)
  have abs: "lru_abs ?d = (k, time_add now ttl) # lru_abs d"
    by (simp add: lru_abs_def el_pair_def)
  have "lru_wf (lru_add now k ttl d) \<and>
        lru_abs (lru_add now k ttl d) = lru_spec_add (lru_capacity d) now k ttl (lru_abs d)"
  proof (cases "int (length (lru_list d)) < lru_capacity d")
    case True
    with wf abs show ?thesis by (simp add: add lru_spec_add_def lru_abs_def)
  next
    case False
    let ?z = "last (?e # lru_list d)"
    have ne: "lru_list d \<noteq> []" using False assms(4) by auto
    have z: "?z \<in> set (lru_list ?d)" by simp
    then have "map_of (lru_items ?d) (el_key ?z) = Some ?z"
      using lru_wf_lookup [OF wf] by blast
    from lru_wf_Remove [OF wf this] have wf': "lru_wf (lru_add now k ttl d)"
      using False by (simp add: add Let_def lru_wf_def)
    have "lru_abs (lru_add now k ttl d) = AList.delete (fst (last (lru_abs ?d))) (lru_abs ?d)"
      using False lru_abs_Remove [OF wf z] ne
      by (simp add: add Let_def lru_abs_def last_map el_pair_def)
    also have "\<dots> = butlast (lru_abs ?d)"
      using wf by (intro delete_last) (simp_all add: lru_wf_def lru_abs_def el_pair_def comp_def)
    finally show ?thesis
      using wf' False ne abs by (simp add: lru_spec_add_def lru_abs_def)
  qed
  then show "lru_wf (lru_add now k ttl d)"
    and "lru_abs (lru_add now k ttl d) = lru_spec_add (lru_capacity d) now k ttl (lru_abs d)"
    by auto
qed

lemma length_lru_abs [simp]: "length (lru_abs d) = length (lru_list d)"
  by (simp add: lru_abs_def)

lemma length_lru_spec_add:
  "0 < cap \<Longrightarrow> int (length xs) \<le> cap \<Longrightarrow> int (length (lru_spec_add cap now k ttl xs)) \<le> cap"
  by (auto simp: lru_spec_add_def)

lemma length_delete_le: "length (AList.delete k xs) \<le> length xs"
  by (simp add: AList.delete_eq)

lemma length_delete_less: "map_of xs k = Some v \<Longrightarrow> length (AList.delete k xs) < length xs"
  unfolding AList.delete_eq
  by (rule length_filter_less [of "(k, v)"]) (auto dest: map_of_SomeD)

lemma lru_SeenOrAdd_refines:
  assumes "lru_inv d" "lru_SeenOrAdd now k ttl d = (b, d')"
  shows "lru_inv d'" "lru_spec (lru_capacity d) now k ttl (lru_abs d) = (b, lru_abs d')"
proof -
  from assms(1) have wf: "lru_wf d" and cap: "0 < lru_capacity d" "int (length (lru_list d)) \<le> lru_capacity d"
    by (auto simp: lru_inv_def)
  have "lru_inv d' \<and> lru_spec (lru_capacity d) now k ttl (lru_abs d) = (b, lru_abs d')"
  proof (cases "map_of (lru_items d) k")
    case None
    note add = lru_wf_add [OF wf None cap(2,1), of now ttl]
    have "map_of (lru_abs d) k = None" by (simp add: lru_abs_lookup [OF wf] None)
    moreover have "d' = lru_add now k ttl d" "\<not> b" using assms(2) None by (auto simp: lru_SeenOrAdd_def)
    ultimately show ?thesis
      using add cap length_lru_spec_add [of "lru_capacity d" "lru_abs d" now k ttl]
      by (simp add: lru_inv_def lru_spec_def flip: length_lru_abs)
  next
    case (Some e)
    then have e: "e \<in> set (lru_list d)" "el_key e = k" using lru_wf_lookup [OF wf] by auto
    let ?r = "d\<lparr>lru_list := list_Remove e (lru_list d), lru_items := AList.delete k (lru_items d)\<rparr>"
    have r: "lru_abs ?r = AList.delete k (lru_abs d)"
      using lru_abs_Remove [OF wf e(1)] e(2) by (simp add: lru_abs_def)
    have lk: "map_of (lru_abs d) k = Some (entry_expiresAt (el_value e))"
      by (simp add: lru_abs_lookup [OF wf] Some)
    have wfr: "lru_wf ?r" by (rule lru_wf_Remove [OF wf Some])
    have len: "length (lru_abs ?r) < length (lru_abs d)" unfolding r by (rule length_delete_less [OF lk])
    show ?thesis
    proof (cases "now < entry_expiresAt (el_value e)")
      case True
      then have d': "b" "d' = d\<lparr>lru_list := e # list_Remove e (lru_list d)\<rparr>"
        using assms(2) Some by (auto simp: lru_SeenOrAdd_def list_MoveToFront_def)
      have "set (e # list_Remove e (lru_list d)) = set (lru_list d)"
        using lru_wf_addr_key(1) [OF wf _ e(1)] e(1) by (auto simp: list_Remove_def)
      moreover have "el_key e \<notin> el_key ` set (list_Remove e (lru_list d))"
        using lru_wf_addr_key(2) [OF wf _ e(1)] by (fastforce simp: list_Remove_def)
      ultimately have "lru_wf d'"
        using wf e(1) unfolding d'
        by (auto simp: lru_wf_def list_Remove_def distinct_map_filter)
      moreover have "lru_abs d' = (k, entry_expiresAt (el_value e)) # AList.delete k (lru_abs d)"
        using r e(2) by (simp add: d' lru_abs_def el_pair_def)
      ultimately show ?thesis
        using d' cap len True lk by (simp add: lru_inv_def lru_spec_def)
    next
      case False
      then have d': "\<not> b" "d' = lru_add now k ttl ?r"
        using assms(2) Some by (auto simp: lru_SeenOrAdd_def)
      have None: "map_of (lru_items ?r) k = None" by (simp add: delete_conv')
      have capr: "int (length (lru_list ?r)) \<le> lru_capacity ?r" "0 < lru_capacity ?r"
        using cap len by auto
      note add = lru_wf_add [OF wfr None capr, of now ttl]
      have cd: "lru_capacity ?r = lru_capacity d" by simp
      have lenr: "int (length (lru_abs ?r)) \<le> lru_capacity d" using cap len by simp
      have "int (length (lru_abs d')) \<le> lru_capacity d"
        unfolding d'(2) add(2) cd by (rule length_lru_spec_add [OF cap(1) lenr])
      then have "lru_inv d'"
        using add(1,3) cap(1) by (simp add: lru_inv_def d'(2))
      moreover have "lru_abs d' = lru_spec_add (lru_capacity d) now k ttl (AList.delete k (lru_abs d))"
        unfolding d'(2) add(2) r cd ..
      ultimately show ?thesis using d'(1) False lk by (simp add: lru_spec_def)
    qed
  qed
  then show "lru_inv d'" "lru_spec (lru_capacity d) now k ttl (lru_abs d) = (b, lru_abs d')" by auto
qed

lemma lru_Delete_refines:
  assumes "lru_inv d"
  shows "lru_inv (lru_Delete k d)" "lru_abs (lru_Delete k d) = AList.delete k (lru_abs d)"
proof -
  from assms have wf: "lru_wf d" by (simp add: lru_inv_def)
  have "lru_inv (lru_Delete k d) \<and> lru_abs (lru_Delete k d) = AList.delete k (lru_abs d)"
  proof (cases "map_of (lru_items d) k")
    case None
    then have "map_of (lru_abs d) k = None" by (simp add: lru_abs_lookup [OF wf])
    then have "AList.delete k (lru_abs d) = lru_abs d"
      by (intro delete_absent) (simp add: map_of_eq_None_iff)
    with assms None show ?thesis by (simp add: lru_Delete_def)
  next
    case (Some e)
    then have e: "e \<in> set (lru_list d)" "el_key e = k" using lru_wf_lookup [OF wf] by auto
    have "length (list_Remove e (lru_list d)) \<le> length (lru_list d)"
      by (simp add: list_Remove_def)
    with assms show ?thesis
      using lru_wf_Remove [OF wf Some] lru_abs_Remove [OF wf e(1)] e(2) Some
      by (auto simp: lru_Delete_def lru_inv_def lru_abs_def)
  qed
  then show "lru_inv (lru_Delete k d)" "lru_abs (lru_Delete k d) = AList.delete k (lru_abs d)" by auto
qed

definition lru_live :: "time \<Rightarrow> string \<Rightarrow> lru_store \<Rightarrow> bool" where
  "lru_live t k d = ttl_live t k (lru_abs d)"

lemma map_of_butlast:
  "distinct (map fst xs) \<Longrightarrow> map_of (butlast xs) k = Some v \<Longrightarrow> map_of xs k = Some v"
  by (simp add: map_of_eq_Some_iff distinct_butlast map_butlast in_set_butlastD)

lemma lru_spec_add_live:
  assumes "distinct (map fst xs)" "k \<notin> fst ` set xs"
  shows "ttl_live t k (lru_spec_add cap now k ttl xs) = (t < time_add now ttl)"
    and "k' \<noteq> k \<Longrightarrow> ttl_live t k' (lru_spec_add cap now k ttl xs) \<Longrightarrow> ttl_live t k' xs"
  using map_of_butlast [OF assms(1), of k']
  by (auto simp: lru_spec_add_def ttl_live_def split: option.splits if_splits)

lemma ttl_live_delete: "ttl_live t k' (AList.delete k xs) = (k' \<noteq> k \<and> ttl_live t k' xs)"
  by (auto simp: ttl_live_def delete_conv' split: option.splits)

lemma lru_inv_distinct: "lru_inv d \<Longrightarrow> distinct (map fst (lru_abs d))"
  by (simp add: lru_inv_def lru_wf_def lru_abs_def el_pair_def comp_def)

lemma lru_spec_cases:
  assumes "distinct (map fst xs)" "lru_spec cap now k ttl xs = (b, ys)"
  obtains (hit) exp where "b" "map_of xs k = Some exp" "now < exp" "ys = (k, exp) # AList.delete k xs"
  | (miss) zs where "\<not> b" "\<not> ttl_live now k xs" "distinct (map fst zs)" "k \<notin> fst ` set zs"
      "\<And>t k'. ttl_live t k' zs \<Longrightarrow> ttl_live t k' xs" "ys = lru_spec_add cap now k ttl zs"
proof (cases "map_of xs k")
  case None
  then have "k \<notin> fst ` set xs" by (simp add: map_of_eq_None_iff)
  with None assms miss [of xs] show ?thesis by (auto simp: lru_spec_def ttl_live_def)
next
  case (Some exp)
  have "k \<notin> fst ` set (AList.delete k xs)" by (auto simp: AList.delete_eq)
  with Some assms hit [of exp] miss [of "AList.delete k xs"] show ?thesis
    by (cases "now < exp") (simp_all add: lru_spec_def distinct_delete ttl_live_delete, simp add: ttl_live_def)
qed

lemma lru_spec_window:
  assumes "distinct (map fst xs)" "lru_spec cap now k ttl xs = (b, ys)"
  shows "b = ttl_live now k xs"
    and "\<not> b \<Longrightarrow> ttl_live t k ys = (t < time_add now ttl)"
    and "b \<Longrightarrow> ttl_live t k' ys = ttl_live t k' xs"
    and "k' \<noteq> k \<Longrightarrow> ttl_live t k' ys \<Longrightarrow> ttl_live t k' xs"
proof -
  have "b = ttl_live now k xs \<and> (\<not> b \<longrightarrow> ttl_live t k ys = (t < time_add now ttl)) \<and>
    (b \<longrightarrow> ttl_live t k' ys = ttl_live t k' xs) \<and> (k' \<noteq> k \<longrightarrow> ttl_live t k' ys \<longrightarrow> ttl_live t k' xs)"
    using assms
  proof (cases rule: lru_spec_cases)
    case (hit exp)
    then show ?thesis by (auto simp: ttl_live_def delete_conv')
  next
    case (miss zs)
    have "ttl_live t k ys = (t < time_add now ttl)"
      unfolding miss(6) by (rule lru_spec_add_live(1) [OF miss(3,4)])
    moreover have "ttl_live t k' xs" if "k' \<noteq> k" "ttl_live t k' ys"
      using lru_spec_add_live(2) [OF miss(3,4) that(1)] that(2) miss(5) unfolding miss(6) by blast
    ultimately show ?thesis using miss(1,2) by blast
  qed
  then show "b = ttl_live now k xs"
    and "\<not> b \<Longrightarrow> ttl_live t k ys = (t < time_add now ttl)"
    and "b \<Longrightarrow> ttl_live t k' ys = ttl_live t k' xs"
    and "k' \<noteq> k \<Longrightarrow> ttl_live t k' ys \<Longrightarrow> ttl_live t k' xs" by auto
qed

lemma lru_SeenOrAdd_window:
  assumes "lru_inv d"
  shows "fst (lru_SeenOrAdd now k ttl d) = lru_live now k d"
    and "\<not> lru_live now k d \<Longrightarrow> lru_live t k (snd (lru_SeenOrAdd now k ttl d)) = (t < time_add now ttl)"
    and "lru_live now k d \<Longrightarrow> lru_live t k' (snd (lru_SeenOrAdd now k ttl d)) = lru_live t k' d"
    and "k' \<noteq> k \<Longrightarrow> lru_live t k' (snd (lru_SeenOrAdd now k ttl d)) \<Longrightarrow> lru_live t k' d"
proof -
  obtain b d' where eq: "lru_SeenOrAdd now k ttl d = (b, d')" by fastforce
  note w = lru_spec_window [OF lru_inv_distinct [OF assms] lru_SeenOrAdd_refines(2) [OF assms eq]]
  show "fst (lru_SeenOrAdd now k ttl d) = lru_live now k d"
    using w(1) by (simp add: eq lru_live_def)
  show "\<not> lru_live now k d \<Longrightarrow> lru_live t k (snd (lru_SeenOrAdd now k ttl d)) = (t < time_add now ttl)"
    using w(1,2) by (simp add: eq lru_live_def)
  show "lru_live now k d \<Longrightarrow> lru_live t k' (snd (lru_SeenOrAdd now k ttl d)) = lru_live t k' d"
    using w(1,3) by (simp add: eq lru_live_def)
  show "k' \<noteq> k \<Longrightarrow> lru_live t k' (snd (lru_SeenOrAdd now k ttl d)) \<Longrightarrow> lru_live t k' d"
    using w(4) by (simp add: eq lru_live_def)
qed

lemma lru_Delete_live: "lru_inv d \<Longrightarrow> lru_live t k' (lru_Delete k d) = (k' \<noteq> k \<and> lru_live t k' d)"
  by (simp add: lru_live_def lru_Delete_refines ttl_live_delete)

lemma lru_inv_SeenOrAdd: "lru_inv d \<Longrightarrow> lru_inv (snd (lru_SeenOrAdd now k ttl d))"
  using lru_SeenOrAdd_refines(1) [of d now k ttl] by (metis prod.collapse)

interpretation lru: dedupe_window lru_inv lru_live lru_SeenOrAdd lru_Delete
proof unfold_locales
  fix d now k ttl k' t
  assume d: "lru_inv d"
  show "lru_inv (snd (lru_SeenOrAdd now k ttl d))" by (rule lru_inv_SeenOrAdd [OF d])
  show "lru_inv (lru_Delete k d)" by (rule lru_Delete_refines(1) [OF d])
  show "fst (lru_SeenOrAdd now k ttl d) = lru_live now k d" by (rule lru_SeenOrAdd_window(1) [OF d])
  show "lru_live t k (snd (lru_SeenOrAdd now k ttl d)) = (t < time_add now ttl)"
    if "\<not> lru_live now k d" "now \<le> t"
    by (rule lru_SeenOrAdd_window(2) [OF d that(1)])
  show "lru_live t k' (snd (lru_SeenOrAdd now k ttl d)) = lru_live t k' d" if "lru_live now k d"
    by (rule lru_SeenOrAdd_window(3) [OF d that])
  show "lru_live t k' d" if "k' \<noteq> k" "lru_live t k' (snd (lru_SeenOrAdd now k ttl d))"
    by (rule lru_SeenOrAdd_window(4) [OF d that])
  show "lru_live t k' (lru_Delete k d) = (k' \<noteq> k \<and> lru_live t k' d)" by (rule lru_Delete_live [OF d])
qed

subsection \<open>The store the broker holds\<close>

fun dedupe_inv :: "dedupe_store \<Rightarrow> bool" where
  "dedupe_inv (TTL d) = ttl_inv d"
| "dedupe_inv (LRU d) = lru_inv d"

fun dedupe_live :: "time \<Rightarrow> string \<Rightarrow> dedupe_store \<Rightarrow> bool" where
  "dedupe_live t k (TTL d) = ttl_live t k d"
| "dedupe_live t k (LRU d) = lru_live t k d"

lemma SeenOrAdd_sel:
  "fst (SeenOrAdd now k ttl (TTL d)) = fst (ttl_SeenOrAdd now k ttl d)"
  "snd (SeenOrAdd now k ttl (TTL d)) = TTL (snd (ttl_SeenOrAdd now k ttl d))"
  "fst (SeenOrAdd now k ttl (LRU e)) = fst (lru_SeenOrAdd now k ttl e)"
  "snd (SeenOrAdd now k ttl (LRU e)) = LRU (snd (lru_SeenOrAdd now k ttl e))"
  by (simp_all add: split_beta)

interpretation dd: dedupe_window dedupe_inv dedupe_live SeenOrAdd dedupe_Delete
proof unfold_locales
  fix d now k ttl k' t
  assume d: "dedupe_inv d"
  show "dedupe_inv (snd (SeenOrAdd now k ttl d))"
    using d by (cases d) (simp_all add: SeenOrAdd_sel ttl.inv_seen_or_add lru.inv_seen_or_add del: SeenOrAdd.simps)
  show "dedupe_inv (dedupe_Delete k d)"
    using d by (cases d) (simp_all add: ttl.inv_del lru.inv_del)
  show "fst (SeenOrAdd now k ttl d) = dedupe_live now k d"
    using d by (cases d) (simp_all add: SeenOrAdd_sel ttl.seen_iff lru.seen_iff del: SeenOrAdd.simps)
  show "dedupe_live t k (snd (SeenOrAdd now k ttl d)) = (t < time_add now ttl)"
    if "\<not> dedupe_live now k d" "now \<le> t"
    using d that by (cases d) (simp_all add: SeenOrAdd_sel ttl.added lru.added del: SeenOrAdd.simps)
  show "dedupe_live t k' (snd (SeenOrAdd now k ttl d)) = dedupe_live t k' d" if "dedupe_live now k d"
    using d that by (cases d) (simp_all add: SeenOrAdd_sel ttl.seen_kept lru.seen_kept del: SeenOrAdd.simps)
  show "dedupe_live t k' d" if "k' \<noteq> k" "dedupe_live t k' (snd (SeenOrAdd now k ttl d))"
    using d that by (cases d) (auto simp: SeenOrAdd_sel dest: ttl.no_spurious lru.no_spurious simp del: SeenOrAdd.simps)
  show "dedupe_live t k' (dedupe_Delete k d) = (k' \<noteq> k \<and> dedupe_live t k' d)"
    using d by (cases d) (simp_all add: ttl.del_live lru.del_live)
qed

lemma lru_purge_step:
  assumes "map_of (lru_items d) k = Some e"
  shows "d\<lparr>lru_list := list_Remove e (lru_list d), lru_items := AList.delete k (lru_items d)\<rparr> = lru_Delete k d"
  using assms by (simp add: lru_Delete_def)

lemma lru_Delete_items: "map_of (lru_items (lru_Delete k d)) k' = (if k' = k then None else map_of (lru_items d) k')"
  by (auto simp: lru_Delete_def delete_conv' split: option.split)

lemma lru_purge_loop_live:
  assumes "lru_inv d" "distinct (map fst items)" "\<And>k e. (k, e) \<in> set items \<Longrightarrow> map_of (lru_items d) k = Some e"
  shows "lru_inv (lru_purge_loop pre items d) \<and>
    (lru_live t k (lru_purge_loop pre items d) \<longleftrightarrow>
      lru_live t k d \<and> \<not> (k \<in> fst ` set items \<and> strings_HasPrefix k pre))"
  using assms
proof (induction items arbitrary: d)
  case (Cons it items)
  obtain key e where it: "it = (key, e)" by fastforce
  let ?d = "if strings_HasPrefix key pre
    then d\<lparr>lru_list := list_Remove e (lru_list d), lru_items := AList.delete key (lru_items d)\<rparr> else d"
  have d: "?d = (if strings_HasPrefix key pre then lru_Delete key d else d)"
    using Cons.prems(3) it by (simp add: lru_purge_step del: HasPrefix_iff)
  have inv: "lru_inv ?d"
    using Cons.prems(1) by (simp add: d lru_Delete_refines del: HasPrefix_iff)
  have "map_of (lru_items ?d) k' = Some e'" if "(k', e') \<in> set items" for k' e'
    using that Cons.prems(2,3) it
    by (force simp: d lru_Delete_items simp del: HasPrefix_iff)
  note IH = Cons.IH [OF inv _ this]
  have live: "lru_live t k ?d \<longleftrightarrow> lru_live t k d \<and> \<not> (k = key \<and> strings_HasPrefix key pre)"
    using Cons.prems(1) by (auto simp: d lru_Delete_live simp del: HasPrefix_iff)
  have "lru_purge_loop pre (it # items) d = lru_purge_loop pre items ?d" by (simp add: it)
  then show ?case
    using IH Cons.prems(2) live by (auto simp: it simp del: HasPrefix_iff)
qed simp

lemma lru_live_item:
  assumes "lru_inv d" "lru_live t k d"
  shows "k \<in> fst ` set (lru_items d)"
proof -
  from assms(1) have wf: "lru_wf d" by (simp add: lru_inv_def)
  from assms(2) have "map_of (lru_abs d) k \<noteq> None" by (auto simp: lru_live_def ttl_live_def split: option.splits)
  then have "map_of (lru_items d) k \<noteq> None" by (simp add: lru_abs_lookup [OF wf])
  then show ?thesis by (simp add: map_of_eq_None_iff)
qed

lemma lru_purgeQueue_live:
  assumes "lru_inv d"
  shows "lru_inv (lru_purgeQueue q d)"
    and "lru_live t k (lru_purgeQueue q d) \<longleftrightarrow> lru_live t k d \<and> \<not> strings_HasPrefix k (q @ '':'')"
proof -
  have "distinct (map fst (lru_items d))" using assms by (simp add: lru_inv_def lru_wf_def)
  then have "lru_inv (lru_purgeQueue q d) \<and>
    (lru_live t k (lru_purgeQueue q d) \<longleftrightarrow>
      lru_live t k d \<and> \<not> (k \<in> fst ` set (lru_items d) \<and> strings_HasPrefix k (q @ '':'')))"
    unfolding lru_purgeQueue_def by (intro lru_purge_loop_live assms) auto
  then show "lru_inv (lru_purgeQueue q d)"
    and "lru_live t k (lru_purgeQueue q d) \<longleftrightarrow> lru_live t k d \<and> \<not> strings_HasPrefix k (q @ '':'')"
    using lru_live_item [OF assms] by blast+
qed

lemma ttl_purgeQueue_live:
  assumes "ttl_inv d"
  shows "ttl_inv (ttl_purgeQueue q d)"
    and "ttl_live t k (ttl_purgeQueue q d) \<longleftrightarrow> ttl_live t k d \<and> \<not> strings_HasPrefix k (q @ '':'')"
  using assms
  by (auto simp: ttl_inv_def ttl_purgeQueue_def Let_def ttl_live_def distinct_map_fst_filter
      map_of_filter_live simp del: HasPrefix_iff split: option.splits)

lemma purgeQueue_live:
  assumes "dedupe_inv d"
  shows "dedupe_inv (purgeQueue q d)"
    and "dedupe_live t k (purgeQueue q d) \<longleftrightarrow> dedupe_live t k d \<and> \<not> strings_HasPrefix k (q @ '':'')"
  using assms
  by (cases d; simp add: ttl_purgeQueue_live lru_purgeQueue_live del: HasPrefix_iff)+

lemma newDedupeStore_inv: "newDedupeStore opts = Inr d \<Longrightarrow> dedupe_inv d"
  by (auto simp: newDedupeStore_def Let_def ttl_inv_def newTTLDedupeStore_def lru_inv_def lru_wf_def
      newLRUDedupeStore_def DefaultDedupeCapacity_def split: if_splits)

subsection \<open>Properties\<close>

text \<open>The store after a sequence of \<open>SeenOrAdd\<close> calls with their clock readings, and the keys of the calls.\<close>

definition after_calls :: "(time \<Rightarrow> string \<Rightarrow> duration \<Rightarrow> 'd \<Rightarrow> bool \<times> 'd) \<Rightarrow> (time \<times> string \<times> duration) list \<Rightarrow> 'd \<Rightarrow> 'd" where
  "after_calls f cs d = foldl (\<lambda>d (t, k, ttl). snd (f t k ttl d)) d cs"

definition call_keys :: "(time \<times> string \<times> duration) list \<Rightarrow> string set" where
  "call_keys cs = (\<lambda>c. fst (snd c)) ` set cs"

lemma after_calls_simps [simp]:
  "after_calls f [] d = d"
  "after_calls f (c # cs) d = after_calls f cs (snd (f (fst c) (fst (snd c)) (snd (snd c)) d))"
  by (simp_all add: after_calls_def split_beta)

lemma call_keys_simps [simp]: "call_keys [] = {}" "call_keys (c # cs) = insert (fst (snd c)) (call_keys cs)" "finite (call_keys cs)"
  by (simp_all add: call_keys_def)

text \<open>
  Where a key \<open>k\<close> stands in the reference list after it was added and the other keys \<open>K\<close> were used: right
  behind exactly those keys while they are fewer than the capacity, and nowhere from then on.
\<close>

definition lru_pos :: "int \<Rightarrow> string \<Rightarrow> time \<Rightarrow> string set \<Rightarrow> (string \<times> time) list \<Rightarrow> bool" where
  "lru_pos cap k exp K xs \<longleftrightarrow> distinct (map fst xs) \<and> int (length xs) \<le> cap \<and>
     (if int (card K) < cap then \<exists>us vs. xs = us @ (k, exp) # vs \<and> fst ` set us = K else k \<notin> fst ` set xs)"

lemma lru_pos_card:
  assumes "distinct (map fst (us @ (k, exp) # vs))" "fst ` set us = K"
  shows "card K = length us" "k \<notin> K"
  using assms by (auto simp: distinct_card distinct_map simp flip: set_map)

lemma lru_spec_keys:
  assumes "lru_spec cap now x ttl xs = (b, ys)" "x \<in> fst ` set xs" "distinct (map fst xs)" "int (length xs) \<le> cap"
  shows "\<exists>v. ys = (x, v) # AList.delete x xs"
proof -
  from assms(2) obtain e where e: "map_of xs x = Some e" by (metis map_of_eq_None_iff not_None_eq)
  have "length (AList.delete x xs) < length xs"
    unfolding AList.delete_eq using assms(2) by (intro length_filter_less [of "(x, the (map_of xs x))"]) (use e in \<open>auto dest: map_of_SomeD\<close>)
  with assms(1,4) e show ?thesis by (auto simp: lru_spec_def lru_spec_add_def split: if_splits)
qed

lemma lru_spec_new:
  assumes "lru_spec cap now x ttl xs = (b, ys)" "x \<notin> fst ` set xs"
  shows "ys = lru_spec_add cap now x ttl xs"
proof -
  have "map_of xs x = None" using assms(2) by (simp add: map_of_eq_None_iff)
  with assms(1) show ?thesis by (simp add: lru_spec_def)
qed

lemma lru_posI:
  assumes "ys = us @ (k, exp) # vs" "fst ` set us = K" "int (card K) < cap" "distinct (map fst ys)" "int (length ys) \<le> cap"
  shows "lru_pos cap k exp K ys"
  unfolding lru_pos_def using assms by auto

lemma lru_pos_old:
  assumes xs: "xs = us @ (k, exp) # vs" "fst ` set us = K" "distinct (map fst xs)" "int (length xs) \<le> cap"
    and x: "x \<noteq> k" "x \<in> fst ` set xs" and run: "lru_spec cap now x ttl xs = (b, ys)"
    and ys: "distinct (map fst ys)" "int (length ys) \<le> cap"
  shows "lru_pos cap k exp (insert x K) ys"
proof -
  from lru_spec_keys [OF run x(2) xs(3,4)] obtain v where v: "ys = (x, v) # AList.delete x xs" by blast
  note card = lru_pos_card [OF xs(3) [unfolded xs(1)] xs(2)]
  have fin: "finite K" unfolding xs(2) [symmetric] by simp
  have "ys = ((x, v) # AList.delete x us) @ (k, exp) # AList.delete x vs"
    using v x(1) by (simp add: xs(1) AList.delete_eq)
  moreover have "fst ` set ((x, v) # AList.delete x us) = insert x K"
    using xs(2) by (auto simp: AList.delete_eq)
  moreover have "int (card (insert x K)) < cap"
  proof (cases "x \<in> K")
    case True
    with xs(1,4) card(1) show ?thesis by (simp add: insert_absorb)
  next
    case False
    then have "vs \<noteq> []" using x xs(1,2) by auto
    with xs(1,4) card(1) False fin show ?thesis by (cases vs) auto
  qed
  ultimately show ?thesis using ys by (rule lru_posI)
qed

lemma lru_pos_new:
  assumes xs: "xs = us @ (k, exp) # vs" "fst ` set us = K" "distinct (map fst xs)" "int (length xs) \<le> cap"
    and x: "x \<noteq> k" "x \<notin> fst ` set xs" and ys: "ys = lru_spec_add cap now x ttl xs" "distinct (map fst ys)" "int (length ys) \<le> cap"
  shows "lru_pos cap k exp (insert x K) ys"
proof -
  note card = lru_pos_card [OF xs(3) [unfolded xs(1)] xs(2)]
  have fin: "finite K" unfolding xs(2) [symmetric] by simp
  let ?h = "(x, time_add now ttl)"
  have h: "fst ` set (?h # us) = insert x K" and ins: "card (insert x K) = Suc (length us)" using xs(1,2) x fin card(1) by auto
  consider "int (length xs) < cap" | "int (length xs) = cap" "vs \<noteq> []" | "int (length xs) = cap" "vs = []" using xs(4) by linarith
  then show ?thesis
  proof cases
    case 1
    then have eq: "ys = (?h # us) @ (k, exp) # vs" using ys(1) xs(1) by (simp add: lru_spec_add_def)
    from 1 have "int (card (insert x K)) < cap" using xs(1) ins by simp
    with eq h ys(2,3) show ?thesis by (intro lru_posI)
  next
    case 2
    then have eq: "ys = (?h # us) @ (k, exp) # butlast vs" using ys(1) xs(1) by (simp add: lru_spec_add_def butlast_append)
    from 2 have "int (card (insert x K)) < cap" using xs(1) ins by (cases vs) auto
    with eq h ys(2,3) show ?thesis by (intro lru_posI)
  next
    case 3
    then have "ys = ?h # us" "int (card (insert x K)) = cap" using ys(1) xs(1) ins by (simp_all add: lru_spec_add_def butlast_append)
    with ys(2,3) x(1) card(2) xs(2) show ?thesis by (auto simp: lru_pos_def)
  qed
qed

lemma lru_pos_step:
  assumes pos: "lru_pos cap k exp K xs" and x: "x \<noteq> k" and run: "lru_spec cap now x ttl xs = (b, ys)"
    and ys: "distinct (map fst ys)" "int (length ys) \<le> cap" and fin: "finite K"
  shows "lru_pos cap k exp (insert x K) ys"
proof (cases "int (card K) < cap")
  case True
  with pos obtain us vs where xs: "xs = us @ (k, exp) # vs" "fst ` set us = K" "distinct (map fst xs)" "int (length xs) \<le> cap"
    by (auto simp: lru_pos_def)
  show ?thesis
    using lru_pos_old [OF xs x _ run ys] lru_pos_new [OF xs x _ lru_spec_new [OF run] ys] by blast
next
  case False
  have xs: "distinct (map fst xs)" "int (length xs) \<le> cap" "k \<notin> fst ` set xs" using pos False by (simp_all add: lru_pos_def)
  have "fst ` set ys \<subseteq> insert x (fst ` set xs)"
    using lru_spec_keys [OF run _ xs(1,2)] lru_spec_new [OF run]
    by (cases "x \<in> fst ` set xs") (auto simp: AList.delete_eq lru_spec_add_def dest!: in_set_butlastD split: if_splits)
  moreover have "card K \<le> card (insert x K)" using fin by (simp add: card_insert_le)
  ultimately show ?thesis using False xs(3) x ys by (auto simp: lru_pos_def)
qed

lemma lru_SeenOrAdd_capacity [simp]: "lru_capacity (snd (lru_SeenOrAdd now k ttl d)) = lru_capacity d"
  by (simp add: lru_SeenOrAdd_def lru_add_def lru_PushFront_def Let_def split: option.split)

lemma lru_inv_length: "lru_inv d \<Longrightarrow> int (length (lru_abs d)) \<le> lru_capacity d"
  by (simp add: lru_inv_def lru_abs_def)

lemma lru_abs_SeenOrAdd:
  "lru_inv d \<Longrightarrow> lru_spec (lru_capacity d) now k ttl (lru_abs d) =
     (fst (lru_SeenOrAdd now k ttl d), lru_abs (snd (lru_SeenOrAdd now k ttl d)))"
  using lru_SeenOrAdd_refines(2) [of d now k ttl] by (metis prod.collapse)

lemma lru_pos_calls:
  assumes "lru_inv d" "lru_pos (lru_capacity d) k exp K (lru_abs d)" "finite K" "k \<notin> call_keys cs"
  shows "lru_inv (after_calls lru_SeenOrAdd cs d) \<and>
    lru_pos (lru_capacity d) k exp (K \<union> call_keys cs) (lru_abs (after_calls lru_SeenOrAdd cs d))"
  using assms
proof (induction cs arbitrary: d K)
  case (Cons c cs)
  obtain now x ttl where c: "c = (now, x, ttl)" by (metis prod_cases3)
  let ?d = "snd (lru_SeenOrAdd now x ttl d)"
  have inv: "lru_inv ?d" by (rule lru_inv_SeenOrAdd [OF Cons.prems(1)])
  have "lru_pos (lru_capacity d) k exp (insert x K) (lru_abs ?d)"
    using lru_pos_step [OF Cons.prems(2) _ lru_abs_SeenOrAdd [OF Cons.prems(1)] lru_inv_distinct [OF inv] _ Cons.prems(3)]
      lru_inv_length [OF inv] Cons.prems(4) c by auto
  from Cons.IH [OF inv _ _ , of "insert x K"] this Cons.prems(3,4) show ?case by (simp add: c)
qed simp

lemma lru_window_calls:
  assumes "lru_inv d" "\<not> lru_live now k d" "k \<notin> call_keys cs"
  shows "lru_live t k (after_calls lru_SeenOrAdd cs (snd (lru_SeenOrAdd now k ttl d))) \<longleftrightarrow>
    t < time_add now ttl \<and> int (card (call_keys cs)) < lru_capacity d"
proof -
  let ?d = "snd (lru_SeenOrAdd now k ttl d)" and ?e = "after_calls lru_SeenOrAdd cs (snd (lru_SeenOrAdd now k ttl d))"
  have inv: "lru_inv ?d" by (rule lru_inv_SeenOrAdd [OF assms(1)])
  have cap: "0 < lru_capacity d" using assms(1) by (simp add: lru_inv_def)
  note run = lru_abs_SeenOrAdd [OF assms(1), of now k ttl]
  have "\<exists>zs. lru_abs ?d = (k, time_add now ttl) # zs"
    using lru_inv_distinct [OF assms(1)] run
  proof (cases rule: lru_spec_cases)
    case (hit exp)
    then show ?thesis using assms(2) by (simp add: lru_live_def ttl_live_def)
  qed (simp add: lru_spec_add_def)
  then have "lru_pos (lru_capacity d) k (time_add now ttl) {} (lru_abs ?d)"
    using lru_inv_distinct [OF inv] lru_inv_length [OF inv] cap by (auto simp: lru_pos_def)
  from lru_pos_calls [OF inv _ _ assms(3), of "time_add now ttl" "{}"] this
  have pos: "lru_pos (lru_capacity d) k (time_add now ttl) (call_keys cs) (lru_abs ?e)" by simp
  show ?thesis
  proof (cases "int (card (call_keys cs)) < lru_capacity d")
    case True
    with pos obtain us vs where "lru_abs ?e = us @ (k, time_add now ttl) # vs" "distinct (map fst (lru_abs ?e))"
      by (auto simp: lru_pos_def)
    then have "map_of (lru_abs ?e) k = Some (time_add now ttl)" by (intro map_of_is_SomeI) auto
    with True show ?thesis by (simp add: lru_live_def ttl_live_def)
  next
    case False
    with pos have "map_of (lru_abs ?e) k = None" by (simp add: lru_pos_def map_of_eq_None_iff)
    with False show ?thesis by (simp add: lru_live_def ttl_live_def)
  qed
qed

lemma ttl_calls_kept:
  assumes "ttl_inv d" "k \<notin> call_keys cs" "\<And>c. c \<in> set cs \<Longrightarrow> fst c \<le> t"
  shows "ttl_live t k (after_calls ttl_SeenOrAdd cs d) = ttl_live t k d"
  using assms
proof (induction cs arbitrary: d)
  case (Cons c cs)
  then show ?case by (simp add: ttl.inv_seen_or_add ttl.kept)
qed simp

lemma after_calls_store:
  "after_calls SeenOrAdd cs (TTL d) = TTL (after_calls ttl_SeenOrAdd cs d)"
  "after_calls SeenOrAdd cs (LRU e) = LRU (after_calls lru_SeenOrAdd cs e)"
  by (induction cs arbitrary: d e) (simp_all add: SeenOrAdd_sel del: SeenOrAdd.simps)

lemma dedupe_inv_calls: "dedupe_inv d \<Longrightarrow> dedupe_inv (after_calls SeenOrAdd cs d)"
  by (induction cs arbitrary: d) (simp_all add: dd.inv_seen_or_add)

text \<open>
  C33. Duplicate suppression by the store the broker holds, for either policy, with other keys coming in
  between. A key that is new at time \<open>now\<close> is accepted. After any sequence of calls for other keys, at
  clock readings that do not decrease, the same key at time \<open>t\<close> is reported as seen exactly when the
  window \<open>now + ttl\<close> still lasts and, in the LRU store, the calls were for fewer different keys than the
  capacity: the TTL store never forgets early, the LRU store forgets a key exactly when as many others as
  it can hold were used after it. And after \<open>Delete\<close> of the key, the broker's rollback, it is accepted at
  any time.
\<close>

theorem SeenOrAdd_window:
  assumes "dedupe_inv d" "\<not> dedupe_live now k d" "k \<notin> call_keys cs" "sorted (now # map fst cs @ [t])"
  shows "\<not> fst (SeenOrAdd now k ttl d) \<and>
    fst (SeenOrAdd t k ttl' (after_calls SeenOrAdd cs (snd (SeenOrAdd now k ttl d)))) =
      (t < time_add now ttl \<and> (case d of TTL _ \<Rightarrow> True | LRU e \<Rightarrow> int (card (call_keys cs)) < lru_capacity e)) \<and>
    \<not> fst (SeenOrAdd t' k ttl' (dedupe_Delete k (after_calls SeenOrAdd cs (snd (SeenOrAdd now k ttl d)))))"
proof -
  let ?d = "snd (SeenOrAdd now k ttl d)"
  have inv: "dedupe_inv (after_calls SeenOrAdd cs ?d)" by (simp add: assms(1) dd.inv_seen_or_add dedupe_inv_calls)
  have "dedupe_live t k (after_calls SeenOrAdd cs ?d) =
    (t < time_add now ttl \<and> (case d of TTL _ \<Rightarrow> True | LRU e \<Rightarrow> int (card (call_keys cs)) < lru_capacity e))"
  proof (cases d)
    case (TTL e)
    have "ttl_live t k (after_calls ttl_SeenOrAdd cs (snd (ttl_SeenOrAdd now k ttl e))) = ttl_live t k (snd (ttl_SeenOrAdd now k ttl e))"
      using assms TTL by (intro ttl_calls_kept ttl.inv_seen_or_add) (auto simp: sorted_append)
    with assms TTL show ?thesis by (simp add: SeenOrAdd_sel after_calls_store ttl.added sorted_append del: SeenOrAdd.simps)
  next
    case (LRU e)
    with assms lru_window_calls [of e now k cs t ttl] show ?thesis
      by (simp add: SeenOrAdd_sel after_calls_store del: SeenOrAdd.simps)
  qed
  with inv assms(1,2) show ?thesis by (simp add: dd.seen_iff dd.inv_del dd.del_live)
qed

text \<open>Capacity two: the key is a duplicate after one other key and accepted again, inside its window, after two.\<close>

theorem SeenOrAdd_window_witness:
  "let d = snd (SeenOrAdd 5 ''q:a'' 10 (LRU (newLRUDedupeStore 2))) in
     fst (SeenOrAdd 14 ''q:a'' 10 (after_calls SeenOrAdd [(6, ''q:b'', 10), (7, ''q:b'', 10)] d)) \<and>
     \<not> fst (SeenOrAdd 14 ''q:a'' 10 (after_calls SeenOrAdd [(6, ''q:b'', 10), (7, ''q:c'', 10)] d)) \<and>
     \<not> fst (SeenOrAdd 15 ''q:a'' 10 (after_calls SeenOrAdd [] d))"
proof -
  let ?d = "LRU (newLRUDedupeStore 2)"
  have inv: "dedupe_inv ?d" by (simp add: lru_inv_def lru_wf_def newLRUDedupeStore_def)
  have dead: "\<not> dedupe_live 5 ''q:a'' ?d"
    by (simp add: lru_live_def ttl_live_def lru_abs_def newLRUDedupeStore_def)
  have "time_add 5 10 = 15" "lru_capacity (newLRUDedupeStore 2) = 2" by (simp_all add: time_add_def newLRUDedupeStore_def)
  then show ?thesis
    using SeenOrAdd_window [OF inv dead, of "[(6, ''q:b'', 10), (7, ''q:b'', 10)]" 14 10 10]
      SeenOrAdd_window [OF inv dead, of "[(6, ''q:b'', 10), (7, ''q:c'', 10)]" 14 10 10]
      SeenOrAdd_window [OF inv dead, of "[]" 15 10 10]
    by (simp add: Let_def del: SeenOrAdd.simps)
qed

text \<open>
  The opportunistic sweep of the TTL store is invisible: on every sequence of \<open>SeenOrAdd\<close> calls
  whose clock readings do not decrease, a store that starts empty gives the answers of a map that
  is never swept.
\<close>

theorem ttl_sweep_invisible:
  assumes "sorted (map fst ops)"
  shows "answers ttl_SeenOrAdd ops newTTLDedupeStore = answers map_SeenOrAdd ops Map.empty"
proof -
  define lo where "lo = (case ops of [] \<Rightarrow> 0 | op # _ \<Rightarrow> fst op)"
  have "\<And>x. x \<in> set ops \<Longrightarrow> lo \<le> fst x"
    using assms unfolding lo_def by (cases ops) auto
  then show ?thesis
    using assms by (intro ttl.answers_exact [of _ lo])
      (auto simp: ttl_inv_def newTTLDedupeStore_def ttl_live_def map_live_def)
qed

theorem ttl_sweep_invisible_witness:
  "answers ttl_SeenOrAdd [(1, ''a'', 5), (2, ''b'', 5), (4, ''a'', 5), (7, ''a'', 5)] newTTLDedupeStore
     = [False, False, True, False]"
proof -
  have "answers ttl_SeenOrAdd [(1, ''a'', 5), (2, ''b'', 5), (4, ''a'', 5), (7, ''a'', 5)] newTTLDedupeStore
    = answers map_SeenOrAdd [(1, ''a'', 5), (2, ''b'', 5), (4, ''a'', 5), (7, ''a'', 5)] Map.empty"
    by (rule ttl_sweep_invisible) simp
  then show ?thesis by (simp add: map_SeenOrAdd_def time_add_def)
qed

text \<open>
  C34. The map and the linked list of the LRU store implement one least-recently-used list: every
  \<open>SeenOrAdd\<close> returns what the reference list returns, leaves the abstraction of the new state, keeps
  the invariant (same elements in map and list) and never holds more than \<open>capacity\<close> keys;
  \<open>Delete\<close> removes the key from the list.
\<close>

theorem lru_refines_reference:
  assumes "lru_inv d" "lru_SeenOrAdd now k ttl d = (b, d')"
  shows "lru_spec (lru_capacity d) now k ttl (lru_abs d) = (b, lru_abs d') \<and> lru_inv d' \<and>
    int (lru_Len d') \<le> lru_capacity d' \<and> lru_abs (lru_Delete k' d) = AList.delete k' (lru_abs d)"
  using lru_SeenOrAdd_refines [OF assms] lru_Delete_refines(2) [OF assms(1)]
  by (simp add: lru_inv_def lru_Len_def lru_wf_length)

theorem lru_refines_reference_witness:
  "lru_abs (snd (lru_SeenOrAdd 3 ''c'' 10 (snd (lru_SeenOrAdd 2 ''b'' 10 (snd (lru_SeenOrAdd 1 ''a'' 10
     (newLRUDedupeStore 2))))))) = [(''c'', 13), (''b'', 12)]"
proof -
  let ?d0 = "newLRUDedupeStore 2"
  let ?d1 = "snd (lru_SeenOrAdd 1 ''a'' 10 ?d0)"
  let ?d2 = "snd (lru_SeenOrAdd 2 ''b'' 10 ?d1)"
  have abs: "lru_abs (snd (lru_SeenOrAdd now k ttl d)) = snd (lru_spec (lru_capacity d) now k ttl (lru_abs d))"
    and inv: "lru_inv (snd (lru_SeenOrAdd now k ttl d))" if "lru_inv d" for now k ttl d
    using lru_refines_reference [OF that prod.collapse [symmetric], of now k ttl] by auto
  have i0: "lru_inv ?d0" by (simp add: lru_inv_def lru_wf_def newLRUDedupeStore_def)
  note i1 = inv [OF i0, of 1 "''a''" 10] and i2 = inv [OF inv [OF i0], of 2 "''b''" 10 1 "''a''" 10]
  have cap: "lru_capacity ?d0 = 2" "lru_capacity ?d1 = 2" "lru_capacity ?d2 = 2"
    by (simp_all add: newLRUDedupeStore_def lru_SeenOrAdd_def lru_add_def lru_PushFront_def Let_def)
  have "lru_abs ?d0 = []" by (simp add: lru_abs_def newLRUDedupeStore_def)
  then show ?thesis
    unfolding abs [OF i2] abs [OF i1] abs [OF i0] cap
    by (simp add: lru_spec_def lru_spec_add_def time_add_def)
qed

text \<open>
  \<open>purgeQueue\<close>, which \<open>Drain\<close> runs, forgets the keys of that queue and of no other queue: among
  valid queue names the prefix \<open>queue:\<close> never matches a key of a queue whose name merely starts
  the same way.
\<close>

theorem purgeQueue_exact:
  assumes "dedupe_inv d" "ValidQueueName q" "ValidQueueName q'"
  shows "dedupe_live t (q' @ '':'' @ k) (purgeQueue q d) \<longleftrightarrow> q' \<noteq> q \<and> dedupe_live t (q' @ '':'' @ k) d"
proof -
  have "strings_HasPrefix (q' @ '':'' @ k) (q @ '':'') \<longleftrightarrow> q' = q"
    using dedupe_key_inject [OF assms(3,2), of k] by simp
  then show ?thesis using purgeQueue_live(2) [OF assms(1)] by blast
qed

theorem purgeQueue_exact_witness:
  "let d = TTL [(''job:1'', 9), (''jobs:1'', 9)]
   in \<not> dedupe_live 5 ''job:1'' (purgeQueue ''job'' d) \<and> dedupe_live 5 ''jobs:1'' (purgeQueue ''job'' d)"
proof -
  let ?d = "TTL [(''job:1'', 9), (''jobs:1'', 9)]"
  have inv: "dedupe_inv ?d" by (simp add: ttl_inv_def)
  have v: "ValidQueueName ''job''" "ValidQueueName ''jobs''" by code_simp+
  show ?thesis
    using purgeQueue_exact [OF inv v(1,1), of 5 "''1''"] purgeQueue_exact [OF inv v, of 5 "''1''"]
    by (simp add: Let_def ttl_live_def)
qed

end
