(* ===== verification/Retry.thy ===== *)
theory Retry
  imports Shoebox_Prelude
begin

text \<open>
  Package \<open>internal/retry\<close>: the delay before the next attempt. A \<open>Backoff\<close> is one of the two
  strategies of the package or an implementation supplied by the application (\<open>Custom\<close>).
  Durations are 64-bit words, so the shift in \<open>exponential.Next\<close> wraps as it does in Go.
\<close>

datatype backoff =
    Constant duration
  | Exponential duration duration
  | Custom "int \<Rightarrow> duration"

definition exponential_Next :: "duration \<Rightarrow> duration \<Rightarrow> int \<Rightarrow> duration" where
  "exponential_Next base mx attempt =
     (let attempt = (if attempt < 1 then 1 else attempt);
          shift = attempt - 1;
          shift = (if shift > 30 then 30 else shift);
          d = push_bit (nat shift) base
      in if sint d \<le> 0 \<or> sint d > sint mx then mx else d)"

fun Next :: "backoff \<Rightarrow> int \<Rightarrow> duration" where
  "Next (Constant d) attempt = d"
| "Next (Exponential base mx) attempt = exponential_Next base mx attempt"
| "Next (Custom f) attempt = f attempt"

text \<open>The backoff of a handler that configures none.\<close>

definition default_backoff :: backoff where
  "default_backoff = Exponential (1 * second) (60 * second)"

subsection \<open>The shift\<close>

lemma sint_of_int_small:
  assumes "- (2 ^ 63) \<le> x" "x < 2 ^ 63"
  shows "sint (of_int x :: 64 word) = x"
  using assms by (simp add: sint_sbintrunc' signed_take_bit_int_eq_self)

lemma push_bit_of_int:
  "push_bit n w = (of_int (sint w * 2 ^ n) :: 64 word)"
  by (simp add: push_bit_eq_mult)

text \<open>Below \<open>2 ^ 33\<close> nanoseconds (8.5 seconds) a shift by at most 30 does not overflow.\<close>

lemma sint_push_bit_small:
  fixes base :: duration
  assumes "0 \<le> sint base" "sint base < 2 ^ 33" "n \<le> 30"
  shows "sint (push_bit n base) = sint base * 2 ^ n"
proof -
  have "(2 :: int) ^ n \<le> 2 ^ 30"
    using assms(3) by (intro power_increasing) auto
  with assms have "sint base * 2 ^ n < 2 ^ 33 * 2 ^ 30"
    by (intro mult_less_le_imp_less) auto
  moreover have "0 \<le> sint base * 2 ^ n" using assms(1) by simp
  ultimately show ?thesis
    by (simp only: push_bit_of_int) (rule sint_of_int_small, simp_all)
qed

subsection \<open>The exponential strategy\<close>

text \<open>
  The clamped shift is the exponent \<open>attempt - 1\<close>, cut off at 30 and never negative.
\<close>

lemma exponential_Next_alt:
  "exponential_Next base mx a =
     (let d = push_bit (nat (min 30 (a - 1))) base
      in if sint d \<le> 0 \<or> sint d > sint mx then mx else d)"
proof -
  have "nat (if (if a < 1 then 1 else a) - 1 > 30 then 30 else (if a < 1 then 1 else a) - 1) =
        nat (min 30 (a - 1))"
    by auto
  then show ?thesis
    by (simp only: exponential_Next_def Let_def)
qed

text \<open>
  For every attempt number, the delay of the exponential strategy with a positive maximum is
  positive and at most that maximum, also where the shift overflows.
\<close>

theorem exponential_Next_bounds:
  assumes "0 < sint mx"
  shows "0 < sint (Next (Exponential base mx) a) \<and> sint (Next (Exponential base mx) a) \<le> sint mx"
  using assms by (auto simp: exponential_Next_alt Let_def)

theorem exponential_Next_bounds_witness:
  "0 < sint (Next (Exponential (3 * second) (60 * second)) 100) \<and>
   sint (Next (Exponential (3 * second) (60 * second)) 100) \<le> sint (60 * second)"
  by (rule exponential_Next_bounds) (simp add: duration_units)

lemma exponential_Next_min_aux:
  assumes "0 < sint base" "sint base < 2 ^ 33" "1 \<le> a"
    and "a \<le> 31 \<or> sint mx \<le> sint base * 2 ^ 30"
  shows "sint (Next (Exponential base mx) a) = min (sint base * 2 ^ nat (a - 1)) (sint mx)"
proof -
  let ?n = "nat (min 30 (a - 1))"
  have d: "sint (push_bit ?n base) = sint base * 2 ^ ?n"
    using assms(1-3) by (intro sint_push_bit_small) auto
  have pos: "0 < sint base * 2 ^ ?n" using assms(1) by simp
  show ?thesis
  proof (cases "a \<le> 31")
    case True
    then have "?n = nat (a - 1)" by simp
    with d pos show ?thesis
      by (auto simp: exponential_Next_alt Let_def)
  next
    case False
    then have n: "?n = 30" by simp
    from False have "(2 :: int) ^ 30 \<le> 2 ^ nat (a - 1)"
      by (intro power_increasing) auto
    with assms(1) have "sint base * 2 ^ 30 \<le> sint base * 2 ^ nat (a - 1)"
      by (intro mult_left_mono) auto
    with False assms(4) have "sint mx \<le> sint base * 2 ^ nat (a - 1)" by linarith
    with False assms(4) d pos n show ?thesis
      by (auto simp: exponential_Next_alt Let_def)
  qed
qed

text \<open>
  With a positive base below \<open>2 ^ 33\<close> nanoseconds, the delay before attempt \<open>a\<close> is exactly
  the documented \<open>min (base * 2 ^ (a - 1)) max\<close>, as long as the cut-off of the shift at 30 is not
  reached or the maximum lies below the value it is cut off at.
\<close>

theorem exponential_Next_min:
  assumes "0 < sint base" "sint base < 2 ^ 33" "1 \<le> a"
    and "a \<le> 31 \<or> sint mx \<le> sint base * 2 ^ 30"
  shows "sint (Next (Exponential base mx) a) = min (sint base * 2 ^ nat (a - 1)) (sint mx)"
  using assms by (rule exponential_Next_min_aux)

theorem exponential_Next_min_witness:
  "sint (Next (Exponential (2 * second) (60 * second)) 4) = min (sint (2 * second) * 2 ^ nat (4 - 1)) (sint (60 * second))"
  by (rule exponential_Next_min) (simp_all add: duration_units)

text \<open>
  The strategy of a handler that configures none waits one second before the first retry,
  doubles the delay each time and never waits more than a minute.
\<close>

theorem default_backoff_delay:
  assumes "1 \<le> a"
  shows "sint (Next default_backoff a) = min (10 ^ 9 * 2 ^ nat (a - 1)) (60 * 10 ^ 9)"
proof -
  have "sint (Next (Exponential (1 * second) (60 * second)) a) =
        min (sint (1 * second) * 2 ^ nat (a - 1)) (sint (60 * second))"
    using assms by (intro exponential_Next_min_aux) (simp_all add: duration_units)
  then show ?thesis
    by (simp add: default_backoff_def duration_units)
qed

theorem default_backoff_delay_witness:
  "sint (Next default_backoff 7) = min (10 ^ 9 * 2 ^ nat (7 - 1)) (60 * 10 ^ 9)"
  by (rule default_backoff_delay) simp

text \<open>What a product is as a signed 64-bit integer.\<close>

definition wrap63 :: "int \<Rightarrow> int" where
  "wrap63 x = (x + 2 ^ 63) mod 2 ^ 64 - 2 ^ 63"

lemma wrap63_small: "- (2 ^ 63) \<le> x \<Longrightarrow> x < 2 ^ 63 \<Longrightarrow> wrap63 x = x"
  by (simp add: wrap63_def)

lemma sint_push_bit: "sint (push_bit n base :: duration) = wrap63 (sint base * 2 ^ n)"
proof -
  have "sint (of_int x :: 64 word) = wrap63 x" for x
    by (simp add: wrap63_def sint_sbintrunc' signed_take_bit_eq_take_bit_shift take_bit_eq_mod)
  then show ?thesis by (simp only: push_bit_of_int)
qed

text \<open>
  C40. How far the guard against overflow carries. For a positive base and a positive maximum, and for the
  attempts whose shift is not cut off, the delay is the product \<open>base * 2 ^ (a - 1)\<close> wrapped to 64 bits
  when that is positive and at most the maximum, and the maximum otherwise. So it is the documented
  \<open>min (base * 2 ^ (a - 1)) max\<close> in every case but one: the product leaves the signed 64-bit range and
  wraps to a positive value below the maximum. Then the delay is that value, less than the maximum that
  the documentation promises.
\<close>

theorem exponential_Next_overflow:
  assumes "0 < sint base" "0 < sint mx" "1 \<le> a" "a \<le> 31"
  shows "let p = sint base * 2 ^ nat (a - 1); d = sint (Next (Exponential base mx) a) in
    d = (if 0 < wrap63 p \<and> wrap63 p \<le> sint mx then wrap63 p else sint mx) \<and>
    (d = min p (sint mx) \<longleftrightarrow> \<not> (2 ^ 63 \<le> p \<and> 0 < wrap63 p \<and> wrap63 p < sint mx)) \<and>
    (2 ^ 63 \<le> p \<and> 0 < wrap63 p \<and> wrap63 p < sint mx \<longrightarrow> d = wrap63 p \<and> min p (sint mx) = sint mx)"
proof -
  let ?p = "sint base * 2 ^ nat (a - 1)"
  have d: "sint (Next (Exponential base mx) a) = (if 0 < wrap63 ?p \<and> wrap63 ?p \<le> sint mx then wrap63 ?p else sint mx)"
    using assms(4) by (simp only: exponential_Next_alt Next.simps Let_def min_absorb2 sint_push_bit) (auto simp: sint_push_bit)
  have mx: "sint mx < 2 ^ 63" using sint_lt [of mx] by simp
  have "0 < ?p" using assms(1) by simp
  then have "wrap63 ?p = ?p" if "?p < 2 ^ 63" using that by (intro wrap63_small) auto
  with d mx \<open>0 < ?p\<close> show ?thesis unfolding Let_def by (cases "?p < 2 ^ 63") (simp_all add: min_def, linarith+)
qed

text \<open>A base of \<open>2 ^ 34 + 1\<close> nanoseconds (17 seconds), a maximum of a minute: the last delay is about a second.\<close>

theorem exponential_Next_overflow_witness:
  "sint (Next (Exponential (2 ^ 34 + 1) (60 * second)) 31) = 2 ^ 30 \<and>
   min (sint (2 ^ 34 + 1 :: duration) * 2 ^ nat (31 - 1)) (sint (60 * second)) = 60 * 10 ^ 9"
  using exponential_Next_overflow [of "2 ^ 34 + 1" "60 * second" 31] by (simp add: duration_units wrap63_def Let_def)

end
