(* ===== verification/Broker.thy ===== *)
theory Broker
  imports Store_Contract Dedupe Retry
begin

text \<open>
  Package \<open>internal/broker\<close>, files \<open>broker.go\<close>, \<open>handler.go\<close> and \<open>middleware.go\<close>: the dispatch engine.

  The struct \<open>Broker\<close> is the record \<open>broker\<close> over the state \<open>'s\<close> of the storage backend; every
  method is a function on it that takes the backend's operations \<open>ops\<close>, the readings of the clock
  and the fresh identifiers it uses. Mutexes make the sections they protect atomic; the theory
  \<open>Broker_System\<close> interleaves these functions as the goroutines of the program do.

  \<^item> A handler is code of the user: a function of the context it gets, the message and the state
    \<open>'w\<close> of the user's world. It returns an error (\<open>Inr (Some e)\<close>), returns nil (\<open>Inr None\<close>) or
    panics (\<open>Inl\<close>).
  \<^item> A channel that is only closed is a flag; the wakeup channel of a queue, which holds at most one
    token, is a flag too. A \<open>drainDone\<close> channel has an address, because \<open>Drain\<close> waits on the one it
    made while the map may hold a newer one.
  \<^item> The calls of the metrics interface are recorded in order (\<open>None\<close> where no metrics are set). Log
    output is not modelled.
\<close>

record hctx =
  ctx_timeout :: "duration option"

type_synonym 'w HandlerFunc = "hctx \<Rightarrow> message \<Rightarrow> 'w \<Rightarrow> err option result \<times> 'w"
type_synonym 'w Middleware = "'w HandlerFunc \<Rightarrow> 'w HandlerFunc"

record handler_options =
  hoMaxRetries :: int
  hoBackoff :: "backoff option"
  hoTimeout :: duration

record 'w handler =
  h_fn :: "'w HandlerFunc"
  h_opts :: handler_options
  h_chain :: "'w HandlerFunc"

datatype dedupe_event = DedupeHit string | DedupeMiss string | DedupeEviction | DedupeEntries nat

record enqueue_opts =
  oDelay :: duration
  oSchedule :: time
  oPriority :: int
  oDedupeKey :: string
  oMetadata :: metadata

record batch_item =
  biPayload :: "byte list"
  biOpts :: enqueue_opts

record 's options =
  optStorage :: 's
  optScheduleStore :: bool
  optConcurrency :: int
  optDedupe :: dedupe_options
  optMetrics :: bool
  optDurableDedupe :: bool
  optAckBatchSize :: int
  optAckFlushInterval :: duration

record ('s, 'w) broker =
  b_store :: 's
  b_concurrency :: int
  b_mw :: "'w Middleware list"
  b_handlers :: "string \<rightharpoonup> 'w handler"
  b_dispatchC :: "string \<rightharpoonup> bool"
  b_dispatching :: "string \<Rightarrow> bool"
  b_inflight :: "string \<rightharpoonup> int"
  b_stopped :: bool
  b_aborted :: bool
  b_wg :: int
  b_pendingAcks :: "string \<rightharpoonup> string list"
  b_ackBatchSize :: int
  b_ackFlushInterval :: duration
  b_ackStop :: "bool option"
  b_storeClosed :: bool
  b_closed :: bool
  b_shuttingDown :: bool
  b_dedupe :: dedupe_store
  b_metrics :: "dedupe_event list option"
  b_dedupeTTL :: duration
  b_durableDedupe :: bool
  b_paused :: "string \<rightharpoonup> bool"
  b_qDraining :: "string \<rightharpoonup> bool"
  b_drainDone :: "string \<rightharpoonup> nat"
  b_doneClosed :: "nat set"
  b_nextDone :: nat
  b_schedules :: bool

subsection \<open>Construction and registration\<close>

text \<open>\<open>New\<close> starts the schedule loop when the backend stores schedules; the wait group counts it.\<close>

definition New :: "'s options \<Rightarrow> ('s, 'w) broker" where
  "New opts =
     (let dedupe = (case newDedupeStore (optDedupe opts) of Inr d \<Rightarrow> d | Inl _ \<Rightarrow> TTL newTTLDedupeStore)
      in \<lparr>b_store = optStorage opts,
          b_concurrency = (if optConcurrency opts \<le> 0 then 4 else optConcurrency opts),
          b_mw = [], b_handlers = Map.empty, b_dispatchC = Map.empty, b_dispatching = (\<lambda>_. False),
          b_inflight = Map.empty, b_stopped = False, b_aborted = False,
          b_wg = (if optScheduleStore opts then 1 else 0),
          b_pendingAcks = Map.empty, b_ackBatchSize = optAckBatchSize opts,
          b_ackFlushInterval = optAckFlushInterval opts,
          b_ackStop = (if optAckBatchSize opts > 0 \<and> sint (optAckFlushInterval opts) > 0 then Some False else None),
          b_storeClosed = False, b_closed = False, b_shuttingDown = False,
          b_dedupe = dedupe, b_metrics = (if optMetrics opts then Some [] else None),
          b_dedupeTTL = DefaultDedupeTTL, b_durableDedupe = optDurableDedupe opts,
          b_paused = Map.empty, b_qDraining = Map.empty, b_drainDone = Map.empty, b_doneClosed = {},
          b_nextDone = 0, b_schedules = optScheduleStore opts\<rparr>)"

definition Use :: "'w Middleware list \<Rightarrow> ('s, 'w) broker \<Rightarrow> ('s, 'w) broker" where
  "Use mw b = b\<lparr>b_mw := b_mw b @ mw\<rparr>"

text \<open>The loop of \<open>chain\<close> runs from the last middleware to the first.\<close>

fun chain_loop :: "'w Middleware list \<Rightarrow> nat \<Rightarrow> 'w HandlerFunc \<Rightarrow> 'w HandlerFunc" where
  "chain_loop mw 0 h = h"
| "chain_loop mw (Suc i) h = chain_loop mw i ((mw ! i) h)"

definition chain :: "'w Middleware list \<Rightarrow> 'w HandlerFunc \<Rightarrow> 'w HandlerFunc" where
  "chain mw h = chain_loop mw (length mw) h"

definition normalize_handler_options :: "handler_options \<Rightarrow> handler_options" where
  "normalize_handler_options opts =
     (let opts = (if hoMaxRetries opts < 0 then opts\<lparr>hoMaxRetries := 0\<rparr> else opts)
      in if hoBackoff opts = None then opts\<lparr>hoBackoff := Some default_backoff\<rparr> else opts)"

text \<open>
  \<open>Register\<close>; the flag of the result says whether it starts a dispatcher goroutine for the queue.
\<close>

definition Register ::
  "string \<Rightarrow> 'w HandlerFunc \<Rightarrow> handler_options \<Rightarrow> ('s, 'w) broker \<Rightarrow> bool \<times> ('s, 'w) broker" where
  "Register queue fn opts b =
     (let opts = normalize_handler_options opts;
          h = \<lparr>h_fn = fn, h_opts = opts, h_chain = chain (b_mw b) fn\<rparr>;
          existed = (b_handlers b queue \<noteq> None);
          b = b\<lparr>b_handlers := (b_handlers b)(queue \<mapsto> h)\<rparr>;
          b = (if \<not> existed
               then b\<lparr>b_dispatchC := (b_dispatchC b)(queue \<mapsto> False),
                      b_inflight := (b_inflight b)(queue \<mapsto> 0)\<rparr>
               else b)
      in if \<not> b_dispatching b queue
         then (True, b\<lparr>b_dispatching := (b_dispatching b)(queue := True), b_wg := b_wg b + 1\<rparr>)
         else (False, b))"

subsection \<open>Enqueueing\<close>

definition emit :: "dedupe_event list \<Rightarrow> ('s, 'w) broker \<Rightarrow> ('s, 'w) broker" where
  "emit evs b = b\<lparr>b_metrics := map_option (\<lambda>l. l @ evs) (b_metrics b)\<rparr>"

fun evictions :: "dedupe_store \<Rightarrow> nat" where
  "evictions (TTL d) = 0"
| "evictions (LRU d) = lru_evictions d"

text \<open>\<open>b.dedupe.SeenOrAdd\<close>; the eviction callback reports to the metrics.\<close>

definition b_SeenOrAdd :: "time \<Rightarrow> string \<Rightarrow> ('s, 'w) broker \<Rightarrow> bool \<times> ('s, 'w) broker" where
  "b_SeenOrAdd tD key b =
     (let (seen, d) = SeenOrAdd tD key (b_dedupeTTL b) (b_dedupe b)
      in (seen, emit (replicate (evictions d - evictions (b_dedupe b)) DedupeEviction) (b\<lparr>b_dedupe := d\<rparr>)))"

definition wake :: "string \<Rightarrow> ('s, 'w) broker \<Rightarrow> ('s, 'w) broker" where
  "wake queue b =
     (case b_dispatchC b queue of
        Some _ \<Rightarrow> b\<lparr>b_dispatchC := (b_dispatchC b)(queue \<mapsto> True)\<rparr>
      | None \<Rightarrow> b)"

fun rollback_loop :: "string list \<Rightarrow> dedupe_store \<Rightarrow> dedupe_store" where
  "rollback_loop [] d = d"
| "rollback_loop (key # keys) d = rollback_loop keys (if key \<noteq> '''' then dedupe_Delete key d else d)"

definition rollbackDedupe :: "string list \<Rightarrow> ('s, 'w) broker \<Rightarrow> ('s, 'w) broker" where
  "rollbackDedupe keys b =
     (let b = b\<lparr>b_dedupe := rollback_loop keys (b_dedupe b)\<rparr>
      in if length keys > 0 then emit [DedupeEntries (dedupe_Len (b_dedupe b))] b else b)"

text \<open>The message that \<open>enqueueMessage\<close> builds: an explicit schedule wins over a delay.\<close>

definition build_message :: "string \<Rightarrow> string \<Rightarrow> byte list \<Rightarrow> enqueue_opts \<Rightarrow> time \<Rightarrow> time \<Rightarrow> message" where
  "build_message nid queue payload opts createdAt scheduledAt =
     (let scheduledAt = (if \<not> IsZero (oSchedule opts) then oSchedule opts
                         else if sint (oDelay opts) > 0 then time_add scheduledAt (oDelay opts)
                         else scheduledAt)
      in zero_message\<lparr>mID := nid, mQueue := queue, mPayload := payload, mAttempts := 0, mMaxRetries := 0,
           mCreatedAt := createdAt, mScheduledAt := scheduledAt, mPriority := oPriority opts,
           mDedupeKey := oDedupeKey opts, mMetadata := oMetadata opts\<rparr>)"

text \<open>
  \<open>enqueueMessage\<close>. \<open>tD\<close> is the clock reading of the deduplication store, \<open>nid\<close> the new identifier.
  The copy of the metadata that a batch makes is an equal value.
\<close>

definition enqueueMessage ::
  "time \<Rightarrow> string \<Rightarrow> string \<Rightarrow> byte list \<Rightarrow> enqueue_opts \<Rightarrow> time \<Rightarrow> time \<Rightarrow> ('s, 'w) broker \<Rightarrow>
   (message \<times> string \<times> bool) \<times> ('s, 'w) broker" where
  "enqueueMessage tD nid queue payload opts createdAt scheduledAt b =
     (let keyed = (oDedupeKey opts \<noteq> '''');
          local = (\<not> b_durableDedupe b \<and> keyed);
          added = (if local then queue @ '':'' @ oDedupeKey opts else '''');
          (seen, b) = (if local then b_SeenOrAdd tD added b else (False, b))
      in if seen
         then ((zero_message, '''', False),
               emit [DedupeHit queue, DedupeEntries (dedupe_Len (b_dedupe b))] b)
         else
           let b = (if local then emit [DedupeMiss queue, DedupeEntries (dedupe_Len (b_dedupe b))] b else b);
               b = (if b_durableDedupe b \<and> keyed then emit [DedupeMiss queue] b else b)
           in ((build_message nid queue payload opts createdAt scheduledAt, added, True), b))"

text \<open>\<open>tS\<close> is the backend's own reading of the clock.\<close>

definition b_Enqueue ::
  "'s storage_ops \<Rightarrow> time \<Rightarrow> time \<Rightarrow> time \<Rightarrow> string \<Rightarrow> string \<Rightarrow> byte list \<Rightarrow> enqueue_opts \<Rightarrow>
   ('s, 'w) broker \<Rightarrow> unit result \<times> ('s, 'w) broker" where
  "b_Enqueue ops now tD tS nid queue payload opts b =
     (let ((msg, dedupeKey, ok), b) = enqueueMessage tD nid queue payload opts now now b
      in if \<not> ok then (Inr (), b)
         else case Enqueue_op ops tS queue msg (b_store b) of
                (Inl e, s) \<Rightarrow> (Inl e, rollbackDedupe [dedupeKey] (b\<lparr>b_store := s\<rparr>))
              | (Inr _, s) \<Rightarrow> (Inr (), wake queue (b\<lparr>b_store := s\<rparr>)))"

text \<open>The loop of \<open>EnqueueBatch\<close>: every item with its clock reading and its identifier.\<close>

fun batch_loop ::
  "time \<Rightarrow> string \<Rightarrow> (batch_item \<times> time \<times> string) list \<Rightarrow> message list \<Rightarrow> string list \<Rightarrow> ('s, 'w) broker \<Rightarrow>
   (message list \<times> string list) \<times> ('s, 'w) broker" where
  "batch_loop now queue [] messages keys b = ((messages, keys), b)"
| "batch_loop now queue ((item, tD, nid) # items) messages keys b =
     (let createdAt = time_add now (of_nat (length messages) * microsecond);
          ((msg, key, ok), b) = enqueueMessage tD nid queue (biPayload item) (biOpts item) createdAt now b
      in batch_loop now queue items (if ok then messages @ [msg] else messages)
           (if key \<noteq> '''' then keys @ [key] else keys) b)"

definition b_EnqueueBatch ::
  "'s storage_ops \<Rightarrow> time \<Rightarrow> time \<Rightarrow> string \<Rightarrow> (batch_item \<times> time \<times> string) list \<Rightarrow>
   ('s, 'w) broker \<Rightarrow> unit result \<times> ('s, 'w) broker" where
  "b_EnqueueBatch ops now tS queue items b =
     (if items = [] then (Inr (), b)
      else let ((messages, keys), b) = batch_loop now queue items [] [] b
           in if messages = [] then (Inr (), b)
              else case EnqueueBatch_op ops tS queue messages (b_store b) of
                     (Inl e, s) \<Rightarrow> (Inl e, rollbackDedupe keys (b\<lparr>b_store := s\<rparr>))
                   | (Inr _, s) \<Rightarrow> (Inr (), wake queue (b\<lparr>b_store := s\<rparr>)))"

subsection \<open>Acknowledgements\<close>

text \<open>The two critical sections of \<open>flushAcks\<close>, around the call of the backend.\<close>

definition flush_take :: "string \<Rightarrow> ('s, 'w) broker \<Rightarrow> string list \<times> ('s, 'w) broker" where
  "flush_take queue b =
     ((case b_pendingAcks b queue of Some ids \<Rightarrow> ids | None \<Rightarrow> []),
      b\<lparr>b_pendingAcks := (b_pendingAcks b)(queue := None)\<rparr>)"

definition flush_restore :: "string \<Rightarrow> string list \<Rightarrow> ('s, 'w) broker \<Rightarrow> ('s, 'w) broker" where
  "flush_restore queue ids b =
     b\<lparr>b_pendingAcks := (b_pendingAcks b)(queue \<mapsto>
         ids @ (case b_pendingAcks b queue of Some l \<Rightarrow> l | None \<Rightarrow> []))\<rparr>"

definition flushAcks :: "'s storage_ops \<Rightarrow> string \<Rightarrow> ('s, 'w) broker \<Rightarrow> unit result \<times> ('s, 'w) broker" where
  "flushAcks ops queue b =
     (let (ids, b) = flush_take queue b
      in if ids = [] then (Inr (), b)
         else case AckBatch_op ops queue ids (b_store b) of
                (Inl e, s) \<Rightarrow> (Inl e, flush_restore queue ids (b\<lparr>b_store := s\<rparr>))
              | (Inr _, s) \<Rightarrow> (Inr (), b\<lparr>b_store := s\<rparr>))"

text \<open>\<open>flushAllAcks\<close> visits the queues in the order \<open>qs\<close> in which Go ranges over the map.\<close>

fun flush_loop :: "'s storage_ops \<Rightarrow> string list \<Rightarrow> err option \<Rightarrow> ('s, 'w) broker \<Rightarrow> err option \<times> ('s, 'w) broker" where
  "flush_loop ops [] firstErr b = (firstErr, b)"
| "flush_loop ops (queue # qs) firstErr b =
     (case flushAcks ops queue b of
        (Inl e, b) \<Rightarrow> flush_loop ops qs (if firstErr = None then Some e else firstErr) b
      | (Inr _, b) \<Rightarrow> flush_loop ops qs firstErr b)"

definition flushAllAcks ::
  "'s storage_ops \<Rightarrow> string list \<Rightarrow> ('s, 'w) broker \<Rightarrow> unit result \<times> ('s, 'w) broker" where
  "flushAllAcks ops qs b =
     (case flush_loop ops qs None b of (None, b) \<Rightarrow> (Inr (), b) | (Some e, b) \<Rightarrow> (Inl e, b))"

definition ack :: "'s storage_ops \<Rightarrow> string \<Rightarrow> string \<Rightarrow> ('s, 'w) broker \<Rightarrow> unit result \<times> ('s, 'w) broker" where
  "ack ops queue msgID b =
     (if b_ackBatchSize b \<le> 0 \<or> b_ackStop b = None
      then let (r, s) = Ack_op ops queue msgID (b_store b) in (r, b\<lparr>b_store := s\<rparr>)
      else let ids = (case b_pendingAcks b queue of Some l \<Rightarrow> l | None \<Rightarrow> []) @ [msgID];
               b = b\<lparr>b_pendingAcks := (b_pendingAcks b)(queue \<mapsto> ids)\<rparr>
           in if int (length ids) \<ge> b_ackBatchSize b then flushAcks ops queue b else (Inr (), b))"

subsection \<open>Handling one message\<close>

definition handlerCtx :: "'w handler \<Rightarrow> hctx" where
  "handlerCtx h = \<lparr>ctx_timeout = (if sint (hoTimeout (h_opts h)) > 0 then Some (hoTimeout (h_opts h)) else None)\<rparr>"

definition toDeadLetter ::
  "'s storage_ops \<Rightarrow> time \<Rightarrow> string \<Rightarrow> string \<Rightarrow> message \<Rightarrow> err \<Rightarrow> ('s, 'w) broker \<Rightarrow> ('s, 'w) broker" where
  "toDeadLetter ops tS nid queue msg handlerErr b =
     (let (r, s) = DeadLetter_op ops tS nid queue msg (Some handlerErr) (b_store b) in b\<lparr>b_store := s\<rparr>)"

text \<open>\<open>now\<close> is the broker's reading of the clock, \<open>tS\<close> the backend's, \<open>nid\<close> a dead letter's identifier.\<close>

definition handleOne ::
  "'s storage_ops \<Rightarrow> time \<Rightarrow> time \<Rightarrow> string \<Rightarrow> string \<Rightarrow> message \<Rightarrow> ('s, 'w) broker \<Rightarrow> 'w \<Rightarrow>
   unit result \<times> ('s, 'w) broker \<times> 'w" where
  "handleOne ops now tS nid queue msg b w =
     (case b_handlers b queue of
        None \<Rightarrow>
          (let msg = msg\<lparr>mScheduledAt := time_add now (100 * millisecond)\<rparr>;
               (r, s) = Enqueue_op ops tS queue msg (b_store b)
           in (Inr (), b\<lparr>b_store := s\<rparr>, w))
      | Some h \<Rightarrow>
          if hoMaxRetries (h_opts h) > 0 \<and> mAttempts msg > hoMaxRetries (h_opts h)
          then (Inr (), toDeadLetter ops tS nid queue msg (ErrMsg ''max retries exceeded'') b, w)
          else
            (case h_chain h (handlerCtx h) msg w of
               (Inl p, w) \<Rightarrow> (Inl p, b, w)
             | (Inr None, w) \<Rightarrow> (let (r, b) = ack ops queue (mID msg) b in (Inr (), b, w))
             | (Inr (Some err), w) \<Rightarrow>
                 (let msg = msg\<lparr>mAttempts := mAttempts msg + 1\<rparr>
                  in if mAttempts msg > hoMaxRetries (h_opts h)
                     then (Inr (), toDeadLetter ops tS nid queue msg err b, w)
                     else (case hoBackoff (h_opts h) of
                             None \<Rightarrow> (Inl (GoPanic ''nil pointer dereference''), b, w)
                           | Some backoff \<Rightarrow>
                               (let delay = Next backoff (mAttempts msg);
                                    msg = msg\<lparr>mScheduledAt := time_add now delay\<rparr>;
                                    (r, s) = Retry_op ops tS queue msg (Some err) (b_store b)
                                in (Inr (), b\<lparr>b_store := s\<rparr>, w))))))"

text \<open>
  A worker goroutine in two stages: \<open>handleOne\<close> up to the return of the handler, and what it then does to the
  message. \<open>handled\<close> is what the second stage remembers of the first: the options are those of the handler that
  ran, which may have been replaced since.
\<close>

datatype handled = NoHandler | Exceeded | Ran handler_options "err option"

definition handle_start :: "string \<Rightarrow> message \<Rightarrow> ('s, 'w) broker \<Rightarrow> 'w \<Rightarrow> handled result \<times> 'w" where
  "handle_start queue msg b w =
     (case b_handlers b queue of
        None \<Rightarrow> (Inr NoHandler, w)
      | Some h \<Rightarrow>
          if hoMaxRetries (h_opts h) > 0 \<and> mAttempts msg > hoMaxRetries (h_opts h) then (Inr Exceeded, w)
          else (case h_chain h (handlerCtx h) msg w of (Inl p, w) \<Rightarrow> (Inl p, w) | (Inr r, w) \<Rightarrow> (Inr (Ran (h_opts h) r), w)))"

fun handle_settle ::
  "'s storage_ops \<Rightarrow> time \<Rightarrow> time \<Rightarrow> string \<Rightarrow> string \<Rightarrow> message \<Rightarrow> handled \<Rightarrow> ('s, 'w) broker \<Rightarrow> unit result \<times> ('s, 'w) broker" where
  "handle_settle ops now tS nid queue msg NoHandler b =
     (let msg = msg\<lparr>mScheduledAt := time_add now (100 * millisecond)\<rparr>;
          (r, s) = Enqueue_op ops tS queue msg (b_store b)
      in (Inr (), b\<lparr>b_store := s\<rparr>))"
| "handle_settle ops now tS nid queue msg Exceeded b = (Inr (), toDeadLetter ops tS nid queue msg (ErrMsg ''max retries exceeded'') b)"
| "handle_settle ops now tS nid queue msg (Ran ho None) b = (let (r, b) = ack ops queue (mID msg) b in (Inr (), b))"
| "handle_settle ops now tS nid queue msg (Ran ho (Some err)) b =
     (let msg = msg\<lparr>mAttempts := mAttempts msg + 1\<rparr>
      in if mAttempts msg > hoMaxRetries ho then (Inr (), toDeadLetter ops tS nid queue msg err b)
         else (case hoBackoff ho of
                 None \<Rightarrow> (Inl (GoPanic ''nil pointer dereference''), b)
               | Some backoff \<Rightarrow>
                   (let delay = Next backoff (mAttempts msg);
                        msg = msg\<lparr>mScheduledAt := time_add now delay\<rparr>;
                        (r, s) = Retry_op ops tS queue msg (Some err) (b_store b)
                    in (Inr (), b\<lparr>b_store := s\<rparr>))))"

text \<open>Nothing in between, the two stages are \<open>handleOne\<close>.\<close>

lemma handleOne_stages:
  "handleOne ops now tS nid queue msg b w =
     (case handle_start queue msg b w of
        (Inl p, w) \<Rightarrow> (Inl p, b, w)
      | (Inr out, w) \<Rightarrow> (let (r, b) = handle_settle ops now tS nid queue msg out b in (r, b, w)))"
  by (auto simp: handleOne_def handle_start_def Let_def split: option.splits prod.splits sum.splits)

subsection \<open>Draining\<close>

text \<open>\<open>inflightFor\<close> creates the counter of a queue on demand.\<close>

definition inflightFor :: "string \<Rightarrow> ('s, 'w) broker \<Rightarrow> int \<times> ('s, 'w) broker" where
  "inflightFor queue b =
     (case b_inflight b queue of
        Some n \<Rightarrow> (n, b)
      | None \<Rightarrow> (0, b\<lparr>b_inflight := (b_inflight b)(queue \<mapsto> 0)\<rparr>))"

definition quiescent :: "string \<Rightarrow> ('s, 'w) broker \<Rightarrow> bool \<times> ('s, 'w) broker" where
  "quiescent queue b = (let (n, b) = inflightFor queue b in (n = 0, b))"

definition drainComplete :: "'s storage_ops \<Rightarrow> string \<Rightarrow> ('s, 'w) broker \<Rightarrow> bool \<times> ('s, 'w) broker" where
  "drainComplete ops queue b =
     (let (quiet, b) = quiescent queue b
      in if \<not> quiet then (False, b)
         else case flushAcks ops queue b of
                (Inl e, b) \<Rightarrow> (False, b)
              | (Inr _, b) \<Rightarrow>
                  (case Stats_op ops queue (b_store b) of
                     (Inl e, s) \<Rightarrow> (False, b\<lparr>b_store := s\<rparr>)
                   | (Inr stats, s) \<Rightarrow> (qDepth stats = 0, b\<lparr>b_store := s\<rparr>)))"

definition draining :: "('s, 'w) broker \<Rightarrow> bool" where
  "draining b = b_stopped b"

text \<open>\<open>pausedFlag\<close> creates the flag of a queue on demand; a created flag is unset.\<close>

definition pausedFlag :: "string \<Rightarrow> ('s, 'w) broker \<Rightarrow> bool \<times> ('s, 'w) broker" where
  "pausedFlag queue b =
     (case b_paused b queue of
        Some f \<Rightarrow> (f, b)
      | None \<Rightarrow> (False, b\<lparr>b_paused := (b_paused b)(queue \<mapsto> False)\<rparr>))"

definition isPaused :: "string \<Rightarrow> ('s, 'w) broker \<Rightarrow> bool \<times> ('s, 'w) broker" where
  "isPaused queue b = pausedFlag queue b"

definition Pause :: "string \<Rightarrow> ('s, 'w) broker \<Rightarrow> ('s, 'w) broker" where
  "Pause queue b = b\<lparr>b_paused := (b_paused b)(queue \<mapsto> True)\<rparr>"

definition isQueueDraining :: "string \<Rightarrow> ('s, 'w) broker \<Rightarrow> bool" where
  "isQueueDraining queue b = (case b_qDraining b queue of Some f \<Rightarrow> f | None \<Rightarrow> False)"

text \<open>\<open>Resume\<close>; the flag of the result says whether it restarts the queue's dispatcher.\<close>

definition Resume :: "string \<Rightarrow> ('s, 'w) broker \<Rightarrow> bool \<times> ('s, 'w) broker" where
  "Resume queue b =
     (let b = b\<lparr>b_paused := (b_paused b)(queue \<mapsto> False)\<rparr>;
          b = (if b_qDraining b queue \<noteq> None
               then b\<lparr>b_qDraining := (b_qDraining b)(queue \<mapsto> False)\<rparr> else b);
          start = (b_handlers b queue \<noteq> None \<and> \<not> b_dispatching b queue \<and> \<not> b_closed b);
          b = (if start
               then b\<lparr>b_dispatching := (b_dispatching b)(queue := True), b_wg := b_wg b + 1\<rparr> else b)
      in (start, wake queue b))"

text \<open>
  \<open>Drain\<close> up to its wait (\<open>None\<close>: the queue has no handler and the call returns at once; \<open>Some d\<close>: it
  waits on the channel \<open>d\<close>), and its two ends.
\<close>

definition Drain_begin :: "string \<Rightarrow> ('s, 'w) broker \<Rightarrow> nat option \<times> ('s, 'w) broker" where
  "Drain_begin queue b =
     (if b_handlers b queue = None then (None, b)
      else let d = b_nextDone b;
               b = b\<lparr>b_qDraining := (b_qDraining b)(queue \<mapsto> True), b_nextDone := Suc d,
                     b_drainDone := (b_drainDone b)(queue \<mapsto> d)\<rparr>
           in (Some d, wake queue b))"

definition Drain_done :: "string \<Rightarrow> ('s, 'w) broker \<Rightarrow> ('s, 'w) broker" where
  "Drain_done queue b = b\<lparr>b_dedupe := purgeQueue queue (b_dedupe b)\<rparr>"

definition Drain_cancel :: "string \<Rightarrow> ('s, 'w) broker \<Rightarrow> ('s, 'w) broker" where
  "Drain_cancel queue b = b\<lparr>b_qDraining := (b_qDraining b)(queue \<mapsto> False)\<rparr>"

text \<open>Closing a closed channel panics.\<close>

definition signalDrainDone :: "string \<Rightarrow> ('s, 'w) broker \<Rightarrow> unit result \<times> ('s, 'w) broker" where
  "signalDrainDone queue b =
     (case b_drainDone b queue of
        None \<Rightarrow> (Inr (), b)
      | Some d \<Rightarrow> if d \<in> b_doneClosed b then (Inl (GoPanic ''close of closed channel''), b)
                  else (Inr (), b\<lparr>b_doneClosed := insert d (b_doneClosed b)\<rparr>))"

subsection \<open>The dispatcher of a queue\<close>

text \<open>
  One pass of the loop of \<open>dispatch\<close>, cut where another goroutine may run: the pause test and the
  dequeue (\<open>dispatch_top\<close>); after an empty dequeue the tests of the abort and of \<open>Shutdown\<close>
  (\<open>dispatch_empty\<close>), the test of \<open>Drain\<close> (\<open>dispatch_second\<close>), the places of \<open>drainComplete\<close>, which either test
  calls (\<open>drain_step\<close>: the quiescence test, the two critical sections of the flush around the call of the
  backend, the depth), and the close of the channel (\<open>dispatch_signal\<close>). The result says how the loop goes on.
  Starting the workers and the waits are steps of the theory \<open>Broker_System\<close>.
\<close>

datatype drain_call = ByShutdown | ByDrain

datatype drain_pc = Quiet | Flush | Flushing "string list" | Unflush "string list" | Counting

datatype dispatch_next =
    Exit
  | SleepPaused
  | GotNothing
  | Got "message list"
  | NextSecond
  | NextDrain drain_call drain_pc
  | NextSignal
  | SleepIdle
  | Crash err

definition dispatch_top ::
  "'s storage_ops \<Rightarrow> time \<Rightarrow> string \<Rightarrow> ('s, 'w) broker \<Rightarrow> dispatch_next \<times> ('s, 'w) broker" where
  "dispatch_top ops tS queue b =
     (if b_aborted b then (Exit, b)
      else let (paused, b) = isPaused queue b
           in if paused then (SleepPaused, b)
              else case Dequeue_op ops tS queue (b_concurrency b) (b_store b) of
                     (Inr msgs, s) \<Rightarrow> (if msgs = [] then GotNothing else Got msgs, b\<lparr>b_store := s\<rparr>)
                   | (Inl e, s) \<Rightarrow> (GotNothing, b\<lparr>b_store := s\<rparr>))"

definition dispatch_empty :: "('s, 'w) broker \<Rightarrow> dispatch_next \<times> ('s, 'w) broker" where
  "dispatch_empty b =
     (if b_aborted b then Exit else if draining b then NextDrain ByShutdown Quiet else NextSecond, b)"

definition dispatch_second :: "string \<Rightarrow> ('s, 'w) broker \<Rightarrow> dispatch_next \<times> ('s, 'w) broker" where
  "dispatch_second queue b = (if isQueueDraining queue b then NextDrain ByDrain Quiet else SleepIdle, b)"

text \<open>How the loop goes on when \<open>drainComplete\<close> has returned.\<close>

fun after_drain :: "drain_call \<Rightarrow> bool \<Rightarrow> dispatch_next" where
  "after_drain ByShutdown complete = (if complete then Exit else NextSecond)"
| "after_drain ByDrain complete = (if complete then NextSignal else SleepIdle)"

fun drain_step ::
  "'s storage_ops \<Rightarrow> string \<Rightarrow> drain_call \<Rightarrow> drain_pc \<Rightarrow> ('s, 'w) broker \<Rightarrow> dispatch_next \<times> ('s, 'w) broker" where
  "drain_step ops queue c Quiet b =
     (let (quiet, b) = quiescent queue b in (if quiet then NextDrain c Flush else after_drain c False, b))"
| "drain_step ops queue c Flush b =
     (let (l, b) = flush_take queue b in (NextDrain c (if l = [] then Counting else Flushing l), b))"
| "drain_step ops queue c (Flushing l) b =
     (case AckBatch_op ops queue l (b_store b) of
        (Inl e, s) \<Rightarrow> (NextDrain c (Unflush l), b\<lparr>b_store := s\<rparr>)
      | (Inr _, s) \<Rightarrow> (NextDrain c Counting, b\<lparr>b_store := s\<rparr>))"
| "drain_step ops queue c (Unflush l) b = (after_drain c False, flush_restore queue l b)"
| "drain_step ops queue c Counting b =
     (case Stats_op ops queue (b_store b) of
        (Inl e, s) \<Rightarrow> (after_drain c False, b\<lparr>b_store := s\<rparr>)
      | (Inr stats, s) \<Rightarrow> (after_drain c (qDepth stats = 0), b\<lparr>b_store := s\<rparr>))"

definition dispatch_signal :: "string \<Rightarrow> ('s, 'w) broker \<Rightarrow> dispatch_next \<times> ('s, 'w) broker" where
  "dispatch_signal queue b = (case signalDrainDone queue b of (Inl p, b) \<Rightarrow> (Crash p, b) | (Inr _, b) \<Rightarrow> (Exit, b))"

text \<open>The two deferred calls of \<open>dispatch\<close>.\<close>

definition dispatch_exit :: "string \<Rightarrow> ('s, 'w) broker \<Rightarrow> ('s, 'w) broker" where
  "dispatch_exit queue b = b\<lparr>b_dispatching := (b_dispatching b)(queue := False), b_wg := b_wg b - 1\<rparr>"

text \<open>The counters around a worker: before \<open>go\<close>, and its deferred calls.\<close>

definition worker_start :: "string \<Rightarrow> ('s, 'w) broker \<Rightarrow> ('s, 'w) broker" where
  "worker_start queue b =
     (let (n, b) = inflightFor queue b
      in b\<lparr>b_inflight := (b_inflight b)(queue \<mapsto> n + 1), b_wg := b_wg b + 1\<rparr>)"

definition worker_end :: "string \<Rightarrow> ('s, 'w) broker \<Rightarrow> ('s, 'w) broker" where
  "worker_end queue b =
     b\<lparr>b_inflight := (b_inflight b)(queue := map_option (\<lambda>n. n - 1) (b_inflight b queue)),
       b_wg := b_wg b - 1\<rparr>"

subsection \<open>Shutdown\<close>

definition wakeAll :: "('s, 'w) broker \<Rightarrow> ('s, 'w) broker" where
  "wakeAll b = b\<lparr>b_dispatchC := (\<lambda>q. map_option (\<lambda>_. True) (b_dispatchC b q))\<rparr>"

text \<open>\<open>Shutdown\<close> up to its wait; a second call is refused.\<close>

definition Shutdown_begin :: "('s, 'w) broker \<Rightarrow> unit result \<times> ('s, 'w) broker" where
  "Shutdown_begin b =
     (if b_closed b then (Inl ErrAlreadyClosed, b)
      else (Inr (), wakeAll (b\<lparr>b_closed := True, b_shuttingDown := True, b_stopped := True\<rparr>)))"

definition stopAckLoop :: "('s, 'w) broker \<Rightarrow> ('s, 'w) broker" where
  "stopAckLoop b = b\<lparr>b_ackStop := map_option (\<lambda>_. True) (b_ackStop b)\<rparr>"

text \<open>
  What follows once the wait group has reached zero: the last flush and \<open>closeOnce\<close>. On expiry of the
  caller's context the same work runs later, in a goroutine of its own.
\<close>

definition Shutdown_finish ::
  "'s storage_ops \<Rightarrow> string list \<Rightarrow> ('s, 'w) broker \<Rightarrow> unit result \<times> ('s, 'w) broker" where
  "Shutdown_finish ops qs b =
     (let b = stopAckLoop b;
          (r, b) = flushAllAcks ops qs b
      in (r, if b_storeClosed b then b
             else let (rc, s) = Close_op ops (b_store b) in b\<lparr>b_store := s, b_storeClosed := True\<rparr>))"

definition Shutdown_abort :: "('s, 'w) broker \<Rightarrow> ('s, 'w) broker" where
  "Shutdown_abort b = b\<lparr>b_aborted := True\<rparr>"

definition Healthy :: "('s, 'w) broker \<Rightarrow> bool" where
  "Healthy b = (\<not> b_shuttingDown b)"

definition Queues :: "string list \<Rightarrow> ('s, 'w) broker \<Rightarrow> string list" where
  "Queues ks b = filter (\<lambda>q. b_handlers b q \<noteq> None) ks"

definition b_Stats :: "'s storage_ops \<Rightarrow> string \<Rightarrow> ('s, 'w) broker \<Rightarrow> queue_stats result \<times> ('s, 'w) broker" where
  "b_Stats ops queue b = (let (r, s) = Stats_op ops queue (b_store b) in (r, b\<lparr>b_store := s\<rparr>))"

subsection \<open>Periodic jobs\<close>

text \<open>
  The catch-up loop of \<open>scheduleLoop\<close>: \<open>for !next.After(now) { next = next.Add(s.Interval) }\<close>. The loop
  is entered with a positive interval only; with another one it would not end, which is \<open>None\<close>.
\<close>

partial_function (option) catch_up :: "duration \<Rightarrow> time \<Rightarrow> time \<Rightarrow> time option" where
  "catch_up interval now nxt =
     (if \<not> nxt > now then catch_up interval now (time_add nxt interval) else Some nxt)"

text \<open>One due schedule, with an identifier for its run.\<close>

definition run_schedule :: "'s schedule_ops \<Rightarrow> time \<Rightarrow> time \<Rightarrow> schedule \<Rightarrow> string \<Rightarrow> 's \<Rightarrow> 's option" where
  "run_schedule sops clk now sc nid s =
     (if sint (sInterval sc) \<le> 0 then Some s
      else case catch_up (sInterval sc) now (time_add (sNextRunAt sc) (sInterval sc)) of
             None \<Rightarrow> None
           | Some nxt \<Rightarrow> Some (snd (RunSchedule_op sops clk nid sc now nxt s)))"

text \<open>A tick begins with a poll; a failed one is logged.\<close>

definition schedule_poll ::
  "'s schedule_ops \<Rightarrow> time \<Rightarrow> ('s, 'w) broker \<Rightarrow> (time \<times> schedule list) option \<times> ('s, 'w) broker" where
  "schedule_poll sops now b =
     (case DueSchedules_op sops now 100 (b_store b) of
        (Inl e, s) \<Rightarrow> (None, b\<lparr>b_store := s\<rparr>)
      | (Inr ss, s) \<Rightarrow> (Some (now, ss), b\<lparr>b_store := s\<rparr>))"

definition no_schedules :: err where
  "no_schedules = ErrMsg ''shoebox: periodic jobs require a schedule-capable storage backend''"

definition RegisterPeriodic ::
  "'s schedule_ops \<Rightarrow> schedule \<Rightarrow> ('s, 'w) broker \<Rightarrow> unit result \<times> ('s, 'w) broker" where
  "RegisterPeriodic sops sc b =
     (if \<not> b_schedules b then (Inl no_schedules, b)
      else let (r, s) = CreateSchedule_op sops sc (b_store b) in (r, b\<lparr>b_store := s\<rparr>))"

definition RemovePeriodic ::
  "'s schedule_ops \<Rightarrow> string \<Rightarrow> ('s, 'w) broker \<Rightarrow> unit result \<times> ('s, 'w) broker" where
  "RemovePeriodic sops sid b =
     (if \<not> b_schedules b then (Inl no_schedules, b)
      else let (r, s) = DeleteSchedule_op sops sid (b_store b) in (r, b\<lparr>b_store := s\<rparr>))"

definition PeriodicJobs ::
  "'s schedule_ops \<Rightarrow> string \<Rightarrow> ('s, 'w) broker \<Rightarrow> schedule list result \<times> ('s, 'w) broker" where
  "PeriodicJobs sops queue b =
     (if \<not> b_schedules b then (Inl no_schedules, b)
      else let (r, s) = ListSchedules_op sops queue (b_store b) in (r, b\<lparr>b_store := s\<rparr>))"

subsection \<open>Middleware\<close>

lemma chain_loop_foldr: "n \<le> length mw \<Longrightarrow> chain_loop mw n h = foldr (\<lambda>m h. m h) (take n mw) h"
  by (induction mw n h rule: chain_loop.induct) (simp_all add: take_Suc_conv_app_nth)

lemma chain_foldr: "chain mw h = foldr (\<lambda>m h. m h) mw h"
  by (simp add: chain_def chain_loop_foldr)

text \<open>
  Middleware order. A queue's handler runs inside the middleware that \<open>Use\<close> had installed when the
  queue was registered, the first installed outermost; middleware installed later does not touch it.
\<close>

theorem Register_middleware:
  "map_option h_chain (b_handlers (Use later (snd (Register queue fn opts (Use mw b)))) queue) =
     Some (foldr (\<lambda>m h. m h) (b_mw b @ mw) fn)"
  by (simp add: Register_def Use_def Let_def chain_foldr)

subsection \<open>Deduplication at the broker\<close>

lemma emit_sel [simp]:
  "b_store (emit evs b) = b_store b" "b_dedupe (emit evs b) = b_dedupe b"
  "b_dedupeTTL (emit evs b) = b_dedupeTTL b" "b_durableDedupe (emit evs b) = b_durableDedupe b"
  "b_handlers (emit evs b) = b_handlers b" "b_dispatchC (emit evs b) = b_dispatchC b"
  "b_dispatching (emit evs b) = b_dispatching b" "b_inflight (emit evs b) = b_inflight b"
  "b_stopped (emit evs b) = b_stopped b" "b_aborted (emit evs b) = b_aborted b" "b_wg (emit evs b) = b_wg b"
  "b_pendingAcks (emit evs b) = b_pendingAcks b" "b_storeClosed (emit evs b) = b_storeClosed b"
  "b_closed (emit evs b) = b_closed b" "b_concurrency (emit evs b) = b_concurrency b"
  "b_qDraining (emit evs b) = b_qDraining b" "b_drainDone (emit evs b) = b_drainDone b"
  "b_doneClosed (emit evs b) = b_doneClosed b" "b_nextDone (emit evs b) = b_nextDone b"
  "b_paused (emit evs b) = b_paused b" "b_shuttingDown (emit evs b) = b_shuttingDown b"
  by (simp_all add: emit_def)

lemma wake_sel [simp]:
  "b_store (wake q b) = b_store b" "b_dedupe (wake q b) = b_dedupe b"
  "b_dedupeTTL (wake q b) = b_dedupeTTL b" "b_durableDedupe (wake q b) = b_durableDedupe b"
  "b_handlers (wake q b) = b_handlers b"
  "b_dispatching (wake q b) = b_dispatching b" "b_inflight (wake q b) = b_inflight b"
  "b_stopped (wake q b) = b_stopped b" "b_aborted (wake q b) = b_aborted b" "b_wg (wake q b) = b_wg b"
  "b_pendingAcks (wake q b) = b_pendingAcks b" "b_storeClosed (wake q b) = b_storeClosed b"
  "b_closed (wake q b) = b_closed b" "b_concurrency (wake q b) = b_concurrency b"
  "b_qDraining (wake q b) = b_qDraining b" "b_drainDone (wake q b) = b_drainDone b"
  "b_doneClosed (wake q b) = b_doneClosed b" "b_nextDone (wake q b) = b_nextDone b"
  "b_paused (wake q b) = b_paused b" "b_shuttingDown (wake q b) = b_shuttingDown b"
  by (simp_all add: wake_def split: option.split)

abbreviation key_of :: "string \<Rightarrow> enqueue_opts \<Rightarrow> string" where
  "key_of queue opts \<equiv> queue @ '':'' @ oDedupeKey opts"

abbreviation dedupes :: "enqueue_opts \<Rightarrow> ('s, 'w) broker \<Rightarrow> bool" where
  "dedupes opts b \<equiv> \<not> b_durableDedupe b \<and> oDedupeKey opts \<noteq> ''''"

text \<open>The one place where \<open>enqueueMessage\<close> touches the state is the deduplication store.\<close>

lemma b_SeenOrAdd_shape:
  "\<exists>l. b_SeenOrAdd tD key b = (fst (SeenOrAdd tD key (b_dedupeTTL b) (b_dedupe b)),
     b\<lparr>b_dedupe := snd (SeenOrAdd tD key (b_dedupeTTL b) (b_dedupe b)), b_metrics := l\<rparr>)"
  by (auto simp: b_SeenOrAdd_def emit_def split_beta)

lemma build_message_sel [simp]:
  "mID (build_message nid q payload opts c s) = nid" "mCreatedAt (build_message nid q payload opts c s) = c"
  "mAttempts (build_message nid q payload opts c s) = 0"
  by (simp_all add: build_message_def Let_def)

lemma enqueueMessage_cases:
  obtains (seen) l where "dedupes opts b" "fst (SeenOrAdd tD (key_of q opts) (b_dedupeTTL b) (b_dedupe b))"
      "enqueueMessage tD nid q payload opts c s b = ((zero_message, '''', False),
         b\<lparr>b_dedupe := snd (SeenOrAdd tD (key_of q opts) (b_dedupeTTL b) (b_dedupe b)), b_metrics := l\<rparr>)"
  | (added) l where "dedupes opts b" "\<not> fst (SeenOrAdd tD (key_of q opts) (b_dedupeTTL b) (b_dedupe b))"
      "enqueueMessage tD nid q payload opts c s b = ((build_message nid q payload opts c s, key_of q opts, True),
         b\<lparr>b_dedupe := snd (SeenOrAdd tD (key_of q opts) (b_dedupeTTL b) (b_dedupe b)), b_metrics := l\<rparr>)"
  | (plain) l where "\<not> dedupes opts b"
      "enqueueMessage tD nid q payload opts c s b = ((build_message nid q payload opts c s, '''', True), b\<lparr>b_metrics := l\<rparr>)"
proof (cases "dedupes opts b")
  case True
  obtain l where sh: "b_SeenOrAdd tD (key_of q opts) b =
      (fst (SeenOrAdd tD (key_of q opts) (b_dedupeTTL b) (b_dedupe b)),
       b\<lparr>b_dedupe := snd (SeenOrAdd tD (key_of q opts) (b_dedupeTTL b) (b_dedupe b)), b_metrics := l\<rparr>)"
    using b_SeenOrAdd_shape by blast
  show ?thesis
  proof (cases "fst (SeenOrAdd tD (key_of q opts) (b_dedupeTTL b) (b_dedupe b))")
    case seen': True
    show ?thesis
      using True seen' sh by (intro seen) (simp_all add: enqueueMessage_def emit_def Let_def)
  next
    case False
    show ?thesis
      using True False sh by (intro added) (simp_all add: enqueueMessage_def emit_def Let_def)
  qed
next
  case False
  show ?thesis
  proof (cases "b_durableDedupe b \<and> oDedupeKey opts \<noteq> ''''")
    case True
    then show ?thesis
      using False by (intro plain) (simp_all add: enqueueMessage_def emit_def Let_def)
  next
    case no: False
    with False have "oDedupeKey opts = ''''" by blast
    then have "enqueueMessage tD nid q payload opts c s b =
        ((build_message nid q payload opts c s, '''', True), b\<lparr>b_metrics := b_metrics b\<rparr>)"
      by (simp add: enqueueMessage_def Let_def)
    with False show ?thesis by (rule plain)
  qed
qed

lemma rollbackDedupe_sel [simp]:
  "b_store (rollbackDedupe keys b) = b_store b" "b_dedupe (rollbackDedupe keys b) = rollback_loop keys (b_dedupe b)"
  "b_dedupeTTL (rollbackDedupe keys b) = b_dedupeTTL b"
  "b_durableDedupe (rollbackDedupe keys b) = b_durableDedupe b"
  "b_handlers (rollbackDedupe keys b) = b_handlers b" "b_dispatchC (rollbackDedupe keys b) = b_dispatchC b"
  "b_dispatching (rollbackDedupe keys b) = b_dispatching b" "b_inflight (rollbackDedupe keys b) = b_inflight b"
  "b_stopped (rollbackDedupe keys b) = b_stopped b" "b_aborted (rollbackDedupe keys b) = b_aborted b"
  "b_wg (rollbackDedupe keys b) = b_wg b" "b_pendingAcks (rollbackDedupe keys b) = b_pendingAcks b"
  "b_storeClosed (rollbackDedupe keys b) = b_storeClosed b" "b_closed (rollbackDedupe keys b) = b_closed b"
  "b_concurrency (rollbackDedupe keys b) = b_concurrency b" "b_qDraining (rollbackDedupe keys b) = b_qDraining b"
  "b_drainDone (rollbackDedupe keys b) = b_drainDone b" "b_doneClosed (rollbackDedupe keys b) = b_doneClosed b"
  "b_nextDone (rollbackDedupe keys b) = b_nextDone b" "b_paused (rollbackDedupe keys b) = b_paused b"
  "b_shuttingDown (rollbackDedupe keys b) = b_shuttingDown b"
  by (simp_all add: rollbackDedupe_def Let_def)

lemma rollback_loop_live:
  assumes "dedupe_inv d"
  shows "dedupe_inv (rollback_loop keys d) \<and>
    (dedupe_live t k (rollback_loop keys d) \<longleftrightarrow> dedupe_live t k d \<and> (k \<in> set keys \<longrightarrow> k = ''''))"
  using assms
proof (induction keys arbitrary: d)
  case (Cons key keys)
  let ?d = "if key \<noteq> '''' then dedupe_Delete key d else d"
  have "dedupe_inv ?d" using Cons.prems by (simp add: dd.inv_del)
  from Cons.IH [OF this] show ?case
    using Cons.prems by (auto simp: dd.del_live)
qed simp

lemma enqueueMessage_live:
  assumes "enqueueMessage tD nid q payload opts c s b = ((msg, key, ok), b')" "dedupe_inv (b_dedupe b)"
  shows "dedupe_inv (b_dedupe b') \<and> (dedupe_live t k (b_dedupe b') \<longrightarrow> dedupe_live t k (b_dedupe b) \<or> k = key)"
proof (cases rule: enqueueMessage_cases [where tD = tD and q = q and opts = opts and b = b and nid = nid and payload = payload and c = c and s = s])
  case (seen l)
  with assms show ?thesis by (auto simp: dd.inv_seen_or_add dd.seen_kept dd.seen_iff)
next
  case (added l)
  with assms show ?thesis by (auto simp: dd.inv_seen_or_add dest: dd.no_spurious)
next
  case (plain l)
  with assms show ?thesis by auto
qed

lemma enqueueMessage_key_ne: 
  "enqueueMessage tD nid q payload opts c s b = ((msg, key, ok), b') \<Longrightarrow> \<not> ok \<Longrightarrow> key = ''''"
  by (cases rule: enqueueMessage_cases [where tD = tD and q = q and opts = opts and b = b and nid = nid and payload = payload and c = c and s = s]) auto

lemma batch_loop_live:
  assumes "batch_loop now q items messages keys b = ((messages', keys'), b')" "dedupe_inv (b_dedupe b)"
  shows "dedupe_inv (b_dedupe b') \<and> set keys \<subseteq> set keys' \<and>
    (dedupe_live t k (b_dedupe b') \<longrightarrow> dedupe_live t k (b_dedupe b) \<or> k \<in> set keys' \<or> k = '''')"
  using assms
proof (induction now q items messages keys b rule: batch_loop.induct)
  case (2 now q item tD nid items messages keys b)
  let ?c = "time_add now (of_nat (length messages) * microsecond)"
  obtain msg key ok b1 where em:
    "enqueueMessage tD nid q (biPayload item) (biOpts item) ?c now b = ((msg, key, ok), b1)"
    by (metis prod.exhaust)
  let ?ms = "if ok then messages @ [msg] else messages" and ?ks = "if key \<noteq> '''' then keys @ [key] else keys"
  have loop: "batch_loop now q items ?ms ?ks b1 = ((messages', keys'), b')"
    using 2(2) by (simp add: em)
  note live1 = enqueueMessage_live [OF em 2(3), of t k]
  have "dedupe_inv (b_dedupe b') \<and> set ?ks \<subseteq> set keys' \<and>
    (dedupe_live t k (b_dedupe b') \<longrightarrow> dedupe_live t k (b_dedupe b1) \<or> k \<in> set keys' \<or> k = '''')"
    using 2(1) [OF refl em [symmetric] refl refl refl loop] live1 by blast
  with live1 show ?case by (auto split: if_splits)
qed auto

subsection \<open>Deduplication of enqueues\<close>

text \<open>
  Duplicate enqueues at the broker (in-memory deduplication). After a successful \<open>Enqueue\<close> under a
  deduplication key that was not live, a second one under the same key returns nil without touching
  the store as long as the five-minute window lasts; once it has passed, the message reaches the store.
\<close>

theorem Enqueue_duplicate_suppressed:
  assumes "dedupe_inv (b_dedupe b)" "dedupes opts b" "\<not> dedupe_live tD (key_of q opts) (b_dedupe b)"
    and "b_Enqueue ops now tD tS nid q payload opts b = (Inr (), b1)" "tD \<le> tD'"
    and "oDedupeKey opts' = oDedupeKey opts"
    and "b_Enqueue ops now' tD' tS' nid' q payload' opts' b1 = (r2, b2)"
  shows "(tD' < time_add tD (b_dedupeTTL b) \<longrightarrow> r2 = Inr () \<and> b_store b2 = b_store b1) \<and>
    (tD' \<ge> time_add tD (b_dedupeTTL b) \<longrightarrow>
       (r2, b_store b2) = Enqueue_op ops tS' q (build_message nid' q payload' opts' now' now') (b_store b1))"
proof -
  let ?k = "key_of q opts"
  have miss: "\<not> fst (SeenOrAdd tD ?k (b_dedupeTTL b) (b_dedupe b))"
    using assms(1,3) by (simp add: dd.seen_iff)
  obtain l msg where em: "enqueueMessage tD nid q payload opts now now b = ((msg, ?k, True),
      b\<lparr>b_dedupe := snd (SeenOrAdd tD ?k (b_dedupeTTL b) (b_dedupe b)), b_metrics := l\<rparr>)"
    by (rule enqueueMessage_cases [where tD = tD and q = q and opts = opts and b = b and nid = nid and
          payload = payload and c = now and s = now]) (use assms(2) miss in blast)+
  have b1: "b_dedupe b1 = snd (SeenOrAdd tD ?k (b_dedupeTTL b) (b_dedupe b))"
    "b_dedupeTTL b1 = b_dedupeTTL b" "b_durableDedupe b1 = b_durableDedupe b"
    using assms(4) by (auto simp: b_Enqueue_def em split: prod.splits sum.splits)
  have hit: "fst (SeenOrAdd tD' ?k (b_dedupeTTL b1) (b_dedupe b1)) \<longleftrightarrow> tD' < time_add tD (b_dedupeTTL b)"
    using dd.duplicate_in_window [OF assms(1,3,5)] by (simp add: b1)
  show ?thesis
  proof (cases rule: enqueueMessage_cases [where tD = tD' and q = q and opts = opts' and b = b1 and nid = nid' and payload = payload' and c = now' and s = now'])
    case (seen l')
    then show ?thesis using hit assms(6,7) by (auto simp: b_Enqueue_def)
  next
    case (added l')
    then show ?thesis
      using hit assms(6,7) by (auto simp: b_Enqueue_def split: prod.splits sum.splits)
  next
    case (plain l')
    then show ?thesis using assms(2,6) b1 by simp
  qed
qed

definition example_options :: "memory options" where
  "example_options = \<lparr>optStorage = NewMemory, optScheduleStore = True, optConcurrency = 2,
     optDedupe = \<lparr>doPolicy = '''', doCapacity = 0\<rparr>, optMetrics = False, optDurableDedupe = False,
     optAckBatchSize = 2, optAckFlushInterval = second\<rparr>"

definition example_enqueue_opts :: enqueue_opts where
  "example_enqueue_opts = \<lparr>oDelay = 0, oSchedule = 0, oPriority = 0, oDedupeKey = ''k'', oMetadata = Map.empty\<rparr>"

lemma New_dedupe_inv: "dedupe_inv (b_dedupe (New opts))"
  by (auto simp: New_def Let_def ttl_inv_def newTTLDedupeStore_def dest: newDedupeStore_inv split: sum.split)

lemma example_New_dedupe: "b_dedupe (New example_options) = TTL []" "\<not> b_durableDedupe (New example_options)"
    "b_dedupeTTL (New example_options) = DefaultDedupeTTL"
  by (simp_all add: New_def example_options_def newDedupeStore_def newTTLDedupeStore_def)

abbreviation example_broker :: "(memory, unit) broker" where
  "example_broker \<equiv> New example_options"

lemma example_not_live: "\<not> dedupe_live t k (b_dedupe example_broker)"
  by (simp add: example_New_dedupe ttl_live_def)

lemma example_dedupes: "dedupes example_enqueue_opts example_broker"
  by (simp add: example_New_dedupe example_enqueue_opts_def)

theorem Enqueue_duplicate_suppressed_witness:
  "\<exists>b1 b2. b_Enqueue memory_ops 5 5 5 ''a'' ''q'' [] example_enqueue_opts example_broker = (Inr (), b1) \<and>
     b_Enqueue memory_ops 9 9 9 ''b'' ''q'' [] example_enqueue_opts b1 = (Inr (), b2) \<and>
     b_store b2 = b_store b1"
proof -
  obtain b1 where b1: "b_Enqueue memory_ops 5 5 5 ''a'' ''q'' [] example_enqueue_opts example_broker = (Inr (), b1)"
    by (cases rule: enqueueMessage_cases [where tD = 5 and q = "''q''" and opts = example_enqueue_opts and
          b = example_broker and nid = "''a''" and payload = "[]" and c = 5 and s = 5])
      (auto simp: b_Enqueue_def memory_ops_def mem_Enqueue_def Let_def)
  obtain r2 b2 where b2: "b_Enqueue memory_ops 9 9 9 ''b'' ''q'' [] example_enqueue_opts b1 = (r2, b2)"
    by fastforce
  have "9 < time_add 5 (b_dedupeTTL example_broker)"
    by (simp add: example_New_dedupe DefaultDedupeTTL_def second_def time_add_def)
  with Enqueue_duplicate_suppressed [OF New_dedupe_inv example_dedupes example_not_live b1 _ refl b2] b1 b2
  show ?thesis by auto
qed

text \<open>
  A failed enqueue leaves no deduplication key behind: if the store refuses the message, \<open>Enqueue\<close>
  returns its error, the message's key is not live at any time, so that the caller may try again, and
  no other key has become live.
\<close>

theorem Enqueue_failure_rolls_back:
  assumes "dedupe_inv (b_dedupe b)" "dedupes opts b" "b_Enqueue ops now tD tS nid q payload opts b = (Inl e, b1)"
  shows "fst (Enqueue_op ops tS q (build_message nid q payload opts now now) (b_store b)) = Inl e \<and>
    \<not> dedupe_live t (key_of q opts) (b_dedupe b1) \<and>
    (dedupe_live t k (b_dedupe b1) \<longrightarrow> dedupe_live t k (b_dedupe b))"
proof (cases rule: enqueueMessage_cases [where tD = tD and q = q and opts = opts and b = b and nid = nid and
      payload = payload and c = now and s = now])
  case (seen l)
  with assms(3) show ?thesis by (simp add: b_Enqueue_def)
next
  case (added l)
  let ?d = "snd (SeenOrAdd tD (key_of q opts) (b_dedupeTTL b) (b_dedupe b))"
  have inv: "dedupe_inv ?d" using assms(1) by (rule dd.inv_seen_or_add)
  have "b_dedupe b1 = dedupe_Delete (key_of q opts) ?d"
    and op: "fst (Enqueue_op ops tS q (build_message nid q payload opts now now) (b_store b)) = Inl e"
    using assms(3) added(3) by (auto simp: b_Enqueue_def split: prod.splits sum.splits)
  then have b1: "dedupe_live t k' (b_dedupe b1) \<longleftrightarrow> k' \<noteq> key_of q opts \<and> dedupe_live t k' ?d" for k'
    using dd.del_live [OF inv] by simp
  show ?thesis
    using op b1 [of k] b1 [of "key_of q opts"] dd.no_spurious [OF assms(1), of k "key_of q opts" t tD]
    by blast
next
  case (plain l)
  with assms(2) show ?thesis by blast
qed

definition failing_ops :: "memory storage_ops" where
  "failing_ops = memory_ops\<lparr>Enqueue_op := (\<lambda>t q msg s. (Inl (ErrMsg ''down''), s)),
     EnqueueBatch_op := (\<lambda>t q msgs s. (Inl (ErrMsg ''down''), s))\<rparr>"

theorem Enqueue_failure_rolls_back_witness:
  "\<exists>e b1. b_Enqueue failing_ops 5 5 5 ''a'' ''q'' [] example_enqueue_opts example_broker = (Inl e, b1) \<and>
     \<not> dedupe_live 6 ''q:k'' (b_dedupe b1)"
proof -
  obtain e b1 where b1: "b_Enqueue failing_ops 5 5 5 ''a'' ''q'' [] example_enqueue_opts example_broker = (Inl e, b1)"
    by (cases rule: enqueueMessage_cases [where tD = 5 and q = "''q''" and opts = example_enqueue_opts and
          b = example_broker and nid = "''a''" and payload = "[]" and c = 5 and s = 5])
      (auto simp: b_Enqueue_def failing_ops_def Let_def example_New_dedupe ttl_SeenOrAdd_def)
  with Enqueue_failure_rolls_back [OF New_dedupe_inv example_dedupes b1, of 6] show ?thesis
    by (auto simp: example_enqueue_opts_def)
qed

text \<open>
  If the store refuses a batch, \<open>EnqueueBatch\<close> returns its error and every deduplication key that
  is live afterwards was live before: the keys the batch had added, and only such keys, are withdrawn.
\<close>

theorem EnqueueBatch_failure_rolls_back:
  assumes "dedupe_inv (b_dedupe b)" "b_EnqueueBatch ops now tS q items b = (Inl e, b1)"
    "k \<noteq> ''''" "dedupe_live t k (b_dedupe b1)"
  shows "dedupe_live t k (b_dedupe b)"
proof -
  obtain messages keys b' where loop: "batch_loop now q items [] [] b = ((messages, keys), b')"
    by (metis prod.exhaust)
  from assms(2) have b1: "b_dedupe b1 = rollback_loop keys (b_dedupe b')"
    by (auto simp: b_EnqueueBatch_def loop split: if_splits prod.splits sum.splits)
  note live = batch_loop_live [OF loop assms(1), of t k]
  from assms(3,4) rollback_loop_live [of "b_dedupe b'" keys t k] live
  show ?thesis by (auto simp: b1)
qed

theorem EnqueueBatch_failure_rolls_back_witness:
  "let b = example_broker\<lparr>b_dedupe := TTL [(''q:old'', 100)]\<rparr>;
       (r, b1) = b_EnqueueBatch failing_ops 5 5 ''q'' [(\<lparr>biPayload = [], biOpts = example_enqueue_opts\<rparr>, 5, ''a'')] b
   in r = Inl (ErrMsg ''down'') \<and> dedupe_live 6 ''q:old'' (b_dedupe b1) \<and> dedupe_live 6 ''q:old'' (b_dedupe b)"
proof -
  let ?b = "example_broker\<lparr>b_dedupe := TTL [(''q:old'', 100)]\<rparr>"
  let ?items = "[(\<lparr>biPayload = [], biOpts = example_enqueue_opts\<rparr>, 5, ''a'')]"
  obtain r b1 where eq: "b_EnqueueBatch failing_ops 5 5 ''q'' ?items ?b = (r, b1)" by fastforce
  have rb: "r = Inl (ErrMsg ''down'')" "b_dedupe b1 = TTL [(''q:old'', 100)]"
    using eq
    by (auto simp: b_EnqueueBatch_def enqueueMessage_def b_SeenOrAdd_def emit_def Let_def failing_ops_def
        example_New_dedupe example_enqueue_opts_def ttl_SeenOrAdd_def ttl_Delete_def)
  have inv: "dedupe_inv (b_dedupe ?b)" by (simp add: ttl_inv_def)
  have live: "dedupe_live 6 ''q:old'' (b_dedupe b1)" by (simp add: rb ttl_live_def)
  show ?thesis
    using EnqueueBatch_failure_rolls_back [OF inv eq [unfolded rb(1)] _ live] eq rb(1) live by simp
qed

subsection \<open>Batched acknowledgements\<close>

definition owed :: "('s, 'w) broker \<Rightarrow> string \<Rightarrow> string list" where
  "owed b q = (case b_pendingAcks b q of Some l \<Rightarrow> l | None \<Rightarrow> [])"

abbreviation batching :: "('s, 'w) broker \<Rightarrow> bool" where
  "batching b \<equiv> b_ackBatchSize b > 0 \<and> b_ackStop b \<noteq> None"

text \<open>A sequence of acknowledgements, as the workers make them; failures are only logged.\<close>

fun acks :: "'s storage_ops \<Rightarrow> (string \<times> string) list \<Rightarrow> ('s, 'w) broker \<Rightarrow> ('s, 'w) broker" where
  "acks ops [] b = b"
| "acks ops ((q, i) # rest) b = acks ops rest (snd (ack ops q i b))"

lemma owed_upd [simp]:
  "owed (b\<lparr>b_pendingAcks := (b_pendingAcks b)(q \<mapsto> l)\<rparr>) q' = (if q' = q then l else owed b q')"
  "owed (b\<lparr>b_pendingAcks := (b_pendingAcks b)(q := None)\<rparr>) q' = (if q' = q then [] else owed b q')"
  "owed (b\<lparr>b_store := s\<rparr>) q' = owed b q'"
  "owed (b\<lparr>b_store := s, b_pendingAcks := p\<rparr>) q' = owed (b\<lparr>b_pendingAcks := p\<rparr>) q'"
  by (simp_all add: owed_def)

lemma flushAcks_cases:
  obtains (idle) "owed b q = []"
      "flushAcks ops q b = (Inr (), b\<lparr>b_pendingAcks := (b_pendingAcks b)(q := None)\<rparr>)"
  | (failed) e s where "owed b q \<noteq> []" "AckBatch_op ops q (owed b q) (b_store b) = (Inl e, s)"
      "flushAcks ops q b = (Inl e, b\<lparr>b_store := s, b_pendingAcks := (b_pendingAcks b)(q \<mapsto> owed b q)\<rparr>)"
  | (flushed) s where "owed b q \<noteq> []" "AckBatch_op ops q (owed b q) (b_store b) = (Inr (), s)"
      "flushAcks ops q b = (Inr (), b\<lparr>b_pendingAcks := (b_pendingAcks b)(q := None), b_store := s\<rparr>)"
proof (cases "owed b q = []")
  case True
  then have "flushAcks ops q b = (Inr (), b\<lparr>b_pendingAcks := (b_pendingAcks b)(q := None)\<rparr>)"
    by (simp add: flushAcks_def flush_take_def owed_def)
  with True show ?thesis by (rule idle)
next
  case False
  obtain r s where eq: "AckBatch_op ops q (owed b q) (b_store b) = (r, s)" by fastforce
  show ?thesis
  proof (cases r)
    case (Inl e)
    then show ?thesis
      using False eq by (intro failed) (simp_all add: flushAcks_def flush_take_def flush_restore_def flip: owed_def)
  next
    case (Inr u)
    then show ?thesis
      using False eq by (intro flushed) (simp_all add: flushAcks_def flush_take_def flip: owed_def)
  qed
qed

lemma flushAcks_dom: "dom (b_pendingAcks (snd (flushAcks ops q b))) \<subseteq> insert q (dom (b_pendingAcks b))"
  by (cases rule: flushAcks_cases [where b = b and q = q and ops = ops]) auto

lemma ack_cases:
  "snd (ack ops q i b) = b\<lparr>b_store := snd (Ack_op ops q i (b_store b))\<rparr> \<or>
   snd (ack ops q i b) = snd (flushAcks ops q (b\<lparr>b_pendingAcks := (b_pendingAcks b)(q \<mapsto> owed b q @ [i])\<rparr>)) \<or>
   snd (ack ops q i b) = b\<lparr>b_pendingAcks := (b_pendingAcks b)(q \<mapsto> owed b q @ [i])\<rparr>"
  by (simp add: ack_def Let_def split_beta flip: owed_def)

lemma ack_dom: "dom (b_pendingAcks (snd (ack ops q i b))) \<subseteq> insert q (dom (b_pendingAcks b))"
proof -
  let ?b = "b\<lparr>b_pendingAcks := (b_pendingAcks b)(q \<mapsto> owed b q @ [i])\<rparr>"
  note ack_cases [of ops q i b]
  moreover have "dom (b_pendingAcks (snd (flushAcks ops q ?b))) \<subseteq> insert q (dom (b_pendingAcks b))"
    using flushAcks_dom [of ops q ?b] by simp
  ultimately show ?thesis by (elim disjE) auto
qed

lemma acks_dom: "dom (b_pendingAcks (acks ops qis b)) \<subseteq> fst ` set qis \<union> dom (b_pendingAcks b)"
proof (induction qis arbitrary: b)
  case (Cons qi qis)
  obtain q i where qi: "qi = (q, i)" by fastforce
  from Cons.IH [of "snd (ack ops q i b)"] ack_dom [of ops q i b] show ?case by (auto simp: qi)
qed simp

lemma mem_AckBatch_ok: "fst (mem_AckBatch q ids m) = Inr ()"
  by (simp add: mem_AckBatch_def split_beta Let_def)

lemma flushAcks_mem: "fst (flushAcks memory_ops q b) = Inr ()"
  using mem_AckBatch_ok [of q "owed b q" "b_store b"]
  by (cases rule: flushAcks_cases [where b = b and q = q and ops = memory_ops]) (auto simp: memory_ops_def)

lemma flushAllAcks_mem: "fst (flushAllAcks memory_ops qs b) = Inr ()"
proof -
  have "fst (flush_loop memory_ops qs None b) = None"
  proof (induction qs arbitrary: b)
    case (Cons q qs)
    then show ?case using flushAcks_mem [of q b] by (cases "flushAcks memory_ops q b") auto
  qed simp
  then show ?thesis by (auto simp: flushAllAcks_def split: prod.splits)
qed

text \<open>
  The memory store with every acknowledgement it is owed, queue by queue. The order does not matter, so
  buffering one more is acknowledging it, and a flush changes nothing.
\<close>

definition Ack_all :: "string \<Rightarrow> string list \<Rightarrow> memory \<Rightarrow> memory" where
  "Ack_all q l m = fold (\<lambda>i m. snd (mem_Ack q i m)) l m"

definition settled :: "string list \<Rightarrow> (memory, 'w) broker \<Rightarrow> memory" where
  "settled Q b = fold (\<lambda>q. Ack_all q (owed b q)) Q (b_store b)"

lemma Ack_all_Ack: "Ack_all q l (snd (mem_Ack q' i m)) = snd (mem_Ack q' i (Ack_all q l m))"
  unfolding Ack_all_def by (induction l arbitrary: m) (simp_all add: mem_Ack_commute [of q _ q' i])

lemma Ack_all_commute: "Ack_all q l (Ack_all q' l' m) = Ack_all q' l' (Ack_all q l m)"
proof (induction l' arbitrary: m)
  case (Cons i l')
  have cons: "Ack_all q' (i # l') m = Ack_all q' l' (snd (mem_Ack q' i m))" for m by (simp add: Ack_all_def)
  show ?case by (simp add: cons Cons Ack_all_Ack)
qed (simp add: Ack_all_def)

lemma fold_Ack_all_Ack: "fold (\<lambda>q. Ack_all q (f q)) Q (snd (mem_Ack q' i m)) = snd (mem_Ack q' i (fold (\<lambda>q. Ack_all q (f q)) Q m))"
  by (induction Q arbitrary: m) (simp_all add: Ack_all_Ack)

lemma fold_Ack_all: "fold (\<lambda>q. Ack_all q (f q)) Q (Ack_all q' l m) = Ack_all q' l (fold (\<lambda>q. Ack_all q (f q)) Q m)"
  by (induction Q arbitrary: m) (simp_all add: Ack_all_commute [of _ _ q'])

lemma settled_split:
  "settled (A @ q # B) b = fold (\<lambda>q. Ack_all q (owed b q)) B (fold (\<lambda>q. Ack_all q (owed b q)) A (Ack_all q (owed b q) (b_store b)))"
  by (simp add: settled_def fold_Ack_all)

lemma settled_upd:
  assumes "distinct Q" "q \<in> set Q" "\<And>q'. owed b' q' = (if q' = q then l' else owed b q')"
    and "Ack_all q l' (b_store b') = F (Ack_all q (owed b q) (b_store b))"
    and "\<And>m Q f. fold (\<lambda>q. Ack_all q (f q)) Q (F m) = F (fold (\<lambda>q. Ack_all q (f q)) Q m)"
  shows "settled Q b' = F (settled Q b)"
proof -
  from assms(2) obtain A B where Q: "Q = A @ q # B" by (meson split_list)
  with assms(1) have nin: "q \<notin> set A" "q \<notin> set B" by auto
  have other: "fold (\<lambda>q. Ack_all q (owed b' q)) C m = fold (\<lambda>q. Ack_all q (owed b q)) C m" if "q \<notin> set C" for C m
    using that by (intro fold_cong) (auto simp: assms(3))
  have "settled Q b' = fold (\<lambda>q. Ack_all q (owed b q)) B (fold (\<lambda>q. Ack_all q (owed b q)) A (Ack_all q l' (b_store b')))"
    unfolding Q settled_split other [OF nin(1)] other [OF nin(2)] by (simp add: assms(3))
  then show ?thesis unfolding Q settled_split by (simp only: assms(4,5))
qed

lemma settled_none: "(\<And>q. owed b q = []) \<Longrightarrow> settled Q b = b_store b"
  unfolding settled_def by (induction Q) (simp_all add: Ack_all_def)

lemma flushAcks_settled:
  assumes "distinct Q" "q \<in> set Q" "length (owed b q) < 2 ^ 64"
  shows "settled Q (snd (flushAcks memory_ops q b)) = settled Q b \<and>
    (\<forall>q'. owed (snd (flushAcks memory_ops q b)) q' = (if q' = q then [] else owed b q'))"
proof -
  have batch: "AckBatch_op memory_ops q (owed b q) (b_store b) = (Inr (), Ack_all q (owed b q) (b_store b))"
    using mem_AckBatch_is_fold_Ack [OF assms(3)] by (simp add: memory_ops_def Ack_all_def)
  let ?b = "snd (flushAcks memory_ops q b)"
  have st: "b_store ?b = Ack_all q (owed b q) (b_store b)" and ow: "\<forall>q'. owed ?b q' = (if q' = q then [] else owed b q')"
    using batch by (cases rule: flushAcks_cases [where b = b and q = q and ops = memory_ops]; auto simp: Ack_all_def)+
  have "settled Q ?b = id (settled Q b)"
    using assms(1,2) ow by (intro settled_upd) (auto simp: st Ack_all_def)
  with ow show ?thesis by simp
qed

lemma ack_settled:
  assumes "distinct Q" "q \<in> set Q" "length (owed b q) + 1 < 2 ^ 64"
  shows "settled Q (snd (ack memory_ops q i b)) = snd (mem_Ack q i (settled Q b)) \<and>
    (\<forall>q'. length (owed (snd (ack memory_ops q i b)) q') \<le> (if q' = q then length (owed b q) + 1 else length (owed b q')))"
proof -
  let ?b = "b\<lparr>b_pendingAcks := (b_pendingAcks b)(q \<mapsto> owed b q @ [i])\<rparr>"
  have add: "settled Q ?b = snd (mem_Ack q i (settled Q b))"
    using assms(1,2) by (intro settled_upd [where F = "\<lambda>m. snd (mem_Ack q i m)" and l' = "owed b q @ [i]"])
      (auto simp: Ack_all_def fold_Ack_all_Ack)
  have direct: "settled Q (b\<lparr>b_store := snd (mem_Ack q i (b_store b))\<rparr>) = snd (mem_Ack q i (settled Q b))"
    by (simp add: settled_def fold_Ack_all_Ack)
  note flush = flushAcks_settled [OF assms(1,2), of ?b]
  consider "snd (ack memory_ops q i b) = b\<lparr>b_store := snd (mem_Ack q i (b_store b))\<rparr>"
    | "snd (ack memory_ops q i b) = snd (flushAcks memory_ops q ?b)" | "snd (ack memory_ops q i b) = ?b"
    using ack_cases [of memory_ops q i b] by (auto simp: memory_ops_def)
  then show ?thesis
    by cases (use direct flush add assms(3) in auto)
qed

lemma acks_settled:
  assumes "distinct Q" "fst ` set qis \<subseteq> set Q" "\<And>q. length (owed b q) + length qis < 2 ^ 64"
  shows "settled Q (acks memory_ops qis b) = fold (\<lambda>(q, i) m. snd (mem_Ack q i m)) qis (settled Q b) \<and>
    (\<forall>q. length (owed (acks memory_ops qis b) q) \<le> length (owed b q) + length qis)"
  using assms
proof (induction qis arbitrary: b)
  case (Cons qi qis)
  obtain q i where qi: "qi = (q, i)" by fastforce
  let ?b = "snd (ack memory_ops q i b)"
  have "q \<in> set Q" "length (owed b q) + 1 < 2 ^ 64" using Cons.prems(2) Cons.prems(3) [of q] qi by auto
  note step = ack_settled [OF Cons.prems(1) this, of i]
  then have le: "length (owed ?b q') \<le> length (owed b q') + 1" for q' by (auto split: if_splits)
  have "length (owed ?b q') + length qis < 2 ^ 64" for q' using le [of q'] Cons.prems(3) [of q'] by simp
  with Cons.IH [of ?b] Cons.prems(1,2) qi step le show ?case by (auto intro: order_trans)
qed simp

lemma flush_loop_settled:
  assumes "distinct Q" "set qs \<subseteq> set Q" "\<And>q. length (owed b q) < 2 ^ 64"
  shows "settled Q (snd (flush_loop memory_ops qs None b)) = settled Q b \<and> fst (flush_loop memory_ops qs None b) = None \<and>
    (\<forall>q. owed (snd (flush_loop memory_ops qs None b)) q = (if q \<in> set qs then [] else owed b q))"
  using assms
proof (induction qs arbitrary: b)
  case (Cons q qs)
  have "q \<in> set Q" using Cons.prems(2) by simp
  note step = flushAcks_settled [OF Cons.prems(1) this Cons.prems(3)]
  obtain b1 where b1: "flushAcks memory_ops q b = (Inr (), b1)" using flushAcks_mem [of q b] by (metis prod.collapse)
  have "length (owed b1 q') < 2 ^ 64" for q' using step b1 Cons.prems(3) [of q'] by auto
  with Cons.IH [of b1] Cons.prems(1,2) step b1 show ?case by auto
qed simp

text \<open>
  C35. On the memory backend, batching acknowledgements is acknowledging one by one. Whatever sequence of
  acknowledgements the workers make, with the flushes that full buffers trigger on the way, a final
  \<open>flushAllAcks\<close> that visits every queue still owed some succeeds, leaves nothing owed, and leaves exactly
  the store, in-flight sets and processed counters included, that the same acknowledgements made one by
  one would have left, also for unknown and repeated identifiers. The number of acknowledgements is below
  \<open>2 ^ 64\<close>, so that the counter of a batch does not wrap.
\<close>

theorem ack_batching_complete:
  assumes "b_pendingAcks b = Map.empty" "length qis < 2 ^ 64"
    and "dom (b_pendingAcks (acks memory_ops qis b)) \<subseteq> set qs"
  shows "\<exists>b'. flushAllAcks memory_ops qs (acks memory_ops qis b) = (Inr (), b') \<and> (\<forall>q. owed b' q = []) \<and>
    b_store b' = fold (\<lambda>(q, i) m. snd (mem_Ack q i m)) qis (b_store b)"
proof -
  let ?Q = "remdups (qs @ map fst qis)" and ?b = "acks memory_ops qis b"
  have Q: "distinct ?Q" "fst ` set qis \<subseteq> set ?Q" "set qs \<subseteq> set ?Q" by auto
  have none: "owed b q = []" for q by (simp add: owed_def assms(1))
  have start: "settled ?Q b = b_store b" by (rule settled_none [OF none])
  from acks_settled [OF Q(1,2), of b] assms(2) none start
  have acked: "settled ?Q ?b = fold (\<lambda>(q, i) m. snd (mem_Ack q i m)) qis (b_store b)" "\<And>q. length (owed ?b q) < 2 ^ 64"
    by (auto intro: le_less_trans)
  obtain b' where b': "flush_loop memory_ops qs None ?b = (None, b')"
    using flush_loop_settled [OF Q(1,3) acked(2)] by (metis prod.collapse)
  have "owed ?b q = []" if "q \<notin> set qs" for q using that assms(3) by (auto simp: owed_def split: option.split)
  with flush_loop_settled [OF Q(1,3) acked(2)] b' have ow: "owed b' q = []" and st: "settled ?Q b' = settled ?Q ?b" for q by auto
  have "settled ?Q b' = b_store b'" by (rule settled_none [OF ow])
  with st acked(1) ow b' show ?thesis by (simp add: flushAllAcks_def)
qed

text \<open>Three acknowledgements in batches, one of them twice: two leave the in-flight set and two are counted.\<close>

theorem ack_batching_complete_witness:
  "let b = example_broker\<lparr>b_store := NewMemory\<lparr>mem_inflight := (\<lambda>_. {''a'', ''b'', ''c''})\<rparr>\<rparr>;
       b' = snd (flushAllAcks memory_ops [''q''] (acks memory_ops [(''q'', ''a''), (''q'', ''b''), (''q'', ''a'')] b))
   in mem_inflight (b_store b') ''q'' = {''c''} \<and> map_option qProcessed (mem_counters (b_store b') ''q'') = Some 2"
proof -
  let ?b = "example_broker\<lparr>b_store := NewMemory\<lparr>mem_inflight := (\<lambda>_. {''a'', ''b'', ''c''})\<rparr>\<rparr>"
  let ?qis = "[(''q'', ''a''), (''q'', ''b''), (''q'', ''a'')]"
  have dom: "dom (b_pendingAcks (acks memory_ops ?qis ?b)) \<subseteq> set [''q'']"
    using acks_dom [of memory_ops ?qis ?b] by (auto simp: New_def)
  have "b_pendingAcks ?b = Map.empty" "length ?qis < 2 ^ 64" by (simp_all add: New_def Let_def)
  from ack_batching_complete [OF this dom] obtain b' where
      b': "flushAllAcks memory_ops [''q''] (acks memory_ops ?qis ?b) = (Inr (), b')"
      "b_store b' = fold (\<lambda>(q, i) m. snd (mem_Ack q i m)) ?qis (b_store ?b)" by blast
  have "b_store b' = (let m = fold (\<lambda>(q, i) m. snd (mem_Ack q i m)) ?qis (NewMemory\<lparr>mem_inflight := (\<lambda>_. {''a'', ''b'', ''c''})\<rparr>) in m)"
    using b'(2) by simp
  then show ?thesis unfolding Let_def b'(1) snd_conv by (simp add: mem_Ack_def update_stats_def statsFor_def zero_stats_def NewMemory_def)
qed

subsection \<open>The catch-up of a schedule\<close>

lemma catch_up_step:
  "catch_up interval now nxt = (if nxt > now then Some nxt else catch_up interval now (nxt + sint interval))"
  by (subst catch_up.simps) (simp add: time_add_def)

lemma catch_up_least:
  assumes "0 < sint interval"
  shows "\<exists>k. catch_up interval now nxt = Some (nxt + int k * sint interval) \<and>
    now < nxt + int k * sint interval \<and> (0 < k \<longrightarrow> nxt + (int k - 1) * sint interval \<le> now)"
proof (induction "nat (now + 1 - nxt)" arbitrary: nxt rule: less_induct)
  case less
  show ?case
  proof (cases "now < nxt")
    case True
    then show ?thesis by (subst catch_up_step) (auto intro!: exI [of _ 0])
  next
    case False
    then have "nat (now + 1 - (nxt + sint interval)) < nat (now + 1 - nxt)" using assms by simp
    from less [OF this] obtain k where k:
      "catch_up interval now (nxt + sint interval) = Some (nxt + sint interval + int k * sint interval)"
      "now < nxt + sint interval + int k * sint interval"
      "0 < k \<longrightarrow> nxt + sint interval + (int k - 1) * sint interval \<le> now" by auto
    have "catch_up interval now nxt = Some (nxt + int (Suc k) * sint interval)"
      using False k(1) by (subst catch_up_step) (simp add: algebra_simps)
    moreover have "nxt + (int (Suc k) - 1) * sint interval \<le> now"
      using k(3) False by (cases "k = 0") (auto simp: algebra_simps)
    ultimately show ?thesis
      using k(2) by (intro exI [of _ "Suc k"]) (simp add: algebra_simps)
  qed
qed

text \<open>
  C36. The schedule loop always finds the next occurrence of a job it runs: the catch-up loop ends for
  every positive interval, its result is the first occurrence after \<open>now\<close>, a whole positive number of
  intervals after the last one, so that missed occurrences are skipped and the phase is kept.
\<close>

theorem catch_up_next_occurrence:
  assumes "0 < sint (sInterval s)"
  shows "\<exists>k. catch_up (sInterval s) now (time_add (sNextRunAt s) (sInterval s)) =
      Some (sNextRunAt s + int (Suc k) * sint (sInterval s)) \<and>
    now < sNextRunAt s + int (Suc k) * sint (sInterval s) \<and>
    (\<forall>j. 0 < j \<longrightarrow> now < sNextRunAt s + int j * sint (sInterval s) \<longrightarrow> Suc k \<le> j)"
proof -
  let ?i = "sint (sInterval s)" and ?n = "sNextRunAt s"
  obtain k where k: "catch_up (sInterval s) now (?n + ?i) = Some (?n + ?i + int k * ?i)"
    "now < ?n + ?i + int k * ?i" "0 < k \<longrightarrow> ?n + ?i + (int k - 1) * ?i \<le> now"
    using catch_up_least [OF assms, of now "?n + ?i"] by blast
  have "Suc k \<le> j" if "0 < j" "now < ?n + int j * ?i" for j
  proof (rule ccontr)
    assume "\<not> Suc k \<le> j"
    then have "j \<le> k" "0 < k" using that(1) by auto
    then have "int j * ?i \<le> int k * ?i" using assms by simp
    moreover have "?n + int k * ?i \<le> now" using k(3) \<open>0 < k\<close> by (simp add: algebra_simps)
    ultimately show False using that(2) by linarith
  qed
  then show ?thesis
    using k(1,2) by (intro exI [of _ k]) (simp add: time_add_def algebra_simps)
qed

theorem catch_up_next_occurrence_witness:
  "let s = \<lparr>sID = ''j'', sQueue = ''q'', sPayload = [], sEnqueueOptions = [], sInterval = 10, sNextRunAt = 3,
            sEnabled = True, sCreatedAt = 0, sUpdatedAt = 0\<rparr>
   in catch_up (sInterval s) 28 (time_add (sNextRunAt s) (sInterval s)) = Some 33"
proof -
  let ?s = "\<lparr>sID = ''j'', sQueue = ''q'', sPayload = [], sEnqueueOptions = [], sInterval = 10, sNextRunAt = 3,
            sEnabled = True, sCreatedAt = 0, sUpdatedAt = 0\<rparr>"
  from catch_up_next_occurrence [of ?s 28] obtain k where
    k: "catch_up (sInterval ?s) 28 (time_add (sNextRunAt ?s) (sInterval ?s)) = Some (3 + int (Suc k) * 10)"
    "28 < 3 + int (Suc k) * 10" "\<And>j. 0 < j \<Longrightarrow> 28 < 3 + int j * 10 \<Longrightarrow> Suc k \<le> j" by auto
  have "Suc k \<le> 3" by (rule k(3)) simp_all
  with k(2) have "Suc k = 3" by presburger
  then show ?thesis using k(1) by (simp add: Let_def)
qed

end
