(* ===== verification/Broker_Delivery.thy ===== *)
theory Broker_Delivery
  imports Broker
begin

text \<open>
  Delivery end to end: what happens to one message on the memory backend when the dispatcher of its
  queue takes it and a worker runs its handler, over the rounds of its retries.

  A round is one pass of the dispatcher's loop with its workers run to the end before the next pass,
  a schedule of the program in which exactly one goroutine acts at a time.
\<close>

definition round ::
  "'s storage_ops \<Rightarrow> time \<Rightarrow> string \<Rightarrow> string \<Rightarrow> ('s, 'w) broker \<times> 'w \<Rightarrow> ('s, 'w) broker \<times> 'w" where
  "round ops t nid q bw =
     (case dispatch_top ops t q (fst bw) of
        (Got msgs, b) \<Rightarrow> fold (\<lambda>msg (b, w). snd (handleOne ops t t nid q msg b w)) msgs (b, snd bw)
      | (_, b) \<Rightarrow> (b, snd bw))"

text \<open>The queue is served: a handler is registered and nothing stops the dispatcher.\<close>

definition served :: "string \<Rightarrow> 'w handler \<Rightarrow> ('s, 'w) broker \<Rightarrow> bool" where
  "served q h b \<longleftrightarrow> b_handlers b q = Some h \<and> \<not> b_aborted b \<and> b_paused b q \<noteq> Some True \<and> 0 < b_concurrency b"

lemma mem_Dequeue_single:
  assumes "mem_queues m q = [msg]" "due t msg" "0 < limit"
  shows "\<exists>m'. mem_Dequeue t q limit m = (Inr [msg], m') \<and> mem_queues m' = (mem_queues m)(q := []) \<and>
    mem_inflight m' = (mem_inflight m)(q := insert (mID msg) (mem_inflight m q)) \<and>
    mem_counters m' = mem_counters m"
  using assms by (auto simp: mem_Dequeue_def sort_pending_def SliceStable_def Let_def fun_eq_iff)

lemma round_single:
  assumes "served q h b" "mem_queues (b_store b) q = [msg]" "due t msg"
  shows "\<exists>b1. round memory_ops t nid q (b, w) = snd (handleOne memory_ops t t nid q msg b1 w) \<and> served q h b1 \<and>
    mem_queues (b_store b1) = (mem_queues (b_store b))(q := []) \<and>
    mem_inflight (b_store b1) = (mem_inflight (b_store b))(q := insert (mID msg) (mem_inflight (b_store b) q)) \<and>
    mem_counters (b_store b1) = mem_counters (b_store b)"
proof -
  let ?b = "snd (isPaused q b)"
  have p: "fst (isPaused q b) = False" "b_store ?b = b_store b" "b_concurrency ?b = b_concurrency b" "served q h ?b"
    using assms(1) by (auto simp: isPaused_def pausedFlag_def served_def split: option.split)
  from assms(1) have "0 < b_concurrency b" "\<not> b_aborted b" by (auto simp: served_def)
  moreover obtain m' where m': "mem_Dequeue t q (b_concurrency b) (b_store b) = (Inr [msg], m')"
    "mem_queues m' = (mem_queues (b_store b))(q := [])"
    "mem_inflight m' = (mem_inflight (b_store b))(q := insert (mID msg) (mem_inflight (b_store b) q))"
    "mem_counters m' = mem_counters (b_store b)"
    using mem_Dequeue_single [OF assms(2,3) calculation(1)] by blast
  ultimately have "dispatch_top memory_ops t q b = (Got [msg], ?b\<lparr>b_store := m'\<rparr>)"
    using p by (simp add: dispatch_top_def split_beta memory_ops_def)
  then have "round memory_ops t nid q (b, w) = snd (handleOne memory_ops t t nid q msg (?b\<lparr>b_store := m'\<rparr>) w)"
    by (simp add: round_def)
  then show ?thesis
    using m' p(4) by (intro exI [of _ "?b\<lparr>b_store := m'\<rparr>"]) (simp add: served_def)
qed

text \<open>What \<open>handleOne\<close> does with a message whose handler fails, while retries remain and after them.\<close>

lemma handleOne_retry:
  assumes "b_handlers b q = Some h" "h_chain h (handlerCtx h) msg w = (Inr (Some e), w')"
    and "hoMaxRetries (h_opts h) = int n" "mAttempts msg = int a" "a < n" "hoBackoff (h_opts h) = Some bo"
  shows "handleOne ops now tS nid q msg b w =
    (Inr (), b\<lparr>b_store := snd (Retry_op ops tS q (msg\<lparr>mAttempts := int (Suc a),
       mScheduledAt := time_add now (Next bo (int (Suc a)))\<rparr>) (Some e) (b_store b))\<rparr>, w')"
  using assms by (simp add: handleOne_def Let_def split_beta add.commute)

lemma handleOne_dead:
  assumes "b_handlers b q = Some h" "h_chain h (handlerCtx h) msg w = (Inr (Some e), w')"
    and "hoMaxRetries (h_opts h) = int n" "mAttempts msg = int n"
  shows "handleOne ops now tS nid q msg b w =
    (Inr (), toDeadLetter ops tS nid q (msg\<lparr>mAttempts := int (Suc n)\<rparr>) e b, w')"
  using assms by (simp add: handleOne_def Let_def add.commute)

lemma mem_Dequeue_none_due:
  assumes "mem_queues m q = [] \<or> (\<exists>msg. mem_queues m q = [msg] \<and> \<not> due t msg)"
  shows "\<exists>e m'. mem_Dequeue t q limit m = (Inl e, m') \<and> mem_queues m' = mem_queues m \<and>
    mem_inflight m' = mem_inflight m \<and> mem_counters m' = mem_counters m"
  using assms by (auto simp: mem_Dequeue_def sort_pending_def SliceStable_def Let_def fun_eq_iff)

text \<open>A round that finds nothing due changes nothing that matters here.\<close>

lemma round_idle:
  assumes "served q h b" "mem_queues (b_store b) q = [] \<or> (\<exists>msg. mem_queues (b_store b) q = [msg] \<and> \<not> due t msg)"
  shows "\<exists>b1. round memory_ops t nid q (b, w) = (b1, w) \<and> served q h b1 \<and> mem_queues (b_store b1) = mem_queues (b_store b) \<and>
    mem_inflight (b_store b1) = mem_inflight (b_store b) \<and> mem_counters (b_store b1) = mem_counters (b_store b)"
proof -
  let ?b = "snd (isPaused q b)"
  have p: "fst (isPaused q b) = False" "b_store ?b = b_store b" "b_concurrency ?b = b_concurrency b" "served q h ?b"
    using assms(1) by (auto simp: isPaused_def pausedFlag_def served_def split: option.split)
  obtain e m' where m': "mem_Dequeue t q (b_concurrency b) (b_store b) = (Inl e, m')" "mem_queues m' = mem_queues (b_store b)"
    "mem_inflight m' = mem_inflight (b_store b)" "mem_counters m' = mem_counters (b_store b)"
    using mem_Dequeue_none_due [OF assms(2)] by blast
  then have "\<exists>r. dispatch_top memory_ops t q b = (r, ?b\<lparr>b_store := m'\<rparr>) \<and> (\<forall>msgs. r \<noteq> Got msgs)"
    using p assms(1) by (auto simp: dispatch_top_def split_beta memory_ops_def served_def)
  then have "round memory_ops t nid q (b, w) = (?b\<lparr>b_store := m'\<rparr>, w)"
    by (auto simp: round_def split: dispatch_next.splits)
  then show ?thesis using m' p(4) by (intro exI [of _ "?b\<lparr>b_store := m'\<rparr>"]) (simp add: served_def)
qed

text \<open>
  The dispatcher looks at the queue at the times \<open>ts\<close>. \<open>run_times\<close> observes at which of them the handler,
  which counts its runs in the user's world, has run. \<open>attempts_at\<close> says when it should: at the first look
  at which the message is due, where after the failure of attempt \<open>a\<close> the next one is due after the delay
  of the backoff, until the retries are used up.
\<close>

fun run_times :: "'s storage_ops \<Rightarrow> string \<Rightarrow> string \<Rightarrow> time list \<Rightarrow> ('s, nat) broker \<times> nat \<Rightarrow> time list" where
  "run_times ops nid q [] bw = []"
| "run_times ops nid q (t # ts) bw =
     (let bw' = round ops t nid q bw; rest = run_times ops nid q ts bw' in if snd bw' = snd bw then rest else t # rest)"

fun attempts_at :: "backoff \<Rightarrow> nat \<Rightarrow> nat \<Rightarrow> time \<Rightarrow> time list \<Rightarrow> time list" where
  "attempts_at bo n a s [] = []"
| "attempts_at bo n a s (t # ts) =
     (if t < s then attempts_at bo n a s ts
      else if a = n then [t]
      else t # attempts_at bo n (Suc a) (time_add t (Next bo (int (Suc a)))) ts)"

lemma attempts_at_first: "attempts_at bo n a s ts \<noteq> [] \<Longrightarrow> s \<le> attempts_at bo n a s ts ! 0"
  by (induction ts) auto

lemma attempts_at_spacing:
  "a \<le> n \<Longrightarrow> Suc i < length (attempts_at bo n a s ts) \<Longrightarrow>
    time_add (attempts_at bo n a s ts ! i) (Next bo (int (Suc (a + i)))) \<le> attempts_at bo n a s ts ! Suc i"
proof (induction bo n a s ts arbitrary: i rule: attempts_at.induct)
  case (2 bo n a s t ts)
  show ?case
  proof (cases "t < s \<or> a = n")
    case True
    with 2 show ?thesis by (auto split: if_splits)
  next
    case False
    let ?rest = "attempts_at bo n (Suc a) (time_add t (Next bo (int (Suc a)))) ts"
    show ?thesis
    proof (cases i)
      case 0
      then show ?thesis using False 2(4) attempts_at_first [of bo n "Suc a" _ ts] by auto
    next
      case (Suc j)
      then show ?thesis using False 2(2) [of j] 2(3,4) by simp
    qed
  qed
qed simp

lemma length_attempts_at: "a \<le> n \<Longrightarrow> length (attempts_at bo n a s ts) \<le> Suc (n - a)"
  by (induction bo n a s ts rule: attempts_at.induct) auto

text \<open>Once the queue is empty the rounds do nothing more.\<close>

lemma rounds_empty:
  assumes "served q h b" "mem_queues (b_store b) q = []" "fold (\<lambda>t. round memory_ops t nid q) ts (b, w) = (b', w')"
  shows "run_times memory_ops nid q ts (b, w) = [] \<and> w' = w \<and> mem_queues (b_store b') = mem_queues (b_store b) \<and>
    mem_inflight (b_store b') = mem_inflight (b_store b) \<and> mem_counters (b_store b') = mem_counters (b_store b)"
  using assms
proof (induction ts arbitrary: b)
  case (Cons t ts)
  obtain b1 where r: "round memory_ops t nid q (b, w) = (b1, w)" "served q h b1" "mem_queues (b_store b1) = mem_queues (b_store b)"
    "mem_inflight (b_store b1) = mem_inflight (b_store b)" "mem_counters (b_store b1) = mem_counters (b_store b)"
    using round_idle [OF Cons.prems(1)] Cons.prems(2) by blast
  with Cons.IH [of b1] Cons.prems(2,3) show ?case by simp
qed simp

text \<open>
  Where the rounds leave the message: dead-lettered after its last attempt, or waiting for the next one, for
  which it was not due at the last look, unless that look ran it.
\<close>

definition dead_after :: "string \<Rightarrow> string \<Rightarrow> err \<Rightarrow> nat \<Rightarrow> nat \<Rightarrow> message \<Rightarrow> time \<Rightarrow> memory \<Rightarrow> memory \<Rightarrow> bool" where
  "dead_after nid q e n r msg t m m' \<longleftrightarrow>
     mem_queues m' q = [] \<and> mID msg \<notin> mem_inflight m' q \<and>
     qDead (stats_of q m') = qDead (stats_of q m) + 1 \<and> qRetries (stats_of q m') = qRetries (stats_of q m) + of_nat r \<and>
     mem_queues m' (q @ ''.dlq'') = mem_queues m (q @ ''.dlq'') @
       [deadLetterMessage nid q (msg\<lparr>mAttempts := int (Suc n)\<rparr>) (Some e) t]"

definition waiting_after :: "string \<Rightarrow> backoff \<Rightarrow> nat \<Rightarrow> message \<Rightarrow> time list \<Rightarrow> time list \<Rightarrow> memory \<Rightarrow> memory \<Rightarrow> bool" where
  "waiting_after q bo a msg rs ts m m' \<longleftrightarrow>
     (\<exists>msg'. mem_queues m' q = [msg'] \<and> mID msg' = mID msg \<and> mPayload msg' = mPayload msg \<and>
       mAttempts msg' = int (a + length rs) \<and>
       mScheduledAt msg' = (if rs = [] then mScheduledAt msg else time_add (last rs) (Next bo (int (a + length rs)))) \<and>
       (ts \<noteq> [] \<longrightarrow> last ts < mScheduledAt msg' \<or> rs \<noteq> [] \<and> last ts = last rs)) \<and>
     qDead (stats_of q m') = qDead (stats_of q m) \<and> qRetries (stats_of q m') = qRetries (stats_of q m) + of_nat (length rs) \<and>
     mem_queues m' (q @ ''.dlq'') = mem_queues m (q @ ''.dlq'')"

lemma round_dead:
  assumes "\<And>c m w. h_chain h c m w = (Inr (Some e), Suc w)" "hoMaxRetries (h_opts h) = int n" "user_queue q"
    and "served q h b" "mem_queues (b_store b) q = [msg]" "mAttempts msg = int n" "due t msg"
  shows "\<exists>b1. round memory_ops t nid q (b, w) = (b1, Suc w) \<and> served q h b1 \<and> dead_after nid q e n 0 msg t (b_store b) (b_store b1)"
proof -
  obtain b1 where r: "round memory_ops t nid q (b, w) = snd (handleOne memory_ops t t nid q msg b1 w)" "served q h b1"
    "mem_queues (b_store b1) = (mem_queues (b_store b))(q := [])"
    "mem_inflight (b_store b1) = (mem_inflight (b_store b))(q := insert (mID msg) (mem_inflight (b_store b) q))"
    "mem_counters (b_store b1) = mem_counters (b_store b)"
    using round_single [OF assms(4,5,7)] by blast
  have h1: "b_handlers b1 q = Some h" using r(2) by (simp add: served_def)
  let ?b = "toDeadLetter memory_ops t nid q (msg\<lparr>mAttempts := int (Suc n)\<rparr>) e b1"
  have "round memory_ops t nid q (b, w) = (?b, Suc w)"
    using handleOne_dead [OF h1 assms(1,2,6), of memory_ops t t nid w] r(1) by simp
  moreover have "served q h ?b" using r(2) by (simp add: served_def toDeadLetter_def split_beta Let_def)
  moreover have "dead_after nid q e n 0 msg t (b_store b) (b_store ?b)"
    using r(3-5) user_queue_neq_dlq [OF assms(3), of q] stats_of_cong [OF r(5), of q]
    by (simp add: dead_after_def toDeadLetter_def memory_ops_def mem_DeadLetter_def Let_def deadLetterMessage_def)
  ultimately show ?thesis by blast
qed

lemma round_retry:
  assumes "\<And>c m w. h_chain h c m w = (Inr (Some e), Suc w)" "hoMaxRetries (h_opts h) = int n" "hoBackoff (h_opts h) = Some bo" "user_queue q"
    and "served q h b" "mem_queues (b_store b) q = [msg]" "mAttempts msg = int a" "a < n" "due t msg"
  shows "\<exists>b1. round memory_ops t nid q (b, w) = (b1, Suc w) \<and> served q h b1 \<and>
    mem_queues (b_store b1) q =
      [msg\<lparr>mAttempts := int (Suc a), mScheduledAt := time_add t (Next bo (int (Suc a))), mQueue := q\<rparr>] \<and>
    mem_queues (b_store b1) (q @ ''.dlq'') = mem_queues (b_store b) (q @ ''.dlq'') \<and>
    qDead (stats_of q (b_store b1)) = qDead (stats_of q (b_store b)) \<and>
    qRetries (stats_of q (b_store b1)) = qRetries (stats_of q (b_store b)) + 1"
proof -
  obtain b1 where r: "round memory_ops t nid q (b, w) = snd (handleOne memory_ops t t nid q msg b1 w)" "served q h b1"
    "mem_queues (b_store b1) = (mem_queues (b_store b))(q := [])" "mem_counters (b_store b1) = mem_counters (b_store b)"
    using round_single [OF assms(5,6,9)] by blast
  have h1: "b_handlers b1 q = Some h" using r(2) by (simp add: served_def)
  let ?b = "b1\<lparr>b_store := snd (mem_Retry t q (msg\<lparr>mAttempts := int (Suc a), mScheduledAt := time_add t (Next bo (int (Suc a)))\<rparr>) (Some e) (b_store b1))\<rparr>"
  have "round memory_ops t nid q (b, w) = (?b, Suc w)"
    using handleOne_retry [OF h1 assms(1,2,7,8,3), of memory_ops t t nid w] r(1) by (simp add: memory_ops_def)
  moreover have "served q h ?b" using r(2) by (simp add: served_def)
  ultimately show ?thesis
    using r(3) user_queue_neq_dlq [OF assms(4), of q] stats_of_cong [OF r(4), of q]
    by (intro exI [of _ ?b]) (simp add: mem_Retry_def Let_def)
qed

lemma retries_run:
  assumes "\<And>c m w. h_chain h c m w = (Inr (Some e), Suc w)" "hoMaxRetries (h_opts h) = int n" "hoBackoff (h_opts h) = Some bo" "user_queue q"
    and "served q h b" "mem_queues (b_store b) q = [msg]" "mAttempts msg = int a" "a \<le> n"
    and "fold (\<lambda>t. round memory_ops t nid q) ts (b, w) = (b', w')" "rs = attempts_at bo n a (mScheduledAt msg) ts"
  shows "run_times memory_ops nid q ts (b, w) = rs \<and> w' = w + length rs \<and>
    (if length rs = Suc (n - a) then dead_after nid q e n (n - a) msg (last rs) (b_store b) (b_store b')
     else waiting_after q bo a msg rs ts (b_store b) (b_store b'))"
  using assms(5-)
proof (induction ts arbitrary: a b w msg rs)
  case Nil
  then show ?case by (simp add: waiting_after_def)
next
  case (Cons t ts)
  consider (early) "t < mScheduledAt msg" | (final) "due t msg" "a = n" | (again) "due t msg" "a < n"
    using Cons.prems(4) by fastforce
  then show ?case
  proof cases
    case early
    then obtain b1 where r: "round memory_ops t nid q (b, w) = (b1, w)" "served q h b1" "mem_queues (b_store b1) = mem_queues (b_store b)"
      "mem_inflight (b_store b1) = mem_inflight (b_store b)" "mem_counters (b_store b1) = mem_counters (b_store b)"
      using round_idle [OF Cons.prems(1)] Cons.prems(2) by (metis not_le)
    from Cons.IH [of b1 msg a w rs] r early Cons.prems stats_of_cong [OF r(5), of q] show ?thesis
      by (auto simp: dead_after_def waiting_after_def)
  next
    case final
    obtain b1 where r: "round memory_ops t nid q (b, w) = (b1, Suc w)" "served q h b1" "dead_after nid q e n 0 msg t (b_store b) (b_store b1)"
      using round_dead [OF assms(1,2,4) Cons.prems(1,2) _ final(1)] Cons.prems(3) final(2) by blast
    have "mem_queues (b_store b1) q = []" using r(3) by (simp add: dead_after_def)
    from rounds_empty [OF r(2) this, of nid ts "Suc w" b' w'] r Cons.prems(5,6) final stats_of_cong [of "b_store b'" "b_store b1" q]
    show ?thesis by (auto simp: dead_after_def)
  next
    case again
    let ?m = "msg\<lparr>mAttempts := int (Suc a), mScheduledAt := time_add t (Next bo (int (Suc a))), mQueue := q\<rparr>"
    obtain b1 where r: "round memory_ops t nid q (b, w) = (b1, Suc w)" "served q h b1" "mem_queues (b_store b1) q = [?m]"
      "mem_queues (b_store b1) (q @ ''.dlq'') = mem_queues (b_store b) (q @ ''.dlq'')"
      "qDead (stats_of q (b_store b1)) = qDead (stats_of q (b_store b))"
      "qRetries (stats_of q (b_store b1)) = qRetries (stats_of q (b_store b)) + 1"
      using round_retry [OF assms(1-4) Cons.prems(1-3) again(2,1)] by blast
    obtain rs' where rs': "rs' = attempts_at bo n (Suc a) (mScheduledAt ?m) ts" "rs = t # rs'" using Cons.prems(6) again by simp
    have d: "n - a = Suc (n - Suc a)" using again(2) by simp
    from Cons.IH [OF r(2,3) _ _ _ rs'(1), of "Suc w"] r(1) Cons.prems(5) again(2)
    have IH: "run_times memory_ops nid q ts (b1, Suc w) = rs'" "w' = Suc w + length rs'"
      "if length rs' = Suc (n - Suc a) then dead_after nid q e n (n - Suc a) ?m (last rs') (b_store b1) (b_store b')
       else waiting_after q bo (Suc a) ?m rs' ts (b_store b1) (b_store b')" by auto
    show ?thesis
      using IH r(1,4-6) rs' d by (auto simp: dead_after_def waiting_after_def deadLetterMessage_def)
  qed
qed

text \<open>
  C28. When a handler that always fails is run. Take a message waiting alone in a served queue of the memory
  backend and a dispatcher that looks at the queue at any times \<open>ts\<close>, one look after the other with the
  worker run to its end in between. The handler is run at the first look at which the message is due,
  never before its scheduled time, and never sooner after a failure than the delay of the backoff for that
  attempt; it is run at most \<open>MaxRetries + 1\<close> times. After the last of these the message is a dead letter
  with the content of the original, all the attempts and the handler's error, and the counters show the
  retries and one dead message, whatever looks follow. With fewer runs it is waiting with as many attempts,
  scheduled at the last run plus the delay, and the last look came before that, if it did not itself run
  the handler: so looking long enough exhausts the retries.
\<close>

theorem failing_handler_exhausts_retries:
  assumes "\<And>c m w. h_chain h c m w = (Inr (Some e), Suc w)" "hoMaxRetries (h_opts h) = int n"
    "hoBackoff (h_opts h) = Some bo" "user_queue q" "served q h b"
    and "mem_queues (b_store b) q = [msg]" "mAttempts msg = 0"
    and "fold (\<lambda>t. round memory_ops t nid q) ts (b, w) = (b', w')"
  shows "let rs = run_times memory_ops nid q ts (b, w) in
    rs = attempts_at bo n 0 (mScheduledAt msg) ts \<and> w' = w + length rs \<and> length rs \<le> Suc n \<and>
    (rs \<noteq> [] \<longrightarrow> mScheduledAt msg \<le> rs ! 0) \<and>
    (\<forall>i. Suc i < length rs \<longrightarrow> time_add (rs ! i) (Next bo (int (Suc i))) \<le> rs ! Suc i) \<and>
    (if length rs = Suc n then dead_after nid q e n n msg (last rs) (b_store b) (b_store b')
     else waiting_after q bo 0 msg rs ts (b_store b) (b_store b'))"
  using retries_run [OF assms(1-6) _ _ assms(8) refl] assms(7) length_attempts_at [of 0 n bo "mScheduledAt msg" ts]
    attempts_at_first [of bo n 0 "mScheduledAt msg" ts] attempts_at_spacing [of 0 n _ bo "mScheduledAt msg" ts]
  by (auto simp: Let_def)

definition boom_options :: handler_options where
  "boom_options = \<lparr>hoMaxRetries = 2, hoBackoff = Some (Constant 5), hoTimeout = 0\<rparr>"

definition boom_broker :: "(memory, nat) broker" where
  "boom_broker = snd (Register ''q'' (\<lambda>c m w. (Inr (Some (ErrMsg ''boom'')), Suc w)) boom_options
     ((New example_options)\<lparr>b_store := NewMemory\<lparr>mem_queues := (\<lambda>_. [])(''q'' := [example_message ''a'' 0 7])\<rparr>\<rparr>))"

definition boom_handler :: "nat handler" where
  "boom_handler = \<lparr>h_fn = (\<lambda>c m w. (Inr (Some (ErrMsg ''boom'')), Suc w)), h_opts = boom_options,
     h_chain = (\<lambda>c m w. (Inr (Some (ErrMsg ''boom'')), Suc w))\<rparr>"

lemma boom_served: "served ''q'' boom_handler boom_broker"
  by (simp add: served_def boom_broker_def boom_handler_def Register_def New_def Let_def boom_options_def
      normalize_handler_options_def chain_def example_options_def)

lemma boom_queue: "mem_queues (b_store boom_broker) ''q'' = [example_message ''a'' 0 7]"
    "mem_queues (b_store boom_broker) ''q.dlq'' = []"
  by (simp_all add: boom_broker_def Register_def Let_def)

text \<open>Two retries, five apart, and a look every four: the handler runs at 8, 16 and 24, and not at 12, 20 or later.\<close>

theorem failing_handler_exhausts_retries_witness:
  "let ts = [4, 8, 12, 16, 20, 24, 28]; (b', runs) = fold (\<lambda>t. round memory_ops t ''d'' ''q'') ts (boom_broker, 0)
   in run_times memory_ops ''d'' ''q'' ts (boom_broker, 0) = [8, 16, 24] \<and> runs = 3 \<and> mem_queues (b_store b') ''q'' = [] \<and>
      map mAttempts (mem_queues (b_store b') ''q.dlq'') = [3]"
proof -
  let ?ts = "[4, 8, 12, 16, 20, 24, 28]"
  obtain b' w' where run: "fold (\<lambda>t. round memory_ops t ''d'' ''q'') ?ts (boom_broker, 0) = (b', w')" by fastforce
  have at: "attempts_at (Constant 5) 2 0 (mScheduledAt (example_message ''a'' 0 7)) ?ts = [8, 16, 24]"
    by (simp add: example_message_def zero_message_def time_add_def)
  have "hoMaxRetries (h_opts boom_handler) = int 2" "hoBackoff (h_opts boom_handler) = Some (Constant 5)"
      "mAttempts (example_message ''a'' 0 7) = 0"
      "\<And>c m w. h_chain boom_handler c m w = (Inr (Some (ErrMsg ''boom'')), Suc w)"
    by (simp_all add: boom_handler_def boom_options_def example_message_def zero_message_def)
  from failing_handler_exhausts_retries [OF this(4,1,2) user_queue_q boom_served boom_queue(1) this(3) run]
  have rt: "run_times memory_ops ''d'' ''q'' ?ts (boom_broker, 0) = [8, 16, 24]" and "w' = 0 + length [8, 16, 24 :: time]"
    and "if length [8, 16, 24 :: time] = Suc 2 then dead_after ''d'' ''q'' (ErrMsg ''boom'') 2 2 (example_message ''a'' 0 7) (last [8, 16, 24])
      (b_store boom_broker) (b_store b') else waiting_after ''q'' (Constant 5) 0 (example_message ''a'' 0 7) [8, 16, 24] ?ts (b_store boom_broker) (b_store b')"
    unfolding Let_def at by metis+
  then show ?thesis unfolding run rt Let_def prod.case by (simp add: dead_after_def boom_queue)
qed

text \<open>
  C39. A replayed message of a handler with a retry limit is not delivered again. \<open>Replay\<close> keeps the
  attempts of the dead letter, which exceed \<open>MaxRetries\<close>; the next round moves the message straight
  back to the dead-letter queue with the error \<open>max retries exceeded\<close>, and the handler does not run (the
  state \<open>w\<close> of the user's world is the same).
\<close>

theorem replayed_message_is_dead_again:
  assumes "served q h b" "user_queue q" "0 < hoMaxRetries (h_opts h)"
    and "mem_queues (b_store b) q = []" "mem_queues (b_store b) (q @ ''.dlq'') = [d]" "mID d = i"
    and "hoMaxRetries (h_opts h) < mAttempts d" "t0 \<le> t"
    and "round memory_ops t nid q (b\<lparr>b_store := snd (mem_Replay t0 q i (b_store b))\<rparr>, w) = (b', w')"
  shows "w' = w \<and> mem_queues (b_store b') q = [] \<and>
    map mError (mem_queues (b_store b') (q @ ''.dlq'')) = [''max retries exceeded''] \<and>
    map mPayload (mem_queues (b_store b') (q @ ''.dlq'')) = [mPayload d]"
proof -
  let ?b = "b\<lparr>b_store := snd (mem_Replay t0 q i (b_store b))\<rparr>"
  note neq = user_queue_neq_dlq [OF assms(2), of q]
  have q: "mem_queues (b_store ?b) q = [replayMessage q d t0]" "mem_queues (b_store ?b) (q @ ''.dlq'') = []"
    using assms(4-6) neq by (simp_all add: mem_Replay_def Let_def)
  have "served q h ?b" using assms(1) by (simp add: served_def)
  then obtain b1 where r: "round memory_ops t nid q (?b, w) = snd (handleOne memory_ops t t nid q (replayMessage q d t0) b1 w)"
    "served q h b1" "mem_queues (b_store b1) = (mem_queues (b_store ?b))(q := [])"
    using round_single [OF _ q(1), of h t nid w] assms(8) by auto
  have "handleOne memory_ops t t nid q (replayMessage q d t0) b1 w =
      (Inr (), toDeadLetter memory_ops t nid q (replayMessage q d t0) (ErrMsg ''max retries exceeded'') b1, w)"
    using r(2) assms(3,7) by (simp add: handleOne_def served_def)
  then have "b' = toDeadLetter memory_ops t nid q (replayMessage q d t0) (ErrMsg ''max retries exceeded'') b1" "w' = w"
    using assms(9) r(1) by auto
  then show ?thesis
    using r(3) q(2) neq by (simp add: toDeadLetter_def memory_ops_def mem_DeadLetter_def Let_def)
qed

theorem replayed_message_is_dead_again_witness:
  "let d = (example_message ''d'' 0 7)\<lparr>mAttempts := 3\<rparr>;
       b = boom_broker\<lparr>b_store := NewMemory\<lparr>mem_queues := (\<lambda>_. [])(''q.dlq'' := [d])\<rparr>\<rparr>;
       (b', runs) = round memory_ops 10 ''e'' ''q'' (b\<lparr>b_store := snd (mem_Replay 9 ''q'' ''d'' (b_store b))\<rparr>, 0)
   in runs = 0 \<and> mem_queues (b_store b') ''q'' = [] \<and>
      map mError (mem_queues (b_store b') ''q.dlq'') = [''max retries exceeded'']"
proof -
  let ?d = "(example_message ''d'' 0 7)\<lparr>mAttempts := 3\<rparr>"
  let ?b = "boom_broker\<lparr>b_store := NewMemory\<lparr>mem_queues := (\<lambda>_. [])(''q.dlq'' := [?d])\<rparr>\<rparr>"
  have srv: "served ''q'' boom_handler ?b" using boom_served by (simp add: served_def)
  obtain b' w' where run: "round memory_ops 10 ''e'' ''q'' (?b\<lparr>b_store := snd (mem_Replay 9 ''q'' ''d'' (b_store ?b))\<rparr>, 0) = (b', w')"
    by fastforce
  have "w' = 0 \<and> mem_queues (b_store b') ''q'' = [] \<and>
    map mError (mem_queues (b_store b') (''q'' @ ''.dlq'')) = [''max retries exceeded''] \<and>
    map mPayload (mem_queues (b_store b') (''q'' @ ''.dlq'')) = [mPayload ?d]"
    by (rule replayed_message_is_dead_again [OF srv user_queue_q _ _ _ _ _ _ run])
      (simp_all add: boom_handler_def boom_options_def example_message_def)
  with run show ?thesis by (simp add: Let_def)
qed

end
