(* ===== verification/Broker_System.thy ===== *)
theory Broker_System
  imports Broker
begin

text \<open>
  The broker as a concurrent program: its goroutines and their callers as an interleaving of the
  functions of theory \<open>Broker\<close>.

  The state \<open>sys\<close> holds the broker, the place of every queue's dispatcher in its loop, the workers that
  run, whether the schedule loop runs, the user's world, per queue the messages that clients of
  \<open>Store\<close> (the HTTP interface) have taken and not acknowledged, and the place of the acknowledgement loop.
  A step of \<open>sys_step\<close> is one call of a public method (up to its wait, or its end), one segment of a
  dispatcher's loop (a drain test is several), one of the two stages of a worker (its handler has returned; it has settled the message), or
  one call of a client on the backend itself. Other goroutines run between the stages, and the calls of the public
  interface that a handler makes are steps of their own. A tick of the acknowledgement loop, which takes the batches of the queues out of the broker, one after the other, and
  gives a batch back when the backend fails, is a sequence of steps: other goroutines run between the two
  critical sections of \<open>flushAcks\<close>. So is a tick of the schedule loop: a poll, and a run for each schedule
  it returned. A worker takes a token of the semaphore of the dispatcher that started it; a restarted dispatcher has
  a new semaphore (\<open>sy_gen\<close> numbers them).

  A crash of the process (a handler that panics, the close of a closed channel) has no successor. The
  rules require of the callers: fresh identifiers (\<open>NewMessageID\<close>), queue names that are not reserved,
  no \<open>Register\<close> after \<open>Shutdown\<close>, and that a client acknowledges what it has taken only.
\<close>

record worker =
  wk_queue :: string
  wk_msg :: message
  wk_gen :: nat
  wk_out :: "handled option"

datatype ack_pc = AckWait | AckTodo "string list" | AckTaken string "string list" "string list" | AckFailed string "string list" "string list"

datatype disp_pc =
    Stopped
  | Top
  | PauseWait
  | Empty
  | Second
  | InDrain drain_call drain_pc
  | Signalling
  | IdleWait
  | Spawning "message list"

record ('s, 'w) sys =
  sy_b :: "('s, 'w) broker"
  sy_pc :: "string \<Rightarrow> disp_pc"
  sy_gen :: "string \<Rightarrow> nat"
  sy_workers :: "worker list"
  sy_sched :: bool
  sy_world :: 'w
  sy_pulled :: "string \<Rightarrow> string list"
  sy_ack :: ack_pc
  sy_due :: "(time \<times> schedule list) option"

definition sys_init :: "'s options \<Rightarrow> 'w \<Rightarrow> ('s, 'w) sys" where
  "sys_init opts w = \<lparr>sy_b = New opts, sy_pc = (\<lambda>_. Stopped), sy_gen = (\<lambda>_. 0), sy_workers = [],
     sy_sched = optScheduleStore opts, sy_world = w, sy_pulled = (\<lambda>_. []), sy_ack = AckWait, sy_due = None\<rparr>"

definition on_queue :: "string \<Rightarrow> worker list \<Rightarrow> worker list" where
  "on_queue q ws = filter (\<lambda>x. wk_queue x = q) ws"

definition sem_tokens :: "string \<Rightarrow> ('s, 'w) sys \<Rightarrow> nat" where
  "sem_tokens q y = length (filter (\<lambda>x. wk_queue x = q \<and> wk_gen x = sy_gen y q) (sy_workers y))"

definition start_dispatcher :: "string \<Rightarrow> bool \<times> ('s, 'w) broker \<Rightarrow> ('s, 'w) sys \<Rightarrow> ('s, 'w) sys" where
  "start_dispatcher q r y =
     (if fst r
      then y\<lparr>sy_b := snd r, sy_pc := (sy_pc y)(q := Top), sy_gen := (sy_gen y)(q := Suc (sy_gen y q))\<rparr>
      else y\<lparr>sy_b := snd r\<rparr>)"

fun goto :: "string \<Rightarrow> dispatch_next \<times> ('s, 'w) broker \<Rightarrow> ('s, 'w) sys \<Rightarrow> ('s, 'w) sys option" where
  "goto q (Exit, b) y = Some (y\<lparr>sy_b := dispatch_exit q b, sy_pc := (sy_pc y)(q := Stopped)\<rparr>)"
| "goto q (SleepPaused, b) y = Some (y\<lparr>sy_b := b, sy_pc := (sy_pc y)(q := PauseWait)\<rparr>)"
| "goto q (GotNothing, b) y = Some (y\<lparr>sy_b := b, sy_pc := (sy_pc y)(q := Empty)\<rparr>)"
| "goto q (Got ms, b) y = Some (y\<lparr>sy_b := b, sy_pc := (sy_pc y)(q := Spawning ms)\<rparr>)"
| "goto q (NextSecond, b) y = Some (y\<lparr>sy_b := b, sy_pc := (sy_pc y)(q := Second)\<rparr>)"
| "goto q (NextDrain c pc, b) y = Some (y\<lparr>sy_b := b, sy_pc := (sy_pc y)(q := InDrain c pc)\<rparr>)"
| "goto q (NextSignal, b) y = Some (y\<lparr>sy_b := b, sy_pc := (sy_pc y)(q := Signalling)\<rparr>)"
| "goto q (SleepIdle, b) y = Some (y\<lparr>sy_b := b, sy_pc := (sy_pc y)(q := IdleWait)\<rparr>)"
| "goto q (Crash e, b) y = None"

text \<open>The segments of the loop between an empty dequeue and the wait or the end.\<close>

fun dispatch_stage ::
  "'s storage_ops \<Rightarrow> string \<Rightarrow> disp_pc \<Rightarrow> ('s, 'w) broker \<Rightarrow> (dispatch_next \<times> ('s, 'w) broker) option" where
  "dispatch_stage ops q Empty b = Some (dispatch_empty b)"
| "dispatch_stage ops q Second b = Some (dispatch_second q b)"
| "dispatch_stage ops q (InDrain c pc) b = Some (drain_step ops q c pc b)"
| "dispatch_stage ops q Signalling b = Some (dispatch_signal q b)"
| "dispatch_stage ops q _ b = None"

inductive sys_step ::
  "'s storage_ops \<Rightarrow> 's schedule_ops \<Rightarrow> ('s \<Rightarrow> qabs) \<Rightarrow> ('s, 'w) sys \<Rightarrow> ('s, 'w) sys \<Rightarrow> bool"
  for ops :: "'s storage_ops" and sops :: "'s schedule_ops" and view :: "'s \<Rightarrow> qabs" where
  s_Enqueue: "user_queue q \<Longrightarrow> fresh_id q nid (view (b_store (sy_b y))) \<Longrightarrow>
     sys_step ops sops view y (y\<lparr>sy_b := snd (b_Enqueue ops now tD tS nid q payload opts (sy_b y))\<rparr>)"
| s_EnqueueBatch: "user_queue q \<Longrightarrow> distinct (map (\<lambda>it. snd (snd it)) items) \<Longrightarrow>
     \<forall>it \<in> set items. fresh_id q (snd (snd it)) (view (b_store (sy_b y))) \<Longrightarrow>
     sys_step ops sops view y (y\<lparr>sy_b := snd (b_EnqueueBatch ops now tS q items (sy_b y))\<rparr>)"
| s_Replay: "user_queue q \<Longrightarrow>
     sys_step ops sops view y (y\<lparr>sy_b := (sy_b y)\<lparr>b_store := snd (Replay_op ops tS q i (b_store (sy_b y)))\<rparr>\<rparr>)"
| s_Use: "sys_step ops sops view y (y\<lparr>sy_b := Use mw (sy_b y)\<rparr>)"
| s_Register: "user_queue q \<Longrightarrow> \<not> b_closed (sy_b y) \<Longrightarrow>
     sys_step ops sops view y (start_dispatcher q (Register q fn hopts (sy_b y)) y)"
| s_Pause: "sys_step ops sops view y (y\<lparr>sy_b := Pause q (sy_b y)\<rparr>)"
| s_Resume: "sys_step ops sops view y (start_dispatcher q (Resume q (sy_b y)) y)"
| s_Drain_begin: "sys_step ops sops view y (y\<lparr>sy_b := snd (Drain_begin q (sy_b y))\<rparr>)"
| s_Drain_done: "d \<in> b_doneClosed (sy_b y) \<Longrightarrow> sys_step ops sops view y (y\<lparr>sy_b := Drain_done q (sy_b y)\<rparr>)"
| s_Drain_cancel: "sys_step ops sops view y (y\<lparr>sy_b := Drain_cancel q (sy_b y)\<rparr>)"
| s_top: "sy_pc y q = Top \<Longrightarrow> goto q (dispatch_top ops tS q (sy_b y)) y = Some y' \<Longrightarrow> sys_step ops sops view y y'"
| s_empty: "dispatch_stage ops q (sy_pc y q) (sy_b y) = Some nx \<Longrightarrow> goto q nx y = Some y' \<Longrightarrow> sys_step ops sops view y y'"
| s_wait_abort: "sy_pc y q = PauseWait \<or> sy_pc y q = IdleWait \<Longrightarrow> b_aborted (sy_b y) \<Longrightarrow>
     sys_step ops sops view y (y\<lparr>sy_b := dispatch_exit q (sy_b y), sy_pc := (sy_pc y)(q := Stopped)\<rparr>)"
| s_timer: "sy_pc y q = PauseWait \<or> sy_pc y q = IdleWait \<Longrightarrow>
     sys_step ops sops view y (y\<lparr>sy_pc := (sy_pc y)(q := Top)\<rparr>)"
| s_woken: "sy_pc y q = IdleWait \<Longrightarrow> b_dispatchC (sy_b y) q = Some True \<Longrightarrow>
     sys_step ops sops view y
       (y\<lparr>sy_b := (sy_b y)\<lparr>b_dispatchC := (b_dispatchC (sy_b y))(q \<mapsto> False)\<rparr>, sy_pc := (sy_pc y)(q := Top)\<rparr>)"
| s_spawn: "sy_pc y q = Spawning (m # ms) \<Longrightarrow> int (sem_tokens q y) < b_concurrency (sy_b y) \<Longrightarrow>
     sys_step ops sops view y
       (y\<lparr>sy_b := worker_start q (sy_b y), sy_pc := (sy_pc y)(q := Spawning ms),
          sy_workers := \<lparr>wk_queue = q, wk_msg = m, wk_gen = sy_gen y q, wk_out = None\<rparr> # sy_workers y\<rparr>)"
| s_spawned: "sy_pc y q = Spawning [] \<Longrightarrow> sys_step ops sops view y (y\<lparr>sy_pc := (sy_pc y)(q := Top)\<rparr>)"
| s_work_start: "sy_workers y = xs @ x # ys \<Longrightarrow> wk_out x = None \<Longrightarrow>
     handle_start (wk_queue x) (wk_msg x) (sy_b y) (sy_world y) = (Inr out, w) \<Longrightarrow>
     sys_step ops sops view y (y\<lparr>sy_workers := xs @ x\<lparr>wk_out := Some out\<rparr> # ys, sy_world := w\<rparr>)"
| s_work_settle: "sy_workers y = xs @ x # ys \<Longrightarrow> wk_out x = Some out \<Longrightarrow> fresh_id (wk_queue x) nid (view (b_store (sy_b y))) \<Longrightarrow>
     handle_settle ops now tS nid (wk_queue x) (wk_msg x) out (sy_b y) = (Inr (), b) \<Longrightarrow>
     sys_step ops sops view y (y\<lparr>sy_b := worker_end (wk_queue x) b, sy_workers := xs @ ys\<rparr>)"
| s_ack_tick: "sy_ack y = AckWait \<Longrightarrow> b_ackStop (sy_b y) = Some False \<Longrightarrow> set qs = dom (b_pendingAcks (sy_b y)) \<Longrightarrow>
     sys_step ops sops view y (y\<lparr>sy_ack := AckTodo qs\<rparr>)"
| s_ack_take: "sy_ack y = AckTodo (q # qs) \<Longrightarrow> flush_take q (sy_b y) = (batch, b) \<Longrightarrow>
     sys_step ops sops view y (y\<lparr>sy_b := b, sy_ack := (if batch = [] then AckTodo qs else AckTaken q batch qs)\<rparr>)"
| s_ack_batch: "sy_ack y = AckTaken q batch qs \<Longrightarrow> AckBatch_op ops q batch (b_store (sy_b y)) = (r2, s) \<Longrightarrow>
     sys_step ops sops view y
       (y\<lparr>sy_b := (sy_b y)\<lparr>b_store := s\<rparr>, sy_ack := (case r2 of Inl e \<Rightarrow> AckFailed q batch qs | Inr u \<Rightarrow> AckTodo qs)\<rparr>)"
| s_ack_restore: "sy_ack y = AckFailed q batch qs \<Longrightarrow>
     sys_step ops sops view y (y\<lparr>sy_b := flush_restore q batch (sy_b y), sy_ack := AckTodo qs\<rparr>)"
| s_ack_done: "sy_ack y = AckTodo [] \<Longrightarrow> sys_step ops sops view y (y\<lparr>sy_ack := AckWait\<rparr>)"
| s_schedule_poll: "sy_sched y \<Longrightarrow> sy_due y = None \<Longrightarrow> schedule_poll sops now (sy_b y) = (polled, b) \<Longrightarrow>
     sys_step ops sops view y (y\<lparr>sy_b := b, sy_due := polled\<rparr>)"
| s_schedule_run: "sy_sched y \<Longrightarrow> sy_due y = Some (now, sc # ss) \<Longrightarrow> user_queue (sQueue sc) \<Longrightarrow>
     fresh_id (sQueue sc) nid (view (b_store (sy_b y))) \<Longrightarrow> run_schedule sops clk now sc nid (b_store (sy_b y)) = Some s \<Longrightarrow>
     sys_step ops sops view y (y\<lparr>sy_b := (sy_b y)\<lparr>b_store := s\<rparr>, sy_due := Some (now, ss)\<rparr>)"
| s_schedule_done: "sy_due y = Some (now, []) \<Longrightarrow> sys_step ops sops view y (y\<lparr>sy_due := None\<rparr>)"
| s_RegisterPeriodic: "sys_step ops sops view y (y\<lparr>sy_b := snd (RegisterPeriodic sops sc (sy_b y))\<rparr>)"
| s_RemovePeriodic: "sys_step ops sops view y (y\<lparr>sy_b := snd (RemovePeriodic sops jid (sy_b y))\<rparr>)"
| s_PeriodicJobs: "sys_step ops sops view y (y\<lparr>sy_b := snd (PeriodicJobs sops qn (sy_b y))\<rparr>)"
| s_Stats: "user_queue q \<Longrightarrow> sys_step ops sops view y (y\<lparr>sy_b := snd (b_Stats ops q (sy_b y))\<rparr>)"
| s_store_Enqueue: "user_queue q \<Longrightarrow> fresh_id q (mID msg) (view (b_store (sy_b y))) \<Longrightarrow>
     sys_step ops sops view y (y\<lparr>sy_b := (sy_b y)\<lparr>b_store := snd (Enqueue_op ops tS q msg (b_store (sy_b y)))\<rparr>\<rparr>)"
| s_List: "sys_step ops sops view y (y\<lparr>sy_b := (sy_b y)\<lparr>b_store := snd (List_op ops qn l (b_store (sy_b y)))\<rparr>\<rparr>)"
| s_pull: "user_queue q \<Longrightarrow> Dequeue_op ops tS q 1 (b_store (sy_b y)) = (r, s) \<Longrightarrow>
     sys_step ops sops view y
       (y\<lparr>sy_b := (sy_b y)\<lparr>b_store := s\<rparr>,
          sy_pulled := (sy_pulled y)(q := (case r of Inl e \<Rightarrow> [] | Inr ms \<Rightarrow> map mID ms) @ sy_pulled y q)\<rparr>)"
| s_pull_ack: "user_queue q \<Longrightarrow> i \<in> set (sy_pulled y q) \<Longrightarrow> Ack_op ops q i (b_store (sy_b y)) = (r2, s) \<Longrightarrow>
     sys_step ops sops view y
       (y\<lparr>sy_b := (sy_b y)\<lparr>b_store := s\<rparr>,
          sy_pulled := (sy_pulled y)(q := (case r2 of Inl e \<Rightarrow> sy_pulled y q | Inr u \<Rightarrow> remove1 i (sy_pulled y q)))\<rparr>)"
| s_schedule_exit: "sy_sched y \<Longrightarrow> sy_due y = None \<Longrightarrow> b_stopped (sy_b y) \<or> b_aborted (sy_b y) \<Longrightarrow>
     sys_step ops sops view y (y\<lparr>sy_b := (sy_b y)\<lparr>b_wg := b_wg (sy_b y) - 1\<rparr>, sy_sched := False\<rparr>)"
| s_Shutdown: "sys_step ops sops view y (y\<lparr>sy_b := snd (Shutdown_begin (sy_b y))\<rparr>)"
| s_Shutdown_abort: "b_closed (sy_b y) \<Longrightarrow> sys_step ops sops view y (y\<lparr>sy_b := Shutdown_abort (sy_b y)\<rparr>)"
| s_Shutdown_finish: "b_closed (sy_b y) \<Longrightarrow> b_wg (sy_b y) = 0 \<Longrightarrow> sy_ack y = AckWait \<Longrightarrow> set qs = dom (b_pendingAcks (sy_b y)) \<Longrightarrow>
     sys_step ops sops view y (y\<lparr>sy_b := snd (Shutdown_finish ops qs (sy_b y))\<rparr>)"

inductive_cases sys_stepE: "sys_step ops sops view y y'"

inductive sys_reachable ::
  "'s storage_ops \<Rightarrow> 's schedule_ops \<Rightarrow> ('s \<Rightarrow> qabs) \<Rightarrow> 's options \<Rightarrow> 'w \<Rightarrow> ('s, 'w) sys \<Rightarrow> bool"
  for ops sops view opts w where
  sr_init: "sys_reachable ops sops view opts w (sys_init opts w)"
| sr_step: "sys_reachable ops sops view opts w y \<Longrightarrow> sys_step ops sops view y y' \<Longrightarrow>
     sys_reachable ops sops view opts w y'"

lemma sys_reachable_steps:
  assumes "sys_reachable ops sops view opts w y" "rtranclp (sys_step ops sops view) y y'"
  shows "sys_reachable ops sops view opts w y'"
  using assms(2,1) by (induction rule: rtranclp_induct) (auto intro: sr_step)

subsection \<open>A tick of the acknowledgement loop\<close>

text \<open>Left alone, the steps of the loop are one call of \<open>flushAllAcks\<close>.\<close>

lemma ack_loop_runs:
  assumes "sy_ack y = AckTodo qs"
  shows "rtranclp (sys_step ops sops view) y (y\<lparr>sy_b := snd (flush_loop ops qs fe (sy_b y)), sy_ack := AckWait\<rparr>)"
  using assms
proof (induction qs arbitrary: y fe)
  case Nil
  have "y\<lparr>sy_b := snd (flush_loop ops [] fe (sy_b y)), sy_ack := AckWait\<rparr> = y\<lparr>sy_ack := AckWait\<rparr>" by simp
  with s_ack_done [OF Nil] show ?case by (metis r_into_rtranclp)
next
  case (Cons q qs)
  obtain batch b1 where t: "flush_take q (sy_b y) = (batch, b1)" by fastforce
  obtain r b2 where f: "flushAcks ops q (sy_b y) = (r, b2)" by fastforce
  let ?R = "rtranclp (sys_step ops sops view)"
  have head: "?R y (y\<lparr>sy_b := b2, sy_ack := AckTodo qs\<rparr>)"
  proof (cases "batch = []")
    case True
    then have "b2 = b1" using f t by (simp add: flushAcks_def)
    with s_ack_take [OF Cons.prems t] True show ?thesis by (simp add: r_into_rtranclp)
  next
    case False
    let ?y1 = "y\<lparr>sy_b := b1, sy_ack := AckTaken q batch qs\<rparr>"
    have 1: "?R y ?y1" using s_ack_take [OF Cons.prems t, of ops sops view] False by (simp add: r_into_rtranclp)
    obtain r2 s where a: "AckBatch_op ops q batch (b_store b1) = (r2, s)" by fastforce
    have 2: "sys_step ops sops view ?y1 (?y1\<lparr>sy_b := (sy_b ?y1)\<lparr>b_store := s\<rparr>, sy_ack := (case r2 of Inl e \<Rightarrow> AckFailed q batch qs | Inr u \<Rightarrow> AckTodo qs)\<rparr>)"
      by (rule s_ack_batch) (simp_all add: a)
    show ?thesis
    proof (cases r2)
      case (Inl e)
      let ?y2 = "y\<lparr>sy_b := b1\<lparr>b_store := s\<rparr>, sy_ack := AckFailed q batch qs\<rparr>"
      have "sys_step ops sops view ?y1 ?y2" using 2 Inl by simp
      moreover have "b2 = flush_restore q batch (b1\<lparr>b_store := s\<rparr>)" using f t a False Inl by (simp add: flushAcks_def)
      then have "sys_step ops sops view ?y2 (y\<lparr>sy_b := b2, sy_ack := AckTodo qs\<rparr>)" using s_ack_restore [of ?y2 q batch qs] by simp
      ultimately show ?thesis using 1 by (meson rtranclp.rtrancl_into_rtrancl)
    next
      case (Inr u)
      then have "b2 = b1\<lparr>b_store := s\<rparr>" using f t a False by (simp add: flushAcks_def)
      then have "sys_step ops sops view ?y1 (y\<lparr>sy_b := b2, sy_ack := AckTodo qs\<rparr>)" using 2 Inr by simp
      with 1 show ?thesis by (rule rtranclp.rtrancl_into_rtrancl)
    qed
  qed
  obtain fe1 where fe1: "flush_loop ops (q # qs) fe (sy_b y) = flush_loop ops qs fe1 b2" using f by (cases r) auto
  have "?R (y\<lparr>sy_b := b2, sy_ack := AckTodo qs\<rparr>) (y\<lparr>sy_b := snd (flush_loop ops qs fe1 b2), sy_ack := AckWait\<rparr>)"
    using Cons.IH [of "y\<lparr>sy_b := b2, sy_ack := AckTodo qs\<rparr>" fe1] by simp
  with head show ?case unfolding fe1 by (rule rtranclp_trans)
qed

lemma ack_tick_flushes:
  assumes "sy_ack y = AckWait" "b_ackStop (sy_b y) = Some False" "set qs = dom (b_pendingAcks (sy_b y))"
  shows "rtranclp (sys_step ops sops view) y (y\<lparr>sy_b := snd (flushAllAcks ops qs (sy_b y))\<rparr>)"
proof -
  have "snd (flushAllAcks ops qs (sy_b y)) = snd (flush_loop ops qs None (sy_b y))"
    by (simp add: flushAllAcks_def split: prod.split option.split)
  moreover have "y\<lparr>sy_b := b, sy_ack := AckWait\<rparr> = y\<lparr>sy_b := b\<rparr>" for b using assms(1) by simp
  ultimately show ?thesis
    using converse_rtranclp_into_rtranclp [OF s_ack_tick [OF assms] ack_loop_runs [of "y\<lparr>sy_ack := AckTodo qs\<rparr>" qs ops sops view None]] by simp
qed

subsection \<open>A worker\<close>

text \<open>Left alone, the two steps of a worker are one call of \<open>handleOne\<close>.\<close>

lemma work_alone:
  assumes "sy_workers y = xs @ x # ys" "wk_out x = None" "fresh_id (wk_queue x) nid (view (b_store (sy_b y)))"
    and "handleOne ops now tS nid (wk_queue x) (wk_msg x) (sy_b y) (sy_world y) = (Inr (), b, w)"
  shows "rtranclp (sys_step ops sops view) y (y\<lparr>sy_b := worker_end (wk_queue x) b, sy_workers := xs @ ys, sy_world := w\<rparr>)"
proof -
  obtain out where o: "handle_start (wk_queue x) (wk_msg x) (sy_b y) (sy_world y) = (Inr out, w)"
      "handle_settle ops now tS nid (wk_queue x) (wk_msg x) out (sy_b y) = (Inr (), b)"
    using assms(4) by (auto simp: handleOne_stages Let_def split: prod.splits sum.splits)
  let ?x = "x\<lparr>wk_out := Some out\<rparr>"
  let ?y = "y\<lparr>sy_workers := xs @ ?x # ys, sy_world := w\<rparr>"
  have 1: "sys_step ops sops view y ?y" by (rule s_work_start [OF assms(1,2) o(1)])
  have "sys_step ops sops view ?y (?y\<lparr>sy_b := worker_end (wk_queue ?x) b, sy_workers := xs @ ys\<rparr>)"
    by (rule s_work_settle [where out = out and nid = nid and now = now and tS = tS]) (use assms(3) o(2) in simp_all)
  moreover have "?y\<lparr>sy_b := worker_end (wk_queue ?x) b, sy_workers := xs @ ys\<rparr> =
      y\<lparr>sy_b := worker_end (wk_queue x) b, sy_workers := xs @ ys, sy_world := w\<rparr>" by simp
  ultimately show ?thesis using 1 by (metis converse_rtranclp_into_rtranclp r_into_rtranclp)
qed

subsection \<open>A drain\<close>

text \<open>Left alone, the places of a drain test are one call of \<open>drainComplete\<close>.\<close>

lemma stage_step:
  assumes "dispatch_stage ops q (sy_pc y q) (sy_b y) = Some (nx, b)" "goto q (nx, b) y = Some y'"
  shows "rtranclp (sys_step ops sops view) y y'"
  using s_empty [OF assms] by blast

lemma drain_alone:
  assumes "sy_pc y q = InDrain c Quiet" "drainComplete ops q (sy_b y) = (fin, b)"
    and "goto q (after_drain c fin, b) y = Some y'"
  shows "rtranclp (sys_step ops sops view) y y'"
proof -
  let ?R = "rtranclp (sys_step ops sops view)"
  let ?at = "\<lambda>pc b. y\<lparr>sy_b := b, sy_pc := (sy_pc y)(q := InDrain c pc)\<rparr>"
  have step: "?R (?at pc b1) (?at pc' b2)" if "drain_step ops q c pc b1 = (NextDrain c pc', b2)" for pc b1 pc' b2
    using that by (intro stage_step [where q = q and nx = "NextDrain c pc'" and b = b2]) simp_all
  have last: "?R (?at pc b1) y'" if "drain_step ops q c pc b1 = (after_drain c fin, b)" for pc b1
  proof (rule stage_step [where q = q and nx = "after_drain c fin" and b = b])
    show "goto q (after_drain c fin, b) (?at pc b1) = Some y'" using assms(3) by (cases c; cases fin) auto
  qed (simp add: that)
  obtain quiet b1 where qu: "quiescent q (sy_b y) = (quiet, b1)" by fastforce
  have y: "y = ?at Quiet (sy_b y)" using assms(1) by (simp add: fun_upd_idem)
  show ?thesis
  proof (cases quiet)
    case False
    with qu assms(2) have "drain_step ops q c Quiet (sy_b y) = (after_drain c fin, b)" by (auto simp: drainComplete_def)
    from last [OF this] y show ?thesis by simp
  next
    case True
    with qu have 1: "?R y (?at Flush b1)" using step [of Quiet "sy_b y" Flush b1] y by simp
    obtain l b2 where t: "flush_take q b1 = (l, b2)" by fastforce
    have counted: "?R (?at Counting b3) y'" if "flushAcks ops q b1 = (Inr (), b3)" for b3
      by (rule last) (use that assms(2) qu True in \<open>auto simp: drainComplete_def split: prod.splits sum.splits\<close>)
    show ?thesis
    proof (cases "l = []")
      case True
      with t have "?R (?at Flush b1) (?at Counting b2)" by (intro step) simp
      moreover have "flushAcks ops q b1 = (Inr (), b2)" using t True by (simp add: flushAcks_def)
      ultimately show ?thesis using 1 counted by (meson rtranclp_trans)
    next
      case False
      with t have 2: "?R (?at Flush b1) (?at (Flushing l) b2)" by (intro step) simp
      obtain r s where a: "AckBatch_op ops q l (b_store b2) = (r, s)" by fastforce
      show ?thesis
      proof (cases r)
        case (Inl e)
        with a have 3: "?R (?at (Flushing l) b2) (?at (Unflush l) (b2\<lparr>b_store := s\<rparr>))" by (intro step) simp
        have "flushAcks ops q b1 = (Inl e, flush_restore q l (b2\<lparr>b_store := s\<rparr>))" using t a Inl False by (simp add: flushAcks_def)
        then have "?R (?at (Unflush l) (b2\<lparr>b_store := s\<rparr>)) y'"
          using assms(2) qu \<open>quiet\<close> by (intro last) (simp add: drainComplete_def)
        with 1 2 3 show ?thesis by (meson rtranclp_trans)
      next
        case (Inr u)
        with a have 3: "?R (?at (Flushing l) b2) (?at Counting (b2\<lparr>b_store := s\<rparr>))" by (intro step) simp
        have "flushAcks ops q b1 = (Inr (), b2\<lparr>b_store := s\<rparr>)" using t a Inr False by (simp add: flushAcks_def)
        with 1 2 3 counted show ?thesis by (meson rtranclp_trans)
      qed
    qed
  qed
qed

subsection \<open>The part of the broker that counts goroutines\<close>

definition inflight_count :: "('s, 'w) broker \<Rightarrow> string \<Rightarrow> int" where
  "inflight_count b q = (case b_inflight b q of Some n \<Rightarrow> n | None \<Rightarrow> 0)"

record skeleton =
  k_handlers :: "string set"
  k_dispatching :: "string \<Rightarrow> bool"
  k_inflight :: "string \<Rightarrow> int"
  k_wg :: int
  k_stopped :: bool
  k_aborted :: bool
  k_closed :: bool
  k_storeClosed :: bool
  k_concurrency :: int
  k_ackOpen :: bool

definition skel :: "('s, 'w) broker \<Rightarrow> skeleton" where
  "skel b = \<lparr>k_handlers = dom (b_handlers b), k_dispatching = b_dispatching b, k_inflight = inflight_count b,
     k_wg = b_wg b, k_stopped = b_stopped b, k_aborted = b_aborted b, k_closed = b_closed b,
     k_storeClosed = b_storeClosed b, k_concurrency = b_concurrency b,
     k_ackOpen = (b_ackStop b = Some False)\<rparr>"

text \<open>Most operations leave the skeleton alone.\<close>

lemma skel_upd [simp]:
  "skel (b\<lparr>b_store := s\<rparr>) = skel b" "skel (b\<lparr>b_mw := a1\<rparr>) = skel b" "skel (b\<lparr>b_dispatchC := a2\<rparr>) = skel b"
  "skel (b\<lparr>b_pendingAcks := a3\<rparr>) = skel b" "skel (b\<lparr>b_dedupe := a5\<rparr>) = skel b"
  "skel (b\<lparr>b_metrics := a6\<rparr>) = skel b" "skel (b\<lparr>b_paused := a7\<rparr>) = skel b" "skel (b\<lparr>b_qDraining := a8\<rparr>) = skel b"
  "skel (b\<lparr>b_drainDone := a9\<rparr>) = skel b" "skel (b\<lparr>b_doneClosed := a10\<rparr>) = skel b" "skel (b\<lparr>b_nextDone := a11\<rparr>) = skel b"
  "skel (b\<lparr>b_store := s, b_pendingAcks := a3\<rparr>) = skel b"
  "skel (b\<lparr>b_dedupe := a5, b_metrics := a6\<rparr>) = skel b"
  by (simp_all add: skel_def inflight_count_def fun_eq_iff)

lemma skel_emit [simp]: "skel (emit evs b) = skel b"
  by (simp add: emit_def)

lemma skel_wake [simp]: "skel (wake q b) = skel b"
  by (simp add: wake_def split: option.split)

lemma skel_rollback [simp]: "skel (rollbackDedupe keys b) = skel b"
  by (simp add: rollbackDedupe_def Let_def)

lemma skel_enqueueMessage: "skel (snd (enqueueMessage tD nid q payload opts c s b)) = skel b"
  by (cases rule: enqueueMessage_cases [where tD = tD and q = q and opts = opts and b = b and nid = nid and
        payload = payload and c = c and s = s]) simp_all

lemma skel_Enqueue [simp]: "skel (snd (b_Enqueue ops now tD tS nid q payload opts b)) = skel b"
  using skel_enqueueMessage [of tD nid q payload opts now now b]
  by (auto simp: b_Enqueue_def split: prod.splits sum.splits)

lemma skel_batch_loop: "skel (snd (batch_loop now q items ms ks b)) = skel b"
proof (induction now q items ms ks b rule: batch_loop.induct)
  case (2 now q item tD nid items ms ks b)
  obtain msg key ok b1 where em: "enqueueMessage tD nid q (biPayload item) (biOpts item)
      (time_add now (of_nat (length ms) * microsecond)) now b = ((msg, key, ok), b1)"
    by (metis prod.exhaust)
  have "skel b1 = skel b"
    using em by (metis skel_enqueueMessage snd_conv)
  then show ?case using 2 [OF refl em [symmetric] refl refl refl] by (simp add: em)
qed simp

lemma skel_EnqueueBatch [simp]: "skel (snd (b_EnqueueBatch ops now tS q items b)) = skel b"
  using skel_batch_loop [of now q items "[]" "[]" b]
  by (auto simp: b_EnqueueBatch_def split: prod.splits sum.splits)

lemma skel_flushAcks [simp]: "skel (snd (flushAcks ops q b)) = skel b"
  by (cases rule: flushAcks_cases [where b = b and q = q and ops = ops]) simp_all

lemma skel_flushAcks_eq: "flushAcks ops q b = (r, b') \<Longrightarrow> skel b' = skel b"
  by (metis skel_flushAcks snd_conv)

lemma skel_flush_loop: "skel (snd (flush_loop ops qs fe b)) = skel b"
proof (induction qs arbitrary: fe b)
  case (Cons q qs)
  then show ?case
    by (auto split: prod.splits sum.splits dest: skel_flushAcks_eq)
qed simp

lemma skel_flushAllAcks [simp]: "skel (snd (flushAllAcks ops qs b)) = skel b"
  using skel_flush_loop [of ops qs None b] by (auto simp: flushAllAcks_def split: prod.splits option.splits)

lemma skel_ack [simp]: "skel (snd (ack ops q i b)) = skel b"
  by (simp add: ack_def Let_def split_beta)

lemma skel_toDeadLetter [simp]: "skel (toDeadLetter ops tS nid q msg e b) = skel b"
  by (simp add: toDeadLetter_def split_beta)

lemma skel_ack_eq: "ack ops q i b = (r, b') \<Longrightarrow> skel b' = skel b"
  by (metis skel_ack snd_conv)

lemma skel_handle_settle:
  "handle_settle ops now tS nid q msg out b = (r, b') \<Longrightarrow> skel b' = skel b"
  by (cases "(ops, now, tS, nid, q, msg, out, b)" rule: handle_settle.cases)
    (auto dest!: skel_ack_eq simp: Let_def split: option.splits if_splits prod.splits)

lemma skel_isPaused: "isPaused q b = (p, b') \<Longrightarrow> skel b' = skel b"
  by (auto simp: isPaused_def pausedFlag_def split: option.splits)

lemma inflightFor_count: "inflightFor q b = (n, b') \<Longrightarrow> n = inflight_count b q \<and> skel b' = skel b"
  by (auto simp: inflightFor_def inflight_count_def skel_def fun_eq_iff split: option.splits if_splits)

lemma skel_drainComplete: "drainComplete ops q b = (r, b') \<Longrightarrow> skel b' = skel b"
  by (auto simp: drainComplete_def quiescent_def split: prod.splits if_splits sum.splits
      dest!: inflightFor_count skel_flushAcks_eq)

lemma drainComplete_count: "drainComplete ops q b = (True, b') \<Longrightarrow> inflight_count b q = 0"
  by (auto simp: drainComplete_def quiescent_def split: prod.splits if_splits sum.splits
      dest!: inflightFor_count)

lemma skel_signalDrainDone: "signalDrainDone q b = (r, b') \<Longrightarrow> skel b' = skel b"
  by (auto simp: signalDrainDone_def split: option.splits if_splits)

lemma skel_dispatch_top: "dispatch_top ops tS q b = (nx, b') \<Longrightarrow> skel b' = skel b"
  by (auto simp: dispatch_top_def split: if_splits prod.splits sum.splits dest: skel_isPaused)

lemma dispatch_top_exit: "dispatch_top ops tS q b = (Exit, b') \<Longrightarrow> b_aborted b"
  by (auto simp: dispatch_top_def split: if_splits prod.splits sum.splits)

lemma skel_flush_parts [simp]: "flush_take q b = (batch, b') \<Longrightarrow> skel b' = skel b" "skel (flush_restore q batch b) = skel b"
  by (auto simp: flush_take_def flush_restore_def)

lemma skel_drain_step: "drain_step ops q c pc b = (nx, b') \<Longrightarrow> skel b' = skel b"
  by (cases pc) (auto simp: quiescent_def split: prod.splits sum.splits dest!: inflightFor_count)

lemma skel_dispatch_stage: "dispatch_stage ops q pc b = Some (nx, b') \<Longrightarrow> skel b' = skel b"
  by (cases pc) (auto simp: dispatch_empty_def dispatch_second_def dispatch_signal_def split: prod.splits sum.splits
      dest: skel_drain_step skel_signalDrainDone)

text \<open>
  Past its quiescence test \<open>drainComplete\<close> stays quiescent: only the dispatcher itself starts workers of its
  queue.
\<close>

fun quiet_pc :: "disp_pc \<Rightarrow> bool" where
  "quiet_pc (InDrain c pc) \<longleftrightarrow> pc \<noteq> Quiet"
| "quiet_pc Signalling \<longleftrightarrow> True"
| "quiet_pc _ \<longleftrightarrow> False"

definition quiet_inv :: "('s, 'w) sys \<Rightarrow> bool" where
  "quiet_inv y \<longleftrightarrow> (\<forall>q. quiet_pc (sy_pc y q) \<longrightarrow> on_queue q (sy_workers y) = [])"

fun next_quiet :: "dispatch_next \<Rightarrow> bool" where
  "next_quiet (NextDrain c pc) \<longleftrightarrow> pc \<noteq> Quiet"
| "next_quiet NextSignal \<longleftrightarrow> True"
| "next_quiet _ \<longleftrightarrow> False"

lemma dispatch_stage_quiet:
  assumes "dispatch_stage ops q pc b = Some (nx, b')" "next_quiet nx \<or> nx = Exit \<and> \<not> b_aborted b"
  shows "quiet_pc pc \<or> inflight_count b q = 0"
proof (cases pc)
  case (InDrain c dp)
  with assms show ?thesis
    by (cases dp; cases c) (auto simp: quiescent_def split: prod.splits if_splits dest!: inflightFor_count)
qed (use assms in \<open>auto simp: dispatch_empty_def dispatch_second_def split: if_splits\<close>)

subsection \<open>The structural invariant\<close>

definition running :: "('s, 'w) sys \<Rightarrow> string set" where
  "running y = {q. sy_pc y q \<noteq> Stopped}"

definition sys_inv :: "('s, 'w) sys \<Rightarrow> bool" where
  "sys_inv y \<longleftrightarrow>
     (let k = skel (sy_b y) in
      (\<forall>q. k_inflight k q = int (length (on_queue q (sy_workers y)))) \<and>
      (\<forall>q. k_dispatching k q \<longleftrightarrow> q \<in> running y) \<and>
      running y \<subseteq> k_handlers k \<and> wk_queue ` set (sy_workers y) \<subseteq> k_handlers k \<and>
      finite (running y) \<and>
      k_wg k = int (card (running y)) + int (length (sy_workers y)) + of_bool (sy_sched y) \<and>
      (k_stopped k \<or> k_aborted k \<longrightarrow> k_closed k) \<and>
      (k_storeClosed k \<longrightarrow> k_closed k \<and> k_wg k = 0) \<and>
      (\<not> k_closed k \<longrightarrow> wk_queue ` set (sy_workers y) \<subseteq> running y) \<and>
      (\<forall>x \<in> set (sy_workers y). wk_gen x = sy_gen y (wk_queue x) \<and> wk_out x \<noteq> Some NoHandler) \<and>
      0 < k_concurrency k \<and>
      (\<forall>q. int (length (on_queue q (sy_workers y))) \<le> k_concurrency k) \<and>
      (k_storeClosed k \<longrightarrow> \<not> k_ackOpen k \<and> sy_ack y = AckWait))"

lemma sys_inv_frame:
  assumes "sys_inv y" "skel (sy_b y') = skel (sy_b y)" "sy_workers y' = sy_workers y" "sy_gen y' = sy_gen y"
    "running y' = running y" "sy_sched y' = sy_sched y" "sy_ack y' = sy_ack y"
  shows "sys_inv y'"
  using assms by (simp add: sys_inv_def)

lemma running_upd [simp]:
  "running (y\<lparr>sy_ack := pa\<rparr>) = running y"
  "running (y\<lparr>sy_due := du\<rparr>) = running y"
  "running (y\<lparr>sy_b := b, sy_due := du\<rparr>) = running y"
  "running (y\<lparr>sy_b := b, sy_ack := pa\<rparr>) = running y"
  "running (y\<lparr>sy_b := b\<rparr>) = running y"
  "running (y\<lparr>sy_b := b, sy_sched := c\<rparr>) = running y"
  "running (y\<lparr>sy_b := b, sy_pulled := pu\<rparr>) = running y"
  "running (y\<lparr>sy_b := b, sy_workers := ws\<rparr>) = running y"
  "running (y\<lparr>sy_workers := ws, sy_world := w\<rparr>) = running y"
  "running (y\<lparr>sy_b := b, sy_pc := (sy_pc y)(q := pc)\<rparr>) =
     (if pc = Stopped then running y - {q} else insert q (running y))"
  "running (y\<lparr>sy_b := b, sy_pc := (sy_pc y)(q := pc), sy_workers := ws\<rparr>) =
     (if pc = Stopped then running y - {q} else insert q (running y))"
  "running (y\<lparr>sy_b := b, sy_pc := (sy_pc y)(q := pc), sy_gen := g\<rparr>) =
     (if pc = Stopped then running y - {q} else insert q (running y))"
  "running (y\<lparr>sy_pc := (sy_pc y)(q := pc)\<rparr>) =
     (if pc = Stopped then running y - {q} else insert q (running y))"
  by (auto simp: running_def)

lemmas skel_sel = skeleton.simps skel_def

lemma sys_init_inv: "sys_inv (sys_init opts w)"
  by (simp add: sys_inv_def sys_init_def skel_def New_def Let_def running_def on_queue_def inflight_count_def)

text \<open>The store is open while a goroutine counts.\<close>

lemma sys_inv_wg: "sys_inv y \<Longrightarrow> finite (running y) \<and>
    k_wg (skel (sy_b y)) = int (card (running y)) + int (length (sy_workers y)) + of_bool (sy_sched y)"
  by (simp add: sys_inv_def Let_def)

lemma sys_inv_closed: "sys_inv y \<Longrightarrow> k_storeClosed (skel (sy_b y)) \<Longrightarrow> k_closed (skel (sy_b y)) \<and> k_wg (skel (sy_b y)) = 0"
  by (simp add: sys_inv_def Let_def)

lemma sys_inv_wg_zero:
  assumes "sys_inv y" "k_wg (skel (sy_b y)) = 0"
  shows "running y = {} \<and> sy_workers y = [] \<and> \<not> sy_sched y"
proof -
  from sys_inv_wg [OF assms(1)] have "finite (running y)"
    and sum: "int (card (running y)) + int (length (sy_workers y)) + of_bool (sy_sched y) = 0"
    by (simp_all add: assms(2))
  moreover have sched: "\<not> sy_sched y"
  proof
    assume "sy_sched y"
    with sum show False by simp
  qed
  moreover from sum sched have "int (card (running y)) + int (length (sy_workers y)) = 0" by simp
  then have "card (running y) = 0" "length (sy_workers y) = 0" by linarith+
  ultimately show ?thesis by simp
qed

lemma sys_inv_open: "sys_inv y \<Longrightarrow> q \<in> running y \<Longrightarrow> \<not> k_storeClosed (skel (sy_b y))"
  using sys_inv_closed [of y] sys_inv_wg_zero [of y] by (metis empty_iff)

text \<open>A dispatcher starts: only for a queue that has none, and then no worker of the queue is left.\<close>

lemma sys_inv_start:
  assumes "sys_inv y" "q \<notin> running y" "\<not> b_closed (sy_b y)"
    and "skel b = (skel (sy_b y))\<lparr>k_handlers := insert q (k_handlers (skel (sy_b y))),
      k_dispatching := (k_dispatching (skel (sy_b y)))(q := True), k_wg := k_wg (skel (sy_b y)) + 1\<rparr>"
  shows "sys_inv (y\<lparr>sy_b := b, sy_pc := (sy_pc y)(q := Top), sy_gen := (sy_gen y)(q := Suc (sy_gen y q))\<rparr>)"
proof -
  have "\<not> k_closed (skel (sy_b y))" using assms(3) by (simp add: skel_def)
  moreover from this have "\<forall>x \<in> set (sy_workers y). wk_queue x \<noteq> q"
    using assms(1,2) by (auto simp: sys_inv_def Let_def)
  ultimately show ?thesis
    using assms(1,2) by (auto simp: sys_inv_def Let_def assms(4) card_insert_if)
qed

lemma sys_inv_exit:
  assumes "sys_inv y" "q \<in> running y" "skel b = skel (sy_b y)" "b_aborted (sy_b y) \<or> inflight_count (sy_b y) q = 0"
  shows "sys_inv (y\<lparr>sy_b := dispatch_exit q b, sy_pc := (sy_pc y)(q := Stopped)\<rparr>)"
proof -
  have k: "skel (dispatch_exit q b) = (skel (sy_b y))\<lparr>k_dispatching := (k_dispatching (skel (sy_b y)))(q := False),
      k_wg := k_wg (skel (sy_b y)) - 1\<rparr>"
    using assms(3) by (simp add: skel_def dispatch_exit_def inflight_count_def fun_eq_iff)
  have pos: "card (running y) > 0" using assms(1,2) by (auto simp: sys_inv_def Let_def card_gt_0_iff)
  have no: "\<forall>x \<in> set (sy_workers y). wk_queue x \<noteq> q" if "\<not> k_closed (skel (sy_b y))"
  proof -
    have "\<not> b_aborted (sy_b y)" using that assms(1) by (auto simp: sys_inv_def Let_def skel_def)
    then have "inflight_count (sy_b y) q = 0" using assms(4) by blast
    then have "on_queue q (sy_workers y) = []" using assms(1) by (simp add: sys_inv_def Let_def skel_def)
    then show ?thesis by (auto simp: on_queue_def filter_empty_conv)
  qed
  from sys_inv_open [OF assms(1,2)] show ?thesis
    using assms(1,2) no pos by (auto simp: sys_inv_def Let_def k card_Diff_singleton of_nat_diff Suc_leI)
qed

lemma sys_inv_move:
  assumes "sys_inv y" "q \<in> running y" "skel b = skel (sy_b y)" "pc \<noteq> Stopped"
  shows "sys_inv (y\<lparr>sy_b := b, sy_pc := (sy_pc y)(q := pc)\<rparr>)"
  by (rule sys_inv_frame [OF assms(1)]) (use assms in \<open>auto simp: insert_absorb\<close>)

lemma sys_inv_goto:
  assumes "sys_inv y" "q \<in> running y" "skel b = skel (sy_b y)" "goto q (nx, b) y = Some y'"
    "nx = Exit \<Longrightarrow> b_aborted (sy_b y) \<or> inflight_count (sy_b y) q = 0"
  shows "sys_inv y'"
  using assms sys_inv_exit [OF assms(1-3)] sys_inv_move [OF assms(1-3)] by (cases nx) auto

lemma sys_inv_spawn:
  assumes "sys_inv y" "q \<in> running y" "int (sem_tokens q y) < b_concurrency (sy_b y)" "pc \<noteq> Stopped"
  shows "sys_inv (y\<lparr>sy_b := worker_start q (sy_b y), sy_pc := (sy_pc y)(q := pc),
    sy_workers := \<lparr>wk_queue = q, wk_msg = m, wk_gen = sy_gen y q, wk_out = None\<rparr> # sy_workers y\<rparr>)"
proof -
  have k: "skel (worker_start q (sy_b y)) = (skel (sy_b y))\<lparr>k_wg := k_wg (skel (sy_b y)) + 1,
      k_inflight := (k_inflight (skel (sy_b y)))(q := k_inflight (skel (sy_b y)) q + 1)\<rparr>"
    by (auto simp: worker_start_def inflightFor_def skel_def inflight_count_def fun_eq_iff Let_def
        split: option.split)
  have gen: "\<forall>x \<in> set (sy_workers y). wk_gen x = sy_gen y (wk_queue x)" using assms(1) unfolding sys_inv_def Let_def by blast
  then have "filter (\<lambda>x. wk_queue x = q \<and> wk_gen x = sy_gen y q) (sy_workers y) = on_queue q (sy_workers y)"
    unfolding on_queue_def by (intro filter_cong) auto
  then have room: "int (length (on_queue q (sy_workers y))) < k_concurrency (skel (sy_b y))"
    using assms(3) by (simp add: sem_tokens_def skel_def)
  have pos: "card (running y) > 0" using assms(1,2) by (auto simp: sys_inv_def Let_def card_gt_0_iff)
  from sys_inv_open [OF assms(1,2)] show ?thesis
    using assms(1,2,4) room
    by (auto simp: sys_inv_def Let_def k on_queue_def insert_absorb)
qed

lemma sys_inv_work:
  assumes "sys_inv y" "sy_workers y = xs @ x # ys" "skel b = skel (sy_b y)"
  shows "sys_inv (y\<lparr>sy_b := worker_end (wk_queue x) b, sy_workers := xs @ ys\<rparr>)"
proof -
  let ?q = "wk_queue x"
  have cnt: "inflight_count b ?q = int (length (on_queue ?q (sy_workers y)))"
    using assms(1,3) by (simp add: sys_inv_def Let_def skel_def)
  then have "inflight_count b ?q > 0" by (simp add: assms(2) on_queue_def)
  then have "\<exists>n. b_inflight b ?q = Some n" by (auto simp: inflight_count_def split: option.splits)
  then have k: "skel (worker_end ?q b) = (skel (sy_b y))\<lparr>k_wg := k_wg (skel (sy_b y)) - 1,
      k_inflight := (k_inflight (skel (sy_b y)))(?q := k_inflight (skel (sy_b y)) ?q - 1)\<rparr>"
    unfolding assms(3) [symmetric] by (auto simp: worker_end_def skel_def inflight_count_def fun_eq_iff)
  have "\<not> k_storeClosed (skel (sy_b y))"
    using sys_inv_closed [OF assms(1)] sys_inv_wg_zero [OF assms(1)] assms(2) by auto
  moreover have len: "int (length (on_queue q (sy_workers y))) =
      int (length (on_queue q (xs @ ys))) + (if q = ?q then 1 else 0)" for q
    by (simp add: assms(2) on_queue_def)
  moreover have "int (length (sy_workers y)) = int (length (xs @ ys)) + 1" "set (sy_workers y) = insert x (set (xs @ ys))"
    by (auto simp: assms(2))
  moreover have "int (length (on_queue q (xs @ ys))) \<le> k_concurrency (skel (sy_b y))" for q
  proof -
    have "int (length (on_queue q (sy_workers y))) \<le> k_concurrency (skel (sy_b y))"
      using assms(1) by (simp add: sys_inv_def Let_def)
    then show ?thesis using len [of q] by (simp split: if_splits)
  qed
  ultimately show ?thesis
    using assms(1) unfolding sys_inv_def Let_def by (auto simp: k simp del: set_append length_append)
qed

text \<open>A handler has returned: the worker is the same, and it had a handler.\<close>

lemma sys_inv_returned:
  assumes "sys_inv y" "sy_workers y = xs @ x # ys" "handle_start (wk_queue x) (wk_msg x) (sy_b y) (sy_world y) = (Inr out, w)"
  shows "sys_inv (y\<lparr>sy_workers := xs @ x\<lparr>wk_out := Some out\<rparr> # ys, sy_world := w\<rparr>)"
proof -
  have "wk_queue x \<in> k_handlers (skel (sy_b y))" using assms(1,2) by (simp add: sys_inv_def Let_def)
  then obtain h where "b_handlers (sy_b y) (wk_queue x) = Some h" by (auto simp: skel_def)
  then have "out \<noteq> NoHandler" using assms(3) by (auto simp: handle_start_def split: if_splits prod.splits sum.splits)
  moreover define ws where "ws = xs @ x\<lparr>wk_out := Some out\<rparr> # ys"
  have "\<forall>x \<in> set (sy_workers y). wk_gen x = sy_gen y (wk_queue x) \<and> wk_out x \<noteq> Some NoHandler"
    using assms(1) unfolding sys_inv_def Let_def by blast
  ultimately have "\<forall>x \<in> set ws. wk_gen x = sy_gen y (wk_queue x) \<and> wk_out x \<noteq> Some NoHandler" by (simp add: assms(2) ws_def)
  moreover have "length (on_queue q ws) = length (on_queue q (sy_workers y))" for q by (simp add: assms(2) ws_def on_queue_def)
  moreover have "length ws = length (sy_workers y)" "wk_queue ` set ws = wk_queue ` set (sy_workers y)" by (auto simp: assms(2) ws_def)
  moreover have "\<not> k_storeClosed (skel (sy_b y))"
    using sys_inv_closed [OF assms(1)] sys_inv_wg_zero [OF assms(1)] assms(2) by auto
  ultimately show ?thesis unfolding ws_def [symmetric] using assms(1) by (simp add: sys_inv_def Let_def)
qed

lemma skel_Register:
  assumes "Register q fn hopts b = (start, b')" "q \<in> k_handlers (skel b) \<or> k_inflight (skel b) q = 0"
  shows "start \<longleftrightarrow> \<not> b_dispatching b q"
    and "\<not> start \<Longrightarrow> skel b' = (skel b)\<lparr>k_handlers := insert q (k_handlers (skel b))\<rparr>"
    and "start \<Longrightarrow> skel b' = (skel b)\<lparr>k_handlers := insert q (k_handlers (skel b)),
      k_dispatching := (k_dispatching (skel b))(q := True), k_wg := k_wg (skel b) + 1\<rparr>"
  using assms
  by (auto simp: Register_def Let_def skel_def inflight_count_def fun_eq_iff domIff split: if_splits)

lemma skel_Resume:
  assumes "Resume q b = (start, b')"
  shows "start \<longleftrightarrow> b_handlers b q \<noteq> None \<and> \<not> b_dispatching b q \<and> \<not> b_closed b"
    and "\<not> start \<Longrightarrow> skel b' = skel b"
    and "start \<Longrightarrow> skel b' = (skel b)\<lparr>k_dispatching := (k_dispatching (skel b))(q := True), k_wg := k_wg (skel b) + 1\<rparr>"
  using assms
  by (auto simp: Resume_def Let_def split: if_splits) (simp_all add: skel_def inflight_count_def fun_eq_iff)

lemma skel_Shutdown_finish:
  "skel (snd (Shutdown_finish ops qs b)) = (skel b)\<lparr>k_storeClosed := True, k_ackOpen := False\<rparr>"
proof -
  obtain r b1 where fl: "flushAllAcks ops qs (stopAckLoop b) = (r, b1)" by fastforce
  have "skel b1 = skel (stopAckLoop b)" using fl by (metis skel_flushAllAcks snd_conv)
  then have k1: "skel b1 = (skel b)\<lparr>k_ackOpen := False\<rparr>" by (auto simp: stopAckLoop_def skel_def inflight_count_def fun_eq_iff)
  then have "(skel b)\<lparr>k_storeClosed := True, k_ackOpen := False\<rparr> = (skel b1)\<lparr>k_storeClosed := True\<rparr>" by (simp add: skel_def)
  note k2 = this
  have closed: "snd (Shutdown_finish ops qs b) =
      (if b_storeClosed b1 then b1 else b1\<lparr>b_store := snd (Close_op ops (b_store b1)), b_storeClosed := True\<rparr>)"
    by (simp add: Shutdown_finish_def Let_def fl split_beta)
  show ?thesis
    unfolding closed k2 by (simp add: skel_def inflight_count_def fun_eq_iff)
qed

lemma sys_inv_handlers:
  assumes "sys_inv y" "skel b = (skel (sy_b y))\<lparr>k_handlers := H\<rparr>" "k_handlers (skel (sy_b y)) \<subseteq> H"
  shows "sys_inv (y\<lparr>sy_b := b\<rparr>)"
proof -
  let ?y = "y\<lparr>sy_b := b\<rparr>" and ?k = "skel (sy_b y)"
  have sel: "sy_b ?y = b" "sy_workers ?y = sy_workers y" "sy_gen ?y = sy_gen y" "sy_sched ?y = sy_sched y" "sy_ack ?y = sy_ack y"
    "k_inflight (skel b) = k_inflight ?k" "k_dispatching (skel b) = k_dispatching ?k" "k_handlers (skel b) = H" "k_wg (skel b) = k_wg ?k"
    "k_stopped (skel b) = k_stopped ?k" "k_aborted (skel b) = k_aborted ?k" "k_closed (skel b) = k_closed ?k"
    "k_storeClosed (skel b) = k_storeClosed ?k" "k_concurrency (skel b) = k_concurrency ?k" "k_ackOpen (skel b) = k_ackOpen ?k"
    by (simp_all add: assms(2))
  show ?thesis using assms(1,3) unfolding sys_inv_def Let_def sel running_upd by (elim conjE) (intro conjI; (assumption | rule order_trans)+)
qed

lemma sys_inv_Register:
  assumes "sys_inv y" "\<not> b_closed (sy_b y)"
  shows "sys_inv (start_dispatcher q (Register q fn hopts (sy_b y)) y)"
proof -
  obtain start b where r: "Register q fn hopts (sy_b y) = (start, b)" by fastforce
  have disp: "b_dispatching (sy_b y) q \<longleftrightarrow> q \<in> running y"
    using assms(1) by (simp add: sys_inv_def Let_def skel_def)
  have "k_inflight (skel (sy_b y)) q = int (length (on_queue q (sy_workers y)))" "wk_queue ` set (sy_workers y) \<subseteq> k_handlers (skel (sy_b y))"
    using assms(1) by (simp_all add: sys_inv_def Let_def)
  then have "q \<in> k_handlers (skel (sy_b y)) \<or> k_inflight (skel (sy_b y)) q = 0" by (auto simp: on_queue_def filter_empty_conv)
  note k = skel_Register [OF r this]
  show ?thesis
  proof (cases start)
    case True
    then show ?thesis
      using k(1) k(3) disp assms by (simp add: start_dispatcher_def r sys_inv_start)
  next
    case False
    then show ?thesis
      using sys_inv_handlers [OF assms(1) k(2)] by (auto simp: start_dispatcher_def r)
  qed
qed

lemma sys_inv_Resume:
  assumes "sys_inv y"
  shows "sys_inv (start_dispatcher q (Resume q (sy_b y)) y)"
proof -
  obtain start b where r: "Resume q (sy_b y) = (start, b)" by fastforce
  have disp: "b_dispatching (sy_b y) q \<longleftrightarrow> q \<in> running y"
    using assms(1) by (simp add: sys_inv_def Let_def skel_def)
  note k = skel_Resume [OF r]
  show ?thesis
  proof (cases start)
    case True
    then have "q \<in> k_handlers (skel (sy_b y))" using k(1) by (auto simp: skel_def)
    then have "insert q (k_handlers (skel (sy_b y))) = k_handlers (skel (sy_b y))" by auto
    with True k(1,3) disp assms show ?thesis
      by (simp add: start_dispatcher_def r sys_inv_start)
  next
    case False
    with k(2) assms show ?thesis by (simp add: start_dispatcher_def r sys_inv_def)
  qed
qed

text \<open>Steps that leave the skeleton, the workers and the dispatchers alone.\<close>

lemma sys_inv_same:
  assumes "sys_inv y" "skel b = skel (sy_b y)"
  shows "sys_inv (y\<lparr>sy_b := b\<rparr>)"
  by (rule sys_inv_frame [OF assms(1)]) (simp_all add: assms(2))

text \<open>The acknowledgement loop moves on; while it is not waiting the store is open.\<close>

lemma sys_inv_ackD: "sys_inv y \<Longrightarrow> k_storeClosed (skel (sy_b y)) \<Longrightarrow> b_ackStop (sy_b y) \<noteq> Some False \<and> sy_ack y = AckWait"
  by (simp add: sys_inv_def Let_def) (simp add: skel_def)

lemma sys_inv_ack:
  assumes "sys_inv y" "skel b = skel (sy_b y)" "sy_ack y \<noteq> AckWait \<or> b_ackStop (sy_b y) = Some False"
  shows "sys_inv (y\<lparr>sy_b := b, sy_ack := pa\<rparr>)"
proof -
  have "\<not> k_storeClosed (skel (sy_b y))" using sys_inv_ackD [OF assms(1)] assms(3) by blast
  then show ?thesis using assms(1,2) by (auto simp: sys_inv_def Let_def)
qed

lemma skel_periodic [simp]:
  "skel (snd (RegisterPeriodic sops sc b)) = skel b" "skel (snd (RemovePeriodic sops jid b)) = skel b"
  "skel (snd (PeriodicJobs sops qn b)) = skel b" "skel (snd (b_Stats ops q b)) = skel b"
  by (simp_all add: RegisterPeriodic_def RemovePeriodic_def PeriodicJobs_def b_Stats_def split: prod.splits)

lemma skel_misc [simp]:
  "skel (Use mw b) = skel b" "skel (Pause q b) = skel b" "skel (Drain_done q b) = skel b"
  "skel (Drain_cancel q b) = skel b" "skel (snd (Drain_begin q b)) = skel b"
  by (simp_all add: Use_def Pause_def Drain_done_def Drain_cancel_def Drain_begin_def Let_def)

lemma sys_inv_workers: "sys_inv y \<Longrightarrow> inflight_count (sy_b y) q = int (length (on_queue q (sy_workers y)))"
  by (simp add: sys_inv_def Let_def skel_def)

lemma sys_step_inv:
  assumes "sys_step ops sops view y y'" "sys_inv y" "quiet_inv y"
  shows "sys_inv y'"
  using assms(1)
proof (cases rule: sys_step.cases)
  case (s_Register q fn hopts)
  then show ?thesis using assms(2) by (simp add: sys_inv_Register)
next
  case (s_Resume q)
  then show ?thesis using assms(2) by (simp add: sys_inv_Resume)
next
  case (s_top q tS)
  obtain nx b where nb: "dispatch_top ops tS q (sy_b y) = (nx, b)" by fastforce
  have q: "q \<in> running y" using s_top(1) by (simp add: running_def)
  show ?thesis
    by (rule sys_inv_goto [OF assms(2) q skel_dispatch_top [OF nb] s_top(2) [unfolded nb]])
      (use nb dispatch_top_exit in blast)
next
  case (s_empty q nx)
  obtain nxt b where nb: "nx = (nxt, b)" by fastforce
  have q: "q \<in> running y" using s_empty(1) by (auto simp: running_def)
  have "b_aborted (sy_b y) \<or> inflight_count (sy_b y) q = 0" if "nxt = Exit"
    using dispatch_stage_quiet [OF s_empty(1) [unfolded nb]] that assms(3) sys_inv_workers [OF assms(2), of q] by (auto simp: quiet_inv_def)
  from sys_inv_goto [OF assms(2) q skel_dispatch_stage [OF s_empty(1) [unfolded nb]] s_empty(2) [unfolded nb] this] show ?thesis .
next
  case (s_wait_abort q)
  then have "q \<in> running y" by (auto simp: running_def)
  from sys_inv_exit [OF assms(2) this refl] s_wait_abort(1,3) show ?thesis by simp
next
  case (s_timer q)
  then have "q \<in> running y" by (auto simp: running_def)
  from sys_inv_move [OF assms(2) this refl, of Top] s_timer(1) show ?thesis by simp
next
  case (s_woken q)
  then have "q \<in> running y" by (auto simp: running_def)
  from sys_inv_move [OF assms(2) this, of _ Top] s_woken(1) show ?thesis by simp
next
  case (s_spawn q m ms)
  then have "q \<in> running y" by (auto simp: running_def)
  from sys_inv_spawn [OF assms(2) this s_spawn(3)] s_spawn(1) show ?thesis by simp
next
  case (s_spawned q)
  then have "q \<in> running y" by (auto simp: running_def)
  from sys_inv_move [OF assms(2) this refl, of Top] s_spawned(1) show ?thesis by simp
next
  case (s_work_start xs x ys out w)
  from sys_inv_returned [OF assms(2) s_work_start(2,4)] s_work_start(1) show ?thesis by simp
next
  case (s_work_settle xs x ys out nid now tS b)
  from sys_inv_work [OF assms(2) s_work_settle(2) skel_handle_settle [OF s_work_settle(5)]] s_work_settle(1) show ?thesis by simp
next
  case (s_ack_tick qs)
  with sys_inv_ack [OF assms(2) refl] show ?thesis by (metis sys.surjective sys.update_convs(1,8))
next
  case (s_ack_take q qs batch b)
  with sys_inv_ack [OF assms(2), of b] show ?thesis by simp
next
  case (s_ack_batch q batch qs r2 s)
  with sys_inv_ack [OF assms(2)] show ?thesis by simp
next
  case (s_ack_restore q batch qs)
  with sys_inv_ack [OF assms(2)] show ?thesis by simp
next
  case s_ack_done
  with sys_inv_ack [OF assms(2) refl] show ?thesis by (metis ack_pc.distinct(1) sys.surjective sys.update_convs(1,8))
next
  case (s_schedule_poll now polled b)
  have "skel b = skel (sy_b y)" using s_schedule_poll(4) by (auto simp: schedule_poll_def split: prod.splits sum.splits)
  then show ?thesis unfolding s_schedule_poll(1) by (intro sys_inv_frame [OF assms(2)]) simp_all
next
  case (s_schedule_run now sc ss nid clk s)
  show ?thesis unfolding s_schedule_run(1) by (rule sys_inv_frame [OF assms(2)]) simp_all
next
  case (s_schedule_done now)
  show ?thesis unfolding s_schedule_done(1) by (rule sys_inv_frame [OF assms(2)]) simp_all
next
  case (s_pull q tS r s)
  show ?thesis unfolding s_pull(1) by (rule sys_inv_frame [OF assms(2)]) simp_all
next
  case (s_pull_ack q i r2 s)
  show ?thesis unfolding s_pull_ack(1) by (rule sys_inv_frame [OF assms(2)]) simp_all
next
  case s_schedule_exit
  have k: "skel ((sy_b y)\<lparr>b_wg := b_wg (sy_b y) - 1\<rparr>) = (skel (sy_b y))\<lparr>k_wg := k_wg (skel (sy_b y)) - 1\<rparr>"
    by (simp add: skel_def inflight_count_def fun_eq_iff)
  have "\<not> k_storeClosed (skel (sy_b y))"
    using sys_inv_closed [OF assms(2)] sys_inv_wg_zero [OF assms(2)] s_schedule_exit(2) by auto
  with assms(2) s_schedule_exit show ?thesis by (auto simp: sys_inv_def Let_def k)
next
  case s_Shutdown
  have "skel (snd (Shutdown_begin (sy_b y))) = skel (sy_b y) \<or>
    skel (snd (Shutdown_begin (sy_b y))) = (skel (sy_b y))\<lparr>k_closed := True, k_stopped := True\<rparr>"
    by (simp add: Shutdown_begin_def wakeAll_def) (simp add: skel_def inflight_count_def fun_eq_iff)
  then show ?thesis
  proof (elim disjE)
    assume k: "skel (snd (Shutdown_begin (sy_b y))) = (skel (sy_b y))\<lparr>k_closed := True, k_stopped := True\<rparr>"
    have "k_wg (skel (sy_b (y\<lparr>sy_b := snd (Shutdown_begin (sy_b y))\<rparr>))) = k_wg (skel (sy_b y))" by (simp add: k)
    then show ?thesis
      using assms(2) unfolding s_Shutdown sys_inv_def Let_def by (auto simp: k)
  qed (simp add: s_Shutdown sys_inv_same assms(2))
next
  case s_Shutdown_abort
  have "skel (Shutdown_abort (sy_b y)) = (skel (sy_b y))\<lparr>k_aborted := True\<rparr>" "k_closed (skel (sy_b y))"
    using s_Shutdown_abort(2) by (simp_all add: Shutdown_abort_def skel_def inflight_count_def fun_eq_iff)
  then show ?thesis using assms(2) unfolding s_Shutdown_abort(1) sys_inv_def Let_def by auto
next
  case (s_Shutdown_finish qs)
  have "k_closed (skel (sy_b y))" "k_wg (skel (sy_b y)) = 0" using s_Shutdown_finish(2,3) by (simp_all add: skel_def)
  then show ?thesis
    using assms(2) s_Shutdown_finish(1,4) by (simp add: sys_inv_def Let_def skel_Shutdown_finish)
qed (use assms(2) in \<open>simp_all add: sys_inv_same\<close>)

lemma goto_sel:
  assumes "goto q (nx, b) y = Some y'"
  shows "sy_workers y' = sy_workers y" "q' \<noteq> q \<Longrightarrow> sy_pc y' q' = sy_pc y q'" "quiet_pc (sy_pc y' q) \<Longrightarrow> next_quiet nx"
  using assms by (cases nx; auto)+

lemma on_queue_empty: "on_queue q ws = [] \<longleftrightarrow> q \<notin> wk_queue ` set ws"
  by (auto simp: on_queue_def filter_empty_conv)

lemma quiet_frame:
  assumes "quiet_inv y" "\<And>q. quiet_pc (sy_pc y' q) \<Longrightarrow> quiet_pc (sy_pc y q) \<and> set (on_queue q (sy_workers y')) \<subseteq> set (on_queue q (sy_workers y))"
  shows "quiet_inv y'"
  using assms unfolding quiet_inv_def by (metis set_empty subset_empty)

lemma quiet_goto:
  assumes "goto q (nx, b) y = Some y'" "quiet_inv y" "next_quiet nx \<Longrightarrow> on_queue q (sy_workers y) = []"
  shows "quiet_inv y'"
  unfolding quiet_inv_def
proof (intro allI impI)
  fix q'
  assume "quiet_pc (sy_pc y' q')"
  with assms(2,3) goto_sel [OF assms(1)] show "on_queue q' (sy_workers y') = []"
    unfolding quiet_inv_def by (cases "q' = q") auto
qed

lemma quiet_step:
  assumes "sys_step ops sops view y y'" "sys_inv y" "quiet_inv y"
  shows "quiet_inv y'"
  using assms(1)
proof (cases rule: sys_step.cases)
  case (s_top q tS)
  obtain nx b where nb: "dispatch_top ops tS q (sy_b y) = (nx, b)" by fastforce
  then have "\<not> next_quiet nx" by (auto simp: dispatch_top_def split: if_splits prod.splits sum.splits)
  with quiet_goto [OF s_top(2) [unfolded nb] assms(3)] show ?thesis by blast
next
  case (s_empty q nx)
  obtain nxt b where nb: "nx = (nxt, b)" by fastforce
  show ?thesis
  proof (rule quiet_goto [OF s_empty(2) [unfolded nb] assms(3)])
    assume "next_quiet nxt"
    with dispatch_stage_quiet [OF s_empty(1) [unfolded nb]] have "quiet_pc (sy_pc y q) \<or> inflight_count (sy_b y) q = 0" by blast
    then show "on_queue q (sy_workers y) = []"
      using assms(3) sys_inv_workers [OF assms(2), of q] by (auto simp: quiet_inv_def)
  qed
next
  case (s_spawn q m ms)
  show ?thesis unfolding s_spawn(1) by (rule quiet_frame [OF assms(3)]) (auto simp: on_queue_def split: if_splits)
next
  case (s_work_start xs x ys out w)
  show ?thesis unfolding s_work_start(1) using assms(3) s_work_start(2) by (auto simp: quiet_inv_def on_queue_empty)
next
  case (s_work_settle xs x ys out nid now tS b)
  show ?thesis unfolding s_work_settle(1) by (rule quiet_frame [OF assms(3)]) (use s_work_settle(2) in \<open>auto simp: on_queue_def\<close>)
qed (rule quiet_frame [OF assms(3)]; auto simp: start_dispatcher_def split: if_splits)+

lemma sys_reachable_invs: "sys_reachable ops sops view opts w y \<Longrightarrow> sys_inv y \<and> quiet_inv y"
  by (induction rule: sys_reachable.induct)
    (auto intro: sys_init_inv sys_step_inv quiet_step, simp add: quiet_inv_def sys_init_def)

lemmas sys_reachable_inv = sys_reachable_invs [THEN conjunct1]

subsection \<open>Goroutines and the store\<close>

text \<open>
  C30. Shutdown never pulls the store from under its users. In every reachable state of the broker, on
  any backend and under any interleaving, if the store has been closed then no worker runs, no
  dispatcher is alive, the schedule loop has ended, the acknowledgement loop is not in the middle of a
  flush (and starts none any more) and the wait group is at zero.
\<close>

theorem store_closed_last:
  assumes "sys_reachable ops sops view opts w y" "b_storeClosed (sy_b y)"
  shows "sy_workers y = [] \<and> (\<forall>q. sy_pc y q = Stopped) \<and> \<not> sy_sched y \<and> sy_ack y = AckWait \<and> b_wg (sy_b y) = 0"
proof -
  have inv: "sys_inv y" by (rule sys_reachable_inv [OF assms(1)])
  have "k_wg (skel (sy_b y)) = 0" using sys_inv_closed [OF inv] assms(2) by (simp add: skel_def)
  moreover have "sy_ack y = AckWait" using inv assms(2) by (simp add: sys_inv_def Let_def skel_def)
  ultimately show ?thesis
    using sys_inv_wg_zero [OF inv] by (auto simp: running_def skel_def)
qed

text \<open>
  C31. The counters of the broker count. In every reachable state, for every queue: the in-flight
  counter that the drain test reads is the number of its running workers; there are never more than
  \<open>Concurrency\<close> of them, across restarts of the dispatcher too; the wait group is the number of
  dispatchers, workers and schedule loops alive; and every dispatcher and worker belongs to a queue
  with a registered handler, so that the branch of \<open>handleOne\<close> without a handler is never taken.
\<close>

theorem goroutine_counters:
  assumes "sys_reachable ops sops view opts w y"
  shows "inflight_count (sy_b y) q = int (length (on_queue q (sy_workers y))) \<and>
    int (length (on_queue q (sy_workers y))) \<le> b_concurrency (sy_b y) \<and>
    b_wg (sy_b y) = int (card (running y)) + int (length (sy_workers y)) + of_bool (sy_sched y) \<and>
    (sy_pc y q \<noteq> Stopped \<longrightarrow> b_handlers (sy_b y) q \<noteq> None) \<and>
    (\<forall>x \<in> set (sy_workers y). b_handlers (sy_b y) (wk_queue x) \<noteq> None)"
  using sys_reachable_inv [OF assms] by (auto simp: sys_inv_def Let_def skel_def running_def)

definition example_sys :: "(memory, unit) sys" where
  "example_sys = sys_init example_options ()"

abbreviation example_reach :: "(memory, unit) sys \<Rightarrow> bool" where
  "example_reach \<equiv> sys_reachable memory_ops (memory_schedule_ops []) mem_view example_options ()"

lemma example_sys_b: "b_wg (sy_b example_sys) = 1" "sy_sched example_sys" "\<not> b_closed (sy_b example_sys)"
    "b_pendingAcks (sy_b example_sys) = Map.empty" "\<not> b_storeClosed (sy_b example_sys)" "sy_ack example_sys = AckWait" "sy_due example_sys = None"
  by (simp_all add: example_sys_def sys_init_def New_def Let_def example_options_def)

theorem store_closed_last_witness:
  "\<exists>y. example_reach y \<and> b_storeClosed (sy_b y) \<and> sy_workers y = [] \<and> \<not> sy_sched y \<and> b_wg (sy_b y) = 0"
proof -
  let ?y0 = example_sys
  let ?y1 = "?y0\<lparr>sy_b := snd (Shutdown_begin (sy_b ?y0))\<rparr>"
  let ?y2 = "?y1\<lparr>sy_b := (sy_b ?y1)\<lparr>b_wg := b_wg (sy_b ?y1) - 1\<rparr>, sy_sched := False\<rparr>"
  let ?y3 = "?y2\<lparr>sy_b := snd (Shutdown_finish memory_ops [] (sy_b ?y2))\<rparr>"
  have b1: "b_stopped (sy_b ?y1)" "b_closed (sy_b ?y1)" "b_wg (sy_b ?y1) = 1" "b_pendingAcks (sy_b ?y1) = Map.empty"
    by (simp_all add: Shutdown_begin_def wakeAll_def example_sys_b)
  have "example_reach ?y0" unfolding example_sys_def by (rule sr_init)
  then have "example_reach ?y1" by (rule sr_step) (rule s_Shutdown)
  then have "example_reach ?y2" by (rule sr_step) (rule s_schedule_exit, use b1 example_sys_b in simp_all)
  then have r3: "example_reach ?y3" by (rule sr_step) (rule s_Shutdown_finish, use b1 example_sys_b in simp_all)
  have "b_storeClosed (sy_b ?y3)"
    using skel_Shutdown_finish [of memory_ops "[]" "sy_b ?y2"] by (simp add: skel_def)
  with r3 store_closed_last [OF r3] show ?thesis by blast
qed

theorem goroutine_counters_witness:
  "\<exists>y. example_reach y \<and> sy_pc y ''q'' = Top \<and> b_wg (sy_b y) = 2 \<and> inflight_count (sy_b y) ''q'' = 0"
proof -
  let ?r = "Register ''q'' (\<lambda>c m w. (Inr None, w)) \<lparr>hoMaxRetries = 1, hoBackoff = None, hoTimeout = 0\<rparr> (sy_b example_sys)"
  let ?y = "start_dispatcher ''q'' ?r example_sys"
  note u = user_queue_q
  have "example_reach example_sys" unfolding example_sys_def by (rule sr_init)
  then have r: "example_reach ?y" by (rule sr_step) (rule s_Register, use u example_sys_b in simp_all)
  have y: "sy_pc ?y ''q'' = Top" "sy_workers ?y = []" "sy_sched ?y" "b_wg (sy_b ?y) = 2"
    by (simp_all add: start_dispatcher_def Register_def Let_def example_sys_def sys_init_def New_def example_options_def)
  from goroutine_counters [OF r, of "''q''"] y r show ?thesis by (auto simp: on_queue_def)
qed

end
