(* ===== verification/Broker_Ownership.thy ===== *)
theory Broker_Ownership
  imports Broker_System
begin

text \<open>
  Who owns a message: the broker's goroutines against the contract of the store.

  A message the broker holds (handed to a dispatcher, run by a worker, taken by a client of the backend,
  in a batch that is being acknowledged, or owed an acknowledgement) is in flight in the store, and held once. The ledger is kept on multisets: for every queue, the
  occurrences of an identifier among the held messages and the owed acknowledgements are at most one,
  and zero unless the store has it in flight. So the broker meets the preconditions of \<open>Retry\<close> and
  \<open>DeadLetter\<close> of the contract \<open>queue_store\<close>, and two workers never run the same message.
\<close>

text \<open>The batch the acknowledgement loop has taken out of the broker and not settled.\<close>

fun batch_of :: "ack_pc \<Rightarrow> string \<Rightarrow> string list" where
  "batch_of (AckTaken q batch qs) q' = (if q' = q then batch else [])"
| "batch_of (AckFailed q batch qs) q' = (if q' = q then batch else [])"
| "batch_of _ q' = []"

fun batch_user :: "ack_pc \<Rightarrow> bool" where
  "batch_user (AckTaken q batch qs) = user_queue q"
| "batch_user (AckFailed q batch qs) = user_queue q"
| "batch_user _ = True"

definition busy :: "('s, 'w) sys \<Rightarrow> string \<Rightarrow> string list" where
  "busy y q = map (\<lambda>x. mID (wk_msg x)) (on_queue q (sy_workers y)) @ sy_pulled y q @ batch_of (sy_ack y) q"

text \<open>What a dispatcher has in hand: messages it has not started, or a batch it is flushing for a drain.\<close>

fun pc_ids :: "disp_pc \<Rightarrow> string list" where
  "pc_ids (Spawning ms) = map mID ms"
| "pc_ids (InDrain c (Flushing l)) = l"
| "pc_ids (InDrain c (Unflush l)) = l"
| "pc_ids _ = []"

definition held :: "('s, 'w) sys \<Rightarrow> string \<Rightarrow> string list" where
  "held y q = pc_ids (sy_pc y q) @ busy y q"

definition ledger_ok :: "qabs \<Rightarrow> (string \<Rightarrow> string multiset) \<Rightarrow> (string \<Rightarrow> string multiset) \<Rightarrow> bool" where
  "ledger_ok V P H \<longleftrightarrow> exclusive V \<and> (\<forall>q i. count (H q) i + count (P q) i \<le> of_bool (i \<in> aInfl V q))"

abbreviation owes :: "('s, 'w) broker \<Rightarrow> string \<Rightarrow> string multiset" where
  "owes b \<equiv> \<lambda>q. mset (owed b q)"

lemma ledgerD: "ledger_ok V P H \<Longrightarrow> count (H q) i + count (P q) i \<le> of_bool (i \<in> aInfl V q)"
  by (simp add: ledger_ok_def)

lemma ledger_exclusive: "ledger_ok V P H \<Longrightarrow> exclusive V"
  by (simp add: ledger_ok_def)

lemma ledgerI:
  assumes "exclusive V'" "ledger_ok V P H" "\<And>q'. q' \<noteq> q \<Longrightarrow> aInfl V' q' = aInfl V q' \<and> P' q' = P q' \<and> H' q' = H q'"
    "\<And>i. count (H q) i + count (P q) i \<le> of_bool (i \<in> aInfl V q) \<Longrightarrow>
      count (H' q) i + count (P' q) i \<le> of_bool (i \<in> aInfl V' q)"
  shows "ledger_ok V' P' H'"
  unfolding ledger_ok_def
proof (intro conjI allI)
  fix q' i
  show "count (H' q') i + count (P' q') i \<le> of_bool (i \<in> aInfl V' q')"
    using assms(3) [of q'] assms(4) [of i] ledgerD [OF assms(2), of q' i] by (cases "q' = q") auto
qed (rule assms(1))

lemma ledger_in_flight:
  assumes "ledger_ok V P H" "i \<in># H q"
  shows "i \<in> aInfl V q"
proof (rule ccontr)
  assume "i \<notin> aInfl V q"
  with ledgerD [OF assms(1), of q i] have "count (H q) i = 0" by simp
  with assms(2) show False by (simp add: not_in_iff [symmetric])
qed

text \<open>A transition of the store that keeps what is in flight keeps the ledger.\<close>

lemma ledger_mono: "ledger_ok V P H \<Longrightarrow> exclusive V' \<Longrightarrow> aInfl V' = aInfl V \<Longrightarrow> ledger_ok V' P H"
  by (simp add: ledger_ok_def)

lemma ledger_mono_ok:
  "ledger_ok V P H \<Longrightarrow> exclusive V1 \<Longrightarrow> aInfl V1 = aInfl V \<Longrightarrow> ledger_ok (on_ok r V1 V) P H"
  by (cases r) (simp_all add: ledger_mono)

lemma ledger_Dequeue:
  assumes "ledger_ok V P H" "mset is \<subseteq># aPend V q"
  shows "ledger_ok (a_Dequeue q is V) P (H(q := mset is + H q))"
proof (rule ledgerI [OF exclusive_Dequeue [OF ledger_exclusive [OF assms(1)] assms(2)] assms(1), of q])
  fix i
  assume le: "count (H q) i + count (P q) i \<le> of_bool (i \<in> aInfl V q)"
  have "places V q i \<le> 1" using ledger_exclusive [OF assms(1)] by (simp add: exclusive_def)
  moreover have "count (mset is) i \<le> count (aPend V q) i" using assms(2) by (simp add: mset_subset_eq_count)
  moreover have "count (mset is) i = 0 \<longleftrightarrow> i \<notin> set is" by simp
  ultimately show "count ((H(q := mset is + H q)) q) i + count (P q) i \<le> of_bool (i \<in> aInfl (a_Dequeue q is V) q)"
    using le by (cases "i \<in> set is") (auto simp: places_def a_defs)
qed (auto simp: a_defs)

lemma ledger_AckBatch:
  assumes "ledger_ok V P H" "set_mset (P q) \<subseteq> set is" "\<And>i. i \<in> set is \<Longrightarrow> i \<notin># H q"
  shows "ledger_ok (a_AckBatch q is V) (P(q := {#})) H"
proof (rule ledgerI [OF exclusive_AckBatch [OF ledger_exclusive [OF assms(1)]] assms(1), of q])
  fix i
  assume "count (H q) i + count (P q) i \<le> of_bool (i \<in> aInfl V q)"
  then show "count (H q) i + count ((P(q := {#})) q) i \<le> of_bool (i \<in> aInfl (a_AckBatch q is V) q)"
    using assms(2) assms(3) [of i] by (cases "i \<in> set is") (auto simp: a_defs not_in_iff)
qed (auto simp: a_defs)

lemma ledger_AckBatch_part:
  assumes "ledger_ok V (P(q := P q + mset batch)) H"
  shows "ledger_ok (a_AckBatch q batch V) P H"
proof (rule ledgerI [OF exclusive_AckBatch [OF ledger_exclusive [OF assms]] assms, of q])
  fix i
  assume c: "count (H q) i + count ((P(q := P q + mset batch)) q) i \<le> of_bool (i \<in> aInfl V q)"
  show "count (H q) i + count (P q) i \<le> of_bool (i \<in> aInfl (a_AckBatch q batch V) q)"
  proof (cases "i \<in> set batch")
    case True
    then have "0 < count (mset batch) i" by simp
    moreover have "count (H q) i + count ((P(q := P q + mset batch)) q) i \<le> 1" using c by (rule order_trans) simp
    ultimately show ?thesis by (simp del: count_greater_zero_iff)
  next
    case False
    with c show ?thesis by (simp add: a_defs)
  qed
qed (auto simp: a_defs)

lemma ledger_move:
  assumes "ledger_ok V P H" "\<And>q'. H' q' + P' q' = H q' + P q'"
  shows "ledger_ok V P' H'"
proof -
  have "count (H' q) i + count (P' q) i = count (H q) i + count (P q) i" for q i
    using assms(2) [of q] by (metis count_union)
  with assms(1) show ?thesis by (simp add: ledger_ok_def)
qed

lemma ledger_owe:
  assumes "ledger_ok V P (H(q := add_mset i (H q)))"
  shows "ledger_ok V (P(q := add_mset i (P q))) H"
  using assms by (intro ledgerI [OF ledger_exclusive [OF assms] assms, of q]) auto

text \<open>A held message that is settled leaves the ledger.\<close>

lemma ledger_settle:
  assumes "ledger_ok V P (H(q := add_mset i (H q)))" "exclusive V'"
    "\<And>q'. q' \<noteq> q \<Longrightarrow> aInfl V' q' = aInfl V q'" "aInfl V q - {i} \<subseteq> aInfl V' q"
  shows "ledger_ok V' P H"
proof (rule ledgerI [OF assms(2,1), of q])
  fix j
  assume "count ((H(q := add_mset i (H q))) q) j + count (P q) j \<le> of_bool (j \<in> aInfl V q)"
  then show "count (H q) j + count (P q) j \<le> of_bool (j \<in> aInfl V' q)"
    using assms(4) by (cases "j = i") (auto split: if_splits simp: of_bool_def)
qed (use assms(3) in auto)

text \<open>The three ways in which a worker whose queue had a handler settles its message.\<close>

lemma handle_settle_cases:
  assumes "handle_settle ops now tS nid q msg out b = (Inr (), b')" "out \<noteq> NoHandler"
  obtains (dead) m e where "b' = toDeadLetter ops tS nid q m e b" "mID m = mID msg"
  | (retried) m e where "b' = b\<lparr>b_store := snd (Retry_op ops tS q m e (b_store b))\<rparr>" "mID m = mID msg"
  | (acked) r where "ack ops q (mID msg) b = (r, b')"
proof (cases out)
  case NoHandler
  with assms(2) show thesis by simp
next
  case Exceeded
  with assms(1) dead [of msg] show thesis by auto
next
  case (Ran ho r)
  show thesis
  proof (cases r)
    case None
    then show thesis using assms(1) Ran acked by (auto split: prod.splits)
  next
    case (Some e)
    let ?m = "msg\<lparr>mAttempts := mAttempts msg + 1\<rparr>"
    show thesis
    proof (cases "mAttempts msg + 1 > hoMaxRetries ho")
      case True
      then show thesis using assms(1) Ran Some dead [of ?m e] by simp
    next
      case False
      then obtain bo where bo: "hoBackoff ho = Some bo" using assms(1) Ran Some by (cases "hoBackoff ho") auto
      let ?m' = "?m\<lparr>mScheduledAt := time_add now (Next bo (mAttempts ?m))\<rparr>"
      have "b' = b\<lparr>b_store := snd (Retry_op ops tS q ?m' (Some e) (b_store b))\<rparr>"
        using assms(1) Ran Some False bo by (auto simp: Let_def split_beta)
      then show thesis using retried [of ?m' "Some e"] by simp
    qed
  qed
qed

lemma ledger_settle_ok:
  assumes "ledger_ok V P (H(q := add_mset i (H q)))" "exclusive V1"
    "\<And>q'. q' \<noteq> q \<Longrightarrow> aInfl V1 q' = aInfl V q'" "aInfl V1 q = aInfl V q - {i}"
  shows "ledger_ok (on_ok r V1 V) P H"
proof (cases r)
  case (Inl e)
  show ?thesis unfolding Inl on_ok_simps by (rule ledger_settle [OF assms(1) ledger_exclusive [OF assms(1)]]) auto
next
  case (Inr u)
  show ?thesis unfolding Inr on_ok_simps by (rule ledger_settle [OF assms(1,2,3)]) (auto simp: assms(4))
qed

context schedule_store
begin

lemma flushAcks_ledger:
  assumes "inv (b_store b)" "owed b q \<noteq> [] \<Longrightarrow> user_queue q" "ledger_ok (view (b_store b)) (owes b) H"
    "flushAcks ops q b = (r, b')"
  shows "inv (b_store b') \<and> ledger_ok (view (b_store b')) (owes b') H \<and> (\<forall>q'. owed b' q' \<noteq> [] \<longrightarrow> owed b q' \<noteq> [])"
proof (cases rule: flushAcks_cases [where b = b and q = q and ops = ops])
  case idle
  with assms(4) have b': "b' = b\<lparr>b_pendingAcks := (b_pendingAcks b)(q := None)\<rparr>" by simp
  have "owes b' = owes b" using idle(1) by (auto simp: b' fun_eq_iff)
  with assms(1,3) show ?thesis by (simp add: b')
next
  case (failed e s)
  with assms(4) have b': "b' = b\<lparr>b_store := s, b_pendingAcks := (b_pendingAcks b)(q \<mapsto> owed b q)\<rparr>" by simp
  have "owed b' = owed b" by (auto simp: b' fun_eq_iff)
  moreover from AckBatch_law [OF assms(1) assms(2) [OF failed(1)] failed(2)] have "inv s" "view s = view (b_store b)"
    by auto
  ultimately show ?thesis using assms(3) by (simp add: b')
next
  case (flushed s)
  with assms(4) have b': "b' = b\<lparr>b_pendingAcks := (b_pendingAcks b)(q := None), b_store := s\<rparr>" by simp
  have o: "owes b' = (owes b)(q := {#})" "\<And>q'. owed b' q' = (if q' = q then [] else owed b q')"
    by (auto simp: b' fun_eq_iff)
  from AckBatch_law [OF assms(1) assms(2) [OF flushed(1)] flushed(2)]
  have "inv s" and v: "view s = a_AckBatch q (owed b q) (view (b_store b))" by auto
  moreover have "ledger_ok (view s) (owes b') H"
    unfolding v o(1)
  proof (rule ledger_AckBatch [OF assms(3)])
    fix i assume "i \<in> set (owed b q)"
    then have "0 < count (owes b q) i" by simp
    moreover have "count (H q) i + count (owes b q) i \<le> 1"
      using ledgerD [OF assms(3), of q i] by (rule order_trans) simp
    ultimately have "count (H q) i = 0" by linarith
    then show "i \<notin># H q" by (simp add: not_in_iff)
  qed simp
  ultimately show ?thesis using o(2) by (simp add: b')
qed

lemma flush_loop_ledger:
  assumes "inv (b_store b)" "\<forall>q. owed b q \<noteq> [] \<longrightarrow> user_queue q" "ledger_ok (view (b_store b)) (owes b) H"
    "flush_loop ops qs fe b = (fe', b')"
  shows "inv (b_store b') \<and> ledger_ok (view (b_store b')) (owes b') H \<and> (\<forall>q'. owed b' q' \<noteq> [] \<longrightarrow> owed b q' \<noteq> [])"
  using assms
proof (induction qs arbitrary: fe b)
  case (Cons q qs)
  obtain r b1 where fl: "flushAcks ops q b = (r, b1)" by fastforce
  from flushAcks_ledger [OF Cons.prems(1) _ Cons.prems(3) fl] Cons.prems(2) have
    b1: "inv (b_store b1)" "ledger_ok (view (b_store b1)) (owes b1) H" "\<forall>q'. owed b1 q' \<noteq> [] \<longrightarrow> owed b q' \<noteq> []"
    by auto
  obtain fe1 where "flush_loop ops qs fe1 b1 = (fe', b')"
    using Cons.prems(4) by (auto simp: fl split: sum.splits)
  from Cons.IH [OF b1(1) _ b1(2) this] b1(3) Cons.prems(2) show ?case by blast
qed auto

lemma flushAllAcks_ledger:
  assumes "inv (b_store b)" "\<forall>q. owed b q \<noteq> [] \<longrightarrow> user_queue q" "ledger_ok (view (b_store b)) (owes b) H"
    "flushAllAcks ops qs b = (r, b')"
  shows "inv (b_store b') \<and> ledger_ok (view (b_store b')) (owes b') H \<and> (\<forall>q'. owed b' q' \<noteq> [] \<longrightarrow> owed b q' \<noteq> [])"
proof -
  obtain fe where "flush_loop ops qs None b = (fe, b')"
    using assms(4) by (auto simp: flushAllAcks_def split: prod.splits option.splits)
  from flush_loop_ledger [OF assms(1-3) this] show ?thesis .
qed

lemma ack_ledger:
  assumes "inv (b_store b)" "user_queue q" "ledger_ok (view (b_store b)) (owes b) (H(q := add_mset i (H q)))"
    "ack ops q i b = (r, b')"
  shows "inv (b_store b') \<and> ledger_ok (view (b_store b')) (owes b') H \<and> (\<forall>q'. q' \<noteq> q \<longrightarrow> owed b' q' \<noteq> [] \<longrightarrow> owed b q' \<noteq> [])"
proof (cases "b_ackBatchSize b \<le> 0 \<or> b_ackStop b = None")
  case True
  obtain r' s where s': "Ack_op ops q i (b_store b) = (r', s)" by fastforce
  with assms(4) True have s: "Ack_op ops q i (b_store b) = (r, s)" "b' = b\<lparr>b_store := s\<rparr>"
    by (auto simp: ack_def)
  from Ack_law [OF assms(1,2) s(1)] have "inv s" and v: "view s = on_ok r (a_AckBatch q [i] (view (b_store b))) (view (b_store b))"
    by auto
  have ex: "exclusive (view (b_store b))" using assms(3) by (rule ledger_exclusive)
  have "ledger_ok (view s) (owes b) H"
    unfolding v by (rule ledger_settle_ok [OF assms(3) exclusive_AckBatch [OF ex]]) (simp_all add: a_defs)
  moreover have "owed b' = owed b" by (simp add: s(2) fun_eq_iff)
  ultimately show ?thesis using \<open>inv s\<close> by (simp add: s(2))
next
  case False
  let ?b = "b\<lparr>b_pendingAcks := (b_pendingAcks b)(q \<mapsto> owed b q @ [i])\<rparr>"
  have res: "(r, b') = (if int (length (owed b q @ [i])) \<ge> b_ackBatchSize b then flushAcks ops q ?b else (Inr (), ?b))"
    using assms(4) False by (auto simp: ack_def Let_def simp flip: owed_def)
  have "owes ?b = (owes b)(q := add_mset i (owes b q))" by (auto simp: fun_eq_iff)
  with ledger_owe [OF assms(3)] have led: "ledger_ok (view (b_store ?b)) (owes ?b) H" by simp
  show ?thesis
  proof (cases "int (length (owed b q @ [i])) \<ge> b_ackBatchSize b")
    case True
    then have "flushAcks ops q ?b = (r, b')" using res by simp
    from flushAcks_ledger [OF _ _ led this] assms(1,2) show ?thesis by (auto split: if_splits)
  next
    case False
    then have "b' = ?b" using res by simp
    then show ?thesis using led assms(1) by simp
  qed
qed

lemma handle_settle_ledger:
  assumes "inv (b_store b)" "user_queue q" "out \<noteq> NoHandler" "fresh_id q nid (view (b_store b))"
    "ledger_ok (view (b_store b)) (owes b) (H(q := add_mset (mID msg) (H q)))"
    "handle_settle ops now tS nid q msg out b = (Inr (), b')"
  shows "inv (b_store b') \<and> ledger_ok (view (b_store b')) (owes b') H \<and> (\<forall>q'. q' \<noteq> q \<longrightarrow> owed b' q' \<noteq> [] \<longrightarrow> owed b q' \<noteq> [])"
proof -
  let ?V = "view (b_store b)"
  have ex: "exclusive ?V" using assms(5) by (rule ledger_exclusive)
  have i: "mID msg \<in> aInfl ?V q" using ledger_in_flight [OF assms(5), of "mID msg" q] by simp
  have dead': "inv (b_store b1) \<and> ledger_ok (view (b_store b1)) (owes b1) H \<and> owed b1 = owed b"
    if "b1 = toDeadLetter ops tS nid q m e b" "mID m = mID msg" for b1 m e
  proof -
    obtain r s where s': "DeadLetter_op ops tS nid q m (Some e) (b_store b) = (r, s)" by fastforce
    with that(1) have s: "DeadLetter_op ops tS nid q m (Some e) (b_store b) = (r, s)" "b1 = b\<lparr>b_store := s\<rparr>"
      by (simp_all add: toDeadLetter_def)
    have im: "mID m \<in> aInfl ?V q" using i that(2) by simp
    from DeadLetter_law [OF assms(1,2) im s(1)]
    have "inv s" and v: "view s = on_ok r (a_DeadLetter q (mID msg) nid ?V) ?V" by (auto simp: that(2))
    have "ledger_ok (view s) (owes b) H"
      unfolding v
      by (rule ledger_settle_ok [OF assms(5) exclusive_DeadLetter [OF ex i assms(4)]]) (simp_all add: a_defs)
    with \<open>inv s\<close> show ?thesis by (simp add: s(2) fun_eq_iff)
  qed
  have retry': "inv (b_store b1) \<and> ledger_ok (view (b_store b1)) (owes b1) H \<and> owed b1 = owed b"
    if "b1 = b\<lparr>b_store := snd (Retry_op ops tS q m e (b_store b))\<rparr>" "mID m = mID msg" for b1 m e
  proof -
    obtain r s where s: "Retry_op ops tS q m e (b_store b) = (r, s)" by fastforce
    have im: "mID m \<in> aInfl ?V q" using i that(2) by simp
    from Retry_law [OF assms(1,2) im s]
    have "inv s" and v: "view s = on_ok r (a_Retry q (mID msg) ?V) ?V" by (auto simp: that(2))
    have "ledger_ok (view s) (owes b) H"
      unfolding v
      by (rule ledger_settle_ok [OF assms(5) exclusive_Retry [OF ex i]]) (simp_all add: a_defs)
    with \<open>inv s\<close> show ?thesis by (simp add: that(1) s fun_eq_iff)
  qed
  from assms(6,3) show ?thesis
  proof (cases rule: handle_settle_cases)
    case (dead m e)
    from dead' [OF this] show ?thesis by auto
  next
    case (retried m e)
    from retry' [OF this] show ?thesis by auto
  next
    case (acked r)
    then show ?thesis by (rule ack_ledger [OF assms(1,2,5)])
  qed
qed

end

subsection \<open>What the broker's operations do to the store\<close>

lemma b_Enqueue_store:
  "b_pendingAcks (snd (b_Enqueue ops now tD tS nid q payload opts b)) = b_pendingAcks b \<and>
   b_handlers (snd (b_Enqueue ops now tD tS nid q payload opts b)) = b_handlers b \<and>
   (b_store (snd (b_Enqueue ops now tD tS nid q payload opts b)) = b_store b \<or>
    b_store (snd (b_Enqueue ops now tD tS nid q payload opts b)) =
      snd (Enqueue_op ops tS q (build_message nid q payload opts now now) (b_store b)))"
  by (cases rule: enqueueMessage_cases [where tD = tD and q = q and opts = opts and b = b and nid = nid and
        payload = payload and c = now and s = now])
    (auto simp: b_Enqueue_def split: prod.split sum.split)

lemma batch_loop_frame:
  assumes "batch_loop now q items ms ks b = ((ms', ks'), b')"
  shows "b_store b' = b_store b \<and> b_pendingAcks b' = b_pendingAcks b \<and> b_handlers b' = b_handlers b \<and>
    (\<exists>is. map mID ms' = map mID ms @ is \<and> subseq is (map (\<lambda>it. snd (snd it)) items))"
  using assms
proof (induction now q items ms ks b rule: batch_loop.induct)
  case (1 now q ms ks b)
  then show ?case by auto
next
  case (2 now q item tD nid items ms ks b)
  let ?c = "time_add now (of_nat (length ms) * microsecond)"
  obtain msg key ok b1 where em: "enqueueMessage tD nid q (biPayload item) (biOpts item) ?c now b = ((msg, key, ok), b1)"
    by (metis prod.exhaust)
  let ?ms = "if ok then ms @ [msg] else ms"
  have loop: "batch_loop now q items ?ms (if key \<noteq> '''' then ks @ [key] else ks) b1 = ((ms', ks'), b')"
    using 2(2) by (simp add: em)
  have b1: "b_store b1 = b_store b \<and> b_pendingAcks b1 = b_pendingAcks b \<and> b_handlers b1 = b_handlers b \<and> (ok \<longrightarrow> mID msg = nid)"
    using em by (cases rule: enqueueMessage_cases [where tD = tD and q = q and opts = "biOpts item" and b = b and
          nid = nid and payload = "biPayload item" and c = ?c and s = now]) auto
  from 2(1) [OF refl em [symmetric] refl refl refl loop] obtain "is" where
    IH: "b_store b' = b_store b1" "b_pendingAcks b' = b_pendingAcks b1" "b_handlers b' = b_handlers b1"
      "map mID ms' = map mID ?ms @ is" "subseq is (map (\<lambda>it. snd (snd it)) items)" by auto
  have "map mID ms' = map mID ms @ (if ok then nid # is else is)" using IH(4) b1 by auto
  moreover have "subseq (if ok then nid # is else is) (map (\<lambda>it. snd (snd it)) ((item, tD, nid) # items))"
    using IH(5) by auto
  ultimately show ?case using IH(1-3) b1 by auto
qed

lemma b_EnqueueBatch_store:
  "b_pendingAcks (snd (b_EnqueueBatch ops now tS q items b)) = b_pendingAcks b \<and>
   b_handlers (snd (b_EnqueueBatch ops now tS q items b)) = b_handlers b \<and>
   (b_store (snd (b_EnqueueBatch ops now tS q items b)) = b_store b \<or>
    (\<exists>ms. subseq (map mID ms) (map (\<lambda>it. snd (snd it)) items) \<and>
       b_store (snd (b_EnqueueBatch ops now tS q items b)) = snd (EnqueueBatch_op ops tS q ms (b_store b))))"
proof -
  obtain ms ks b' where loop: "batch_loop now q items [] [] b = ((ms, ks), b')" by (metis prod.exhaust)
  obtain r s where op: "EnqueueBatch_op ops tS q ms (b_store b) = (r, s)" by fastforce
  from batch_loop_frame [OF loop] have
    f: "b_store b' = b_store b" "b_pendingAcks b' = b_pendingAcks b" "b_handlers b' = b_handlers b"
      "subseq (map mID ms) (map (\<lambda>it. snd (snd it)) items)" by auto
  have "snd (b_EnqueueBatch ops now tS q items b) = b \<or> snd (b_EnqueueBatch ops now tS q items b) = b' \<or>
    snd (b_EnqueueBatch ops now tS q items b) = rollbackDedupe ks (b'\<lparr>b_store := s\<rparr>) \<or>
    snd (b_EnqueueBatch ops now tS q items b) = wake q (b'\<lparr>b_store := s\<rparr>)"
    by (cases r) (simp_all add: b_EnqueueBatch_def loop f(1) op)
  then show ?thesis using f op by (elim disjE) auto
qed

context schedule_store
begin

text \<open>An operation that keeps what is in flight and the exclusivity is invisible to the ledger.\<close>

lemma accepts_ledger:
  assumes "ledger_ok (view s) P H" "distinct is" "\<forall>i \<in> set is. fresh_id q i (view s)" "accepts q is r (view s) (view s')"
  shows "ledger_ok (view s') P H"
proof -
  have "exclusive (view s')" by (rule exclusive_accepts [OF ledger_exclusive [OF assms(1)] assms(2-4)])
  moreover have "aInfl (view s') = aInfl (view s)" using assms(4) by (cases r) (auto simp: accepts_def a_defs)
  ultimately show ?thesis using ledger_mono [OF assms(1), of "view s'"] by simp
qed

lemma Enqueue_ledger:
  assumes "inv s" "user_queue q" "fresh_id q (mID msg) (view s)" "ledger_ok (view s) P H"
    "s' = snd (Enqueue_op ops t q msg s)"
  shows "inv s' \<and> ledger_ok (view s') P H"
proof -
  obtain r where op: "Enqueue_op ops t q msg s = (r, s')" using assms(5) by (metis prod.collapse)
  from Enqueue_law [OF assms(1,2) op] have "inv s'" and v: "accepts q [mID msg] r (view s) (view s')" by auto
  then show ?thesis using accepts_ledger [OF assms(4) _ _ v] assms(3) by simp
qed

lemma EnqueueBatch_ledger:
  assumes "inv s" "user_queue q" "distinct (map mID msgs)" "\<forall>i \<in> set (map mID msgs). fresh_id q i (view s)"
    "ledger_ok (view s) P H" "s' = snd (EnqueueBatch_op ops t q msgs s)"
  shows "inv s' \<and> ledger_ok (view s') P H"
proof -
  obtain r where op: "EnqueueBatch_op ops t q msgs s = (r, s')" using assms(6) by (metis prod.collapse)
  from EnqueueBatch_law [OF assms(1,2) op] have "inv s'" and v: "accepts q (map mID msgs) r (view s) (view s')" by auto
  then show ?thesis using accepts_ledger [OF assms(5,3,4) v] by simp
qed

lemma Replay_ledger:
  assumes "inv s" "user_queue q" "ledger_ok (view s) P H" "s' = snd (Replay_op ops t q i s)"
  shows "inv s' \<and> ledger_ok (view s') P H"
proof -
  obtain r where op: "Replay_op ops t q i s = (r, s')" using assms(4) by (metis prod.collapse)
  have ex: "exclusive (view s)" using assms(3) by (rule ledger_exclusive)
  from Replay_law [OF assms(1,2) op] show ?thesis
  proof (cases r)
    case (Inr u)
    with Replay_law [OF assms(1,2) op] have "i \<in># aDead (view s) q" "view s' = a_Replay q i (view s)" "inv s'" by auto
    then show ?thesis using ledger_mono [OF assms(3), of "view s'"] exclusive_Replay [OF ex] by (simp add: a_defs)
  qed (simp add: assms(3))
qed

lemma run_schedule_ledger:
  assumes "inv s" "ledger_ok (view s) P H" "user_queue (sQueue sc)" "fresh_id (sQueue sc) nid (view s)"
    "run_schedule sops clk now sc nid s = Some s'"
  shows "inv s' \<and> ledger_ok (view s') P H"
proof (cases "sint (sInterval sc) \<le> 0")
  case True
  with assms show ?thesis by (simp add: run_schedule_def)
next
  case False
  with assms(5) obtain nxt r where run: "RunSchedule_op sops clk nid sc now nxt s = (r, s')"
    by (auto simp: run_schedule_def split: option.splits) (metis prod.collapse)
  have ex: "exclusive (view s)" using assms(2) by (rule ledger_exclusive)
  from RunSchedule_law [OF assms(1,3) run] have "inv s'" "view s' = view s \<or> view s' = a_Enqueue (sQueue sc) nid (view s)" by auto
  then show ?thesis
    using assms(2) ledger_mono [OF assms(2), of "view s'"] exclusive_Enqueue [OF ex assms(4)] by (auto simp: a_defs)
qed

end

subsection \<open>The ledger of the whole system\<close>

definition own_inv :: "('s \<Rightarrow> bool) \<Rightarrow> ('s \<Rightarrow> qabs) \<Rightarrow> ('s, 'w) sys \<Rightarrow> bool" where
  "own_inv ok view y \<longleftrightarrow> ok (b_store (sy_b y)) \<and>
     ledger_ok (view (b_store (sy_b y))) (owes (sy_b y)) (\<lambda>q. mset (held y q)) \<and>
     (\<forall>q. b_handlers (sy_b y) q \<noteq> None \<longrightarrow> user_queue q) \<and> (\<forall>q. owed (sy_b y) q \<noteq> [] \<longrightarrow> user_queue q) \<and>
     batch_user (sy_ack y)"

lemma own_frame:
  assumes "own_inv ok view y" "b_store (sy_b y') = b_store (sy_b y)" "b_pendingAcks (sy_b y') = b_pendingAcks (sy_b y)"
    "\<And>q. mset (held y' q) = mset (held y q)" "\<And>q. b_handlers (sy_b y') q \<noteq> None \<Longrightarrow> user_queue q" "sy_ack y' = sy_ack y"
  shows "own_inv ok view y'"
proof -
  have "owed (sy_b y') = owed (sy_b y)" by (simp add: owed_def fun_eq_iff assms(3))
  moreover have "(\<lambda>q. mset (held y' q)) = (\<lambda>q. mset (held y q))" by (simp add: assms(4))
  ultimately show ?thesis using assms(1,2,5,6) by (simp add: own_inv_def)
qed

lemma held_upd [simp]:
  "held (y\<lparr>sy_b := b\<rparr>) = held y"
  "held (y\<lparr>sy_b := b, sy_sched := c\<rparr>) = held y"
  by (simp_all add: held_def busy_def fun_eq_iff)

lemma held_pc:
  "held (y\<lparr>sy_b := b, sy_pc := (sy_pc y)(q := pc)\<rparr>) q' =
     (if q' = q then pc_ids pc @ busy y q
      else held y q')"
  "held (y\<lparr>sy_b := b, sy_pc := (sy_pc y)(q := pc), sy_gen := g\<rparr>) q' =
     (if q' = q then pc_ids pc @ busy y q
      else held y q')"
  "held (y\<lparr>sy_pc := (sy_pc y)(q := pc)\<rparr>) q' =
     (if q' = q then pc_ids pc @ busy y q
      else held y q')"
  by (simp_all add: held_def busy_def)

definition empty_handed :: "disp_pc \<Rightarrow> bool" where
  "empty_handed pc \<longleftrightarrow> pc_ids pc = []"

lemma held_empty_handed: "empty_handed (sy_pc y q) \<Longrightarrow> held y q = busy y q"
  by (simp add: empty_handed_def held_def)

lemma empty_handed_case: "empty_handed pc \<Longrightarrow> pc_ids pc = []"
  by (simp add: empty_handed_def)

lemma start_dispatcher_own:
  assumes "own_inv ok view y" "b_store (snd r) = b_store (sy_b y)" "b_pendingAcks (snd r) = b_pendingAcks (sy_b y)"
    "\<And>q. b_handlers (snd r) q \<noteq> None \<Longrightarrow> user_queue q" "fst r \<Longrightarrow> q \<notin> running y"
  shows "own_inv ok view (start_dispatcher q r y)"
proof (cases "fst r")
  case True
  then have "empty_handed (sy_pc y q)" using assms(5) by (simp add: running_def empty_handed_def)
  with True assms show ?thesis
    by (intro own_frame [OF assms(1)]) (auto simp: start_dispatcher_def held_pc held_empty_handed)
next
  case False
  with assms show ?thesis by (intro own_frame [OF assms(1)]) (auto simp: start_dispatcher_def)
qed

context schedule_store
begin

lemma own_store:
  assumes "own_inv inv view y" "inv (b_store b)" "ledger_ok (view (b_store b)) (owes b) (\<lambda>q. mset (held y q))"
    "b_handlers b = b_handlers (sy_b y)" "\<And>q. owed b q \<noteq> [] \<Longrightarrow> user_queue q"
  shows "own_inv inv view (y\<lparr>sy_b := b\<rparr>)"
  using assms by (simp add: own_inv_def)

lemma own_top:
  assumes "own_inv inv view y" "sys_inv y" "sy_pc y q = Top" "goto q (dispatch_top ops tS q (sy_b y)) y = Some y'"
  shows "own_inv inv view y'"
proof -
  let ?b = "sy_b y"
  let ?H = "\<lambda>q. mset (held y q)"
  have hq: "held y q = busy y q"
    by (rule held_empty_handed) (simp add: empty_handed_def assms(3))
  have "q \<in> running y" using assms(3) by (simp add: running_def)
  then have "b_handlers ?b q \<noteq> None" using assms(2) by (auto simp: sys_inv_def Let_def skel_def)
  then have u: "user_queue q" using assms(1) by (simp add: own_inv_def)
  have c: "0 < b_concurrency ?b" using assms(2) by (simp add: sys_inv_def Let_def skel_def)
  have inv: "inv (b_store ?b)" and led: "ledger_ok (view (b_store ?b)) (owes ?b) ?H"
    and hu: "\<And>q. b_handlers ?b q \<noteq> None \<Longrightarrow> user_queue q" and ou: "\<And>q. owed ?b q \<noteq> [] \<Longrightarrow> user_queue q"
    and bu: "batch_user (sy_ack y)"
    using assms(1) by (simp_all add: own_inv_def)
  obtain p b1 where pb: "isPaused q ?b = (p, b1)" by fastforce
  then have b1: "b_store b1 = b_store ?b" "b_pendingAcks b1 = b_pendingAcks ?b" "b_handlers b1 = b_handlers ?b"
    "b_concurrency b1 = b_concurrency ?b"
    by (auto simp: isPaused_def pausedFlag_def split: option.splits)
  obtain r s where dq: "Dequeue_op ops tS q (b_concurrency ?b) (b_store ?b) = (r, s)" by fastforce
  have quiet: "own_inv inv view (y\<lparr>sy_b := b', sy_pc := (sy_pc y)(q := pc)\<rparr>)"
    if "inv (b_store b')" "view (b_store b') = view (b_store ?b)" "b_pendingAcks b' = b_pendingAcks ?b"
      "b_handlers b' = b_handlers ?b" "empty_handed pc" for b' pc
  proof -
    have "held (y\<lparr>sy_b := b', sy_pc := (sy_pc y)(q := pc)\<rparr>) = held y"
      by (simp add: fun_eq_iff held_pc hq empty_handed_case [OF that(5)])
    moreover have "owed b' = owed ?b" by (simp add: owed_def fun_eq_iff that(3))
    ultimately show ?thesis using that(1,2,4) led hu ou bu by (simp add: own_inv_def)
  qed
  have b1s: "b_store (b1\<lparr>b_store := s\<rparr>) = s" "b_pendingAcks (b1\<lparr>b_store := s\<rparr>) = b_pendingAcks ?b"
    "b_handlers (b1\<lparr>b_store := s\<rparr>) = b_handlers ?b" using b1 by simp_all
  consider "y' = y\<lparr>sy_b := dispatch_exit q ?b, sy_pc := (sy_pc y)(q := Stopped)\<rparr>"
    | "y' = y\<lparr>sy_b := b1, sy_pc := (sy_pc y)(q := PauseWait)\<rparr>"
    | e where "r = Inl e" "y' = y\<lparr>sy_b := b1\<lparr>b_store := s\<rparr>, sy_pc := (sy_pc y)(q := Empty)\<rparr>"
    | out where "r = Inr out" "y' = y\<lparr>sy_b := b1\<lparr>b_store := s\<rparr>,
        sy_pc := (sy_pc y)(q := if out = [] then Empty else Spawning out)\<rparr>"
    using assms(4) pb b1 dq by (auto simp: dispatch_top_def split: if_splits sum.splits)
  then show ?thesis
  proof cases
    case 1
    show ?thesis unfolding 1 by (rule quiet) (simp_all add: inv dispatch_exit_def empty_handed_def)
  next
    case 2
    show ?thesis unfolding 2 by (rule quiet) (simp_all add: inv b1 empty_handed_def)
  next
    case (3 e)
    from Dequeue_err [OF inv u c dq [unfolded 3(1)]] have "inv s" "view s = view (b_store ?b)" by auto
    then show ?thesis unfolding 3(2) by (intro quiet) (simp_all add: b1s empty_handed_def)
  next
    case (4 out)
    from Dequeue_ok [OF inv u c dq [unfolded 4(1)]] have s: "inv s" "out \<noteq> []"
      "mset (map mID out) \<subseteq># aPend (view (b_store ?b)) q" "view s = a_Dequeue q (map mID out) (view (b_store ?b))" by auto
    have y': "y' = y\<lparr>sy_b := b1\<lparr>b_store := s\<rparr>, sy_pc := (sy_pc y)(q := Spawning out)\<rparr>" using 4(2) s(2) by simp
    have "(\<lambda>q. mset (held y' q)) = ?H(q := mset (map mID out) + ?H q)"
      by (simp add: fun_eq_iff y' held_pc hq)
    moreover have "owed (sy_b y') = owed ?b" by (simp add: owed_def fun_eq_iff y' b1s)
    ultimately show ?thesis
      using ledger_Dequeue [OF led s(3)] s(1,4) hu ou bu by (simp add: own_inv_def y' b1s)
  qed
qed

text \<open>The segments after an empty dequeue. \<open>next_ids\<close> is what the dispatcher has in hand after one.\<close>

fun next_ids :: "dispatch_next \<Rightarrow> string list" where
  "next_ids (Got ms) = map mID ms"
| "next_ids (NextDrain c (Flushing l)) = l"
| "next_ids (NextDrain c (Unflush l)) = l"
| "next_ids _ = []"

lemma next_ids_after [simp]: "next_ids (after_drain c r) = []"
  by (cases c) simp_all

lemma goto_ids:
  assumes "goto q (nx, b) y = Some y'"
  shows "held y' = (\<lambda>q'. if q' = q then next_ids nx @ busy y q else held y q')" "sy_ack y' = sy_ack y"
    "b_store (sy_b y') = b_store b" "owed (sy_b y') = owed b" "b_handlers (sy_b y') = b_handlers b"
proof -
  have "pc_ids (InDrain c pc) = next_ids (NextDrain c pc)" for c pc by (cases pc) simp_all
  then show "held y' = (\<lambda>q'. if q' = q then next_ids nx @ busy y q else held y q')"
    using assms by (cases nx) (auto simp: fun_eq_iff held_pc)
qed (use assms in \<open>cases nx; auto simp: dispatch_exit_def owed_def fun_eq_iff\<close>)+

lemma own_goto:
  assumes "own_inv inv view y" "goto q (nx, b) y = Some y'" "inv (b_store b)"
    and "ledger_ok (view (b_store b)) (owes b) (\<lambda>q'. mset (if q' = q then next_ids nx @ busy y q else held y q'))"
    and "b_handlers b = b_handlers (sy_b y)" "\<And>q'. owed b q' \<noteq> [] \<Longrightarrow> user_queue q'"
  shows "own_inv inv view y'"
  using assms(1,3-6) unfolding own_inv_def goto_ids [OF assms(2)] by simp

lemma ledger_here:
  "(\<lambda>q'. mset (if q' = q then pc_ids (sy_pc y q) @ busy y q else held y q')) = (\<lambda>q'. mset (held y q'))"
  by (auto simp: held_def)

lemma own_quiet:
  assumes "own_inv inv view y" "goto q (nx, b) y = Some y'" "next_ids nx = pc_ids (sy_pc y q)"
    and "inv (b_store b)" "view (b_store b) = view (b_store (sy_b y))" "b_pendingAcks b = b_pendingAcks (sy_b y)" "b_handlers b = b_handlers (sy_b y)"
  shows "own_inv inv view y'"
proof -
  have o: "owed b = owed (sy_b y)" by (simp add: owed_def fun_eq_iff assms(6))
  show ?thesis
    by (rule own_goto [OF assms(1,2,4) _ assms(7)])
      (use assms(1) in \<open>auto simp only: assms(3,5) o ledger_here own_inv_def\<close>)
qed

lemma own_drain_step:
  assumes "own_inv inv view y" "user_queue q" "sy_pc y q = InDrain c pc" "drain_step ops q c pc (sy_b y) = (nx, b)" "goto q (nx, b) y = Some y'"
  shows "own_inv inv view y'"
proof -
  let ?b = "sy_b y" and ?V = "view (b_store (sy_b y))"
  from assms(1) have inv: "inv (b_store ?b)" and led: "ledger_ok ?V (owes ?b) (\<lambda>q. mset (held y q))"
    and ou: "\<And>q. owed ?b q \<noteq> [] \<Longrightarrow> user_queue q" by (simp_all add: own_inv_def)
  show ?thesis
  proof (cases pc)
    case Quiet
    obtain quiet b1 where qu: "quiescent q ?b = (quiet, b1)" by fastforce
    then have "b_store b1 = b_store ?b" "b_pendingAcks b1 = b_pendingAcks ?b" "b_handlers b1 = b_handlers ?b"
      by (auto simp: quiescent_def inflightFor_def split: option.splits)
    with qu assms(3,4) Quiet inv show ?thesis by (intro own_quiet [OF assms(1,5)]) auto
  next
    case Flush
    then have nx: "next_ids nx = owed ?b q" "b = ?b\<lparr>b_pendingAcks := (b_pendingAcks ?b)(q := None)\<rparr>"
      using assms(4) by (auto simp: flush_take_def owed_def)
    have "held y q = busy y q" using assms(3) Flush by (simp add: held_def)
    then have "ledger_ok (view (b_store b)) (owes b) (\<lambda>q'. mset (if q' = q then next_ids nx @ busy y q else held y q'))"
      by (simp add: nx(2)) (rule ledger_move [OF led], simp add: nx(1))
    with inv ou nx(2) show ?thesis by (intro own_goto [OF assms(1,5)]) (auto split: if_splits)
  next
    case (Flushing l)
    obtain r s where a: "AckBatch_op ops q l (b_store ?b) = (r, s)" by fastforce
    from AckBatch_law [OF inv assms(2) a] have s: "inv s" "view s = on_ok r (a_AckBatch q l ?V) ?V" by auto
    have b: "b = ?b\<lparr>b_store := s\<rparr>" and nx: "next_ids nx = (case r of Inl e \<Rightarrow> l | Inr u \<Rightarrow> [])"
      using assms(4) a Flushing by (cases r; auto)+
    have o: "owed b = owed ?b" by (simp add: b owed_def fun_eq_iff)
    have h: "held y q = l @ busy y q" using assms(3) Flushing by (simp add: held_def)
    have "ledger_ok (view s) (owes ?b) (\<lambda>q'. mset (if q' = q then next_ids nx @ busy y q else held y q'))"
    proof (cases r)
      case (Inl e)
      have "(\<lambda>q'. mset (if q' = q then next_ids nx @ busy y q else held y q')) = (\<lambda>q. mset (held y q))"
        by (auto simp: nx Inl h)
      then show ?thesis using led s(2) by (simp add: Inl)
    next
      case (Inr u)
      have "ledger_ok ?V ((owes ?b)(q := owes ?b q + mset l)) (\<lambda>q'. mset (if q' = q then next_ids nx @ busy y q else held y q'))"
        by (rule ledger_move [OF led]) (simp add: nx Inr h)
      then show ?thesis unfolding s(2) Inr by (simp add: ledger_AckBatch_part)
    qed
    with s(1) ou show ?thesis by (intro own_goto [OF assms(1,5)]) (simp_all add: o, simp_all add: b)
  next
    case (Unflush l)
    then have b: "b = flush_restore q l ?b" and nx: "next_ids nx = []" using assms(4) by auto
    have o: "owed b q' = (if q' = q then l else []) @ owed ?b q'" for q' by (simp add: b flush_restore_def owed_def)
    have h: "held y q = l @ busy y q" using assms(3) Unflush by (simp add: held_def)
    have "ledger_ok ?V (owes b) (\<lambda>q'. mset (if q' = q then next_ids nx @ busy y q else held y q'))"
      by (rule ledger_move [OF led]) (simp add: nx o h)
    with inv ou assms(2) o show ?thesis by (intro own_goto [OF assms(1,5)]) (auto simp: b flush_restore_def split: if_splits)
  next
    case Counting
    obtain r s where st: "Stats_op ops q (b_store ?b) = (r, s)" by fastforce
    from Stats_law [OF inv assms(2) st] have s: "inv s" "view s = ?V" by auto
    have "b = ?b\<lparr>b_store := s\<rparr>" "next_ids nx = []" using assms(4) st Counting by (cases r; auto)+
    with s assms(3) Counting show ?thesis by (intro own_quiet [OF assms(1,5)]) simp_all
  qed
qed

lemma own_stage:
  assumes "own_inv inv view y" "sys_inv y" "dispatch_stage ops q (sy_pc y q) (sy_b y) = Some nx" "goto q nx y = Some y'"
  shows "own_inv inv view y'"
proof -
  let ?b = "sy_b y"
  have "q \<in> running y" using assms(3) by (auto simp: running_def)
  then have "b_handlers ?b q \<noteq> None" using assms(2) by (auto simp: sys_inv_def Let_def skel_def)
  then have u: "user_queue q" and inv: "inv (b_store ?b)" using assms(1) by (simp_all add: own_inv_def)
  obtain nxt b where nx: "nx = (nxt, b)" by fastforce
  note go = assms(4) [unfolded nx]
  show ?thesis
  proof (cases "sy_pc y q")
    case (InDrain c pc)
    with assms(3) nx show ?thesis by (intro own_drain_step [OF assms(1) u _ _ go]) simp_all
  next
    case Signalling
    have "b_store b = b_store ?b" "b_pendingAcks b = b_pendingAcks ?b" "b_handlers b = b_handlers ?b" "next_ids nxt = []"
      using assms(3) nx Signalling by (auto simp: dispatch_signal_def signalDrainDone_def split: option.splits if_splits)
    with inv Signalling show ?thesis by (intro own_quiet [OF assms(1) go]) simp_all
  qed (use assms(3) nx inv in \<open>auto intro!: own_quiet [OF assms(1) go] simp: dispatch_empty_def dispatch_second_def\<close>)
qed

end

lemma Register_frame:
  "b_store (snd (Register q fn hopts b)) = b_store b" "b_pendingAcks (snd (Register q fn hopts b)) = b_pendingAcks b"
  "b_handlers (snd (Register q fn hopts b)) q' \<noteq> None \<Longrightarrow> q' = q \<or> b_handlers b q' \<noteq> None"
  "fst (Register q fn hopts b) = (\<not> b_dispatching b q)"
  by (auto simp: Register_def Let_def split: if_splits)

lemma Resume_frame:
  "b_store (snd (Resume q b)) = b_store b" "b_pendingAcks (snd (Resume q b)) = b_pendingAcks b"
  "b_handlers (snd (Resume q b)) = b_handlers b" "fst (Resume q b) \<Longrightarrow> \<not> b_dispatching b q"
  by (auto simp: Resume_def Let_def split: if_splits)

lemma misc_frame:
  "b_store (Use mw b) = b_store b \<and> b_pendingAcks (Use mw b) = b_pendingAcks b \<and> b_handlers (Use mw b) = b_handlers b"
  "b_store (Pause q b) = b_store b \<and> b_pendingAcks (Pause q b) = b_pendingAcks b \<and> b_handlers (Pause q b) = b_handlers b"
  "b_store (Drain_done q b) = b_store b \<and> b_pendingAcks (Drain_done q b) = b_pendingAcks b \<and> b_handlers (Drain_done q b) = b_handlers b"
  "b_store (Drain_cancel q b) = b_store b \<and> b_pendingAcks (Drain_cancel q b) = b_pendingAcks b \<and> b_handlers (Drain_cancel q b) = b_handlers b"
  "b_store (snd (Drain_begin q b)) = b_store b \<and> b_pendingAcks (snd (Drain_begin q b)) = b_pendingAcks b \<and>
     b_handlers (snd (Drain_begin q b)) = b_handlers b"
  "b_store (snd (Shutdown_begin b)) = b_store b \<and> b_pendingAcks (snd (Shutdown_begin b)) = b_pendingAcks b \<and>
     b_handlers (snd (Shutdown_begin b)) = b_handlers b"
  "b_store (Shutdown_abort b) = b_store b \<and> b_pendingAcks (Shutdown_abort b) = b_pendingAcks b \<and>
     b_handlers (Shutdown_abort b) = b_handlers b"
  "b_store (dispatch_exit q b) = b_store b \<and> b_pendingAcks (dispatch_exit q b) = b_pendingAcks b \<and>
     b_handlers (dispatch_exit q b) = b_handlers b"
  "b_store (worker_start q b) = b_store b \<and> b_pendingAcks (worker_start q b) = b_pendingAcks b \<and>
     b_handlers (worker_start q b) = b_handlers b"
  "b_store (worker_end q b) = b_store b \<and> b_pendingAcks (worker_end q b) = b_pendingAcks b \<and>
     b_handlers (worker_end q b) = b_handlers b"
  by (simp_all add: Use_def Pause_def Drain_done_def Drain_cancel_def Drain_begin_def Shutdown_begin_def wakeAll_def
      Shutdown_abort_def dispatch_exit_def worker_start_def worker_end_def inflightFor_def Let_def split: option.split)

lemma own_same:
  assumes "own_inv ok view y"
    "b_store b = b_store (sy_b y) \<and> b_pendingAcks b = b_pendingAcks (sy_b y) \<and> b_handlers b = b_handlers (sy_b y)"
  shows "own_inv ok view (y\<lparr>sy_b := b\<rparr>)"
  by (rule own_frame [OF assms(1)]) (use assms in \<open>auto simp: own_inv_def\<close>)

text \<open>A dispatcher that holds nothing moves on.\<close>

lemma own_move:
  assumes "own_inv ok view y" "empty_handed (sy_pc y q)" "empty_handed pc"
    "b_store b = b_store (sy_b y) \<and> b_pendingAcks b = b_pendingAcks (sy_b y) \<and> b_handlers b = b_handlers (sy_b y)"
  shows "own_inv ok view (y\<lparr>sy_b := b, sy_pc := (sy_pc y)(q := pc)\<rparr>)"
  by (rule own_frame [OF assms(1)])
    (use assms in \<open>auto simp: own_inv_def held_pc held_empty_handed empty_handed_case\<close>)

lemma handle_settle_handlers: "handle_settle ops now tS nid q msg out b = (r, b') \<Longrightarrow> b_handlers b' = b_handlers b"
proof -
  have fl: "b_handlers (snd (flushAcks ops q b)) = b_handlers b" for q and b :: "('a, 'b) broker"
    by (cases rule: flushAcks_cases [where b = b and q = q and ops = ops]) auto
  have "b_handlers (snd (ack ops q i b)) = b_handlers b" for i
    by (auto simp: ack_def Let_def split_beta fl)
  then have a: "ack ops q i b = (r, b1) \<Longrightarrow> b_handlers b1 = b_handlers b" for i r b1 by (metis snd_conv)
  assume "handle_settle ops now tS nid q msg out b = (r, b')"
  then show ?thesis
    by (cases "(ops, now, tS, nid, q, msg, out, b)" rule: handle_settle.cases)
      (auto simp: Let_def toDeadLetter_def split: option.splits if_splits prod.splits dest: a)
qed

lemma flush_loop_handlers: "b_handlers (snd (flush_loop ops qs fe b)) = b_handlers b"
proof (induction qs arbitrary: fe b)
  case (Cons q qs)
  have "b_handlers (snd (flushAcks ops q b)) = b_handlers b"
    by (cases rule: flushAcks_cases [where b = b and q = q and ops = ops]) auto
  then have "flushAcks ops q b = (r, b1) \<Longrightarrow> b_handlers b1 = b_handlers b" for r b1 by (metis snd_conv)
  then show ?case using Cons.IH by (auto split: prod.splits sum.splits)
qed simp

lemma flushAllAcks_handlers: "b_handlers (snd (flushAllAcks ops qs b)) = b_handlers b"
  using flush_loop_handlers [of ops qs None b] by (auto simp: flushAllAcks_def split: prod.splits option.splits)

context schedule_store
begin

lemma own_work:
  assumes "own_inv inv view y" "sys_inv y" "sy_workers y = xs @ x # ys" "fresh_id (wk_queue x) nid (view (b_store (sy_b y)))"
    "wk_out x = Some out" "handle_settle ops now tS nid (wk_queue x) (wk_msg x) out (sy_b y) = (Inr (), b)"
  shows "own_inv inv view (y\<lparr>sy_b := worker_end (wk_queue x) b, sy_workers := xs @ ys\<rparr>)"
proof -
  let ?q = "wk_queue x" and ?b = "sy_b y"
  let ?y = "y\<lparr>sy_b := worker_end ?q b, sy_workers := xs @ ys\<rparr>"
  let ?H = "\<lambda>q. mset (held ?y q)"
  have H: "(\<lambda>q. mset (held y q)) = ?H(?q := add_mset (mID (wk_msg x)) (?H ?q))"
    by (auto simp: fun_eq_iff held_def busy_def assms(3) on_queue_def)
  have h: "b_handlers ?b ?q \<noteq> None" using assms(2,3) by (auto simp: sys_inv_def Let_def skel_def)
  moreover have nh: "out \<noteq> NoHandler" using assms(2,3,5) by (auto simp: sys_inv_def Let_def)
  ultimately have u: "user_queue ?q" using assms(1) by (simp add: own_inv_def)
  from assms(1) have inv: "inv (b_store ?b)" and led: "ledger_ok (view (b_store ?b)) (owes ?b) (\<lambda>q. mset (held y q))"
    by (simp_all add: own_inv_def)
  note K = handle_settle_ledger [OF inv u nh assms(4) led [unfolded H] assms(6)]
  have eb: "b_store (worker_end ?q b) = b_store b" "owed (worker_end ?q b) = owed b" "b_handlers (worker_end ?q b) = b_handlers b"
    by (simp_all add: worker_end_def owed_def fun_eq_iff)
  have "owed b q \<noteq> [] \<Longrightarrow> user_queue q" for q
    using K u assms(1) by (cases "q = ?q") (auto simp: own_inv_def)
  then show ?thesis
    using K assms(1) handle_settle_handlers [OF assms(6)] by (simp add: own_inv_def eb)
qed

lemma own_returned:
  assumes "own_inv ok view y" "sy_workers y = xs @ x # ys"
  shows "own_inv ok view (y\<lparr>sy_workers := xs @ x\<lparr>wk_out := r\<rparr> # ys, sy_world := w\<rparr>)"
  by (rule own_frame [OF assms(1)]) (use assms in \<open>auto simp: held_def busy_def on_queue_def own_inv_def\<close>)

lemma own_flush:
  assumes "own_inv inv view y" "flushAllAcks ops qs (sy_b y) = (r, b)"
  shows "own_inv inv view (y\<lparr>sy_b := b\<rparr>)"
proof -
  from assms(1) have "inv (b_store (sy_b y))" "\<forall>q. owed (sy_b y) q \<noteq> [] \<longrightarrow> user_queue q"
    "ledger_ok (view (b_store (sy_b y))) (owes (sy_b y)) (\<lambda>q. mset (held y q))" by (simp_all add: own_inv_def)
  from flushAllAcks_ledger [OF this assms(2)] flushAllAcks_handlers [of ops qs "sy_b y"] assms show ?thesis
    by (auto simp: own_inv_def)
qed

lemma periodic_frame:
  "b_pendingAcks (snd (RegisterPeriodic sops sc b)) = b_pendingAcks b" "b_handlers (snd (RegisterPeriodic sops sc b)) = b_handlers b"
  "b_pendingAcks (snd (RemovePeriodic sops jid b)) = b_pendingAcks b" "b_handlers (snd (RemovePeriodic sops jid b)) = b_handlers b"
  "b_pendingAcks (snd (PeriodicJobs sops qn b)) = b_pendingAcks b" "b_handlers (snd (PeriodicJobs sops qn b)) = b_handlers b"
  "b_pendingAcks (snd (b_Stats ops q b)) = b_pendingAcks b" "b_handlers (snd (b_Stats ops q b)) = b_handlers b"
  by (simp_all add: RegisterPeriodic_def RemovePeriodic_def PeriodicJobs_def b_Stats_def split: prod.splits)

lemma periodic_store:
  assumes "inv (b_store b)"
  shows "inv (b_store (snd (RegisterPeriodic sops sc b))) \<and> view (b_store (snd (RegisterPeriodic sops sc b))) = view (b_store b)"
    "inv (b_store (snd (RemovePeriodic sops jid b))) \<and> view (b_store (snd (RemovePeriodic sops jid b))) = view (b_store b)"
    "inv (b_store (snd (PeriodicJobs sops qn b))) \<and> view (b_store (snd (PeriodicJobs sops qn b))) = view (b_store b)"
  using assms CreateSchedule_law [OF assms] DeleteSchedule_law [OF assms] ListSchedules_law [OF assms]
  by (simp_all add: RegisterPeriodic_def RemovePeriodic_def PeriodicJobs_def split: prod.splits)

lemma Stats_store:
  assumes "inv (b_store b)" "user_queue q"
  shows "inv (b_store (snd (b_Stats ops q b))) \<and> view (b_store (snd (b_Stats ops q b))) = view (b_store b)"
  using Stats_law [OF assms] by (simp add: b_Stats_def split: prod.splits)

text \<open>A client takes a message from the backend itself, and acknowledges it there.\<close>

lemma own_pull:
  assumes "own_inv inv view y" "user_queue q" "Dequeue_op ops tS q 1 (b_store (sy_b y)) = (r, s)"
  shows "own_inv inv view (y\<lparr>sy_b := (sy_b y)\<lparr>b_store := s\<rparr>,
    sy_pulled := (sy_pulled y)(q := (case r of Inl e \<Rightarrow> [] | Inr ms \<Rightarrow> map mID ms) @ sy_pulled y q)\<rparr>)" (is "own_inv inv view ?y")
proof -
  let ?H = "\<lambda>q. mset (held y q)" and ?ids = "case r of Inl e \<Rightarrow> [] | Inr ms \<Rightarrow> map mID ms"
  from assms(1) have inv: "inv (b_store (sy_b y))" and led: "ledger_ok (view (b_store (sy_b y))) (owes (sy_b y)) ?H"
    by (simp_all add: own_inv_def)
  have H: "(\<lambda>q. mset (held ?y q)) = ?H(q := mset ?ids + ?H q)" by (auto simp: fun_eq_iff held_def busy_def)
  have o: "owed ((sy_b y)\<lparr>b_store := s\<rparr>) = owed (sy_b y)" by (simp add: owed_def fun_eq_iff)
  have "inv s \<and> ledger_ok (view s) (owes (sy_b y)) (?H(q := mset ?ids + ?H q))"
  proof (cases r)
    case (Inl e)
    from Dequeue_err [OF inv assms(2) _ assms(3) [unfolded Inl]] led show ?thesis by (simp add: Inl fun_upd_idem)
  next
    case (Inr ms)
    from Dequeue_ok [OF inv assms(2) _ assms(3) [unfolded Inr]] ledger_Dequeue [OF led, of "map mID ms" q] show ?thesis by (simp add: Inr)
  qed
  then show ?thesis using assms(1) by (simp add: own_inv_def H o)
qed

lemma own_pull_ack:
  assumes "own_inv inv view y" "user_queue q" "i \<in> set (sy_pulled y q)" "Ack_op ops q i (b_store (sy_b y)) = (r, s)"
  shows "own_inv inv view (y\<lparr>sy_b := (sy_b y)\<lparr>b_store := s\<rparr>,
    sy_pulled := (sy_pulled y)(q := (case r of Inl e \<Rightarrow> sy_pulled y q | Inr u \<Rightarrow> remove1 i (sy_pulled y q)))\<rparr>)" (is "own_inv inv view ?y")
proof -
  let ?H = "\<lambda>q. mset (held y q)"
  from assms(1) have inv: "inv (b_store (sy_b y))" and led: "ledger_ok (view (b_store (sy_b y))) (owes (sy_b y)) ?H"
    by (simp_all add: own_inv_def)
  from Ack_law [OF inv assms(2,4)] have s: "inv s"
    "view s = on_ok r (a_AckBatch q [i] (view (b_store (sy_b y)))) (view (b_store (sy_b y)))" by auto
  have o: "owed ((sy_b y)\<lparr>b_store := s\<rparr>) = owed (sy_b y)" by (simp add: owed_def fun_eq_iff)
  have "ledger_ok (view s) (owes (sy_b y)) (\<lambda>q. mset (held ?y q))"
  proof (cases r)
    case (Inl e)
    have "(\<lambda>q. mset (held ?y q)) = ?H" by (auto simp: Inl fun_eq_iff held_def busy_def)
    then show ?thesis using led s(2) by (simp add: Inl)
  next
    case (Inr u)
    have "?H = (\<lambda>q. mset (held ?y q))(q := add_mset i (mset (held ?y q)))"
      using assms(3) by (auto simp: Inr fun_eq_iff held_def busy_def)
    with led have "ledger_ok (view (b_store (sy_b y))) (owes (sy_b y)) ((\<lambda>q. mset (held ?y q))(q := add_mset i (mset (held ?y q))))" by simp
    from ledger_settle [OF this exclusive_AckBatch [OF ledger_exclusive [OF led], of q "[i]"]] show ?thesis
      by (simp add: s(2) Inr a_defs)
  qed
  then show ?thesis using assms(1) s(1) by (simp add: own_inv_def o)
qed

text \<open>
  A batch on its way: the acknowledgement loop takes what a queue owes, has it acknowledged, and gives it
  back when that fails. What other goroutines owe in between stays in the broker.
\<close>

lemma own_idle:
  assumes "own_inv ok view y" "batch_of pa = batch_of (sy_ack y)" "batch_user pa"
  shows "own_inv ok view (y\<lparr>sy_ack := pa\<rparr>)"
proof -
  have "held (y\<lparr>sy_ack := pa\<rparr>) = held y" using assms(2) by (simp add: held_def busy_def fun_eq_iff)
  then show ?thesis using assms by (simp add: own_inv_def)
qed

lemma own_due:
  assumes "own_inv ok view (y\<lparr>sy_b := b\<rparr>)"
  shows "own_inv ok view (y\<lparr>sy_b := b, sy_due := du\<rparr>)"
proof -
  have "held (y\<lparr>sy_b := b, sy_due := du\<rparr>) = held (y\<lparr>sy_b := b\<rparr>)" by (simp add: held_def busy_def fun_eq_iff)
  then show ?thesis using assms by (simp add: own_inv_def)
qed

lemma own_ack_take:
  assumes "own_inv inv view y" "sy_ack y = AckTodo (q # qs)" "flush_take q (sy_b y) = (batch, b)"
  shows "own_inv inv view (y\<lparr>sy_b := b, sy_ack := (if batch = [] then AckTodo qs else AckTaken q batch qs)\<rparr>)"
proof -
  define pa where "pa = (if batch = [] then AckTodo qs else AckTaken q batch qs)"
  let ?y = "y\<lparr>sy_b := b, sy_ack := pa\<rparr>"
  from assms(1) have led: "ledger_ok (view (b_store (sy_b y))) (owes (sy_b y)) (\<lambda>q. mset (held y q))"
    and u: "owed (sy_b y) q \<noteq> [] \<Longrightarrow> user_queue q" by (simp_all add: own_inv_def)
  have b: "batch = owed (sy_b y) q" "b = (sy_b y)\<lparr>b_pendingAcks := (b_pendingAcks (sy_b y))(q := None)\<rparr>"
    using assms(3) by (simp_all add: flush_take_def owed_def)
  have o: "owed b q' = (if q' = q then [] else owed (sy_b y) q')" for q' by (simp add: b(2) owed_def)
  have h: "held ?y q' = held y q' @ (if q' = q then batch else [])" for q' using assms(2) by (simp add: held_def busy_def pa_def)
  have l: "ledger_ok (view (b_store (sy_b y))) (owes b) (\<lambda>q. mset (held ?y q))"
    by (rule ledger_move [OF led]) (simp add: h o b(1))
  have "batch_user pa" using u by (simp add: pa_def b(1))
  with l assms(1) have "own_inv inv view ?y" by (simp add: own_inv_def o) (simp add: b(2))
  then show ?thesis by (simp add: pa_def)
qed

lemma own_ack_restore:
  assumes "own_inv inv view y" "sy_ack y = AckFailed q batch qs"
  shows "own_inv inv view (y\<lparr>sy_b := flush_restore q batch (sy_b y), sy_ack := AckTodo qs\<rparr>)" (is "own_inv inv view ?y")
proof -
  let ?b = "flush_restore q batch (sy_b y)"
  from assms(1) have led: "ledger_ok (view (b_store (sy_b y))) (owes (sy_b y)) (\<lambda>q. mset (held y q))" by (simp add: own_inv_def)
  have o: "owed ?b q' = (if q' = q then batch else []) @ owed (sy_b y) q'" for q' by (simp add: flush_restore_def owed_def)
  have h: "held y q' = held ?y q' @ (if q' = q then batch else [])" for q' using assms(2) by (simp add: held_def busy_def)
  have "ledger_ok (view (b_store (sy_b y))) (owes ?b) (\<lambda>q. mset (held ?y q))"
    by (rule ledger_move [OF led]) (simp add: h o)
  moreover have "user_queue q" using assms(1,2) by (simp add: own_inv_def)
  ultimately show ?thesis using assms(1) by (auto simp: own_inv_def o) (simp_all add: flush_restore_def)
qed

lemma own_ack_batch:
  assumes "own_inv inv view y" "sy_ack y = AckTaken q batch qs" "AckBatch_op ops q batch (b_store (sy_b y)) = (r, s)"
  shows "own_inv inv view (y\<lparr>sy_b := (sy_b y)\<lparr>b_store := s\<rparr>, sy_ack := (case r of Inl e \<Rightarrow> AckFailed q batch qs | Inr u \<Rightarrow> AckTodo qs)\<rparr>)"
    (is "own_inv inv view ?y")
proof -
  let ?V = "view (b_store (sy_b y))"
  from assms(1) have inv: "inv (b_store (sy_b y))" and led: "ledger_ok ?V (owes (sy_b y)) (\<lambda>q. mset (held y q))" by (simp_all add: own_inv_def)
  have u: "user_queue q" using assms(1,2) by (simp add: own_inv_def)
  from AckBatch_law [OF inv u assms(3)] have s: "inv s" "view s = on_ok r (a_AckBatch q batch ?V) ?V" by auto
  have o: "owed ((sy_b y)\<lparr>b_store := s\<rparr>) = owed (sy_b y)" by (simp add: owed_def fun_eq_iff)
  have "ledger_ok (view s) (owes (sy_b y)) (\<lambda>q. mset (held ?y q))"
  proof (cases r)
    case (Inl e)
    have "(\<lambda>q. mset (held ?y q)) = (\<lambda>q. mset (held y q))" using assms(2) by (auto simp: Inl fun_eq_iff held_def busy_def)
    then show ?thesis using led s(2) by (simp add: Inl)
  next
    case (Inr u)
    have h: "held y q' = held ?y q' @ (if q' = q then batch else [])" for q' using assms(2) by (simp add: Inr held_def busy_def)
    let ?H = "\<lambda>q. mset (held ?y q)" and ?P = "(owes (sy_b y))(q := owes (sy_b y) q + mset batch)"
    have "ledger_ok ?V ?P ?H" by (rule ledger_move [OF led]) (simp add: h)
    then have "ledger_ok (a_AckBatch q batch ?V) (owes (sy_b y)) ?H" by (rule ledger_AckBatch_part)
    then show ?thesis by (simp add: s(2) Inr)
  qed
  then show ?thesis using assms(1,2) s(1) by (cases r) (auto simp: own_inv_def o)
qed

lemma own_step:
  assumes "sys_step ops sops view y y'" "sys_inv y" "own_inv inv view y"
  shows "own_inv inv view y'"
proof -
  let ?b = "sy_b y"
  from assms(3) have inv: "inv (b_store ?b)" and led: "ledger_ok (view (b_store ?b)) (owes ?b) (\<lambda>q. mset (held y q))"
    and hu: "\<And>q. b_handlers ?b q \<noteq> None \<Longrightarrow> user_queue q" and ou: "\<And>q. owed ?b q \<noteq> [] \<Longrightarrow> user_queue q"
    by (simp_all add: own_inv_def)
  have disp: "b_dispatching ?b q \<longleftrightarrow> q \<in> running y" for q using assms(2) by (simp add: sys_inv_def Let_def skel_def)
  have store: "own_inv inv view (y\<lparr>sy_b := b'\<rparr>)"
    if "b_pendingAcks b' = b_pendingAcks ?b" "b_handlers b' = b_handlers ?b"
      "inv (b_store b') \<and> ledger_ok (view (b_store b')) (owes ?b) (\<lambda>q. mset (held y q))" for b'
  proof -
    have "owed b' = owed ?b" by (simp add: owed_def fun_eq_iff that(1))
    then show ?thesis using that(2,3) assms(3) ou by (intro own_store) simp_all
  qed
  from assms(1) show ?thesis
  proof (cases rule: sys_step.cases)
    case (s_Enqueue q nid now tD tS payload opts)
    note e = b_Enqueue_store [of ops now tD tS nid q payload opts ?b]
    have "fresh_id q (mID (build_message nid q payload opts now now)) (view (b_store ?b))" using s_Enqueue(3) by simp
    from Enqueue_ledger [OF inv s_Enqueue(2) this led refl, of tS] e inv led show ?thesis
      unfolding s_Enqueue(1) by (intro store) (simp_all, metis)
  next
    case (s_EnqueueBatch q items now tS)
    note e = b_EnqueueBatch_store [of ops now tS q items ?b]
    have "inv s \<and> ledger_ok (view s) (owes ?b) (\<lambda>q. mset (held y q))"
      if "subseq (map mID ms) (map (\<lambda>it. snd (snd it)) items)" "s = snd (EnqueueBatch_op ops tS q ms (b_store ?b))" for s ms
    proof (rule EnqueueBatch_ledger [OF inv s_EnqueueBatch(2) _ _ led that(2)])
      show "distinct (map mID ms)" using subseq_set_distinct [OF that(1)] s_EnqueueBatch(3) by blast
      have "set (map mID ms) \<subseteq> set (map (\<lambda>it. snd (snd it)) items)" using subseq_set_distinct [OF that(1)] by blast
      then show "\<forall>i \<in> set (map mID ms). fresh_id q i (view (b_store ?b))" using s_EnqueueBatch(4) by fastforce
    qed
    with e inv led show ?thesis unfolding s_EnqueueBatch(1) by (intro store) (simp_all, metis)
  next
    case (s_Replay q tS i)
    show ?thesis unfolding s_Replay(1) by (rule store) (use Replay_ledger [OF inv s_Replay(2) led refl] in simp_all)
  next
    case (s_Register q fn hopts)
    show ?thesis unfolding s_Register(1)
      by (rule start_dispatcher_own [OF assms(3) Register_frame(1,2)])
        (use Register_frame(3,4) [of q fn hopts ?b] hu s_Register(2) disp in blast)+
  next
    case (s_Resume q)
    show ?thesis unfolding s_Resume(1)
      by (rule start_dispatcher_own [OF assms(3) Resume_frame(1,2)])
        (use Resume_frame(3,4) [of q ?b] hu disp in auto)
  next
    case (s_top q tS)
    show ?thesis by (rule own_top [OF assms(3,2) s_top])
  next
    case (s_empty q nx)
    show ?thesis by (rule own_stage [OF assms(3,2) s_empty])
  next
    case (s_wait_abort q)
    show ?thesis unfolding s_wait_abort(1)
      by (rule own_move [OF assms(3)]) (use s_wait_abort(2) misc_frame(8) [of q ?b] in \<open>auto simp: empty_handed_def\<close>)
  next
    case (s_timer q)
    show ?thesis unfolding s_timer(1)
      using own_move [OF assms(3), of q Top ?b] s_timer(2) by (auto simp: empty_handed_def)
  next
    case (s_woken q)
    show ?thesis unfolding s_woken(1)
      by (rule own_move [OF assms(3)]) (use s_woken(2) in \<open>auto simp: empty_handed_def\<close>)
  next
    case (s_spawn q m ms)
    show ?thesis unfolding s_spawn(1)
      by (rule own_frame [OF assms(3)])
        (use misc_frame(9) [of q ?b] s_spawn(2) hu in \<open>auto simp: held_def busy_def on_queue_def\<close>)
  next
    case (s_spawned q)
    show ?thesis unfolding s_spawned(1)
      by (rule own_frame [OF assms(3)]) (use s_spawned(2) hu in \<open>auto simp: held_def busy_def\<close>)
  next
    case (s_work_start xs x ys out w)
    show ?thesis unfolding s_work_start(1) by (rule own_returned [OF assms(3) s_work_start(2)])
  next
    case (s_work_settle xs x ys out nid now tS b)
    show ?thesis unfolding s_work_settle(1) by (rule own_work [OF assms(3,2) s_work_settle(2,4,3,5)])
  next
    case (s_ack_tick qs)
    show ?thesis unfolding s_ack_tick(1) by (rule own_idle [OF assms(3)]) (simp_all add: s_ack_tick(2) fun_eq_iff)
  next
    case (s_ack_take q qs batch b)
    show ?thesis unfolding s_ack_take(1) by (rule own_ack_take [OF assms(3) s_ack_take(2,3)])
  next
    case (s_ack_batch q batch qs r2 s)
    show ?thesis unfolding s_ack_batch(1) by (rule own_ack_batch [OF assms(3) s_ack_batch(2,3)])
  next
    case (s_ack_restore q batch qs)
    show ?thesis unfolding s_ack_restore(1) by (rule own_ack_restore [OF assms(3) s_ack_restore(2)])
  next
    case s_ack_done
    show ?thesis unfolding s_ack_done(1) by (rule own_idle [OF assms(3)]) (simp_all add: s_ack_done(2) fun_eq_iff)
  next
    case (s_schedule_poll now polled b)
    obtain r s where d: "DueSchedules_op sops now 100 (b_store ?b) = (r, s)" by fastforce
    then have "b = ?b\<lparr>b_store := s\<rparr>" using s_schedule_poll(4) by (cases r) (simp_all add: schedule_poll_def)
    then show ?thesis unfolding s_schedule_poll(1)
      by (intro own_due store) (use DueSchedules_law [OF inv d] led in simp_all)
  next
    case (s_schedule_run now sc ss nid clk s)
    show ?thesis unfolding s_schedule_run(1)
      by (rule own_due, rule store) (use run_schedule_ledger [OF inv led s_schedule_run(4-6)] in simp_all)
  next
    case (s_schedule_done now)
    have "own_inv inv view ((y\<lparr>sy_b := ?b\<rparr>)\<lparr>sy_due := None\<rparr>)" by (rule own_due) (simp add: assms(3))
    then show ?thesis unfolding s_schedule_done(1) by simp
  next
    case (s_RegisterPeriodic sc)
    show ?thesis unfolding s_RegisterPeriodic(1) by (rule store) (use periodic_store(1) [OF inv, of sc] led in \<open>simp_all add: periodic_frame\<close>)
  next
    case (s_RemovePeriodic jid)
    show ?thesis unfolding s_RemovePeriodic(1) by (rule store) (use periodic_store(2) [OF inv, of jid] led in \<open>simp_all add: periodic_frame\<close>)
  next
    case (s_PeriodicJobs qn)
    show ?thesis unfolding s_PeriodicJobs(1) by (rule store) (use periodic_store(3) [OF inv, of qn] led in \<open>simp_all add: periodic_frame\<close>)
  next
    case (s_Stats q)
    show ?thesis unfolding s_Stats(1) by (rule store) (use Stats_store [OF inv s_Stats(2)] led in \<open>simp_all add: periodic_frame\<close>)
  next
    case (s_store_Enqueue q msg tS)
    show ?thesis unfolding s_store_Enqueue(1)
      by (rule store) (use Enqueue_ledger [OF inv s_store_Enqueue(2,3) led refl, of tS] in simp_all)
  next
    case (s_List qn l)
    show ?thesis unfolding s_List(1) by (rule store) (use List_law [OF inv prod.collapse [symmetric]] led in simp_all)
  next
    case (s_pull q tS r s)
    show ?thesis unfolding s_pull(1) by (rule own_pull [OF assms(3) s_pull(2,3)])
  next
    case (s_pull_ack q i r2 s)
    show ?thesis unfolding s_pull_ack(1) by (rule own_pull_ack [OF assms(3) s_pull_ack(2-4)])
  next
    case (s_schedule_exit)
    show ?thesis unfolding s_schedule_exit(1)
      by (rule own_frame [OF assms(3)]) (use hu in simp_all)
  next
    case (s_Shutdown_finish qs)
    obtain r b1 where fl: "flushAllAcks ops qs (stopAckLoop ?b) = (r, b1)" by fastforce
    obtain rc s where cl: "Close_op ops (b_store b1) = (rc, s)" by fastforce
    have "own_inv inv view (y\<lparr>sy_b := stopAckLoop ?b\<rparr>)" by (rule own_same [OF assms(3)]) (simp add: stopAckLoop_def)
    from own_flush [OF this, of qs r b1] fl have o1: "own_inv inv view (y\<lparr>sy_b := b1\<rparr>)" by simp
    then have "inv (b_store b1)" by (simp add: own_inv_def)
    from Close_law [OF this cl] have "inv s" "view s = view (b_store b1)" by auto
    moreover have "snd (Shutdown_finish ops qs ?b) = (if b_storeClosed b1 then b1 else b1\<lparr>b_store := s, b_storeClosed := True\<rparr>)"
      by (simp add: Shutdown_finish_def Let_def fl cl)
    moreover have "owed (b1\<lparr>b_store := s, b_storeClosed := True\<rparr>) = owed b1" by (simp add: owed_def fun_eq_iff)
    ultimately show ?thesis unfolding s_Shutdown_finish(1) using o1 by (simp add: own_inv_def)
  qed (simp_all add: own_same [OF assms(3)] misc_frame)
qed

lemma own_reachable:
  assumes "sys_reachable ops sops view opts w y" "inv (optStorage opts)" "exclusive (view (optStorage opts))"
  shows "own_inv inv view y"
  using assms(1)
proof induction
  case sr_init
  show ?case
    using assms(2,3) by (simp add: own_inv_def sys_init_def New_def Let_def ledger_ok_def owed_def held_def busy_def on_queue_def)
next
  case (sr_step y y')
  from sys_reachable_inv [OF sr_step(1)] sr_step(2,3) show ?case by (blast intro: own_step)
qed

lemma ledger_distinct:
  assumes "ledger_ok V (\<lambda>q. mset (P q)) (\<lambda>q. mset (H q))"
  shows "distinct (H q @ P q) \<and> set (H q @ P q) \<subseteq> aInfl V q"
proof -
  have c: "count (mset (H q @ P q)) i \<le> of_bool (i \<in> aInfl V q)" for i
    using ledgerD [OF assms, of q i] by simp
  have "count (mset (H q @ P q)) i \<le> 1" for i by (rule order_trans [OF c]) simp
  then have "distinct (H q @ P q)"
    by (metis count_mset_0_iff distinct_count_atmost_1 in_multiset_in_set le_antisym less_one not_le)
  moreover have "i \<in> aInfl V q" if "i \<in> set (H q @ P q)" for i
  proof (rule ccontr)
    assume "i \<notin> aInfl V q"
    with c [of i] have "count (mset (H q @ P q)) i = 0" by simp
    with that show False by (metis count_mset_0_iff)
  qed
  ultimately show ?thesis by blast
qed

text \<open>What a dispatcher leaves when its drain test succeeds, and when it closes the channel.\<close>

lemma reachable_drained:
  assumes "sys_reachable ops sops view opts w y" "inv (optStorage opts)" "exclusive (view (optStorage opts))"
    "sy_pc y q = InDrain c Counting" "drain_step ops q c Counting (sy_b y) = (after_drain c True, b')"
  shows "on_queue q (sy_workers y) = [] \<and> aPend (view (b_store b')) q = {#} \<and> held y q = sy_pulled y q @ batch_of (sy_ack y) q"
proof -
  have si: "sys_inv y" "quiet_inv y" using sys_reachable_invs [OF assms(1)] by auto
  have oi: "own_inv inv view y" by (rule own_reachable [OF assms(1-3)])
  have "q \<in> running y" using assms(4) by (simp add: running_def)
  then have "b_handlers (sy_b y) q \<noteq> None" using si by (auto simp: sys_inv_def Let_def skel_def)
  then have u: "user_queue q" and inv: "inv (b_store (sy_b y))" using oi by (simp_all add: own_inv_def)
  have none: "on_queue q (sy_workers y) = []" using si(2) assms(4) by (simp add: quiet_inv_def)
  obtain r s where st: "Stats_op ops q (b_store (sy_b y)) = (r, s)" by fastforce
  then obtain x where "r = Inr x" "qDepth x = 0" "b' = (sy_b y)\<lparr>b_store := s\<rparr>"
    using assms(5) by (cases r; cases c) (auto split: if_splits)
  with Stats_law [OF inv u st] have "aPend (view (b_store b')) q = {#}" by auto
  with none assms(4) show ?thesis by (simp add: held_def busy_def)
qed

end

subsection \<open>Properties\<close>

lemma exclusive_NewMemory: "exclusive (mem_view NewMemory)"
  by (simp add: exclusive_def places_def NewMemory_def)

text \<open>A run of the example broker: a queue is registered.\<close>

definition quiet_opts :: enqueue_opts where
  "quiet_opts = \<lparr>oDelay = 0, oSchedule = 0, oPriority = 0, oDedupeKey = '''', oMetadata = Map.empty\<rparr>"

definition run1 :: "(memory, unit) sys" where
  "run1 = start_dispatcher ''q'' (Register ''q'' (\<lambda>c m w. (Inr None, w))
     \<lparr>hoMaxRetries = 1, hoBackoff = None, hoTimeout = 0\<rparr> (sy_b example_sys)) example_sys"

lemma run1_reach: "example_reach run1"
proof -
  have "example_reach example_sys" unfolding example_sys_def by (rule sr_init)
  then show ?thesis
    unfolding run1_def by (rule sr_step) (rule s_Register, use user_queue_q example_sys_b in simp_all)
qed

lemma run1_sel: "sy_pc run1 ''q'' = Top" "b_store (sy_b run1) = NewMemory" "\<not> b_aborted (sy_b run1)"
    "b_concurrency (sy_b run1) = 2" "b_paused (sy_b run1) = Map.empty" "sy_workers run1 = []"
    "b_pendingAcks (sy_b run1) = Map.empty" "\<not> b_closed (sy_b run1)" "b_inflight (sy_b run1) ''q'' = Some 0"
  by (simp_all add: run1_def start_dispatcher_def Register_def Let_def example_sys_def sys_init_def New_def
      example_options_def)

subsection \<open>Registering again after a drain\<close>

lemma idle_top:
  assumes "\<not> b_aborted b" "b_paused b q \<noteq> Some True" "mem_queues (b_store b) q = []"
  shows "dispatch_top memory_ops t q b = (GotNothing, snd (isPaused q b))"
proof -
  obtain b1 where p: "isPaused q b = (False, b1)" and s: "b_store b1 = b_store b"
    using assms(2) by (cases "b_paused b q") (auto simp: isPaused_def pausedFlag_def)
  have d: "mem_Dequeue t q (b_concurrency b1) (b_store b1) = (Inl ErrEmpty, b_store b1)"
    using assms(3) by (simp add: s mem_Dequeue_def)
  have "b1\<lparr>b_store := b_store b1\<rparr> = b1" by simp
  with p d assms(1) show ?thesis by (simp add: dispatch_top_def memory_ops_def)
qed

lemma idle_drainComplete:
  assumes "b_inflight b q = Some 0" "b_pendingAcks b q = None" "mem_queues (b_store b) q = []"
  shows "drainComplete memory_ops q b =
    (True, b\<lparr>b_pendingAcks := (b_pendingAcks b)(q := None), b_store := snd (mem_Stats q (b_store b))\<rparr>)"
  using assms
  by (simp add: drainComplete_def quiescent_def inflightFor_def flushAcks_def flush_take_def memory_ops_def
      mem_Stats_def split_beta)

text \<open>
  From an empty dequeue to the end of an idle dispatcher, left alone: \<open>after_idle\<close> is the broker when the
  drain test has succeeded.
\<close>

definition after_idle :: "string \<Rightarrow> (memory, 'w) broker \<Rightarrow> (memory, 'w) broker" where
  "after_idle q b = b\<lparr>b_pendingAcks := (b_pendingAcks b)(q := None), b_store := snd (mem_Stats q (b_store b))\<rparr>"

definition idle_at :: "string \<Rightarrow> (memory, 'w) broker \<Rightarrow> bool" where
  "idle_at q b \<longleftrightarrow> \<not> b_aborted b \<and> b_inflight b q = Some 0 \<and> b_pendingAcks b q = None \<and> mem_queues (b_store b) q = []"

lemma idle_signals:
  assumes "sy_pc y q = Empty" "idle_at q (sy_b y)" "\<not> b_stopped (sy_b y)" "b_qDraining (sy_b y) q = Some True"
  shows "rtranclp (sys_step memory_ops sops view) y (y\<lparr>sy_b := after_idle q (sy_b y), sy_pc := (sy_pc y)(q := Signalling)\<rparr>)"
proof -
  let ?R = "rtranclp (sys_step memory_ops sops view)"
  let ?at = "\<lambda>pc. y\<lparr>sy_b := sy_b y, sy_pc := (sy_pc y)(q := pc)\<rparr>"
  have 1: "?R y (?at Second)"
    by (rule stage_step [where q = q and nx = NextSecond and b = "sy_b y"]) (use assms in \<open>simp_all add: dispatch_empty_def draining_def idle_at_def\<close>)
  have 2: "?R (?at Second) (?at (InDrain ByDrain Quiet))"
    by (rule stage_step [where q = q and nx = "NextDrain ByDrain Quiet" and b = "sy_b y"]) (use assms in \<open>simp_all add: dispatch_second_def isQueueDraining_def\<close>)
  have "drainComplete memory_ops q (sy_b y) = (True, after_idle q (sy_b y))"
    using idle_drainComplete assms(2) by (auto simp: idle_at_def after_idle_def)
  then have "?R (?at (InDrain ByDrain Quiet)) (y\<lparr>sy_b := after_idle q (sy_b y), sy_pc := (sy_pc y)(q := Signalling)\<rparr>)"
    by (intro drain_alone [where q = q and c = ByDrain and fin = True]) simp_all
  with 1 2 show ?thesis by (meson rtranclp_trans)
qed

lemma idle_exit:
  assumes "sy_pc y q = Empty" "idle_at q (sy_b y)" "b_stopped (sy_b y)"
  shows "rtranclp (sys_step memory_ops sops view) y (y\<lparr>sy_b := dispatch_exit q (after_idle q (sy_b y)), sy_pc := (sy_pc y)(q := Stopped)\<rparr>)"
proof -
  let ?R = "rtranclp (sys_step memory_ops sops view)"
  let ?y = "y\<lparr>sy_b := sy_b y, sy_pc := (sy_pc y)(q := InDrain ByShutdown Quiet)\<rparr>"
  have 1: "?R y ?y"
    by (rule stage_step [where q = q and nx = "NextDrain ByShutdown Quiet" and b = "sy_b y"])
      (use assms in \<open>simp_all add: dispatch_empty_def draining_def idle_at_def\<close>)
  have "drainComplete memory_ops q (sy_b y) = (True, after_idle q (sy_b y))"
    using idle_drainComplete assms(2) by (auto simp: idle_at_def after_idle_def)
  then have "?R ?y (y\<lparr>sy_b := dispatch_exit q (after_idle q (sy_b y)), sy_pc := (sy_pc y)(q := Stopped)\<rparr>)"
    by (intro drain_alone [where q = q and c = ByShutdown and fin = True]) simp_all
  with 1 show ?thesis by (rule rtranclp_trans)
qed

lemma mem_Stats_frame [simp]:
  "mem_queues (snd (mem_Stats q m)) = mem_queues m" "mem_inflight (snd (mem_Stats q m)) = mem_inflight m"
  by (simp_all add: mem_Stats_def statsFor_def Let_def split: option.split)

lemma after_idle_sel [simp]:
  "mem_queues (b_store (after_idle q b)) = mem_queues (b_store b)" "mem_inflight (b_store (after_idle q b)) = mem_inflight (b_store b)"
  "b_drainDone (after_idle q b) = b_drainDone b" "b_doneClosed (after_idle q b) = b_doneClosed b" "b_qDraining (after_idle q b) = b_qDraining b"
  "b_aborted (after_idle q b) = b_aborted b" "b_stopped (after_idle q b) = b_stopped b" "b_closed (after_idle q b) = b_closed b"
  "b_inflight (after_idle q b) = b_inflight b" "b_paused (after_idle q b) = b_paused b" "b_handlers (after_idle q b) = b_handlers b"
  "b_pendingAcks (after_idle q b) = (b_pendingAcks b)(q := None)" "b_dispatching (after_idle q b) = b_dispatching b"
  by (simp_all add: after_idle_def)

text \<open>From the top of the loop, when nothing is pending, to the close of the channel.\<close>

lemma pass_signals:
  assumes "sy_pc y q = Top" "idle_at q (sy_b y)" "\<not> b_stopped (sy_b y)" "b_qDraining (sy_b y) q = Some True" "b_paused (sy_b y) q \<noteq> Some True"
  shows "rtranclp (sys_step memory_ops sops view) y
    (y\<lparr>sy_b := after_idle q (snd (isPaused q (sy_b y))), sy_pc := (sy_pc y)(q := Signalling)\<rparr>)"
proof -
  let ?b = "snd (isPaused q (sy_b y))"
  let ?y = "y\<lparr>sy_b := ?b, sy_pc := (sy_pc y)(q := Empty)\<rparr>"
  have "goto q (dispatch_top memory_ops 0 q (sy_b y)) y = Some ?y"
    by (subst idle_top) (use assms(2,5) in \<open>simp_all add: idle_at_def\<close>)
  then have "rtranclp (sys_step memory_ops sops view) y ?y" using s_top [OF assms(1)] by blast
  moreover have "idle_at q ?b" "\<not> b_stopped ?b" "b_qDraining ?b q = Some True"
    using assms(2-5) by (auto simp: idle_at_def isPaused_def pausedFlag_def split: option.splits)
  then have "rtranclp (sys_step memory_ops sops view) ?y (?y\<lparr>sy_b := after_idle q ?b, sy_pc := (sy_pc ?y)(q := Signalling)\<rparr>)"
    using idle_signals [of ?y q sops view] by simp
  ultimately show ?thesis by simp
qed

text \<open>\<open>Register\<close> on a queue that has a handler leaves the drain alone.\<close>

lemma Register_drain:
  "b_qDraining (snd (Register q fn hopts b)) = b_qDraining b" "b_drainDone (snd (Register q fn hopts b)) = b_drainDone b"
  "b_doneClosed (snd (Register q fn hopts b)) = b_doneClosed b" "b_stopped (snd (Register q fn hopts b)) = b_stopped b"
  "b_paused (snd (Register q fn hopts b)) = b_paused b"
  "b_handlers b q \<noteq> None \<Longrightarrow> idle_at q (snd (Register q fn hopts b)) = idle_at q b"
  by (simp_all add: Register_def Let_def idle_at_def)

text \<open>
  C37. \<open>Drain\<close> and then \<open>Register\<close> on the same queue can crash the process. Take any reachable state of a broker
  on the memory backend, not shut down, in which a queue without pending messages, workers or owed
  acknowledgements has its dispatcher at the top of the loop and is not paused. A call of \<open>Drain\<close> and one pass of
  the loop close the channel that \<open>Drain\<close> waits on, so that it returns, and end the dispatcher. A call of
  \<open>Register\<close> for the queue then, with any handler and options, starts a new dispatcher but leaves the drain
  flag set: one pass of its loop, and it is about to close the same channel again, which panics.
\<close>

theorem register_after_drain_crashes:
  assumes "sys_reachable memory_ops sops mem_view opts w y" "sy_pc y q = Top" "idle_at q (sy_b y)" "\<not> b_closed (sy_b y)"
    and "b_paused (sy_b y) q \<noteq> Some True" "Drain_begin q (sy_b y) = (Some d, b)" "d \<notin> b_doneClosed (sy_b y)"
  shows "\<exists>y1 y2. rtranclp (sys_step memory_ops sops mem_view) (y\<lparr>sy_b := b\<rparr>) y1 \<and>
    sy_pc y1 q = Stopped \<and> d \<in> b_doneClosed (sy_b y1) \<and> \<not> b_closed (sy_b y1) \<and>
    rtranclp (sys_step memory_ops sops mem_view) (start_dispatcher q (Register q fn hopts (sy_b y1)) y1) y2 \<and>
    sy_pc y2 q = Signalling \<and> fst (dispatch_signal q (sy_b y2)) = Crash (GoPanic ''close of closed channel'')"
proof -
  let ?R = "rtranclp (sys_step memory_ops sops mem_view)"
  have ns: "\<not> b_stopped (sy_b y)" using sys_reachable_inv [OF assms(1)] assms(4) by (auto simp: sys_inv_def Let_def skel_def)
  have b: "b_qDraining b q = Some True" "b_drainDone b q = Some d" "b_doneClosed b = b_doneClosed (sy_b y)" "idle_at q b" "\<not> b_closed b"
      "\<not> b_stopped b" "b_paused b q \<noteq> Some True" "b_handlers b q \<noteq> None"
    using assms(3-6) ns by (auto simp: Drain_begin_def idle_at_def Let_def split: if_splits)
  define b1 where "b1 = after_idle q (snd (isPaused q b))"
  have p: "b_qDraining b1 q = Some True" "b_drainDone b1 q = Some d" "b_doneClosed b1 = b_doneClosed (sy_b y)" "idle_at q b1" "\<not> b_closed b1"
      "\<not> b_stopped b1" "b_paused b1 q \<noteq> Some True" "b_handlers b1 q \<noteq> None"
    using b by (auto simp: b1_def isPaused_def pausedFlag_def idle_at_def split: option.splits)
  let ?ys = "y\<lparr>sy_b := b1, sy_pc := (sy_pc y)(q := Signalling)\<rparr>"
  have 1: "?R (y\<lparr>sy_b := b\<rparr>) ?ys" using pass_signals [of "y\<lparr>sy_b := b\<rparr>" q sops mem_view] assms(2) b by (simp add: b1_def)
  define b2 where "b2 = dispatch_exit q (b1\<lparr>b_doneClosed := insert d (b_doneClosed b1)\<rparr>)"
  define y1 where "y1 = y\<lparr>sy_b := b2, sy_pc := (sy_pc y)(q := Stopped)\<rparr>"
  have 2: "?R ?ys y1"
    by (rule stage_step [where q = q and nx = Exit and b = "b1\<lparr>b_doneClosed := insert d (b_doneClosed b1)\<rparr>"])
      (use p assms(7) in \<open>simp_all add: dispatch_signal_def signalDrainDone_def y1_def b2_def\<close>)
  define b3 where "b3 = snd (Register q fn hopts b2)"
  let ?y3 = "y1\<lparr>sy_b := b3, sy_pc := (sy_pc y1)(q := Top), sy_gen := (sy_gen y1)(q := Suc (sy_gen y1 q))\<rparr>"
  have reg: "start_dispatcher q (Register q fn hopts (sy_b y1)) y1 = ?y3"
    by (simp add: start_dispatcher_def b3_def y1_def Register_frame(4) b2_def dispatch_exit_def)
  have "b_handlers b2 q \<noteq> None" using p by (simp add: b2_def dispatch_exit_def)
  then have b3: "b_qDraining b3 q = Some True" "b_drainDone b3 q = Some d" "d \<in> b_doneClosed b3" "idle_at q b3" "\<not> b_stopped b3" "b_paused b3 q \<noteq> Some True"
    using p by (simp_all add: b3_def Register_drain) (simp_all add: b2_def dispatch_exit_def idle_at_def)
  let ?y4 = "?y3\<lparr>sy_b := after_idle q (snd (isPaused q b3)), sy_pc := (sy_pc ?y3)(q := Signalling)\<rparr>"
  have 3: "?R ?y3 ?y4" using pass_signals [of ?y3 q sops mem_view] b3 by simp
  have "b_drainDone (snd (isPaused q b3)) q = Some d" "d \<in> b_doneClosed (snd (isPaused q b3))"
    using b3 by (auto simp: isPaused_def pausedFlag_def split: option.splits)
  then have "fst (dispatch_signal q (sy_b ?y4)) = Crash (GoPanic ''close of closed channel'')"
    by (simp add: dispatch_signal_def signalDrainDone_def)
  moreover have "?R (y\<lparr>sy_b := b\<rparr>) y1" using 1 2 by (rule rtranclp_trans)
  moreover have "sy_pc y1 q = Stopped" "d \<in> b_doneClosed (sy_b y1)" "\<not> b_closed (sy_b y1)" "sy_pc ?y4 q = Signalling"
    using p by (simp_all add: y1_def b2_def dispatch_exit_def)
  ultimately show ?thesis using 3 unfolding reg [symmetric] by - (rule exI [of _ y1], rule exI, intro conjI)
qed

text \<open>The example broker with one queue registered: the run, as a whole, is a run of the program.\<close>

theorem register_after_drain_crashes_witness:
  "\<exists>y1 y2. example_reach y1 \<and> sy_pc y1 ''q'' = Stopped \<and> 0 \<in> b_doneClosed (sy_b y1) \<and>
     rtranclp (sys_step memory_ops (memory_schedule_ops []) mem_view)
       (start_dispatcher ''q'' (Register ''q'' (\<lambda>c m w. (Inr None, w)) \<lparr>hoMaxRetries = 0, hoBackoff = None, hoTimeout = 0\<rparr> (sy_b y1)) y1) y2 \<and>
     example_reach y2 \<and> sy_pc y2 ''q'' = Signalling \<and> fst (dispatch_signal ''q'' (sy_b y2)) = Crash (GoPanic ''close of closed channel'')"
proof -
  have f: "b_doneClosed (sy_b run1) = {}" "b_nextDone (sy_b run1) = 0" "b_handlers (sy_b run1) ''q'' \<noteq> None"
    by (simp_all add: run1_def start_dispatcher_def Register_def Let_def example_sys_def sys_init_def New_def)
  define b where "b = snd (Drain_begin ''q'' (sy_b run1))"
  have b: "Drain_begin ''q'' (sy_b run1) = (Some 0, b)" using f by (simp add: b_def Drain_begin_def Let_def)
  have i: "idle_at ''q'' (sy_b run1)" by (simp add: idle_at_def run1_sel NewMemory_def)
  have r: "example_reach (run1\<lparr>sy_b := b\<rparr>)" unfolding b_def by (rule sr_step [OF run1_reach]) (rule s_Drain_begin)
  have nd: "(0 :: nat) \<notin> b_doneClosed (sy_b run1)" "b_paused (sy_b run1) ''q'' \<noteq> Some True" by (simp_all add: f run1_sel)
  from register_after_drain_crashes [OF run1_reach run1_sel(1) i run1_sel(8) nd(2) b nd(1),
      of "\<lambda>c m w. (Inr None, w)" "\<lparr>hoMaxRetries = 0, hoBackoff = None, hoTimeout = 0\<rparr>"]
  obtain y1 y2 where y: "rtranclp (sys_step memory_ops (memory_schedule_ops []) mem_view) (run1\<lparr>sy_b := b\<rparr>) y1" "sy_pc y1 ''q'' = Stopped"
      "0 \<in> b_doneClosed (sy_b y1)" "\<not> b_closed (sy_b y1)"
      "rtranclp (sys_step memory_ops (memory_schedule_ops []) mem_view)
        (start_dispatcher ''q'' (Register ''q'' (\<lambda>c m w. (Inr None, w)) \<lparr>hoMaxRetries = 0, hoBackoff = None, hoTimeout = 0\<rparr> (sy_b y1)) y1) y2"
      "sy_pc y2 ''q'' = Signalling" "fst (dispatch_signal ''q'' (sy_b y2)) = Crash (GoPanic ''close of closed channel'')" by blast
  have r1: "example_reach y1" by (rule sys_reachable_steps [OF r y(1)])
  then have "example_reach y2" by (intro sys_reachable_steps [OF sr_step [OF r1 s_Register [OF user_queue_q y(4)]] y(5)])
  with r1 y show ?thesis by blast
qed

subsection \<open>A drain beside the acknowledgement loop\<close>

text \<open>
  C38. A drain may complete before the acknowledgements of the queue. The manual says that \<open>Drain\<close> flushes
  pending acknowledgements before it completes; but the acknowledgement loop takes a batch out of the broker
  before it gives it to the backend. While it holds a batch of the queue, a dispatcher that finds the queue
  empty and nothing owed ends the drain, with every message of the batch still in flight.
\<close>

theorem drain_misses_ack_batch:
  assumes "sys_reachable memory_ops (memory_schedule_ops ks) mem_view opts w y" "optStorage opts = NewMemory"
    and "sy_pc y q = Empty" "sy_ack y = AckTaken q batch qs" "b_qDraining (sy_b y) q = Some True"
    and "\<not> b_aborted (sy_b y)" "\<not> b_stopped (sy_b y)" "b_drainDone (sy_b y) q = Some d" "d \<notin> b_doneClosed (sy_b y)"
    and "b_inflight (sy_b y) q = Some 0" "b_pendingAcks (sy_b y) q = None" "mem_queues (b_store (sy_b y)) q = []"
  shows "\<exists>y'. rtranclp (sys_step memory_ops (memory_schedule_ops ks) mem_view) y y' \<and> sy_pc y' q = Stopped \<and> b_drainDone (sy_b y') q = Some d \<and> d \<in> b_doneClosed (sy_b y') \<and>
    sy_ack y' = AckTaken q batch qs \<and> set batch \<subseteq> mem_inflight (b_store (sy_b y')) q"
proof -
  have own: "own_inv mem_inv mem_view y" by (rule mems.own_reachable [OF assms(1)]) (simp_all add: assms(2) mem_inv_NewMemory exclusive_NewMemory)
  then have "ledger_ok (mem_view (b_store (sy_b y))) (owes (sy_b y)) (\<lambda>q. mset (held y q))" "user_queue q"
    using assms(4) by (simp_all add: own_inv_def)
  moreover have "set batch \<subseteq> set (held y q)" using assms(4) by (auto simp: held_def busy_def)
  ultimately have b: "set batch \<subseteq> mem_inflight (b_store (sy_b y)) q"
    using ledger_in_flight [of "mem_view (b_store (sy_b y))" "owes (sy_b y)" "\<lambda>q. mset (held y q)" _ q] by (auto simp: mem_view_def)
  let ?R = "rtranclp (sys_step memory_ops (memory_schedule_ops ks) mem_view)"
  let ?b = "after_idle q (sy_b y)"
  let ?ys = "y\<lparr>sy_b := ?b, sy_pc := (sy_pc y)(q := Signalling)\<rparr>"
  let ?y = "y\<lparr>sy_b := dispatch_exit q (?b\<lparr>b_doneClosed := insert d (b_doneClosed ?b)\<rparr>), sy_pc := (sy_pc y)(q := Stopped)\<rparr>"
  have "?R y ?ys" using assms(3,5-7,10-12) by (intro idle_signals) (simp_all add: idle_at_def)
  moreover have "?R ?ys ?y"
    by (rule stage_step [where q = q and nx = Exit and b = "?b\<lparr>b_doneClosed := insert d (b_doneClosed ?b)\<rparr>"])
      (use assms(8,9) in \<open>simp_all add: dispatch_signal_def signalDrainDone_def\<close>)
  ultimately have "?R y ?y" by (rule rtranclp_trans)
  moreover have "mem_inflight (b_store (sy_b ?y)) q = mem_inflight (b_store (sy_b y)) q" by (simp add: dispatch_exit_def)
  ultimately show ?thesis using b assms(4,8) by (intro exI [of _ ?y]) (simp add: dispatch_exit_def)
qed

text \<open>A run of the example broker, in which the acknowledgement loop holds the batch of one message.\<close>

definition a_message :: message where
  "a_message = build_message ''a'' ''q'' [] quiet_opts 9 9"

definition one_pending :: memory where
  "one_pending = snd (mem_Enqueue 9 ''q'' a_message NewMemory)"

lemma one_pending_Dequeue:
  "\<exists>m' M. mem_Dequeue 9 ''q'' 2 one_pending = (Inr [m'], M) \<and> mID m' = ''a'' \<and> mAttempts m' = 0 \<and> mem_queues M ''q'' = []"
  by (simp add: one_pending_def a_message_def mem_Dequeue_def mem_Enqueue_def push_queue_def NewMemory_def sort_pending_def SliceStable_def
      Let_def build_message_def IsZero_def quiet_opts_def)

lemma one_pending_fresh: "mem_Dequeue 9 ''q'' 2 one_pending = (Inr [m'], M) \<Longrightarrow> fresh_id ''q'' ''n'' (mem_view M)"
  by (auto simp: one_pending_def a_message_def mem_Dequeue_def mem_Enqueue_def push_queue_def NewMemory_def sort_pending_def SliceStable_def
      Let_def build_message_def IsZero_def quiet_opts_def fresh_id_def mem_view_def)

text \<open>The state in which a worker has the message, and \<open>M\<close> is what is left in the store.\<close>

definition working_b :: "memory \<Rightarrow> (memory, unit) broker" where
  "working_b M = (sy_b run1)\<lparr>b_store := M, b_paused := [''q'' \<mapsto> False], b_inflight := (b_inflight (sy_b run1))(''q'' \<mapsto> 1), b_wg := b_wg (sy_b run1) + 1\<rparr>"

definition working_run :: "message \<Rightarrow> memory \<Rightarrow> (memory, unit) sys" where
  "working_run m M = run1\<lparr>sy_b := working_b M, sy_pc := (sy_pc run1)(''q'' := Top),
     sy_workers := [\<lparr>wk_queue = ''q'', wk_msg = m, wk_gen = sy_gen run1 ''q'', wk_out = None\<rparr>]\<rparr>"

lemma working_reach:
  assumes "mem_Dequeue 9 ''q'' 2 one_pending = (Inr [m], M)"
  shows "example_reach (working_run m M)"
proof -
  define b0 where "b0 = sy_b run1"
  note r = run1_sel [folded b0_def]
  define y1 where "y1 = run1\<lparr>sy_b := b0\<lparr>b_store := one_pending\<rparr>\<rparr>"
  have "example_reach (run1\<lparr>sy_b := (sy_b run1)\<lparr>b_store := snd (Enqueue_op memory_ops 9 ''q'' a_message (b_store (sy_b run1)))\<rparr>\<rparr>)"
    by (rule sr_step [OF run1_reach], rule s_store_Enqueue [OF user_queue_q]) (simp add: fresh_id_def run1_sel NewMemory_def)
  then have r1: "example_reach y1" by (simp add: y1_def b0_def one_pending_def run1_sel memory_ops_def)
  define b2 where "b2 = b0\<lparr>b_store := M, b_paused := [''q'' \<mapsto> False]\<rparr>"
  define y2 where "y2 = run1\<lparr>sy_b := b2, sy_pc := (sy_pc run1)(''q'' := Spawning [m])\<rparr>"
  have "dispatch_top memory_ops 9 ''q'' (sy_b y1) = (Got [m], b2)"
    using assms by (simp add: dispatch_top_def isPaused_def pausedFlag_def y1_def r memory_ops_def b2_def)
  then have r2: "example_reach y2" by (intro sr_step [OF r1] s_top [where q = "''q''" and tS = 9]) (simp_all add: y1_def y2_def r)
  have ws: "worker_start ''q'' b2 = working_b M" by (simp add: worker_start_def inflightFor_def b2_def working_b_def r flip: b0_def)
  define y3 where "y3 = run1\<lparr>sy_b := working_b M, sy_pc := (sy_pc run1)(''q'' := Spawning []),
      sy_workers := [\<lparr>wk_queue = ''q'', wk_msg = m, wk_gen = sy_gen run1 ''q'', wk_out = None\<rparr>]\<rparr>"
  have "y2\<lparr>sy_b := worker_start ''q'' (sy_b y2), sy_pc := (sy_pc y2)(''q'' := Spawning []),
      sy_workers := \<lparr>wk_queue = ''q'', wk_msg = m, wk_gen = sy_gen y2 ''q'', wk_out = None\<rparr> # sy_workers y2\<rparr> = y3"
    by (simp add: y2_def y3_def ws r)
  then have r3: "example_reach y3"
    using sr_step [OF r2 s_spawn [where q = "''q''" and m = m and ms = "[]"]] by (simp add: y2_def sem_tokens_def r b2_def)
  have "y3\<lparr>sy_pc := (sy_pc y3)(''q'' := Top)\<rparr> = working_run m M" by (simp add: y3_def working_run_def)
  then show ?thesis using sr_step [OF r3 s_spawned [where q = "''q''"]] by (simp add: y3_def)
qed

lemma batch_reachable:
  "\<exists>y b. example_reach y \<and> sy_pc y ''q'' = Top \<and> sy_ack y = AckTaken ''q'' [''a''] [] \<and> sy_b y = b \<and>
     \<not> b_aborted b \<and> \<not> b_stopped b \<and> b_qDraining b = Map.empty \<and> b_doneClosed b = {} \<and> b_nextDone b = 0 \<and>
     b_inflight b ''q'' = Some 0 \<and> b_pendingAcks b = Map.empty \<and> mem_queues (b_store b) ''q'' = [] \<and> b_paused b ''q'' = Some False \<and>
     b_handlers b ''q'' \<noteq> None"
proof -
  obtain m' M where dq: "mem_Dequeue 9 ''q'' 2 one_pending = (Inr [m'], M)" "mID m' = ''a''" "mAttempts m' = 0" "mem_queues M ''q'' = []"
    using one_pending_Dequeue by blast
  define b0 where "b0 = sy_b run1"
  obtain h where f: "b_stopped b0 = False" "b_qDraining b0 = Map.empty" "b_doneClosed b0 = {}" "b_nextDone b0 = 0"
    "b_ackBatchSize b0 = 2" "b_ackStop b0 = Some False" "sy_ack run1 = AckWait"
    "b_handlers b0 ''q'' = Some h" "h_chain h = (\<lambda>c m w. (Inr None, w))" "hoMaxRetries (h_opts h) = 1"
    by (simp add: b0_def run1_def start_dispatcher_def Register_def Let_def example_sys_def sys_init_def New_def example_options_def second_def
        chain_def normalize_handler_options_def)
  note r = run1_sel [folded b0_def] and wb = working_b_def [of M, folded b0_def]
  define y4 where "y4 = working_run m' M"
  have r4: "example_reach y4" unfolding y4_def by (rule working_reach [OF dq(1)])
  define b5 where "b5 = (working_b M)\<lparr>b_pendingAcks := [''q'' \<mapsto> [''a'']]\<rparr>"
  have "handleOne memory_ops 9 9 ''n'' ''q'' m' (working_b M) () = (Inr (), b5, ())"
    using dq(2,3) f by (simp add: handleOne_def b5_def wb ack_def r Let_def)
  then have "rtranclp (sys_step memory_ops (memory_schedule_ops []) mem_view) y4 (y4\<lparr>sy_b := worker_end ''q'' b5, sy_workers := [] @ [], sy_world := ()\<rparr>)"
    by (intro work_alone [where nid = "''n''" and now = 9 and tS = 9 and x = "\<lparr>wk_queue = ''q'', wk_msg = m', wk_gen = sy_gen run1 ''q'', wk_out = None\<rparr>", simplified worker.simps])
      (use one_pending_fresh [OF dq(1)] in \<open>simp_all add: y4_def working_run_def wb\<close>)
  with r4 have w: "example_reach (y4\<lparr>sy_b := worker_end ''q'' b5, sy_workers := [] @ [], sy_world := ()\<rparr>)" by (rule sys_reachable_steps)
  define y5 where "y5 = run1\<lparr>sy_b := worker_end ''q'' b5, sy_pc := (sy_pc run1)(''q'' := Top), sy_workers := []\<rparr>"
  have "y4\<lparr>sy_b := worker_end ''q'' b5, sy_workers := [] @ [], sy_world := ()\<rparr> = y5" by (simp add: y4_def working_run_def y5_def)
  with w have r5: "example_reach y5" by (simp only:)
  have b5: "b_ackStop (worker_end ''q'' b5) = Some False" "b_pendingAcks (worker_end ''q'' b5) = [''q'' \<mapsto> [''a'']]"
    using f by (simp_all add: worker_end_def b5_def wb)
  have r6: "example_reach (y5\<lparr>sy_ack := AckTodo [''q'']\<rparr>)"
    by (rule sr_step [OF r5], rule s_ack_tick) (use f b5 in \<open>simp_all add: y5_def\<close>)
  define b7 where "b7 = (worker_end ''q'' b5)\<lparr>b_pendingAcks := Map.empty\<rparr>"
  define y7 where "y7 = y5\<lparr>sy_b := b7, sy_ack := AckTaken ''q'' [''a''] []\<rparr>"
  have "flush_take ''q'' (worker_end ''q'' b5) = ([''a''], b7)" by (simp add: flush_take_def b5(2) b7_def)
  then have "example_reach y7"
    using sr_step [OF r6 s_ack_take [where q = "''q''" and qs = "[]" and batch = "[''a'']" and b = b7]] by (simp add: y5_def y7_def)
  then show ?thesis
    by (intro exI [of _ y7] exI [of _ b7])
      (use f dq(4) r in \<open>simp add: y7_def y5_def b7_def worker_end_def b5_def wb\<close>)
qed

theorem drain_misses_ack_batch_witness:
  "\<exists>y d. example_reach y \<and> b_drainDone (sy_b y) ''q'' = Some d \<and> d \<in> b_doneClosed (sy_b y) \<and> ''a'' \<in> mem_inflight (b_store (sy_b y)) ''q''"
proof -
  from batch_reachable obtain y b where r: "example_reach y" "sy_pc y ''q'' = Top" "sy_ack y = AckTaken ''q'' [''a''] []" "sy_b y = b"
     "\<not> b_aborted b" "\<not> b_stopped b" "b_qDraining b = Map.empty" "b_doneClosed b = {}" "b_nextDone b = 0"
     "b_inflight b ''q'' = Some 0" "b_pendingAcks b = Map.empty" "mem_queues (b_store b) ''q'' = []" "b_paused b ''q'' = Some False"
     "b_handlers b ''q'' \<noteq> None" by blast
  define b1 where "b1 = snd (Drain_begin ''q'' b)"
  have b1: "\<not> b_aborted b1" "\<not> b_stopped b1" "b_qDraining b1 ''q'' = Some True" "b_drainDone b1 ''q'' = Some 0" "b_doneClosed b1 = {}"
     "b_inflight b1 ''q'' = Some 0" "b_pendingAcks b1 = Map.empty" "mem_queues (b_store b1) ''q'' = []" "b_paused b1 ''q'' = Some False"
    using r by (auto simp: b1_def Drain_begin_def Let_def split: option.splits)
  have r1: "example_reach (y\<lparr>sy_b := b1\<rparr>)" using sr_step [OF r(1) s_Drain_begin, of "''q''"] r(4) by (simp add: b1_def)
  have "dispatch_top memory_ops 9 ''q'' b1 = (GotNothing, b1)"
    using idle_top [of b1 "''q''" 9] b1 by (simp add: isPaused_def pausedFlag_def)
  then have r2: "example_reach (y\<lparr>sy_b := b1, sy_pc := (sy_pc y)(''q'' := Empty)\<rparr>)" (is "example_reach ?y")
    by (intro sr_step [OF r1] s_top [where q = "''q''" and tS = 9]) (simp_all add: r(2))
  have "optStorage example_options = NewMemory" by (simp add: example_options_def)
  from drain_misses_ack_batch [OF r2 this, of "''q''" "[''a'']" "[]" 0] r(3) b1 obtain y' where
    y': "rtranclp (sys_step memory_ops (memory_schedule_ops []) mem_view) ?y y'" "b_drainDone (sy_b y') ''q'' = Some 0" "0 \<in> b_doneClosed (sy_b y')" "''a'' \<in> mem_inflight (b_store (sy_b y')) ''q''"
    by auto
  with sys_reachable_steps [OF r2 y'(1)] show ?thesis by blast
qed

end
