(* ===== verification/Broker_Shutdown.thy ===== *)
theory Broker_Shutdown
  imports Broker_Ownership
begin

text \<open>
  A graceful \<open>Shutdown\<close> of several queues. Every dispatcher drains its own queue: it ends when that queue is
  empty and has no worker, whatever the workers of the other queues still do. After \<open>Shutdown\<close> no dispatcher
  is started again, so a follow-up message to a queue whose dispatcher has ended is not delivered.
\<close>

subsection \<open>A dispatcher that has ended stays ended\<close>

lemma k_closed_iff [simp]: "k_closed (skel b) = b_closed b"
  by (simp add: skel_def)

lemma same_closed: "skel b' = skel b \<Longrightarrow> b_closed b' = b_closed b"
  by (metis k_closed_iff)

lemmas quiet_closed [simp] = skel_Enqueue [THEN same_closed] skel_EnqueueBatch [THEN same_closed]
  skel_periodic [THEN same_closed] skel_misc [THEN same_closed] skel_flush_parts(2) [THEN same_closed]

text \<open>What changes the skeleton and keeps the closed flag.\<close>

lemma keeps_closed [simp]:
  "b_closed (worker_end q b) = b_closed b" "b_closed (worker_start q b) = b_closed b" "b_closed (dispatch_exit q b) = b_closed b"
  "b_closed (snd (Shutdown_begin b))" "b_closed (Shutdown_abort b) = b_closed b"
  "b_closed (snd (Shutdown_finish ops qs b)) = b_closed b"
proof -
  show "b_closed (worker_start q b) = b_closed b" by (auto simp: worker_start_def inflightFor_def split: option.splits)
  have "k_closed (skel (snd (Shutdown_finish ops qs b))) = k_closed (skel b)" by (simp add: skel_Shutdown_finish del: k_closed_iff)
  then show "b_closed (snd (Shutdown_finish ops qs b)) = b_closed b" by simp
qed (simp_all add: worker_end_def dispatch_exit_def Shutdown_begin_def wakeAll_def Shutdown_abort_def)

lemma goto_closed:
  assumes "goto q (nx, b) y = Some y'" "skel b = skel (sy_b y)" "b_closed (sy_b y)" "sy_pc y n = Stopped" "n \<noteq> q"
  shows "b_closed (sy_b y') \<and> sy_pc y' n = Stopped"
  using assms same_closed [OF assms(2)] by (cases nx) auto

lemma stopped_step:
  assumes "sys_step ops sops view y y'" "b_closed (sy_b y)" "sy_pc y n = Stopped"
  shows "b_closed (sy_b y') \<and> sy_pc y' n = Stopped"
  using assms(1)
proof (cases rule: sys_step.cases)
  case (s_Resume q)
  obtain start b where r: "Resume q (sy_b y) = (start, b)" by fastforce
  then have "\<not> start" "skel b = skel (sy_b y)" using skel_Resume [OF r] assms(2) by auto
  then show ?thesis using assms(2,3) same_closed [of b "sy_b y"] by (simp add: s_Resume start_dispatcher_def r)
next
  case (s_top q tS)
  obtain nx b where nb: "dispatch_top ops tS q (sy_b y) = (nx, b)" by fastforce
  have "n \<noteq> q" using s_top(1) assms(3) by auto
  with goto_closed [OF s_top(2) [unfolded nb] skel_dispatch_top [OF nb] assms(2,3)] show ?thesis by simp
next
  case (s_empty q nx)
  obtain nxt b where nb: "nx = (nxt, b)" by fastforce
  have "n \<noteq> q" using s_empty(1) assms(3) by auto
  with goto_closed [OF s_empty(2) [unfolded nb] skel_dispatch_stage [OF s_empty(1) [unfolded nb]] assms(2,3)] show ?thesis by simp
next
  case (s_work_settle xs x ys out nid now tS b)
  with assms(2,3) same_closed [OF skel_handle_settle [OF s_work_settle(5)]] show ?thesis by simp
next
  case (s_ack_take q qs batch b)
  with assms(2,3) same_closed [of b "sy_b y"] show ?thesis by simp
next
  case (s_schedule_poll now polled b)
  have "skel b = skel (sy_b y)" using s_schedule_poll(4) by (auto simp: schedule_poll_def split: prod.splits sum.splits)
  with assms(2,3) s_schedule_poll(1) same_closed [of b "sy_b y"] show ?thesis by simp
next
  case (s_Register q fn hopts)
  with assms(2) show ?thesis by simp
qed (use assms(2,3) in auto)

lemma no_worker_step:
  assumes "sys_step ops sops view y y'" "sy_pc y n = Stopped" "on_queue n (sy_workers y) = []"
  shows "on_queue n (sy_workers y') = []"
  using assms(1)
proof (cases rule: sys_step.cases)
  case (s_spawn q m ms)
  then have "q \<noteq> n" using assms(2) by auto
  with s_spawn(1) assms(3) show ?thesis by (simp add: on_queue_def)
next
  case (s_top q tS)
  then show ?thesis using assms(3) goto_sel(1) by (metis prod.collapse)
next
  case (s_empty q nx)
  then show ?thesis using assms(3) goto_sel(1) by (metis prod.collapse)
qed (use assms(3) in \<open>auto simp: start_dispatcher_def on_queue_def split: if_splits\<close>)

lemma stopped_for_good:
  assumes "rtranclp (sys_step ops sops view) y y'" "b_closed (sy_b y)" "sy_pc y n = Stopped" "on_queue n (sy_workers y) = []"
  shows "b_closed (sy_b y') \<and> sy_pc y' n = Stopped \<and> on_queue n (sy_workers y') = []"
  using assms by (induction rule: rtranclp_induct) (auto dest: stopped_step no_worker_step)

subsection \<open>A follow-up message to another queue\<close>

lemma mem_Enqueue_push: "\<exists>msg'. mem_Enqueue t q msg m = (Inr (), push_queue q msg' m) \<and> mPayload msg' = mPayload msg"
  unfolding mem_Enqueue_def Let_def by (rule exI, rule conjI, rule refl) simp

lemma plain_Enqueue:
  assumes "oDedupeKey eo = ''''"
  shows "\<exists>b' msg. b_Enqueue memory_ops now tD tS nid q payload eo b = (Inr (), b') \<and> b_store b' = push_queue q msg (b_store b) \<and> mPayload msg = payload"
proof -
  have "enqueueMessage tD nid q payload eo now now b = ((build_message nid q payload eo now now, '''', True), b)"
    using assms by (simp add: enqueueMessage_def)
  moreover obtain msg where "mem_Enqueue tS q (build_message nid q payload eo now now) (b_store b) = (Inr (), push_queue q msg (b_store b))"
      "mPayload msg = payload"
    using mem_Enqueue_push [of tS q "build_message nid q payload eo now now" "b_store b"] by (auto simp: build_message_def Let_def)
  ultimately show ?thesis by (simp add: b_Enqueue_def memory_ops_def wake_def split: option.split) blast
qed

text \<open>
  C27. A follow-up message to another queue can be orphaned by \<open>Shutdown\<close>. During a graceful shutdown, when the
  dispatcher of a queue has found it empty and idle, it ends although a worker \<open>x\<close> of some queue is still running;
  when the handler that \<open>x\<close> runs then enqueues a message for the queue, the call succeeds and the message is
  stored, but from then on, in every continuation, the queue has no dispatcher and no worker: its handler never
  runs again.
\<close>

theorem followup_orphaned:
  assumes "sys_reachable memory_ops sops mem_view opts w y"
    and "sy_pc y n = Empty" "b_stopped (sy_b y)" "\<not> b_aborted (sy_b y)"
    and "b_inflight (sy_b y) n = Some 0" "b_pendingAcks (sy_b y) n = None" "mem_queues (b_store (sy_b y)) n = []"
    and "x \<in> set (sy_workers y)"
    and "user_queue n" "fresh_id n nid (mem_view (b_store (sy_b y)))" "oDedupeKey eo = ''''"
  shows "\<exists>y1 y2. rtranclp (sys_step memory_ops sops mem_view) y y1 \<and> sys_step memory_ops sops mem_view y1 y2 \<and>
    x \<in> set (sy_workers y1) \<and> sy_workers y2 = sy_workers y1 \<and> b_Enqueue memory_ops now tD tS nid n payload eo (sy_b y1) = (Inr (), sy_b y2) \<and>
    map mPayload (mem_queues (b_store (sy_b y2)) n) = [payload] \<and>
    (\<forall>y3. rtranclp (sys_step memory_ops sops mem_view) y2 y3 \<longrightarrow> sy_pc y3 n = Stopped \<and> on_queue n (sy_workers y3) = [])"
proof -
  let ?S = "sys_step memory_ops sops mem_view"
  let ?y1 = "y\<lparr>sy_b := dispatch_exit n (after_idle n (sy_b y)), sy_pc := (sy_pc y)(n := Stopped)\<rparr>"
  have inv: "sys_inv y" by (rule sys_reachable_inv [OF assms(1)])
  have closed: "b_closed (sy_b y)" using inv assms(3) by (simp add: sys_inv_def Let_def skel_def)
  have "int (length (on_queue n (sy_workers y))) = inflight_count (sy_b y) n"
    using inv by (simp add: sys_inv_def Let_def skel_def)
  then have none: "on_queue n (sy_workers y) = []" using assms(5) by (simp add: inflight_count_def)
  have st1: "b_store (sy_b ?y1) = snd (mem_Stats n (b_store (sy_b y)))" by (simp add: dispatch_exit_def after_idle_def)
  have 1: "rtranclp ?S y ?y1" using assms(2-7) by (intro idle_exit) (simp_all add: idle_at_def)
  obtain b2 msg where e: "b_Enqueue memory_ops now tD tS nid n payload eo (sy_b ?y1) = (Inr (), b2)"
      "b_store b2 = push_queue n msg (b_store (sy_b ?y1))" "mPayload msg = payload"
    using plain_Enqueue [OF assms(11)] by blast
  let ?y2 = "?y1\<lparr>sy_b := b2\<rparr>"
  have "fresh_id n nid (mem_view (b_store (sy_b ?y1)))" using assms(10) unfolding st1 by (simp add: fresh_id_def split: if_splits)
  from s_Enqueue [where y = ?y1 and view = mem_view and ops = memory_ops and sops = sops and now = now and tD = tD and tS = tS and
      payload = payload and opts = eo, OF assms(9) this] have 2: "?S ?y1 ?y2" by (simp add: e(1) [simplified])
  have "map mPayload (mem_queues (b_store (sy_b ?y2)) n) = [payload]"
    using e(2,3) assms(7) st1 by (simp add: push_queue_def)
  moreover have "b_closed b2"
    using quiet_closed(1) [of memory_ops now tD tS nid n payload eo "sy_b ?y1"] closed unfolding e(1) by simp
  then have "\<forall>y3. ?S\<^sup>*\<^sup>* ?y2 y3 \<longrightarrow> sy_pc y3 n = Stopped \<and> on_queue n (sy_workers y3) = []"
    using stopped_for_good [of memory_ops sops mem_view ?y2 _ n] none by simp
  ultimately show ?thesis using 1 2 e(1) assms(8) by (intro exI [of _ ?y1] exI [of _ ?y2]) simp
qed

text \<open>
  A run of the example broker: a worker of the queue \<open>q\<close> runs, a second queue is registered, \<open>Shutdown\<close> is called,
  and the dispatcher of the second queue finds nothing.
\<close>

theorem followup_orphaned_witness:
  "\<exists>y2 x. example_reach y2 \<and> x \<in> set (sy_workers y2) \<and> wk_queue x = ''q'' \<and> map mPayload (mem_queues (b_store (sy_b y2)) ''n'') = [[7]] \<and>
     (\<forall>y3. rtranclp (sys_step memory_ops (memory_schedule_ops []) mem_view) y2 y3 \<longrightarrow> sy_pc y3 ''n'' = Stopped)"
proof -
  obtain m M where dq: "mem_Dequeue 9 ''q'' 2 one_pending = (Inr [m], M)" using one_pending_Dequeue by blast
  have M: "mem_queues M ''n'' = []" "fresh_id ''n'' ''i'' (mem_view M)"
    using dq by (auto simp: one_pending_def a_message_def mem_Dequeue_def mem_Enqueue_def push_queue_def NewMemory_def sort_pending_def
        SliceStable_def Let_def build_message_def IsZero_def quiet_opts_def fresh_id_def)
  define b0 where "b0 = working_b M"
  have b0: "\<not> b_closed b0" "b_pendingAcks b0 = Map.empty" "b_store b0 = M" "b_paused b0 ''n'' = None" "\<not> b_aborted b0"
      "b_handlers b0 ''n'' = None" "\<not> b_dispatching b0 ''n''"
    by (simp_all add: b0_def working_b_def run1_sel)
      (simp_all add: run1_def start_dispatcher_def Register_def Let_def example_sys_def sys_init_def New_def)
  let ?R = "Register ''n'' (\<lambda>c m w. (Inr None, w)) \<lparr>hoMaxRetries = 1, hoBackoff = None, hoTimeout = 0\<rparr> b0"
  define y1 where "y1 = start_dispatcher ''n'' ?R (working_run m M)"
  have u: "user_queue ''n''" by (simp add: user_queue_def)
  have w: "sy_b (working_run m M) = b0" "sy_workers (working_run m M) = [\<lparr>wk_queue = ''q'', wk_msg = m, wk_gen = sy_gen run1 ''q'', wk_out = None\<rparr>]"
    by (simp_all add: working_run_def b0_def)
  have r1: "example_reach y1"
    using sr_step [OF working_reach [OF dq] s_Register [OF u]] b0(1) by (simp add: w(1) y1_def)
  define y2 where "y2 = y1\<lparr>sy_b := snd (Shutdown_begin (sy_b y1))\<rparr>"
  have r2: "example_reach y2" unfolding y2_def by (rule sr_step [OF r1]) (rule s_Shutdown)
  have y2: "sy_pc y2 ''n'' = Top" "sy_workers y2 = sy_workers (working_run m M)" "b_stopped (sy_b y2)" "\<not> b_aborted (sy_b y2)"
      "b_inflight (sy_b y2) ''n'' = Some 0" "b_pendingAcks (sy_b y2) = Map.empty" "b_store (sy_b y2) = M" "b_paused (sy_b y2) ''n'' = None"
    using b0 by (simp_all add: y2_def y1_def start_dispatcher_def Register_def Let_def Shutdown_begin_def wakeAll_def)
  define b3 where "b3 = (sy_b y2)\<lparr>b_paused := (b_paused (sy_b y2))(''n'' \<mapsto> False)\<rparr>"
  define y3 where "y3 = y2\<lparr>sy_b := b3, sy_pc := (sy_pc y2)(''n'' := Empty)\<rparr>"
  have "dispatch_top memory_ops 9 ''n'' (sy_b y2) = (GotNothing, b3)"
    using idle_top [of "sy_b y2" "''n''" 9] y2 M(1) by (simp add: b3_def isPaused_def pausedFlag_def)
  then have r3: "example_reach y3" by (intro sr_step [OF r2] s_top [where q = "''n''" and tS = 9]) (simp_all add: y2 y3_def)
  obtain y4 y5 where s: "rtranclp (sys_step memory_ops (memory_schedule_ops []) mem_view) y3 y4" "sys_step memory_ops (memory_schedule_ops []) mem_view y4 y5"
      "\<lparr>wk_queue = ''q'', wk_msg = m, wk_gen = sy_gen run1 ''q'', wk_out = None\<rparr> \<in> set (sy_workers y5)"
      "map mPayload (mem_queues (b_store (sy_b y5)) ''n'') = [[7]]"
      "\<forall>y6. rtranclp (sys_step memory_ops (memory_schedule_ops []) mem_view) y5 y6 \<longrightarrow> sy_pc y6 ''n'' = Stopped"
    using followup_orphaned [OF r3, of "''n''" "\<lparr>wk_queue = ''q'', wk_msg = m, wk_gen = sy_gen run1 ''q'', wk_out = None\<rparr>" "''i''" quiet_opts 9 9 9 "[7]"]
      y2 u M w(2) by (auto simp: y3_def b3_def quiet_opts_def)
  have "example_reach y5" by (rule sr_step [OF sys_reachable_steps [OF r3 s(1)] s(2)])
  with s(3-5) show ?thesis by (intro exI [of _ y5] exI [of _ "\<lparr>wk_queue = ''q'', wk_msg = m, wk_gen = sy_gen run1 ''q'', wk_out = None\<rparr>"]) simp
qed

end
