(* ===== verification/SQL_Database.thy ===== *)
theory SQL_Database
  imports Store_Contract
begin

text \<open>
  What the two SQL backends share: the tables of the schema (\<open>migrations\<close>), the meaning of the
  statements the backends send, and the driver between the program and the database.

  \<^item> A table is the list of its rows. The columns that hold a time have type \<open>'t\<close> (a text in SQLite,
    a timestamp in PostgreSQL), the column \<open>dead_at\<close>, which may be unset, type \<open>'d\<close>. The column
    \<open>metadata\<close> holds a JSON object, represented by the map it denotes. The column \<open>status\<close> holds
    one of the three words the program writes.
  \<^item> \<open>formats\<close> is what the text of a column depends on beside the value: the local zone of the process,
    the locations of the times a message carries, and what \<open>json.Marshal\<close> makes of a map of strings.
    All three are arbitrary; \<open>json_law\<close> is what the documentation of \<open>encoding/json\<close> promises.
  \<^item> A connection is the record \<open>db\<close>: the committed tables, the tables as the open transaction sees
    them (\<open>Begin\<close> copies, \<open>Commit\<close> publishes, \<open>Rollback\<close> forgets), and the behaviour of the driver:
    \<open>db_faults n\<close> is the error the \<open>n\<close>-th next call of the driver returns, if any. A call that
    returns an error has no effect, and a transaction whose \<open>Commit\<close> reports an error is rolled back:
    an assumption on the driver and the database, which a connection lost during a \<open>COMMIT\<close> breaks.
  \<^item> SQL leaves open in which order a query meets the rows; \<open>db_scan\<close> and \<open>db_scan_schedules\<close> are this
    order, arbitrary permutations, and \<open>ORDER BY\<close> sorts what they give.
  \<^item> \<open>db_locked\<close> are the rows that transactions of other connections have locked; \<open>FOR UPDATE SKIP
    LOCKED\<close> passes over them.
  \<^item> \<open>effect m c r c'\<close> says that the action \<open>m\<close> can take the database from \<open>c\<close> to \<open>c'\<close> with
    result \<open>r\<close> under some behaviour of the driver; its elimination rules decompose the methods of
    the backends into their statements.
\<close>

subsection \<open>Tables\<close>

datatype status = Pending | Processing | Dead

record ('t, 'd) row =
  rID :: string
  rQueue :: string
  rPayload :: "byte list"
  rAttempts :: int
  rMaxRetries :: int
  rCreatedAt :: 't
  rScheduledAt :: 't
  rPriority :: int
  rDedupeKey :: string
  rMetadata :: metadata
  rError :: string
  rDeadAt :: 'd
  rStatus :: status

record stats_row =
  stProcessed :: int
  stErrors :: int
  stRetries :: int
  stDead :: int

record 't schedule_row =
  srID :: string
  srQueue :: string
  srPayload :: "byte list"
  srOptions :: "byte list"
  srInterval :: duration
  srNextRunAt :: 't
  srEnabled :: bool
  srCreatedAt :: 't
  srUpdatedAt :: 't

record ('t, 'd) tables =
  t_messages :: "('t, 'd) row list"
  t_stats :: "string \<rightharpoonup> stats_row"
  t_schedules :: "'t schedule_row list"

definition empty_tables :: "('t, 'd) tables" where
  "empty_tables = \<lparr>t_messages = [], t_stats = Map.empty, t_schedules = []\<rparr>"

subsection \<open>Statements\<close>

text \<open>
  A statement reads and writes the tables and returns the number of rows it affected. A violated
  primary key is an error of the statement.
\<close>

type_synonym ('t, 'd, 'a) statement = "('t, 'd) tables \<Rightarrow> 'a result \<times> ('t, 'd) tables"

definition insert_message :: "err \<Rightarrow> ('t, 'd) row \<Rightarrow> ('t, 'd, nat) statement" where
  "insert_message violation r t =
     (if rID r \<in> rID ` set (t_messages t) then (Inl violation, t)
      else (Inr 1, t\<lparr>t_messages := t_messages t @ [r]\<rparr>))"

definition delete_messages :: "(('t, 'd) row \<Rightarrow> bool) \<Rightarrow> ('t, 'd, nat) statement" where
  "delete_messages P t =
     (Inr (length (filter P (t_messages t))), t\<lparr>t_messages := filter (\<lambda>r. \<not> P r) (t_messages t)\<rparr>)"

definition update_messages ::
  "(('t, 'd) row \<Rightarrow> bool) \<Rightarrow> (('t, 'd) row \<Rightarrow> ('t, 'd) row) \<Rightarrow> ('t, 'd, nat) statement" where
  "update_messages P f t =
     (Inr (length (filter P (t_messages t))),
      t\<lparr>t_messages := map (\<lambda>r. if P r then f r else r) (t_messages t)\<rparr>)"

text \<open>\<open>INSERT INTO shoebox_stats \<dots> ON CONFLICT(queue) DO UPDATE\<close>: the row to insert, the update otherwise.\<close>

definition upsert_stats :: "string \<Rightarrow> stats_row \<Rightarrow> (stats_row \<Rightarrow> stats_row) \<Rightarrow> ('t, 'd, nat) statement" where
  "upsert_stats queue new upd t =
     (Inr 1, t\<lparr>t_stats := (t_stats t)(queue \<mapsto> (case t_stats t queue of None \<Rightarrow> new | Some r \<Rightarrow> upd r))\<rparr>)"

definition insert_schedule :: "err \<Rightarrow> 't schedule_row \<Rightarrow> ('t, 'd, nat) statement" where
  "insert_schedule violation r t =
     (if srID r \<in> srID ` set (t_schedules t) then (Inl violation, t)
      else (Inr 1, t\<lparr>t_schedules := t_schedules t @ [r]\<rparr>))"

definition delete_schedules :: "('t schedule_row \<Rightarrow> bool) \<Rightarrow> ('t, 'd, nat) statement" where
  "delete_schedules P t =
     (Inr (length (filter P (t_schedules t))), t\<lparr>t_schedules := filter (\<lambda>r. \<not> P r) (t_schedules t)\<rparr>)"

definition update_schedules ::
  "('t schedule_row \<Rightarrow> bool) \<Rightarrow> ('t schedule_row \<Rightarrow> 't schedule_row) \<Rightarrow> ('t, 'd, nat) statement" where
  "update_schedules P f t =
     (Inr (length (filter P (t_schedules t))),
      t\<lparr>t_schedules := map (\<lambda>r. if P r then f r else r) (t_schedules t)\<rparr>)"

text \<open>The \<open>WHERE\<close> conditions of the settling statements, and the values of a first statistics row.\<close>

definition in_process :: "string \<Rightarrow> string \<Rightarrow> ('t, 'd) row \<Rightarrow> bool" where
  "in_process msgID queue r \<longleftrightarrow> rID r = msgID \<and> rQueue r = queue \<and> rStatus r = Processing"

definition is_dead :: "string \<Rightarrow> string \<Rightarrow> ('t, 'd) row \<Rightarrow> bool" where
  "is_dead msgID queue r \<longleftrightarrow> rID r = msgID \<and> rQueue r = queue @ ''.dlq'' \<and> rStatus r = Dead"

definition stats_values :: "int \<Rightarrow> int \<Rightarrow> int \<Rightarrow> int \<Rightarrow> stats_row" where
  "stats_values p e r d = \<lparr>stProcessed = p, stErrors = e, stRetries = r, stDead = d\<rparr>"

subsection \<open>Formats\<close>

text \<open>The strings that are valid UTF-8, as \<open>utf8.ValidString\<close> decides it.\<close>

definition in_range :: "nat \<Rightarrow> nat \<Rightarrow> char \<Rightarrow> bool" where
  "in_range a b c \<longleftrightarrow> a \<le> of_char c \<and> of_char c \<le> b"

fun utf8_valid :: "string \<Rightarrow> bool" where
  "utf8_valid [] = True"
| "utf8_valid (c # cs) =
     (if in_range 0 127 c then utf8_valid cs
      else case cs of
             [] \<Rightarrow> False
           | d # ds \<Rightarrow>
               if in_range 194 223 c then in_range 128 191 d \<and> utf8_valid ds
               else case ds of
                      [] \<Rightarrow> False
                    | e # es \<Rightarrow>
                        if in_range 224 239 c
                        then in_range (if in_range 224 224 c then 160 else 128) (if in_range 237 237 c then 159 else 191) d \<and>
                             in_range 128 191 e \<and> utf8_valid es
                        else case es of
                               [] \<Rightarrow> False
                             | f # fs \<Rightarrow>
                                 in_range 240 244 c \<and>
                                 in_range (if in_range 240 240 c then 144 else 128) (if in_range 244 244 c then 143 else 191) d \<and>
                                 in_range 128 191 e \<and> in_range 128 191 f \<and> utf8_valid fs)"

text \<open>
  \<open>fZone t\<close> is the offset of the local zone at an instant; \<open>fOffsets msg\<close> are the offsets of the locations
  that \<open>CreatedAt\<close> and \<open>ScheduledAt\<close> of a message carry (the times of the model carry none); \<open>fJSON m\<close>
  is the map that the object \<open>json.Marshal\<close> writes for \<open>m\<close> denotes. \<open>UTC\<close> are those of a process in UTC.
\<close>

record formats =
  fZone :: "time \<Rightarrow> int"
  fOffsets :: "message \<Rightarrow> int \<times> int"
  fJSON :: "metadata \<Rightarrow> metadata"

definition UTC :: formats where
  "UTC = \<lparr>fZone = (\<lambda>_. 0), fOffsets = (\<lambda>_. (0, 0)), fJSON = (\<lambda>m. m)\<rparr>"

text \<open>Strings are coerced to valid UTF-8 when they are written; those that are valid stay as they are.\<close>

definition valid_metadata :: "metadata \<Rightarrow> bool" where
  "valid_metadata m \<longleftrightarrow> (\<forall>k v. m k = Some v \<longrightarrow> utf8_valid k \<and> utf8_valid v)"

definition json_law :: "formats \<Rightarrow> bool" where
  "json_law f \<longleftrightarrow> (\<forall>m. valid_metadata m \<longrightarrow> fJSON f m = m)"

subsection \<open>The driver\<close>

record ('t, 'd) db =
  db_main :: "('t, 'd) tables"
  db_work :: "('t, 'd) tables option"
  db_faults :: "nat \<Rightarrow> err option"
  db_scan :: "('t, 'd) row list \<Rightarrow> ('t, 'd) row list"
  db_scan_schedules :: "'t schedule_row list \<Rightarrow> 't schedule_row list"
  db_locked :: "string set"
  db_closed :: bool
  db_formats :: formats

type_synonym ('t, 'd, 'a) action = "('t, 'd) db \<Rightarrow> 'a result \<times> ('t, 'd) db"

definition ret :: "'a \<Rightarrow> ('t, 'd, 'a) action" where
  "ret x s = (Inr x, s)"

definition fail :: "err \<Rightarrow> ('t, 'd, 'a) action" where
  "fail e s = (Inl e, s)"

text \<open>\<open>if err != nil { return err }\<close> between two calls.\<close>

definition andThen :: "('t, 'd, 'a) action \<Rightarrow> ('a \<Rightarrow> ('t, 'd, 'b) action) \<Rightarrow> ('t, 'd, 'b) action" where
  "andThen m f s = (case m s of (Inl e, s) \<Rightarrow> (Inl e, s) | (Inr x, s) \<Rightarrow> f x s)"

text \<open>\<open>fmt.Errorf("\<dots>: %w", err)\<close> around the error of a call.\<close>

definition wrap :: "string \<Rightarrow> ('t, 'd, 'a) action \<Rightarrow> ('t, 'd, 'a) action" where
  "wrap msg m s = (case m s of (Inl e, s) \<Rightarrow> (Inl (ErrWrap msg e), s) | (Inr x, s) \<Rightarrow> (Inr x, s))"

definition call :: "('t, 'd, unit) action" where
  "call s =
     (if db_closed s then (Inl (ErrMsg ''sql: database is closed''), s)
      else (case db_faults s 0 of None \<Rightarrow> Inr () | Some e \<Rightarrow> Inl e, s\<lparr>db_faults := \<lambda>n. db_faults s (Suc n)\<rparr>))"

text \<open>The tables a statement works on: those of the open transaction, or the committed ones.\<close>

definition current :: "('t, 'd) db \<Rightarrow> ('t, 'd) tables" where
  "current s = (case db_work s of Some w \<Rightarrow> w | None \<Rightarrow> db_main s)"

definition put :: "('t, 'd) tables \<Rightarrow> ('t, 'd) db \<Rightarrow> ('t, 'd) db" where
  "put t s = (case db_work s of Some _ \<Rightarrow> s\<lparr>db_work := Some t\<rparr> | None \<Rightarrow> s\<lparr>db_main := t\<rparr>)"

definition exec :: "('t, 'd, 'a) statement \<Rightarrow> ('t, 'd, 'a) action" where
  "exec f = andThen call (\<lambda>_ s. case f (current s) of (Inl e, t) \<Rightarrow> (Inl e, s) | (Inr x, t) \<Rightarrow> (Inr x, put t s))"

definition query :: "(('t, 'd) row list \<Rightarrow> 'a) \<Rightarrow> ('t, 'd, 'a) action" where
  "query f = andThen call (\<lambda>_ s. (Inr (f (db_scan s (t_messages (current s)))), s))"

definition query_skip_locked :: "(('t, 'd) row list \<Rightarrow> 'a) \<Rightarrow> ('t, 'd, 'a) action" where
  "query_skip_locked f =
     andThen call (\<lambda>_ s. (Inr (f (filter (\<lambda>r. rID r \<notin> db_locked s) (db_scan s (t_messages (current s))))), s))"

definition query_stats :: "string \<Rightarrow> ('t, 'd, stats_row option) action" where
  "query_stats queue = andThen call (\<lambda>_ s. (Inr (t_stats (current s) queue), s))"

definition query_schedules :: "('t schedule_row list \<Rightarrow> 'a) \<Rightarrow> ('t, 'd, 'a) action" where
  "query_schedules f = andThen call (\<lambda>_ s. (Inr (f (db_scan_schedules s (t_schedules (current s)))), s))"

definition Begin :: "('t, 'd, unit) action" where
  "Begin = andThen call (\<lambda>_ s. (Inr (), s\<lparr>db_work := Some (db_main s)\<rparr>))"

definition Commit :: "('t, 'd, unit) action" where
  "Commit = andThen call (\<lambda>_ s. (Inr (), s\<lparr>db_main := current s, db_work := None\<rparr>))"

text \<open>\<open>defer func() { _ = tx.Rollback() }()\<close>: without effect after a commit.\<close>

definition rolling_back :: "('t, 'd, 'a) action \<Rightarrow> ('t, 'd, 'a) action" where
  "rolling_back m s = (case m s of (r, s) \<Rightarrow> (r, s\<lparr>db_work := None\<rparr>))"

text \<open>The shape of a method that runs in a transaction.\<close>

definition transaction :: "string \<Rightarrow> (unit \<Rightarrow> ('t, 'd, 'a) action) \<Rightarrow> ('t, 'd, 'a) action" where
  "transaction begin_failed body = rolling_back (andThen (wrap begin_failed Begin) body)"

text \<open>A database just opened: empty tables, a driver whose calls succeed, rows read in the order
  of the table, a process in UTC.\<close>

definition fresh_db :: "('t, 'd) db" where
  "fresh_db = \<lparr>db_main = empty_tables, db_work = None, db_faults = (\<lambda>_. None), db_scan = (\<lambda>x. x),
     db_scan_schedules = (\<lambda>x. x), db_locked = {}, db_closed = False, db_formats = UTC\<rparr>"

text \<open>Scanning the rows of a query one by one.\<close>

fun scan_rows :: "(('t, 'd) row \<Rightarrow> message result) \<Rightarrow> string \<Rightarrow> string \<Rightarrow> ('t, 'd) row list \<Rightarrow> message list result" where
  "scan_rows scan failed queue [] = Inr []"
| "scan_rows scan failed queue (r # rs) =
     (case scan r of
        Inl e \<Rightarrow> Inl (ErrWrap failed e)
      | Inr m \<Rightarrow> (case scan_rows scan failed queue rs of Inl e \<Rightarrow> Inl e | Inr ms \<Rightarrow> Inr (m\<lparr>mQueue := queue\<rparr> # ms)))"

text \<open>The loop of \<open>Dequeue\<close> that marks the rows it has read.\<close>

fun mark_loop :: "string \<Rightarrow> string \<Rightarrow> message list \<Rightarrow> ('t, 'd, unit) action" where
  "mark_loop failed queue [] = ret ()"
| "mark_loop failed queue (m # ms) =
     andThen (wrap failed (exec (update_messages (\<lambda>r. rID r = mID m \<and> rQueue r = queue) (\<lambda>r. r\<lparr>rStatus := Processing\<rparr>))))
       (\<lambda>_. mark_loop failed queue ms)"

definition give :: "'a result \<Rightarrow> ('t, 'd, 'a) action" where
  "give r s = (r, s)"

definition get_formats :: "('t, 'd, formats) action" where
  "get_formats s = (Inr (db_formats s), s)"

subsection \<open>What an action can do\<close>

text \<open>The database without the errors the driver is going to return.\<close>

definition core :: "('t, 'd) db \<Rightarrow> ('t, 'd) db" where
  "core s = s\<lparr>db_faults := \<lambda>_. None\<rparr>"

definition effect :: "('t, 'd, 'a) action \<Rightarrow> ('t, 'd) db \<Rightarrow> 'a result \<Rightarrow> ('t, 'd) db \<Rightarrow> bool" where
  "effect m c r c' \<longleftrightarrow> (\<exists>s s'. core s = c \<and> m s = (r, s') \<and> core s' = c')"

named_theorems effect_elims "elimination rules for effect"

lemma core_sel [simp]:
  "db_main (core s) = db_main s" "db_work (core s) = db_work s" "db_scan (core s) = db_scan s"
  "db_scan_schedules (core s) = db_scan_schedules s" "db_closed (core s) = db_closed s"
  "db_locked (core s) = db_locked s" "db_formats (core s) = db_formats s"
  by (simp_all add: core_def)

lemma core_upd [simp]:
  "core (s\<lparr>db_main := t\<rparr>) = (core s)\<lparr>db_main := t\<rparr>" "core (s\<lparr>db_work := w\<rparr>) = (core s)\<lparr>db_work := w\<rparr>"
  "core (s\<lparr>db_closed := b\<rparr>) = (core s)\<lparr>db_closed := b\<rparr>" "core (s\<lparr>db_faults := f\<rparr>) = core s"
  by (simp_all add: core_def)

lemma current_core [simp]: "current (core s) = current s" "current (s\<lparr>db_faults := f\<rparr>) = current s"
  by (simp_all add: current_def split: option.split)

lemma core_put: "core (put t s) = put t (core s)"
  by (simp add: put_def split: option.split)

lemma effectI: "m s = (r, s') \<Longrightarrow> effect m (core s) r (core s')"
  by (auto simp: effect_def)

lemma effect_retE [effect_elims]:
  assumes "effect (ret x) c r c'"
  obtains "r = Inr x" "c' = c"
  using assms by (auto simp: effect_def ret_def)

lemma effect_failE [effect_elims]:
  assumes "effect (fail e) c r c'"
  obtains "r = Inl e" "c' = c"
  using assms by (auto simp: effect_def fail_def)

lemma effect_giveE [effect_elims]:
  assumes "effect (give x) c r c'"
  obtains "r = x" "c' = c"
  using assms by (auto simp: effect_def give_def)

lemma effect_get_formatsE [effect_elims]:
  assumes "effect get_formats c r c'"
  obtains "r = Inr (db_formats c)" "c' = c"
  using assms by (auto simp: effect_def get_formats_def)

lemma effect_andThenE [effect_elims]:
  assumes "effect (andThen m f) c r c'"
  obtains (failed) e where "r = Inl e" "effect m c (Inl e) c'"
    | (ok) x c1 where "effect m c (Inr x) c1" "effect (f x) c1 r c'"
  using assms unfolding effect_def andThen_def by (fastforce split: prod.splits sum.splits)

lemma effect_wrapE [effect_elims]:
  assumes "effect (wrap msg m) c r c'"
  obtains (failed) e where "r = Inl (ErrWrap msg e)" "effect m c (Inl e) c'"
    | (ok) x where "r = Inr x" "effect m c (Inr x) c'"
  using assms unfolding effect_def wrap_def by (fastforce split: prod.splits sum.splits)

lemma effect_callE [effect_elims]:
  assumes "effect call c r c'"
  obtains (failed) e where "r = Inl e" "c' = c"
    | (ok) "r = Inr ()" "c' = c"
  using assms unfolding effect_def call_def by (cases r) (auto split: if_splits option.splits)

lemma call_cases:
  obtains e s' where "call s = (Inl e, s')" "core s' = core s"
    | s' where "call s = (Inr (), s')" "core s' = core s" "current s' = current s" "db_scan s' = db_scan s"
      "db_scan_schedules s' = db_scan_schedules s" "db_main s' = db_main s" "db_locked s' = db_locked s"
  by (cases "db_closed s"; cases "db_faults s 0") (simp_all add: call_def)

lemma effect_execE [effect_elims]:
  assumes "effect (exec f) c r c'"
  obtains (failed) e where "r = Inl e" "c' = c"
    | (ok) x t where "r = Inr x" "f (current c) = (Inr x, t)" "c' = put t c"
proof -
  from assms obtain s s' where c: "core s = c" "exec f s = (r, s')" "core s' = c'" by (auto simp: effect_def)
  show thesis
  proof (rule call_cases [of s])
    fix e s1 assume "call s = (Inl e, s1)" "core s1 = core s"
    with c show thesis by (intro that(1) [of e]) (auto simp: exec_def andThen_def)
  next
    fix s1 assume s1: "call s = (Inr (), s1)" "core s1 = core s" "current s1 = current s"
    have "current c = current s" using c(1) by auto
    with c s1 that show thesis
      by (cases "f (current s)"; cases "fst (f (current s))") (auto simp: exec_def andThen_def core_put)
  qed
qed

lemma effect_queryE [effect_elims]:
  assumes "effect (query f) c r c'"
  obtains (failed) e where "r = Inl e" "c' = c"
    | (ok) "r = Inr (f (db_scan c (t_messages (current c))))" "c' = c"
proof -
  from assms obtain s s' where c: "core s = c" "query f s = (r, s')" "core s' = c'" by (auto simp: effect_def)
  show thesis
    using c that by (cases s rule: call_cases) (auto simp: query_def andThen_def)
qed

lemma effect_query_skip_lockedE [effect_elims]:
  assumes "effect (query_skip_locked f) c r c'"
  obtains (failed) e where "r = Inl e" "c' = c"
    | (ok) "r = Inr (f (filter (\<lambda>r. rID r \<notin> db_locked c) (db_scan c (t_messages (current c)))))" "c' = c"
proof -
  from assms obtain s s' where c: "core s = c" "query_skip_locked f s = (r, s')" "core s' = c'" by (auto simp: effect_def)
  show thesis
    using c that by (cases s rule: call_cases) (auto simp: query_skip_locked_def andThen_def)
qed

lemma effect_query_statsE [effect_elims]:
  assumes "effect (query_stats q) c r c'"
  obtains (failed) e where "r = Inl e" "c' = c"
    | (ok) "r = Inr (t_stats (current c) q)" "c' = c"
proof -
  from assms obtain s s' where c: "core s = c" "query_stats q s = (r, s')" "core s' = c'" by (auto simp: effect_def)
  show thesis
    using c that by (cases s rule: call_cases) (auto simp: query_stats_def andThen_def)
qed

lemma effect_query_schedulesE [effect_elims]:
  assumes "effect (query_schedules f) c r c'"
  obtains (failed) e where "r = Inl e" "c' = c"
    | (ok) "r = Inr (f (db_scan_schedules c (t_schedules (current c))))" "c' = c"
proof -
  from assms obtain s s' where c: "core s = c" "query_schedules f s = (r, s')" "core s' = c'" by (auto simp: effect_def)
  show thesis
    using c that by (cases s rule: call_cases) (auto simp: query_schedules_def andThen_def)
qed

lemma effect_BeginE [effect_elims]:
  assumes "effect Begin c r c'"
  obtains (failed) e where "r = Inl e" "c' = c"
    | (ok) "r = Inr ()" "c' = c\<lparr>db_work := Some (db_main c)\<rparr>"
proof -
  from assms obtain s s' where c: "core s = c" "Begin s = (r, s')" "core s' = c'" by (auto simp: effect_def)
  show thesis
    using c that by (cases s rule: call_cases) (auto simp: Begin_def andThen_def)
qed

lemma effect_CommitE [effect_elims]:
  assumes "effect Commit c r c'"
  obtains (failed) e where "r = Inl e" "c' = c"
    | (ok) "r = Inr ()" "c' = c\<lparr>db_main := current c, db_work := None\<rparr>"
proof -
  from assms obtain s s' where c: "core s = c" "Commit s = (r, s')" "core s' = c'" by (auto simp: effect_def)
  show thesis
    using c that by (cases s rule: call_cases) (auto simp: Commit_def andThen_def)
qed

lemma effect_rolling_backE [effect_elims]:
  assumes "effect (rolling_back m) c r c'"
  obtains c1 where "effect m c r c1" "c' = c1\<lparr>db_work := None\<rparr>"
  using assms unfolding effect_def rolling_back_def by (fastforce split: prod.splits)

lemma effect_transactionE [effect_elims]:
  assumes "effect (transaction b body) c r c'" "db_work c = None"
  obtains (failed) e where "r = Inl e" "c' = c"
    | (ok) c1 where "effect (body ()) (c\<lparr>db_work := Some (db_main c)\<rparr>) r c1" "c' = c1\<lparr>db_work := None\<rparr>"
proof -
  have same: "c\<lparr>db_work := None\<rparr> = c" using assms(2) by simp
  show thesis
    using assms(1) that unfolding transaction_def by (auto elim!: effect_elims simp: same)
qed

lemma current_tx [simp]: "db_work c = Some w \<Longrightarrow> current c = w" "db_work c = None \<Longrightarrow> current c = db_main c"
  by (simp_all add: current_def)

lemma put_tx [simp]: "db_work c = Some w \<Longrightarrow> put t c = c\<lparr>db_work := Some t\<rparr>" "db_work c = None \<Longrightarrow> put t c = c\<lparr>db_main := t\<rparr>"
  by (simp_all add: put_def)

subsection \<open>The identifiers in the tables\<close>

definition ids :: "status \<Rightarrow> string \<Rightarrow> ('t, 'd) row list \<Rightarrow> string multiset" where
  "ids st q rows = mset (map rID (filter (\<lambda>r. rStatus r = st \<and> rQueue r = q) rows))"

definition rows_view :: "('t, 'd) row list \<Rightarrow> qabs" where
  "rows_view rows = \<lparr>aPend = (\<lambda>q. ids Pending q rows), aInfl = (\<lambda>q. set_mset (ids Processing q rows)),
     aDead = (\<lambda>q. ids Dead (q @ ''.dlq'') rows)\<rparr>"

definition db_view :: "('t, 'd) db \<Rightarrow> qabs" where
  "db_view s = rows_view (t_messages (db_main s))"

text \<open>The primary key, no open transaction between two methods, and scans that read every row once.\<close>

definition key_ok :: "('t, 'd) row list \<Rightarrow> bool" where
  "key_ok rows \<longleftrightarrow> distinct (map rID rows)"

definition scans_ok :: "('t, 'd) db \<Rightarrow> bool" where
  "scans_ok s \<longleftrightarrow> (\<forall>rows. mset (db_scan s rows) = mset rows) \<and> (\<forall>rows. mset (db_scan_schedules s rows) = mset rows)"

definition db_ok :: "('t, 'd) db \<Rightarrow> bool" where
  "db_ok s \<longleftrightarrow> key_ok (t_messages (db_main s)) \<and> db_work s = None \<and> scans_ok s"

lemma rows_view_sel [simp]:
  "aPend (rows_view rows) q = ids Pending q rows" "aInfl (rows_view rows) q = set_mset (ids Processing q rows)"
  "aDead (rows_view rows) q = ids Dead (q @ ''.dlq'') rows"
  by (simp_all add: rows_view_def)

lemma ids_simps [simp]:
  "ids st q [] = {#}"
  "ids st q (r # rows) = (if rStatus r = st \<and> rQueue r = q then add_mset (rID r) (ids st q rows) else ids st q rows)"
  "ids st q (rows @ rows') = ids st q rows + ids st q rows'"
  by (simp_all add: ids_def)

lemma in_ids: "i \<in># ids st q rows \<longleftrightarrow> (\<exists>r \<in> set rows. rID r = i \<and> rStatus r = st \<and> rQueue r = q)"
  by (auto simp: ids_def)

lemma ids_mset_cong: "mset rows = mset rows' \<Longrightarrow> ids st q rows = ids st q rows'"
  unfolding ids_def mset_map mset_filter by simp

lemma count_ids: "key_ok rows \<Longrightarrow> count (ids st q rows) i \<le> 1"
proof (induction rows)
  case (Cons r rows)
  have "rID r \<notin># ids st q rows" using Cons.prems by (auto simp: in_ids key_ok_def intro: rev_image_eqI)
  then have "count (ids st q rows) (rID r) = 0" by (simp add: not_in_iff)
  moreover have "count (ids st q rows) i \<le> 1" using Cons by (simp add: key_ok_def)
  ultimately show ?case by (cases "i = rID r") simp_all
qed (simp add: key_ok_def)

lemma key_unique: "key_ok rows \<Longrightarrow> r \<in> set rows \<Longrightarrow> r' \<in> set rows \<Longrightarrow> rID r = rID r' \<Longrightarrow> r = r'"
  unfolding key_ok_def by (metis distinct_map inj_onD)

text \<open>The primary key alone makes the places of an identifier exclusive.\<close>

lemma rows_view_exclusive:
  assumes "key_ok rows"
  shows "exclusive (rows_view rows)"
proof -
  have one: "st = st' \<and> q = q'" if "i \<in># ids st q rows" "i \<in># ids st' q' rows" for st st' q q' i
    using that key_unique [OF assms] by (auto simp: in_ids)
  have "places (rows_view rows) q i \<le> 1" for q i
  proof -
    let ?p = "ids Pending q rows" and ?d = "ids Dead (q @ ''.dlq'') rows" and ?f = "ids Processing q rows"
    have "\<not> (i \<in># ?p \<and> i \<in># ?d)" "\<not> (i \<in># ?p \<and> i \<in># ?f)" "\<not> (i \<in># ?d \<and> i \<in># ?f)"
      using one by blast+
    then consider "count ?p i = 0" "count ?d i = 0" | "count ?p i = 0" "i \<notin># ?f" | "count ?d i = 0" "i \<notin># ?f"
      by (metis not_in_iff)
    then show ?thesis
      using count_ids [OF assms, of Pending q i] count_ids [OF assms, of Dead "q @ ''.dlq''" i]
      by cases (simp_all add: places_def)
  qed
  then show ?thesis by (simp add: exclusive_def)
qed

subsection \<open>The statements on the identifiers\<close>

lemma ids_filter_in_process:
  "ids st q' (filter (\<lambda>r. \<not> in_process i q r) rows) =
     (if st = Processing \<and> q' = q then filter_mset (\<lambda>j. j \<noteq> i) (ids st q rows) else ids st q' rows)"
  by (induction rows) (auto simp: in_process_def)

lemma ids_filter_is_dead:
  "ids st q' (filter (\<lambda>r. \<not> is_dead i q r) rows) =
     (if st = Dead \<and> q' = q @ ''.dlq'' then filter_mset (\<lambda>j. j \<noteq> i) (ids st q' rows) else ids st q' rows)"
  by (induction rows) (auto simp: is_dead_def)

lemma key_ok_filter [simp]: "key_ok rows \<Longrightarrow> key_ok (filter P rows)"
  by (simp add: key_ok_def distinct_map_filter)

lemma key_ok_map [simp]: "(\<And>r. rID (f r) = rID r) \<Longrightarrow> key_ok (map f rows) = key_ok rows"
  by (simp add: key_ok_def comp_def)

lemma key_ok_append1 [simp]: "key_ok (rows @ [r]) \<longleftrightarrow> key_ok rows \<and> rID r \<notin> rID ` set rows"
  by (auto simp: key_ok_def)

lemma key_ok_mset: "mset rows = mset rows' \<Longrightarrow> key_ok rows = key_ok rows'"
  unfolding key_ok_def by (metis mset_eq_imp_distinct_iff mset_map)

lemma filter_one: "count M i \<le> 1 \<Longrightarrow> filter_mset (\<lambda>j. j \<noteq> i) M = M - {#i#}"
  by (rule multiset_eqI) auto

text \<open>Marking the dequeued rows.\<close>

definition mark :: "string \<Rightarrow> string set \<Rightarrow> ('t, 'd) row \<Rightarrow> ('t, 'd) row" where
  "mark q I r = (if rID r \<in> I \<and> rQueue r = q then r\<lparr>rStatus := Processing\<rparr> else r)"

lemma mark_sel [simp]: "rID (mark q I r) = rID r" "rQueue (mark q I r) = rQueue r"
  "rStatus (mark q I r) = (if rID r \<in> I \<and> rQueue r = q then Processing else rStatus r)"
  by (simp_all add: mark_def)

lemma ids_mark_pending: "ids Pending q' (map (mark q I) rows) = (if q' = q then filter_mset (\<lambda>j. j \<notin> I) (ids Pending q rows) else ids Pending q' rows)"
  by (induction rows) (auto)

lemma ids_mark_dead: "(\<And>r. r \<in> set rows \<Longrightarrow> rID r \<in> I \<Longrightarrow> rStatus r = Pending) \<Longrightarrow>
    ids Dead q' (map (mark q I) rows) = ids Dead q' rows"
proof (induction rows)
  case (Cons r rows)
  then have "ids Dead q' (map (mark q I) rows) = ids Dead q' rows" "rID r \<in> I \<Longrightarrow> rStatus r = Pending" by simp_all
  then show ?case by (cases "rID r \<in> I") (simp_all)
qed simp

lemma set_ids_mark_processing:
  "set_mset (ids Processing q' (map (mark q I) rows)) =
     set_mset (ids Processing q' rows) \<union> (if q' = q then {i \<in> I. \<exists>r \<in> set rows. rID r = i \<and> rQueue r = q} else {})"
proof (induction rows)
  case (Cons r rows)
  show ?case
  proof (cases "rID r \<in> I \<and> rQueue r = q")
    case True
    with Cons show ?thesis by (cases "q' = q") (auto)
  next
    case False
    with Cons show ?thesis by (cases "q' = q") (auto)
  qed
qed simp

lemma filter_mset_diff:
  assumes "\<And>i. count M i \<le> 1" "mset xs \<subseteq># M"
  shows "filter_mset (\<lambda>j. j \<notin> set xs) M = M - mset xs"
proof (rule multiset_eqI)
  fix i
  show "count (filter_mset (\<lambda>j. j \<notin> set xs) M) i = count (M - mset xs) i"
  proof (cases "i \<in> set xs")
    case True
    then have "1 \<le> count (mset xs) i" by (simp add: Suc_le_eq)
    then have "count M i \<le> count (mset xs) i" using assms(1) [of i] by (rule le_trans [rotated])
    with True show ?thesis by simp
  next
    case False
    then have "count (mset xs) i = 0" by (simp add: count_mset_0_iff)
    then show ?thesis by (simp only: count_filter_mset count_diff False) simp
  qed
qed

lemma rows_view_mark:
  assumes "key_ok rows" "mset xs \<subseteq># ids Pending q rows"
  shows "rows_view (map (mark q (set xs)) rows) = a_Dequeue q xs (rows_view rows)"
proof (rule qabs_eqI)
  have pend: "rStatus r = Pending \<and> rQueue r = q" if "r \<in> set rows" "rID r \<in> set xs" for r
  proof -
    from that(2) assms(2) have "rID r \<in># ids Pending q rows" by (meson in_multiset_in_set mset_subset_eqD)
    then show ?thesis using that(1) key_unique [OF assms(1)] by (auto simp: in_ids)
  qed
  have "{i \<in> set xs. \<exists>r \<in> set rows. rID r = i \<and> rQueue r = q} = set xs"
  proof -
    have "i \<in> set xs \<Longrightarrow> i \<in># ids Pending q rows" for i using assms(2) by (meson in_multiset_in_set mset_subset_eqD)
    then show ?thesis by (fastforce simp: in_ids)
  qed
  then show "aPend (rows_view (map (mark q (set xs)) rows)) q' = aPend (a_Dequeue q xs (rows_view rows)) q'"
    "aInfl (rows_view (map (mark q (set xs)) rows)) q' = aInfl (a_Dequeue q xs (rows_view rows)) q'"
    "aDead (rows_view (map (mark q (set xs)) rows)) q' = aDead (a_Dequeue q xs (rows_view rows)) q'" for q'
    using ids_mark_dead [of rows "set xs" "q' @ ''.dlq''" q] pend
    by (simp_all add: a_defs ids_mark_pending set_ids_mark_processing filter_mset_diff [OF count_ids [OF assms(1)] assms(2)])
qed

subsection \<open>The contract on the committed rows\<close>

lemma db_view_core [simp]: "db_view (core s) = db_view s"
  by (simp add: db_view_def)

lemma db_ok_core [simp]: "db_ok (core s) = db_ok s"
  by (simp add: db_ok_def scans_ok_def)

text \<open>A statement on another table leaves the messages alone.\<close>

lemma effect_exec_frame:
  assumes "effect (exec f) c r c'" "db_ok c" "\<And>t x t'. f t = (Inr x, t') \<Longrightarrow> t_messages t' = t_messages t"
  shows "db_ok c' \<and> db_view c' = db_view c"
  using assms(1)
proof (cases rule: effect_execE)
  case (ok x t)
  with assms(2,3) show ?thesis
    by (auto simp: db_ok_def db_view_def put_def current_def scans_ok_def split: option.splits)
qed (use assms(2) in simp)

text \<open>
  Each of the abstract transitions of the contract, as what the statements of a method do to the
  rows. \<open>user\<close> queues receive pending rows, dead-letter queues dead ones.
\<close>

definition new_row :: "('t, 'd) row \<Rightarrow> string \<Rightarrow> string \<Rightarrow> bool" where
  "new_row r i q \<longleftrightarrow> rID r = i \<and> rQueue r = q \<and> rStatus r = (if user_queue q then Pending else Dead)"

lemma not_user_dlq: "\<not> user_queue (q @ ''.dlq'')"
  by (simp add: user_queue_def)

lemma rows_view_append:
  "new_row r i q \<Longrightarrow> user_queue q \<Longrightarrow> rows_view (rows @ [r]) = a_Enqueue q i (rows_view rows)"
  by (rule qabs_eqI) (auto simp: new_row_def a_defs)

lemma rows_view_delete:
  "rows_view (filter (\<lambda>r. \<not> in_process i q r) rows) = a_AckBatch q [i] (rows_view rows)"
  by (rule qabs_eqI) (auto simp: a_defs ids_filter_in_process)

lemma rows_view_retry:
  assumes "new_row r i q" "user_queue q"
  shows "rows_view (filter (\<lambda>r. \<not> in_process i q r) rows @ [r]) = a_Retry q i (rows_view rows)"
  using assms by (intro qabs_eqI) (auto simp: new_row_def a_defs ids_filter_in_process)

lemma rows_view_replay:
  assumes "new_row r i q" "user_queue q" "key_ok rows"
  shows "rows_view (filter (\<lambda>r. \<not> is_dead i q r) rows @ [r]) = a_Replay q i (rows_view rows)"
  using assms filter_one [OF count_ids [OF assms(3)]]
  by (intro qabs_eqI) (auto simp: new_row_def a_defs ids_filter_is_dead)

definition kill :: "string \<Rightarrow> string \<Rightarrow> (('t, 'd) row \<Rightarrow> ('t, 'd) row) \<Rightarrow> ('t, 'd) row list \<Rightarrow> ('t, 'd) row list" where
  "kill i q f rows = map (\<lambda>r. if in_process i q r then f r else r) rows"

lemma update_messages_kill:
  "update_messages (in_process i q) f t = (Inr (length (filter (in_process i q) (t_messages t))), t\<lparr>t_messages := kill i q f (t_messages t)\<rparr>)"
  by (simp add: update_messages_def kill_def)

lemma ids_update_dead:
  assumes "\<And>r. rID (f r) = rID r \<and> rQueue (f r) = rQueue r \<and> rStatus (f r) = Dead"
  shows "ids Pending q' (kill i q f rows) = ids Pending q' rows"
    "ids Processing q' (kill i q f rows) =
       (if q' = q then filter_mset (\<lambda>j. j \<noteq> i) (ids Processing q rows) else ids Processing q' rows)"
    "q' \<noteq> q \<Longrightarrow> ids Dead q' (kill i q f rows) = ids Dead q' rows"
  using assms by (induction rows) (auto simp: in_process_def kill_def)

lemma kill_key_ok: "(\<And>r. rID (f r) = rID r) \<Longrightarrow> key_ok (kill i q f rows) = key_ok rows"
  unfolding kill_def by (rule key_ok_map) simp

lemma rows_view_dead_letter:
  assumes "new_row r nid (q @ ''.dlq'')" "user_queue q"
    "\<And>r. rID (f r) = rID r \<and> rQueue (f r) = rQueue r \<and> rStatus (f r) = Dead"
  shows "rows_view (kill i q f (rows @ [r])) = a_DeadLetter q i nid (rows_view rows)"
proof -
  have r: "rID r = nid" "rQueue r = q @ ''.dlq''" "rStatus r = Dead"
    using assms(1) not_user_dlq [of q] by (simp_all add: new_row_def)
  have dlq: "q' @ ''.dlq'' \<noteq> q" for q' using assms(2) not_user_dlq by metis
  show ?thesis
    using r dlq by (intro qabs_eqI) (auto simp: a_defs ids_update_dead [OF assms(3)])
qed

text \<open>Rows of a primary key: a deletion by identifier affects at most one row.\<close>

lemma filter_key_le: "key_ok rows \<Longrightarrow> length (filter (\<lambda>r. rID r = i \<and> P r) rows) \<le> 1"
proof (induction rows)
  case (Cons r rows)
  show ?case
  proof (cases "rID r = i \<and> P r")
    case True
    have "filter (\<lambda>r. rID r = i \<and> P r) rows = []"
      using Cons.prems True by (auto simp: key_ok_def filter_empty_conv intro: rev_image_eqI)
    with True show ?thesis by simp
  next
    case False
    with Cons show ?thesis by (auto simp: key_ok_def)
  qed
qed simp

lemma db_work_reset [simp]: "db_work c = None \<Longrightarrow> c\<lparr>db_work := None\<rparr> = c"
  by simp

text \<open>A transaction either leaves the committed tables alone or replaces them by what its body built.\<close>

definition same_scans :: "('t, 'd) db \<Rightarrow> ('t, 'd) db \<Rightarrow> bool" where
  "same_scans c c1 \<longleftrightarrow> db_scan c1 = db_scan c \<and> db_scan_schedules c1 = db_scan_schedules c"

lemma transaction_law:
  assumes "effect (transaction b body) c r c'" "db_ok c"
    and "\<And>r c1. effect (body ()) (c\<lparr>db_work := Some (db_main c)\<rparr>) r c1 \<Longrightarrow>
      same_scans c c1 \<and> (db_main c1 = db_main c \<and> P r \<or> key_ok (t_messages (db_main c1)) \<and> Q r (t_messages (db_main c1)))"
    and "\<And>e. P (Inl e)"
  shows "db_ok c' \<and> (db_main c' = db_main c \<and> P r \<or> Q r (t_messages (db_main c')))"
proof -
  have w: "db_work c = None" using assms(2) by (simp add: db_ok_def)
  from assms(1) w show ?thesis
  proof (cases rule: effect_transactionE)
    case (failed e)
    with assms(2,4) show ?thesis by simp
  next
    case (ok c1)
    from assms(3) [OF ok(1)] show ?thesis
      using assms(2) ok(2) by (auto simp: db_ok_def scans_ok_def same_scans_def)
  qed
qed

lemma transaction_on_ok:
  assumes "effect (transaction b body) c r c'" "db_ok c"
    and "\<And>r c1. effect (body ()) (c\<lparr>db_work := Some (db_main c)\<rparr>) r c1 \<Longrightarrow>
      same_scans c c1 \<and> ((\<exists>e. r = Inl e) \<and> db_main c1 = db_main c \<or>
        (\<exists>x. r = Inr x) \<and> key_ok (t_messages (db_main c1)) \<and>
        rows_view (t_messages (db_main c1)) = A (rows_view (t_messages (db_main c))))"
  shows "db_ok c' \<and> db_view c' = on_ok r (A (db_view c)) (db_view c)"
proof -
  have "db_ok c' \<and> (db_main c' = db_main c \<and> (\<exists>e. r = Inl e) \<or>
      (\<exists>x. r = Inr x) \<and> rows_view (t_messages (db_main c')) = A (rows_view (t_messages (db_main c))))"
    by (rule transaction_law [OF assms(1,2)]) (use assms(3) in blast)+
  then show ?thesis by (auto simp: db_view_def)
qed

lemma mark_loop_effect:
  fixes c :: "('a, 'b) db"
  assumes "effect (mark_loop failed q ms) c r c'" "db_work c = Some w"
  shows "(\<exists>e. r = Inl e \<and> db_main c' = db_main c \<and> same_scans c c') \<or>
    (r = Inr () \<and> c' = c\<lparr>db_work := Some (w\<lparr>t_messages := map (mark q (mID ` set ms)) (t_messages w)\<rparr>)\<rparr>)"
  using assms
proof (induction ms arbitrary: c w)
  case Nil
  have "map (mark q {}) rows = rows" for rows :: "('a, 'b) row list"
    by (rule map_idI) (simp add: mark_def)
  then have "c\<lparr>db_work := Some (w\<lparr>t_messages := map (mark q {}) (t_messages w)\<rparr>)\<rparr> = c" using Nil.prems(2) by simp
  then show ?case using Nil by (auto elim!: effect_retE)
next
  case (Cons m ms)
  let ?rows = "map (mark q {mID m}) (t_messages w)"
  let ?c1 = "c\<lparr>db_work := Some (w\<lparr>t_messages := ?rows\<rparr>)\<rparr>"
  have upd: "map (\<lambda>r. if rID r = mID m \<and> rQueue r = q then r\<lparr>rStatus := Processing\<rparr> else r) rows = map (mark q {mID m}) rows"
    for rows :: "('a, 'b) row list" by (simp add: mark_def)
  have two: "mark q I \<circ> mark q {i} = mark q (insert i I)" for I i by (auto simp: mark_def fun_eq_iff)
  from Cons.prems consider e where "r = Inl e" "db_main c' = db_main c" "same_scans c c'"
    | "effect (mark_loop failed q ms) ?c1 r c'"
    unfolding mark_loop.simps by (auto elim!: effect_elims simp: update_messages_def upd same_scans_def)
  then show ?case
  proof cases
    case 2
    from Cons.IH [OF this, of "w\<lparr>t_messages := ?rows\<rparr>"] show ?thesis by (simp add: same_scans_def two)
  qed blast
qed

lemma scan_rows_ids:
  assumes "\<And>r m. scan r = Inr m \<Longrightarrow> mID m = rID r" "scan_rows scan failed q rows = Inr ms"
  shows "map mID ms = map rID rows"
  using assms(2)
proof (induction rows arbitrary: ms)
  case (Cons r rows)
  then show ?case by (auto split: sum.splits dest: assms(1))
qed simp

lemma depth_scan:
  assumes "mset rows = mset rows'"
  shows "length (filter (\<lambda>r. rQueue r = q \<and> rStatus r = Pending) rows) = size (ids Pending q rows')"
proof -
  have "length (filter (\<lambda>r. rQueue r = q \<and> rStatus r = Pending) rows) = size (ids Pending q rows)"
    by (simp add: ids_def conj_commute del: mset_map mset_filter)
  then show ?thesis by (simp add: ids_mset_cong [OF assms])
qed

end
