(* ===== verification/Go_Time.thy ===== *)
theory Go_Time
  imports Shoebox_Prelude
begin

text \<open>
  The part of package \<open>time\<close> that the SQLite backend stores times with: \<open>Time.Format\<close> and
  \<open>time.Parse\<close> with the layout \<open>RFC3339Nano\<close>, and the byte-wise comparison of texts that SQLite
  (collation \<open>BINARY\<close>) sorts and compares them with.

  A time of the model is an instant and has no location; what \<open>Format\<close> writes depends on the location
  through its offset from UTC at that instant, in seconds east of Greenwich, an argument here. In UTC
  the text ends in \<open>Z\<close>, elsewhere in a sign, hours and minutes. \<open>format_parse\<close> is the round trip;
  \<open>text_order_clock\<close> and \<open>text_order_exact\<close> say how far the order of the texts follows the order of the
  times: texts compare the readings of the wall clocks; with one offset other than zero their order
  is that of the instants, in UTC only to the second.
\<close>

subsection \<open>Decimal fields\<close>

definition digit :: "nat \<Rightarrow> char" where
  "digit n = char_of (48 + n)"

fun digits :: "nat \<Rightarrow> nat \<Rightarrow> string" where
  "digits 0 n = []"
| "digits (Suc w) n = digits w (n div 10) @ [digit (n mod 10)]"

definition digit_val :: "char \<Rightarrow> nat option" where
  "digit_val c = (let n = of_char c in if 48 \<le> n \<and> n \<le> 57 then Some (n - 48) else None)"

fun number :: "nat \<Rightarrow> string \<Rightarrow> nat option" where
  "number acc [] = Some acc"
| "number acc (c # cs) = (case digit_val c of None \<Rightarrow> None | Some d \<Rightarrow> number (10 * acc + d) cs)"

subsection \<open>The calendar\<close>

definition leap :: "nat \<Rightarrow> bool" where
  "leap y \<longleftrightarrow> y mod 4 = 0 \<and> (y mod 100 \<noteq> 0 \<or> y mod 400 = 0)"

text \<open>Days of a year before month \<open>m\<close> (counted from 0), as in the table \<open>daysBefore\<close>.\<close>

definition days_before :: "bool \<Rightarrow> nat \<Rightarrow> nat" where
  "days_before l m = [0, 31, 59, 90, 120, 151, 181, 212, 243, 273, 304, 334, 365] ! m + (if l \<and> 2 \<le> m then 1 else 0)"

text \<open>Days from 1 January of the year 1 to 1 January of the year \<open>y + 1\<close>.\<close>

definition days_to_year :: "nat \<Rightarrow> nat" where
  "days_to_year y = 365 * y + y div 4 - y div 100 + y div 400"

text \<open>Year (from 1) and day of the year (from 0) of a day: cycles of 400, 100, 4 and 1 years.\<close>

definition year_day :: "nat \<Rightarrow> nat \<times> nat" where
  "year_day d =
     (let n400 = d div 146097; d = d mod 146097;
          n100 = min 3 (d div 36524); d = d - 36524 * n100;
          n4 = d div 1461; d = d mod 1461;
          n1 = min 3 (d div 365); d = d - 365 * n1
      in (400 * n400 + 100 * n100 + 4 * n4 + n1 + 1, d))"

definition month_of :: "bool \<Rightarrow> nat \<Rightarrow> nat" where
  "month_of l yday = length (filter (\<lambda>m. days_before l m \<le> yday) [1..<12])"

subsection \<open>Format and Parse\<close>

definition stamp :: "nat \<Rightarrow> string" where
  "stamp secs =
     (let (y, yday) = year_day (secs div 86400); s = secs mod 86400; m = month_of (leap y) yday
      in digits 4 y @ ''-'' @ digits 2 (m + 1) @ ''-'' @ digits 2 (yday - days_before (leap y) m + 1) @ ''T'' @
         digits 2 (s div 3600) @ '':'' @ digits 2 (s mod 3600 div 60) @ '':'' @ digits 2 (s mod 60))"

definition trim_zeros :: "string \<Rightarrow> string" where
  "trim_zeros s = rev (dropWhile (\<lambda>c. c = CHR ''0'') (rev s))"

definition fraction :: "nat \<Rightarrow> string" where
  "fraction ns = (if ns = 0 then [] else ''.'' @ trim_zeros (digits 9 ns))"

definition giga :: int where "giga = 1000000000"

text \<open>The zone of the layout, \<open>Z07:00\<close>: the offset in minutes, truncated toward zero.\<close>

definition zone_text :: "int \<Rightarrow> string" where
  "zone_text off =
     (if off = 0 then ''Z''
      else let zone = nat (\<bar>off\<bar> div 60)
           in (if off \<le> - 60 then ''-'' else ''+'') @ digits 2 (zone div 60) @ '':'' @ digits 2 (zone mod 60))"

text \<open>The reading of the clock, in seconds, at a place with this offset.\<close>

definition clock :: "int \<Rightarrow> time \<Rightarrow> int" where
  "clock off t = t div giga + off"

definition Format_RFC3339Nano :: "int \<Rightarrow> time \<Rightarrow> string" where
  "Format_RFC3339Nano off t = stamp (nat (clock off t)) @ fraction (nat (t mod giga)) @ zone_text off"

definition field :: "nat \<Rightarrow> nat \<Rightarrow> string \<Rightarrow> nat option" where
  "field from w s = number 0 (take w (drop from s))"

definition parse_fraction :: "string \<Rightarrow> (nat \<times> string) option" where
  "parse_fraction s =
     (case s of
        c # cs \<Rightarrow>
          if c = CHR ''.''
          then let ds = takeWhile (\<lambda>c. digit_val c \<noteq> None) cs
               in if ds = [] \<or> 9 < length ds then None
                  else map_option (\<lambda>n. (n * 10 ^ (9 - length ds), drop (length ds) cs)) (number 0 ds)
          else Some (0, s)
      | [] \<Rightarrow> None)"

definition parse_zone :: "string \<Rightarrow> int option" where
  "parse_zone z =
     (if z = ''Z'' then Some 0
      else if length z = 6 \<and> (z ! 0 = CHR ''+'' \<or> z ! 0 = CHR ''-'') \<and> z ! 3 = CHR '':''
      then (case (field 1 2 z, field 4 2 z) of
              (Some h, Some m) \<Rightarrow>
                if h \<le> 24 \<and> m < 60 then Some ((if z ! 0 = CHR ''-'' then - 1 else 1) * int (3600 * h + 60 * m)) else None
            | _ \<Rightarrow> None)
      else None)"

definition Parse_RFC3339Nano :: "string \<Rightarrow> time option" where
  "Parse_RFC3339Nano s =
     (if length s < 20 \<or> s ! 4 \<noteq> CHR ''-'' \<or> s ! 7 \<noteq> CHR ''-'' \<or> s ! 10 \<noteq> CHR ''T'' \<or>
         s ! 13 \<noteq> CHR '':'' \<or> s ! 16 \<noteq> CHR '':'' then None
      else case (field 0 4 s, field 5 2 s, field 8 2 s, field 11 2 s, field 14 2 s, field 17 2 s) of
             (Some y, Some m, Some d, Some h, Some mi, Some sec) \<Rightarrow>
               if 1 \<le> m \<and> m \<le> 12 \<and> 1 \<le> d \<and> d \<le> days_before (leap y) m - days_before (leap y) (m - 1) \<and>
                  h < 24 \<and> mi < 60 \<and> sec < 60 \<and> 1 \<le> y
               then (case parse_fraction (drop 19 s) of
                       None \<Rightarrow> None
                     | Some (ns, z) \<Rightarrow>
                         (case parse_zone z of
                            None \<Rightarrow> None
                          | Some off \<Rightarrow>
                              Some (giga * (int (86400 * (days_to_year (y - 1) + days_before (leap y) (m - 1) + d - 1) +
                                                 3600 * h + 60 * mi + sec) - off) + int ns)))
               else None
           | _ \<Rightarrow> None)"

text \<open>The order of texts: byte by byte, a proper prefix first.\<close>

fun text_le :: "string \<Rightarrow> string \<Rightarrow> bool" where
  "text_le [] _ = True"
| "text_le (c # cs) [] = False"
| "text_le (c # cs) (d # ds) =
     ((of_char c :: nat) < of_char d \<or> c = d \<and> text_le cs ds)"

definition text_less :: "string \<Rightarrow> string \<Rightarrow> bool" where
  "text_less s t \<longleftrightarrow> \<not> text_le t s"

text \<open>The readings the four-digit year covers; offsets of whole minutes, less than a day.\<close>

definition time_ok :: "int \<Rightarrow> time \<Rightarrow> bool" where
  "time_ok off t \<longleftrightarrow> 0 \<le> clock off t \<and> clock off t < 315537897600"

definition zone_ok :: "int \<Rightarrow> bool" where
  "zone_ok off \<longleftrightarrow> 60 dvd off \<and> \<bar>off\<bar> < 86400"

subsection \<open>Reading and comparing decimal fields\<close>

lemma length_digits [simp]: "length (digits w n) = w"
  by (induction w n rule: digits.induct) simp_all

lemma of_char_digit: "n < 10 \<Longrightarrow> of_char (digit n) = 48 + n"
  by (simp add: digit_def)

lemma digit_val_digit [simp]: "n < 10 \<Longrightarrow> digit_val (digit n) = Some n"
  by (simp add: digit_val_def of_char_digit)

lemma digit_inject: "a < 10 \<Longrightarrow> b < 10 \<Longrightarrow> digit a = digit b \<longleftrightarrow> a = b"
  using of_char_digit [of a] of_char_digit [of b] by (metis add_left_cancel)

lemma number_append: "number acc (xs @ ys) = (case number acc xs of None \<Rightarrow> None | Some a \<Rightarrow> number a ys)"
  by (induction acc xs rule: number.induct) (auto split: option.splits)

lemma number_digits: "n < 10 ^ w \<Longrightarrow> number acc (digits w n) = Some (acc * 10 ^ w + n)"
proof (induction w n arbitrary: acc rule: digits.induct)
  case (2 w n)
  then have "n div 10 < 10 ^ w" by (simp add: less_mult_imp_div_less mult.commute)
  with 2 show ?case by (simp add: number_append algebra_simps)
qed simp

lemma text_le_refl [simp]: "text_le s s"
  by (induction s) simp_all

lemma text_le_prefix [simp]: "text_le (x @ a) (x @ b) = text_le a b"
  by (induction x) simp_all

lemma text_le_antisym: "text_le a b \<Longrightarrow> text_le b a \<Longrightarrow> a = b"
  by (induction a b rule: text_le.induct) (auto elim: text_le.elims)

lemma text_le_total: "text_le a b \<or> text_le b a"
proof (induction a b rule: text_le.induct)
  case (3 c cs d ds)
  have "(of_char c :: nat) = of_char d \<longleftrightarrow> c = d" by simp
  with 3 show ?case by (auto simp del: of_char_eq_iff)
qed simp_all

lemma text_le_trans: "text_le a b \<Longrightarrow> text_le b c \<Longrightarrow> text_le a c"
proof (induction a b arbitrary: c rule: text_le.induct)
  case (3 x xs y ys)
  then show ?case by (cases c) auto
qed simp_all

lemma text_less_le: "text_less a b \<Longrightarrow> text_le a b"
  using text_le_total by (auto simp: text_less_def)

lemma text_less_prefix [simp]: "text_less (x @ a) (x @ b) = text_less a b"
  by (simp add: text_less_def)

lemma text_less_Cons [simp]: "text_less (c # a) (c # b) = text_less a b"
  by (simp add: text_less_def)

lemma text_less_digit: "a < b \<Longrightarrow> b < 10 \<Longrightarrow> text_less (digit a # x) (digit b # y)"
  by (auto simp: text_less_def of_char_digit digit_inject)

lemma text_less_digits: "a < b \<Longrightarrow> b < 10 ^ w \<Longrightarrow> text_less (digits w a @ x) (digits w b @ y)"
proof (induction w a arbitrary: b x y rule: digits.induct)
  case (2 w a)
  have b: "b div 10 < 10 ^ w" using 2(3) by (simp add: less_mult_imp_div_less mult.commute)
  consider "a div 10 < b div 10" | "a div 10 = b div 10" "a mod 10 < b mod 10"
    using 2(2) by (metis div_le_mono div_mod_decomp less_imp_le nat_add_left_cancel_less order_le_less)
  then show ?case using 2(1) [OF _ b] by cases (simp_all add: text_less_digit)
qed simp

subsection \<open>The calendar\<close>

lemma year_day_bounds:
  assumes "year_day d = (y, yd)"
  shows "d = days_to_year (y - 1) + yd \<and> yd < (if leap y then 366 else 365) \<and> 1 \<le> y"
proof -
  define a where "a = d div 146097"
  define d1 where "d1 = d mod 146097"
  define b where "b = min 3 (d1 div 36524)"
  define d2 where "d2 = d1 - 36524 * b"
  define c where "c = d2 div 1461"
  define d3 where "d3 = d2 mod 1461"
  define e where "e = min 3 (d3 div 365)"
  have y: "y = 400 * a + 100 * b + 4 * c + e + 1" and yd: "yd = d3 - 365 * e"
    using assms by (simp_all only: year_day_def Let_def a_def d1_def b_def d2_def c_def d3_def e_def prod.inject)
  have "d1 < 146097" by (simp add: d1_def)
  then have d2: "b \<le> 3" "d1 = 36524 * b + d2" "b < 3 \<longrightarrow> d2 < 36524" "d2 \<le> 36524"
    unfolding d2_def b_def by (auto simp: min_def)
  have d: "d = 146097 * a + d1" by (simp add: a_def d1_def)
  have d3: "d2 = 1461 * c + d3" "d3 < 1461" by (simp_all add: c_def d3_def)
  with d2(4) have c: "c \<le> 24" by simp
  from d3(2) have e: "e \<le> 3" "d3 = 365 * e + yd" "e < 3 \<longrightarrow> yd < 365" "yd < 366"
    unfolding yd e_def by (auto simp: min_def)
  have div: "(y - 1) div 4 = 100 * a + 25 * b + c" "(y - 1) div 100 = 4 * a + b" "(y - 1) div 400 = a"
    using e(1) c d2(1) by (simp_all add: y)
  have "days_to_year (y - 1) = 146097 * a + 36524 * b + 1461 * c + 365 * e"
    unfolding days_to_year_def div by (simp add: y)
  with d d2(2) d3(1) e(2) have sum: "d = days_to_year (y - 1) + yd" by simp
  have "y = 4 * (100 * a + 25 * b + c) + (e + 1)" "y = 100 * (4 * a + b) + (4 * c + e + 1)"
    "y = 400 * a + (100 * b + 4 * c + e + 1)"
    by (simp_all add: y)
  then have m: "y mod 4 = (e + 1) mod 4" "y mod 100 = (4 * c + e + 1) mod 100" "y mod 400 = (100 * b + 4 * c + e + 1) mod 400"
    by (metis mod_mult_self4)+
  have "e + 1 \<le> 4" "4 * c + e + 1 \<le> 100" "100 * b + 4 * c + e + 1 \<le> 400" using e(1) c d2(1) by simp_all
  then have "y mod 4 = 0 \<longleftrightarrow> e + 1 = 4" "y mod 100 = 0 \<longleftrightarrow> 4 * c + e + 1 = 100"
    "y mod 400 = 0 \<longleftrightarrow> 100 * b + 4 * c + e + 1 = 400"
    unfolding m by (metis Suc_eq_plus1 le_neq_implies_less mod_less mod_self nat.simps(3))+
  then have leap: "leap y \<longleftrightarrow> e = 3 \<and> (c \<noteq> 24 \<or> b = 3)"
    using e(1) c d2(1) unfolding leap_def by auto
  have "yd < 365" if "\<not> leap y"
    using that leap e d2 d3 c by (cases "e = 3") auto
  with sum e(4) show ?thesis by (simp add: y)
qed

lemma days_in_year: "1 \<le> y \<Longrightarrow> days_to_year y = days_to_year (y - 1) + (if leap y then 366 else 365)"
proof -
  assume "1 \<le> y"
  then obtain n where y: "y = Suc n" by (cases y) auto
  have le: "n div 100 \<le> n div 4" by (simp add: div_le_mono2)
  have div: "Suc n div 4 = (if Suc n mod 4 = 0 then Suc (n div 4) else n div 4)"
    "Suc n div 100 = (if Suc n mod 100 = 0 then Suc (n div 100) else n div 100)"
    "Suc n div 400 = (if Suc n mod 400 = 0 then Suc (n div 400) else n div 400)" by (simp_all add: div_Suc)
  have dv: "Suc n mod 400 = 0 \<Longrightarrow> Suc n mod 100 = 0" "Suc n mod 100 = 0 \<Longrightarrow> Suc n mod 4 = 0"
    using dvd_trans [of 100 400 "Suc n"] dvd_trans [of 4 100 "Suc n"] by (simp_all only: mod_eq_0_iff_dvd) simp_all
  have "\<lbrakk>b \<le> a; q \<longrightarrow> p; r \<longrightarrow> q\<rbrakk> \<Longrightarrow> 365 * Suc n + (if p then Suc a else a) - (if q then Suc b else b) + (if r then Suc c else c) =
      365 * n + a - b + c + (if p \<and> (\<not> q \<or> r) then 366 else 365)" for a b c and p q r :: bool
    by (cases p; cases q; cases r) simp_all
  note eq = this
  show ?thesis unfolding y days_to_year_def leap_def div diff_Suc_1 by (rule eq [OF le]) (use dv in blast)+
qed

lemma days_to_year_mono: "a \<le> b \<Longrightarrow> days_to_year a \<le> days_to_year b"
proof (induction rule: dec_induct)
  case (step n)
  then show ?case using days_in_year [of "Suc n"] by simp
qed simp

lemma year_day_less:
  assumes "d1 < d2" "year_day d1 = (y1, a1)" "year_day d2 = (y2, a2)"
  shows "y1 < y2 \<or> y1 = y2 \<and> a1 < a2"
proof (rule ccontr)
  assume n: "\<not> ?thesis"
  note b = year_day_bounds [OF assms(2)] year_day_bounds [OF assms(3)]
  have "y1 \<noteq> y2" using n b assms(1) by auto
  with n have "y2 \<le> y1 - 1" by auto
  then have "days_to_year y2 \<le> days_to_year (y1 - 1)" by (rule days_to_year_mono)
  with days_in_year [of y2] b assms(1) show False by (auto split: if_splits)
qed

lemma upt_1_12: "[1..<12] = [1, 2, 3, 4, 5, 6, 7, 8, 9, 10, 11::nat]"
  by (simp add: upt_rec)

lemma filter_upt_mono:
  assumes "\<And>a b. a \<le> b \<Longrightarrow> b < n \<Longrightarrow> f a \<le> (f b :: nat)" "1 \<le> n" "k = length (filter (\<lambda>m. f m \<le> x) [1..<n])"
  shows "k < n \<and> (k = 0 \<or> f k \<le> x) \<and> (Suc k < n \<longrightarrow> x < f (Suc k))"
  using assms
proof (induction n arbitrary: k)
  case (Suc n)
  show ?case
  proof (cases "1 \<le> n \<and> \<not> f n \<le> x")
    case False
    have "f m \<le> x" if "m \<in> set [1..<Suc n]" for m
      using that False Suc.prems(1) [of m n] by auto
    then have "filter (\<lambda>m. f m \<le> x) [1..<Suc n] = [1..<Suc n]" by (simp del: upt_Suc)
    with False show ?thesis unfolding Suc.prems(3) by (auto simp del: upt_Suc)
  next
    case True
    have "a \<le> b \<Longrightarrow> b < n \<Longrightarrow> f a \<le> f b" for a b using Suc.prems(1) by simp
    from Suc.IH [OF this _ refl] True have IH: "k < n \<and> (k = 0 \<or> f k \<le> x) \<and> (Suc k < n \<longrightarrow> x < f (Suc k))"
      using Suc.prems(3) by simp
    then show ?thesis using True by (metis Suc_lessI less_SucI not_le)
  qed
qed simp

lemma days_before_mono: "a \<le> b \<Longrightarrow> b < 13 \<Longrightarrow> days_before l a \<le> days_before l b"
  unfolding days_before_def by (intro add_mono sorted_nth_mono) simp_all

lemma month_of_bounds:
  assumes "yd < (if l then 366 else 365)"
  shows "month_of l yd < 12 \<and> days_before l (month_of l yd) \<le> yd \<and> yd < days_before l (Suc (month_of l yd))"
proof -
  let ?k = "month_of l yd"
  have k: "?k < 12 \<and> (?k = 0 \<or> days_before l ?k \<le> yd) \<and> (Suc ?k < 12 \<longrightarrow> yd < days_before l (Suc ?k))"
    unfolding month_of_def by (rule filter_upt_mono) (simp_all add: days_before_mono)
  moreover have "days_before l 0 = 0" "yd < days_before l 12" using assms by (cases l; simp add: days_before_def)+
  moreover have "Suc ?k < 12 \<or> Suc ?k = 12" using k by auto
  ultimately show ?thesis by (metis le0)
qed

lemma month_length: "m < 12 \<Longrightarrow> days_before l (Suc m) \<le> days_before l m + 31"
proof -
  have u: "[0..<12] = [0, 1, 2, 3, 4, 5, 6, 7, 8, 9, 10, 11::nat]" by (simp add: upt_rec)
  have "\<forall>m \<in> set [0..<12]. days_before l (Suc m) \<le> days_before l m + 31" unfolding u by (simp add: days_before_def)
  then show "m < 12 \<Longrightarrow> ?thesis" by simp
qed

lemma month_of_mono: "a \<le> b \<Longrightarrow> month_of l a \<le> month_of l b"
proof -
  assume "a \<le> b"
  then have "length (filter (\<lambda>m. days_before l m \<le> a) xs) \<le> length (filter (\<lambda>m. days_before l m \<le> b) xs)" for xs
    by (induction xs) auto
  then show ?thesis by (simp add: month_of_def)
qed

lemma year_day_max: "d < 3652059 \<Longrightarrow> year_day d = (y, yd) \<Longrightarrow> y < 10000"
proof (rule ccontr)
  assume d: "d < 3652059" and yd: "year_day d = (y, yd)" and "\<not> y < 10000"
  then have "days_to_year 9999 \<le> days_to_year (y - 1)" by (intro days_to_year_mono) simp
  moreover have "days_to_year 9999 = 3652059" by (simp add: days_to_year_def)
  ultimately show False using year_day_bounds [OF yd] d by linarith
qed

subsection \<open>The order of the texts\<close>

lemma text_less_date:
  assumes "d1 < d2" "d2 < 3652059" "year_day d1 = (y1, a1)" "year_day d2 = (y2, a2)"
  defines "m1 \<equiv> month_of (leap y1) a1" and "m2 \<equiv> month_of (leap y2) a2"
  shows "text_less (digits 4 y1 @ ''-'' @ digits 2 (m1 + 1) @ ''-'' @ digits 2 (a1 - days_before (leap y1) m1 + 1) @ x)
    (digits 4 y2 @ ''-'' @ digits 2 (m2 + 1) @ ''-'' @ digits 2 (a2 - days_before (leap y2) m2 + 1) @ y)"
proof -
  have y: "y2 < 10 ^ 4" using year_day_max [OF assms(2,4)] by simp
  consider "y1 < y2" | "y1 = y2" "a1 < a2" using year_day_less [OF assms(1,3,4)] by blast
  then show ?thesis
  proof cases
    case 1
    then show ?thesis by (rule text_less_digits) (rule y)
  next
    case 2
    note b = month_of_bounds [of a1 "leap y1"] month_of_bounds [of a2 "leap y2"] year_day_bounds [OF assms(3)] year_day_bounds [OF assms(4)]
    have "m1 \<le> m2" unfolding m1_def m2_def 2(1) by (rule month_of_mono) (use 2(2) in simp)
    then consider "m1 < m2" | "m1 = m2" by linarith
    then show ?thesis
    proof cases
      case 1
      moreover have "m2 + 1 < 10 ^ 2" using b m2_def by simp
      ultimately have "text_less (digits 2 (m1 + 1) @ u) (digits 2 (m2 + 1) @ v)" for u v
        by (intro text_less_digits) simp_all
      then show ?thesis by (simp only: 2(1) text_less_prefix)
    next
      case eq: 2
      let ?db = "days_before (leap y2) m2"
      have "?db \<le> a1" "a2 < days_before (leap y2) (Suc m2)" using b 2 eq m1_def m2_def by auto
      moreover have "days_before (leap y2) (Suc m2) \<le> ?db + 31"
        using b m2_def month_length by auto
      ultimately have "a1 - ?db + 1 < a2 - ?db + 1" "a2 - ?db + 1 < 10 ^ 2" using 2(2) by simp_all
      then have "text_less (digits 2 (a1 - ?db + 1) @ u) (digits 2 (a2 - ?db + 1) @ v)" for u v
        by (rule text_less_digits)
      then show ?thesis by (simp only: 2(1) eq text_less_prefix)
    qed
  qed
qed

lemma div_mod_less: "a < b \<Longrightarrow> a div k < b div k \<or> a div k = b div k \<and> a mod k < b mod (k :: nat)"
  by (metis add_less_cancel_left div_le_mono div_mult_mod_eq le_neq_implies_less less_imp_le)

lemma text_less_clock:
  assumes "s1 < s2" "s2 < (86400::nat)"
  shows "text_less (digits 2 (s1 div 3600) @ '':'' @ digits 2 (s1 mod 3600 div 60) @ '':'' @ digits 2 (s1 mod 60) @ x)
    (digits 2 (s2 div 3600) @ '':'' @ digits 2 (s2 mod 3600 div 60) @ '':'' @ digits 2 (s2 mod 60) @ y)"
proof -
  have mm: "s mod 3600 mod 60 = s mod 60" for s :: nat by (simp add: mod_mod_cancel)
  have b: "s2 div 3600 < 10 ^ 2" "s2 mod 3600 div 60 < 10 ^ 2" "s2 mod 60 < 10 ^ 2"
  proof -
    show "s2 div 3600 < 10 ^ 2" using assms(2) by simp
    have "s2 mod 3600 < 3600" by simp
    then show "s2 mod 3600 div 60 < 10 ^ 2" using less_mult_imp_div_less [of "s2 mod 3600" "10 ^ 2" 60] by simp
    have "s2 mod 60 < 60" by simp
    then show "s2 mod 60 < 10 ^ 2" by (rule less_trans) simp
  qed
  consider "s1 div 3600 < s2 div 3600" | "s1 div 3600 = s2 div 3600" "s1 mod 3600 div 60 < s2 mod 3600 div 60"
    | "s1 div 3600 = s2 div 3600" "s1 mod 3600 div 60 = s2 mod 3600 div 60" "s1 mod 60 < s2 mod 60"
    using div_mod_less [OF assms(1), of 3600] div_mod_less [of "s1 mod 3600" "s2 mod 3600" 60] mm by metis
  then show ?thesis
  proof cases
    case 1
    then show ?thesis by (rule text_less_digits) (rule b)
  next
    case 2
    have "text_less (digits 2 (s1 mod 3600 div 60) @ u) (digits 2 (s2 mod 3600 div 60) @ v)" for u v
      by (rule text_less_digits [OF 2(2) b(2)])
    then show ?thesis by (simp only: 2(1) text_less_prefix)
  next
    case 3
    have "text_less (digits 2 (s1 mod 60) @ u) (digits 2 (s2 mod 60) @ v)" for u v
      by (rule text_less_digits [OF 3(3) b(3)])
    then show ?thesis by (simp only: 3(1,2) text_less_prefix)
  qed
qed

lemma stamp_less:
  assumes "s1 < s2" "s2 < 315537897600"
  shows "text_less (stamp s1 @ x) (stamp s2 @ y)"
proof -
  obtain y1 a1 y2 a2 where yd: "year_day (s1 div 86400) = (y1, a1)" "year_day (s2 div 86400) = (y2, a2)"
    by (metis surj_pair)
  consider "s1 div 86400 < s2 div 86400" | "s1 div 86400 = s2 div 86400" "s1 mod 86400 < s2 mod 86400"
    using div_mod_less [OF assms(1), of 86400] by blast
  then show ?thesis
  proof cases
    case 1
    have "s2 div 86400 < 3652059" using assms(2) by (simp add: less_mult_imp_div_less)
    from text_less_date [OF 1 this yd] show ?thesis
      by (simp only: stamp_def yd Let_def prod.case append_assoc)
  next
    case 2
    with yd have "y1 = y2" "a1 = a2" by simp_all
    then show ?thesis
      using text_less_clock [OF 2(2)] by (simp only: stamp_def yd Let_def prod.case append_assoc text_less_prefix)
  qed
qed

text \<open>
  The texts are in the order of the clock readings they show: of two texts, that with the earlier
  second is the smaller, whatever offsets they were written with. Within one second the order need
  not be right in UTC, because the fraction is trimmed and the letter \<open>Z\<close> comes after the point and
  the digits; the signs \<open>+\<close> and \<open>-\<close> come before them.
\<close>

lemma text_order_clock:
  assumes "time_ok a t1" "time_ok b t2" "clock a t1 < clock b t2"
  shows "text_less (Format_RFC3339Nano a t1) (Format_RFC3339Nano b t2)"
proof -
  from assms have "nat (clock a t1) < nat (clock b t2)" "nat (clock b t2) < 315537897600" by (simp_all add: time_ok_def)
  then show ?thesis unfolding Format_RFC3339Nano_def by (rule stamp_less)
qed

lemma zone_text_sign:
  assumes "off \<noteq> 0"
  obtains c z where "zone_text off = c # z" "(of_char c :: nat) < 46"
proof -
  define c where "c = (if off \<le> - 60 then CHR ''-'' else CHR ''+'')"
  have "zone_text off = c # tl (zone_text off)" using assms by (simp add: zone_text_def Let_def c_def)
  moreover have "(of_char c :: nat) < 46" by (simp add: c_def of_char_def)
  ultimately show thesis by (rule that)
qed

lemma trim_zeros_Cons:
  "trim_zeros (d # ds) = (if d = CHR ''0'' \<and> trim_zeros ds = [] then [] else d # trim_zeros ds)"
proof -
  have dw: "dropWhile P (xs @ [x]) = (if dropWhile P xs = [] then (if P x then [] else [x]) else dropWhile P xs @ [x])"
    for P x and xs :: string by (induction xs) auto
  show ?thesis unfolding trim_zeros_def by (simp add: dw)
qed

lemma text_less_split:
  "text_less (c # cs) (d # ds) \<longleftrightarrow> (of_char c :: nat) < of_char d \<or> c = d \<and> text_less cs ds"
proof -
  have "(of_char c :: nat) = of_char d \<longleftrightarrow> c = d" by simp
  then show ?thesis by (auto simp: text_less_def simp del: of_char_eq_iff)
qed

lemma trim_zeros_not_all:
  assumes "text_less ds es" "length ds = length es" "\<forall>d \<in> set ds. 48 \<le> (of_char d :: nat)"
  shows "trim_zeros es \<noteq> []"
  using assms(2,1,3)
proof (induction ds es rule: list_induct2)
  case (Cons d ds e es)
  have "(of_char (CHR ''0'') :: nat) = 48" by (simp add: of_char_def)
  with Cons show ?case by (auto simp: text_less_split trim_zeros_Cons)
qed (simp add: text_less_def)

text \<open>Trimming keeps the order of the fractions when what follows is smaller than every digit.\<close>

lemma text_less_trim:
  assumes "text_less ds es" "length ds = length es" "\<forall>d \<in> set ds. 48 \<le> (of_char d :: nat)"
    "\<forall>e \<in> set es. 48 \<le> (of_char e :: nat)" "(of_char c :: nat) < 48"
  shows "text_less (trim_zeros ds @ c # x) (trim_zeros es @ c # y)"
  using assms(2,1,3,4)
proof (induction ds es rule: list_induct2)
  case (Cons d ds e es)
  have zero: "(of_char (CHR ''0'') :: nat) = 48" by (simp add: of_char_def)
  have below: "(of_char c :: nat) < of_char e" using Cons.prems(3) assms(5) by auto
  have es: "trim_zeros (e # es) = e # trim_zeros es"
    using Cons.hyps Cons.prems trim_zeros_not_all [of ds es] zero by (auto simp: text_less_split trim_zeros_Cons)
  show ?case
    unfolding es using Cons below by (auto simp: text_less_split trim_zeros_Cons)
qed (simp add: text_less_def)

lemma digits_above: "d \<in> set (digits w n) \<Longrightarrow> 48 \<le> (of_char d :: nat)"
  by (induction w n rule: digits.induct) (auto simp: of_char_digit)

lemma fraction_less:
  assumes "m < n" "n < 10 ^ 9" "off \<noteq> 0"
  shows "text_less (fraction m @ zone_text off) (fraction n @ zone_text off)"
proof -
  obtain c z where z: "zone_text off = c # z" "(of_char c :: nat) < 46" by (rule zone_text_sign [OF assms(3)])
  have "text_less (digits 9 m @ []) (digits 9 n @ [])" by (rule text_less_digits [OF assms(1,2)])
  then have "text_less (trim_zeros (digits 9 m) @ c # z) (trim_zeros (digits 9 n) @ c # z)"
    using z(2) digits_above by (intro text_less_trim) (auto simp del: digits.simps)
  moreover have "(of_char (CHR ''.'') :: nat) = 46" by (simp add: of_char_def)
  ultimately show ?thesis
    using assms(1) z by (cases "m = 0") (auto simp: fraction_def text_less_split)
qed

lemma text_order_exact:
  assumes "time_ok off t1" "time_ok off t2" "off \<noteq> 0"
  shows "text_le (Format_RFC3339Nano off t1) (Format_RFC3339Nano off t2) \<longleftrightarrow> t1 \<le> t2"
proof -
  have less: "text_less (Format_RFC3339Nano off a) (Format_RFC3339Nano off b)"
    if "time_ok off a" "time_ok off b" "a < b" for a b
  proof (cases "clock off a < clock off b")
    case True
    then show ?thesis using that by (intro text_order_clock) simp_all
  next
    case False
    then have "a div giga = b div giga" using zdiv_mono1 [of a b giga] that(3) by (simp add: clock_def giga_def)
    moreover from this have "a mod giga < b mod giga"
      using that(3) by (metis add_less_cancel_left div_mult_mod_eq)
    moreover have "0 \<le> a mod giga" "b mod giga < 10 ^ 9" by (simp_all add: giga_def)
    ultimately show ?thesis
      using fraction_less [of "nat (a mod giga)" "nat (b mod giga)" off] assms(3)
      by (simp add: Format_RFC3339Nano_def clock_def nat_less_iff)
  qed
  show ?thesis
    using less [OF assms(1,2)] less [OF assms(2,1)] text_less_le
    by (cases t1 t2 rule: linorder_cases) (auto simp: text_less_def)
qed

subsection \<open>Parsing what was formatted\<close>

lemma trim_zeros_append:
  "\<exists>k. ds = trim_zeros ds @ replicate k (CHR ''0'')"
proof -
  let ?P = "\<lambda>c. c = CHR ''0''"
  have "takeWhile ?P (rev ds) = replicate (length (takeWhile ?P (rev ds))) (CHR ''0'')"
    by (rule replicate_length_same [symmetric]) (auto dest: set_takeWhileD)
  then have "ds = rev (dropWhile ?P (rev ds)) @ replicate (length (takeWhile ?P (rev ds))) (CHR ''0'')"
    by (metis rev_append rev_replicate rev_rev_ident takeWhile_dropWhile_id)
  then show ?thesis unfolding trim_zeros_def by blast
qed

lemma number_zeros: "number acc (replicate k (CHR ''0'')) = Some (acc * 10 ^ k)"
  by (induction k arbitrary: acc) (simp_all add: digit_val_def of_char_def algebra_simps)

lemma number_all_digits: "number acc ds = Some n \<Longrightarrow> c \<in> set ds \<Longrightarrow> digit_val c \<noteq> None"
  by (induction acc ds rule: number.induct) (auto split: option.splits)

lemma parse_fraction_format:
  assumes "ns < 10 ^ 9" "digit_val c = None" "c \<noteq> CHR ''.''"
  shows "parse_fraction (fraction ns @ c # z) = Some (ns, c # z)"
proof (cases "ns = 0")
  case True
  then show ?thesis using assms(3) by (simp add: fraction_def parse_fraction_def)
next
  case False
  define ds where "ds = trim_zeros (digits 9 ns)"
  obtain k where k: "digits 9 ns = ds @ replicate k (CHR ''0'')" unfolding ds_def using trim_zeros_append by blast
  have full: "number 0 (digits 9 ns) = Some ns" using number_digits [OF assms(1), of 0] by simp
  then obtain m where m: "number 0 ds = Some m" and ns: "ns = m * 10 ^ k"
    by (auto simp: k number_append number_zeros split: option.splits)
  have len: "length ds + k = 9" using arg_cong [OF k, of length] by simp
  have "ds \<noteq> []" using False ns m by auto
  moreover have "takeWhile (\<lambda>c. digit_val c \<noteq> None) (ds @ c # z) = ds"
    using number_all_digits [OF m] assms(2) by (subst takeWhile_append2) auto
  ultimately show ?thesis
    using False len m ns unfolding parse_fraction_def fraction_def ds_def [symmetric]
    by (simp add: Let_def flip: len)
qed

lemma stamp_fields:
  defines "s y m d h mi sec r \<equiv> digits 4 y @ ''-'' @ digits 2 m @ ''-'' @ digits 2 d @ ''T'' @
    digits 2 h @ '':'' @ digits 2 mi @ '':'' @ digits 2 sec @ r"
  shows "field 0 4 (s y m d h mi sec r) = number 0 (digits 4 y)" "field 5 2 (s y m d h mi sec r) = number 0 (digits 2 m)"
    "field 8 2 (s y m d h mi sec r) = number 0 (digits 2 d)" "field 11 2 (s y m d h mi sec r) = number 0 (digits 2 h)"
    "field 14 2 (s y m d h mi sec r) = number 0 (digits 2 mi)" "field 17 2 (s y m d h mi sec r) = number 0 (digits 2 sec)"
    "drop 19 (s y m d h mi sec r) = r" "length (s y m d h mi sec r) = 19 + length r"
    "s y m d h mi sec r ! 4 = CHR ''-''" "s y m d h mi sec r ! 7 = CHR ''-''" "s y m d h mi sec r ! 10 = CHR ''T''"
    "s y m d h mi sec r ! 13 = CHR '':''" "s y m d h mi sec r ! 16 = CHR '':''"
  by (simp_all add: s_def field_def nth_append)

lemma parse_zone_text:
  assumes "zone_ok off"
  shows "parse_zone (zone_text off) = Some off"
proof (cases "off = 0")
  case False
  define zone where "zone = nat (\<bar>off\<bar> div 60)"
  from assms obtain k where k: "off = 60 * k" "\<bar>k\<bar> < 1440" unfolding zone_ok_def by (auto elim!: dvdE)
  then have zone: "zone = nat \<bar>k\<bar>" "zone < 1440" by (auto simp: zone_def abs_mult)
  then have b: "zone div 60 < 10 ^ 2" "zone mod 60 < 10 ^ 2" "zone div 60 \<le> 24" "zone mod 60 < 60"
    by (auto simp: less_mult_imp_div_less intro: less_trans [of _ 60])
  have whole: "3600 * (zone div 60) + 60 * (zone mod 60) = 60 * zone"
    using div_mult_mod_eq [of zone 60] by linarith
  define z where "z = (if off \<le> - 60 then CHR ''-'' else CHR ''+'') # digits 2 (zone div 60) @ '':'' @ digits 2 (zone mod 60)"
  have t: "zone_text off = z" using False by (simp add: zone_text_def Let_def zone_def z_def)
  have f: "field 1 2 z = Some (zone div 60)" "field 4 2 z = Some (zone mod 60)" "length z = 6" "z ! 3 = CHR '':''"
    using number_digits [OF b(1), of 0] number_digits [OF b(2), of 0]
    by (simp_all add: z_def field_def nth_append del: digits.simps)
  have sign: "z ! 0 = (if off \<le> - 60 then CHR ''-'' else CHR ''+'')" "z \<noteq> ''Z''" by (auto simp: z_def)
  have "(if off \<le> - 60 then - 1 else 1) * int (60 * zone) = off" using k zone False by auto
  then show ?thesis unfolding t parse_zone_def f option.case prod.case whole using b sign f by (simp split: if_splits)
qed (simp add: zone_text_def parse_zone_def)

lemma zone_text_start:
  obtains c z where "zone_text off = c # z" "digit_val c = None" "c \<noteq> CHR ''.''"
proof -
  define c where "c = (if off = 0 then CHR ''Z'' else if off \<le> - 60 then CHR ''-'' else CHR ''+'')"
  have "zone_text off = c # tl (zone_text off)" by (simp add: zone_text_def Let_def c_def)
  moreover have "digit_val c = None" "c \<noteq> CHR ''.''" by (simp_all add: c_def digit_val_def of_char_def)
  ultimately show thesis by (rule that)
qed

text \<open>The round trip: what \<open>Format\<close> writes, \<open>Parse\<close> reads back.\<close>

lemma format_parse:
  assumes "time_ok off t" "zone_ok off"
  shows "Parse_RFC3339Nano (Format_RFC3339Nano off t) = Some t"
proof -
  define secs where "secs = nat (clock off t)"
  define ns where "ns = nat (t mod giga)"
  obtain y a where yd: "year_day (secs div 86400) = (y, a)" by fastforce
  define s where "s = secs mod 86400"
  define m where "m = month_of (leap y) a"
  define d where "d = a - days_before (leap y) m + 1"
  have ns: "ns < 10 ^ 9" by (simp add: ns_def giga_def nat_less_iff)
  have t: "t = giga * (int secs - off) + int ns"
    using assms(1) by (simp add: secs_def ns_def giga_def clock_def time_ok_def)
  have "secs < 315537897600" using assms(1) unfolding secs_def time_ok_def by linarith
  then have "secs div 86400 < 3652059" by (simp add: less_mult_imp_div_less)
  then have y: "y < 10 ^ 4" using year_day_max [OF _ yd] by simp
  note yb = year_day_bounds [OF yd]
  from yb month_of_bounds [of a "leap y"] have mb: "m < 12" "days_before (leap y) m \<le> a" "a < days_before (leap y) (Suc m)"
    by (simp_all add: m_def)
  with month_length [of m "leap y"] have d: "d < 10 ^ 2" "1 \<le> d" "d \<le> days_before (leap y) (Suc m) - days_before (leap y) m"
    by (simp_all add: d_def)
  have sb: "s < 86400" by (simp add: s_def)
  have h: "s div 3600 < 24" "s mod 3600 div 60 < 60" "s mod 60 < 60"
    using sb less_mult_imp_div_less [of "s mod 3600" 60 60] by (simp_all add: less_mult_imp_div_less)
  have "s mod 3600 mod 60 = s mod 60" by (simp add: mod_mod_cancel)
  then have s: "s = 3600 * (s div 3600) + 60 * (s mod 3600 div 60) + s mod 60"
    by (metis add.assoc div_mult_mod_eq mult.commute)
  have secs: "secs = 86400 * (days_to_year (y - 1) + days_before (leap y) (m + 1 - 1) + d - 1) +
      3600 * (s div 3600) + 60 * (s mod 3600 div 60) + s mod 60"
    using yb mb div_mult_mod_eq [of secs 86400] s by (simp add: d_def s_def)
  obtain c z where zt: "zone_text off = c # z" "digit_val c = None" "c \<noteq> CHR ''.''" by (rule zone_text_start)
  have fmt: "Format_RFC3339Nano off t = digits 4 y @ ''-'' @ digits 2 (m + 1) @ ''-'' @ digits 2 d @ ''T'' @
      digits 2 (s div 3600) @ '':'' @ digits 2 (s mod 3600 div 60) @ '':'' @ digits 2 (s mod 60) @ fraction ns @ c # z"
    by (simp add: Format_RFC3339Nano_def stamp_def yd Let_def secs_def [symmetric] ns_def [symmetric]
        s_def [symmetric] m_def [symmetric] d_def zt(1) del: digits.simps)
  have "m + 1 < 10 ^ 2" "s div 3600 < 10 ^ 2" "s mod 3600 div 60 < 10 ^ 2" "s mod 60 < 10 ^ 2"
    using mb(1) h by (auto intro: less_trans)
  note n = number_digits [OF y] number_digits [OF d(1)] this [THEN number_digits]
  have pz: "parse_zone (c # z) = Some off" using parse_zone_text [OF assms(2)] by (simp add: zt)
  have g: "1 \<le> m + 1 \<and> m + 1 \<le> 12 \<and> 1 \<le> d \<and> d \<le> days_before (leap y) (m + 1) - days_before (leap y) (m + 1 - 1) \<and>
      s div 3600 < 24 \<and> s mod 3600 div 60 < 60 \<and> s mod 60 < 60 \<and> 1 \<le> y"
    using mb(1) d h yb by simp
  show ?thesis
    unfolding Parse_RFC3339Nano_def fmt stamp_fields parse_fraction_format [OF ns zt(2,3)] n
    by (simp only: mult_zero_left add_0 option.case prod.case pz g if_True list.size simp_thms if_False)
      (simp add: t secs)
qed

end
