(* ===== verification/SQLite_Store.thy ===== *)
theory SQLite_Store
  imports SQL_Database Go_Time
begin

text \<open>
  Package \<open>internal/storage\<close>, file \<open>sqlite.go\<close>: the backend on an embedded SQLite database. Every
  method is the sequence of driver calls of the code, with its transaction, its early returns and
  the texts its errors are wrapped in; the statements are those of \<open>SQL_Database\<close>.

  Times are stored as texts of the layout \<open>RFC3339Nano\<close>, each in the location it carries, and compared
  as texts: \<open>Dequeue\<close> reads the clock in the local zone; \<open>DeadLetter\<close>, \<open>Replay\<close> and the schedules write UTC. The pool holds one
  connection (\<open>SetMaxOpenConns(1)\<close>), so the methods of one process do not interleave.
  A negative \<open>LIMIT\<close> is no limit in SQLite.
\<close>

type_synonym sqlite_row = "(string, string) row"
type_synonym sqlite = "(string, string) db"

text \<open>The only time it is called with is \<open>DeadAt\<close>, which is in UTC: \<open>DeadLetter\<close> sets it from \<open>time.Now().UTC()\<close>.\<close>

definition tsOrEmpty :: "time \<Rightarrow> string" where
  "tsOrEmpty t = (if IsZero t then '''' else Format_RFC3339Nano 0 t)"

definition sqliteScheduleTime :: "time \<Rightarrow> string" where
  "sqliteScheduleTime t = Format_RFC3339Nano 0 t"

text \<open>
  The arguments of the \<open>INSERT\<close>, as the row it inserts. Marshalling a map of strings cannot fail. A
  time that is filled in here is \<open>time.Now()\<close>, in the local zone.
\<close>

definition sqliteEnqueueArgs :: "formats \<Rightarrow> time \<Rightarrow> string \<Rightarrow> message \<Rightarrow> sqlite_row" where
  "sqliteEnqueueArgs f now queue msg =
     (let (oc, os) = fOffsets f msg; meta = fJSON f (mMetadata msg);
          (msg, oc) = (if IsZero (mCreatedAt msg) then (msg\<lparr>mCreatedAt := now\<rparr>, fZone f now) else (msg, oc));
          (msg, os) = (if IsZero (mScheduledAt msg) then (msg\<lparr>mScheduledAt := now\<rparr>, fZone f now) else (msg, os));
          status = (if strings_HasSuffix queue ''.dlq'' then Dead else Pending)
      in \<lparr>rID = mID msg, rQueue = queue, rPayload = mPayload msg, rAttempts = mAttempts msg,
          rMaxRetries = mMaxRetries msg, rCreatedAt = Format_RFC3339Nano oc (mCreatedAt msg),
          rScheduledAt = Format_RFC3339Nano os (mScheduledAt msg), rPriority = mPriority msg,
          rDedupeKey = mDedupeKey msg, rMetadata = meta, rError = mError msg,
          rDeadAt = tsOrEmpty (mDeadAt msg), rStatus = status\<rparr>)"

definition sqlite_violation :: err where
  "sqlite_violation = ErrMsg ''constraint failed: UNIQUE constraint failed''"

definition enqueueSQLite :: "(formats \<Rightarrow> formats) \<Rightarrow> time \<Rightarrow> string \<Rightarrow> message \<Rightarrow> (string, string, unit) action" where
  "enqueueSQLite located now queue msg =
     andThen get_formats (\<lambda>f.
     andThen (wrap ''shoebox/sqlite: enqueue'' (exec (insert_message sqlite_violation (sqliteEnqueueArgs (located f) now queue msg))))
       (\<lambda>_. ret ()))"

text \<open>
  Whether the caller takes the message as it is, with the locations its times have, or has just set
  its \<open>ScheduledAt\<close> to a time in UTC.
\<close>

definition scheduled_UTC :: "formats \<Rightarrow> formats" where
  "scheduled_UTC f = f\<lparr>fOffsets := \<lambda>msg. (fst (fOffsets f msg), 0)\<rparr>"

definition sqlite_Enqueue :: "time \<Rightarrow> string \<Rightarrow> message \<Rightarrow> (string, string, unit) action" where
  "sqlite_Enqueue now queue msg = enqueueSQLite id now queue msg"

fun sqlite_batch_loop :: "time \<Rightarrow> string \<Rightarrow> nat \<Rightarrow> message list \<Rightarrow> (string, string, unit) action" where
  "sqlite_batch_loop now queue i [] = ret ()"
| "sqlite_batch_loop now queue i (msg # msgs) =
     andThen (enqueueSQLite id now queue (stamp_batch now i msg)) (\<lambda>_. sqlite_batch_loop now queue (Suc i) msgs)"

definition sqlite_EnqueueBatch :: "time \<Rightarrow> string \<Rightarrow> message list \<Rightarrow> (string, string, unit) action" where
  "sqlite_EnqueueBatch now queue messages =
     (if messages = [] then ret ()
      else transaction ''shoebox/sqlite: enqueue batch begin'' (\<lambda>_.
        andThen (wrap ''shoebox/sqlite: enqueue batch prepare'' call) (\<lambda>_.
        andThen (sqlite_batch_loop now queue 0 messages) (\<lambda>_.
        wrap ''shoebox/sqlite: enqueue batch commit'' Commit))))"

subsection \<open>Reading rows\<close>

definition parse_time :: "string \<Rightarrow> string \<Rightarrow> time result" where
  "parse_time col s =
     (case Parse_RFC3339Nano s of
        Some t \<Rightarrow> Inr t
      | None \<Rightarrow> Inl (ErrWrap (''parse '' @ col @ '' '' @ strconv_Quote s) (ErrMsg (''parsing time '' @ strconv_Quote s))))"

definition scanMessage :: "sqlite_row \<Rightarrow> message result" where
  "scanMessage r =
     (let m = zero_message\<lparr>mID := rID r, mPayload := rPayload r, mAttempts := rAttempts r,
                mMaxRetries := rMaxRetries r, mDedupeKey := rDedupeKey r, mPriority := rPriority r\<rparr>
      in case parse_time ''created_at'' (rCreatedAt r) of
           Inl e \<Rightarrow> Inl e
         | Inr created \<Rightarrow>
             (case parse_time ''scheduled_at'' (rScheduledAt r) of
                Inl e \<Rightarrow> Inl e
              | Inr scheduled \<Rightarrow>
                  (let m = m\<lparr>mCreatedAt := created, mScheduledAt := scheduled, mMetadata := rMetadata r, mError := rError r\<rparr>
                   in if rDeadAt r = '''' then Inr m
                      else case parse_time ''dead_at'' (rDeadAt r) of
                             Inl e \<Rightarrow> Inl e
                           | Inr d \<Rightarrow> Inr (m\<lparr>mDeadAt := d\<rparr>))))"

definition sqlite_limit :: "int \<Rightarrow> 'a list \<Rightarrow> 'a list" where
  "sqlite_limit n xs = (if n < 0 then xs else take (nat n) xs)"

text \<open>\<open>ORDER BY priority DESC, created_at ASC\<close>.\<close>

definition sqlite_before :: "sqlite_row \<Rightarrow> sqlite_row \<Rightarrow> bool" where
  "sqlite_before a b \<longleftrightarrow>
     (if rPriority a \<noteq> rPriority b then rPriority a > rPriority b else text_less (rCreatedAt a) (rCreatedAt b))"

definition sqlite_due :: "string \<Rightarrow> string \<Rightarrow> int \<Rightarrow> sqlite_row list \<Rightarrow> sqlite_row list" where
  "sqlite_due queue now limit rows =
     sqlite_limit limit (SliceStable sqlite_before
       (filter (\<lambda>r. rQueue r = queue \<and> rStatus r = Pending \<and> text_le (rScheduledAt r) now) rows))"

definition sqlite_mark_loop :: "string \<Rightarrow> message list \<Rightarrow> (string, string, unit) action" where
  "sqlite_mark_loop queue ms = mark_loop ''shoebox/sqlite: dequeue mark processing'' queue ms"

definition sqlite_Dequeue :: "time \<Rightarrow> string \<Rightarrow> int \<Rightarrow> (string, string, message list) action" where
  "sqlite_Dequeue now queue limit =
     transaction ''shoebox/sqlite: dequeue begin'' (\<lambda>_.
       andThen get_formats (\<lambda>f.
       andThen (wrap ''shoebox/sqlite: dequeue query'' (query (sqlite_due queue (Format_RFC3339Nano (fZone f now) now) limit))) (\<lambda>rows.
       andThen (give (scan_rows scanMessage ''shoebox/sqlite: dequeue scan'' queue rows)) (\<lambda>msgs.
       andThen (wrap ''shoebox/sqlite: dequeue rows'' call) (\<lambda>_.
       if msgs = [] then fail ErrEmpty
       else andThen (sqlite_mark_loop queue msgs) (\<lambda>_.
            andThen (wrap ''shoebox/sqlite: dequeue commit'' Commit) (\<lambda>_.
            ret msgs)))))))"

subsection \<open>Settling messages\<close>

definition sqlite_Ack :: "string \<Rightarrow> string \<Rightarrow> (string, string, unit) action" where
  "sqlite_Ack queue msgID =
     transaction ''shoebox/sqlite: ack begin'' (\<lambda>_.
       andThen (wrap ''shoebox/sqlite: ack delete'' (exec (delete_messages (in_process msgID queue)))) (\<lambda>rows.
       andThen (wrap ''shoebox/sqlite: ack delete rows'' call) (\<lambda>_.
       if rows = 0 then Commit
       else andThen (wrap ''shoebox/sqlite: ack stats''
                (exec (upsert_stats queue (stats_values 1 0 0 0) (\<lambda>s. s\<lparr>stProcessed := stProcessed s + 1\<rparr>)))) (\<lambda>_.
            Commit))))"

fun sqlite_ack_loop :: "string \<Rightarrow> string list \<Rightarrow> int \<Rightarrow> (string, string, int) action" where
  "sqlite_ack_loop queue [] processed = ret processed"
| "sqlite_ack_loop queue (msgID # msgIDs) processed =
     andThen (wrap ''shoebox/sqlite: ack batch delete'' (exec (delete_messages (in_process msgID queue)))) (\<lambda>rows.
     andThen (wrap ''shoebox/sqlite: ack batch delete rows'' call) (\<lambda>_.
     sqlite_ack_loop queue msgIDs (processed + int rows)))"

definition sqlite_AckBatch :: "string \<Rightarrow> string list \<Rightarrow> (string, string, unit) action" where
  "sqlite_AckBatch queue msgIDs =
     (if msgIDs = [] then ret ()
      else transaction ''shoebox/sqlite: ack batch begin'' (\<lambda>_.
        andThen (wrap ''shoebox/sqlite: ack batch prepare'' call) (\<lambda>_.
        andThen (sqlite_ack_loop queue msgIDs 0) (\<lambda>processed.
        if processed > 0
        then andThen (wrap ''shoebox/sqlite: ack batch stats''
                 (exec (upsert_stats queue (stats_values processed 0 0 0)
                    (\<lambda>s. s\<lparr>stProcessed := stProcessed s + processed\<rparr>)))) (\<lambda>_. Commit)
        else Commit))))"

definition sqlite_Retry :: "time \<Rightarrow> string \<Rightarrow> message \<Rightarrow> err option \<Rightarrow> (string, string, unit) action" where
  "sqlite_Retry now queue msg err =
     transaction ''shoebox/sqlite: retry begin'' (\<lambda>_.
       andThen (wrap ''shoebox/sqlite: retry delete'' (exec (delete_messages (in_process (mID msg) queue)))) (\<lambda>n.
       andThen (wrap ''shoebox/sqlite: retry delete rows'' call) (\<lambda>_.
       if n \<noteq> 1 then fail ErrEmpty
       else andThen (wrap ''shoebox/sqlite: retry enqueue'' (enqueueSQLite id now queue msg)) (\<lambda>_.
            andThen (wrap ''shoebox/sqlite: retry stats''
                (exec (upsert_stats queue (stats_values 0 1 1 0)
                   (\<lambda>s. s\<lparr>stErrors := stErrors s + 1, stRetries := stRetries s + 1\<rparr>)))) (\<lambda>_.
            Commit)))))"

definition sqlite_DeadLetter :: "time \<Rightarrow> string \<Rightarrow> string \<Rightarrow> message \<Rightarrow> err option \<Rightarrow> (string, string, unit) action" where
  "sqlite_DeadLetter now nid queue msg handlerErr =
     transaction ''shoebox/sqlite: dead-letter begin'' (\<lambda>_.
       let dead = deadLetterMessage nid queue msg handlerErr now
       in andThen (wrap ''shoebox/sqlite: dead-letter enqueue'' (enqueueSQLite scheduled_UTC now (mQueue dead) dead)) (\<lambda>_.
          andThen (wrap ''shoebox/sqlite: dead-letter update''
            (exec (update_messages (in_process (mID msg) queue)
               (\<lambda>r. r\<lparr>rStatus := Dead, rError := mError dead, rDeadAt := Format_RFC3339Nano 0 (mDeadAt dead)\<rparr>)))) (\<lambda>n.
          andThen (wrap ''shoebox/sqlite: dead-letter update rows'' call) (\<lambda>_.
          if n \<noteq> 1 then fail ErrEmpty
          else andThen (wrap ''shoebox/sqlite: dead-letter stats''
                   (exec (upsert_stats queue (stats_values 0 0 0 1) (\<lambda>s. s\<lparr>stDead := stDead s + 1\<rparr>)))) (\<lambda>_.
               Commit)))))"

definition sqlite_Replay :: "time \<Rightarrow> string \<Rightarrow> string \<Rightarrow> (string, string, unit) action" where
  "sqlite_Replay now queue msgID =
     transaction ''shoebox/sqlite: replay begin'' (\<lambda>_.
       andThen (wrap ''shoebox/sqlite: replay query'' (query (filter (is_dead msgID queue)))) (\<lambda>rows.
       case rows of
         [] \<Rightarrow> fail ErrEmpty
       | row # _ \<Rightarrow>
           andThen (wrap ''shoebox/sqlite: replay query'' (give (scanMessage row))) (\<lambda>msg.
           let msg = replayMessage queue (msg\<lparr>mQueue := queue @ ''.dlq''\<rparr>) now
           in andThen (wrap ''shoebox/sqlite: replay delete'' (exec (delete_messages (is_dead msgID queue)))) (\<lambda>n.
              andThen (wrap ''shoebox/sqlite: replay delete rows'' call) (\<lambda>_.
              if n \<noteq> 1 then fail ErrEmpty
              else andThen (wrap ''shoebox/sqlite: replay enqueue'' (enqueueSQLite scheduled_UTC now queue msg)) (\<lambda>_.
                   andThen (wrap ''shoebox/sqlite: replay stats''
                       (exec (upsert_stats (queue @ ''.dlq'') (stats_values 1 0 0 0)
                          (\<lambda>s. s\<lparr>stProcessed := stProcessed s + 1\<rparr>)))) (\<lambda>_.
                   Commit)))))))"

subsection \<open>Inspection and recovery\<close>

definition sqlite_List :: "string \<Rightarrow> int \<Rightarrow> (string, string, message list) action" where
  "sqlite_List queue limit =
     andThen (wrap ''shoebox/sqlite: list query'' (query (\<lambda>rows.
         sqlite_limit limit (SliceStable (\<lambda>a b. text_less (rDeadAt b) (rDeadAt a))
           (filter (\<lambda>r. rQueue r = queue \<and> rStatus r = Dead) rows))))) (\<lambda>rows.
     andThen (give (scan_rows scanMessage ''shoebox/sqlite: list scan'' queue rows)) (\<lambda>msgs.
     andThen (wrap ''shoebox/sqlite: list rows'' call) (\<lambda>_.
     if msgs = [] then fail ErrEmpty else ret msgs)))"

definition sqlite_Reclaim :: "string \<Rightarrow> (string, string, unit) action" where
  "sqlite_Reclaim queue =
     andThen (wrap ''shoebox/sqlite: reclaim''
         (exec (update_messages (\<lambda>r. rQueue r = queue \<and> rStatus r = Processing) (\<lambda>r. r\<lparr>rStatus := Pending\<rparr>))))
       (\<lambda>_. ret ())"

text \<open>
  The end of \<open>NewSQLite\<close>: every row left in processing by a crash goes back to pending. A crash drops
  the open transaction (\<open>db_work\<close>).
\<close>

definition sqlite_reclaim_all :: "(string, string, unit) action" where
  "sqlite_reclaim_all =
     andThen (wrap ''shoebox/sqlite: reclaim''
         (exec (update_messages (\<lambda>r. rStatus r = Processing) (\<lambda>r. r\<lparr>rStatus := Pending\<rparr>))))
       (\<lambda>_. ret ())"

definition sqlite_Stats :: "string \<Rightarrow> (string, string, queue_stats) action" where
  "sqlite_Stats queue =
     andThen (wrap ''shoebox/sqlite: stats query'' (query_stats queue)) (\<lambda>st.
     let c = (case st of None \<Rightarrow> stats_values 0 0 0 0 | Some c \<Rightarrow> c)
     in andThen (wrap ''shoebox/sqlite: stats depth''
            (query (\<lambda>rows. length (filter (\<lambda>r. rQueue r = queue \<and> rStatus r = Pending) rows)))) (\<lambda>depth.
        ret \<lparr>qQueue = queue, qDepth = depth, qProcessed = nonNegativeUint64 (of_int (stProcessed c)),
             qErrors = nonNegativeUint64 (of_int (stErrors c)), qRetries = nonNegativeUint64 (of_int (stRetries c)),
             qDead = nonNegativeUint64 (of_int (stDead c))\<rparr>))"

definition sqlite_Close :: "(string, string, unit) action" where
  "sqlite_Close s =
     (if db_closed s then (Inr (), s)
      else case call s of (r, s) \<Rightarrow> (r, s\<lparr>db_closed := True\<rparr>))"

subsection \<open>Schedules\<close>

definition parse_or_zero :: "string \<Rightarrow> time" where
  "parse_or_zero s = (case Parse_RFC3339Nano s of Some t \<Rightarrow> t | None \<Rightarrow> 0)"

definition scanSQLiteSchedule :: "string schedule_row \<Rightarrow> schedule" where
  "scanSQLiteSchedule r =
     \<lparr>sID = srID r, sQueue = srQueue r, sPayload = srPayload r, sEnqueueOptions = srOptions r,
      sInterval = srInterval r, sNextRunAt = parse_or_zero (srNextRunAt r), sEnabled = srEnabled r,
      sCreatedAt = parse_or_zero (srCreatedAt r), sUpdatedAt = parse_or_zero (srUpdatedAt r)\<rparr>"

definition sqlite_CreateSchedule :: "schedule \<Rightarrow> (string, string, unit) action" where
  "sqlite_CreateSchedule v =
     andThen (exec (insert_schedule sqlite_violation
         \<lparr>srID = sID v, srQueue = sQueue v, srPayload = sPayload v, srOptions = sEnqueueOptions v,
          srInterval = sInterval v, srNextRunAt = sqliteScheduleTime (sNextRunAt v), srEnabled = sEnabled v,
          srCreatedAt = sqliteScheduleTime (sCreatedAt v), srUpdatedAt = sqliteScheduleTime (sUpdatedAt v)\<rparr>))
       (\<lambda>_. ret ())"

definition sqlite_UpdateSchedule :: "schedule \<Rightarrow> (string, string, unit) action" where
  "sqlite_UpdateSchedule v =
     andThen (exec (update_schedules (\<lambda>r. srID r = sID v)
         (\<lambda>r. r\<lparr>srQueue := sQueue v, srPayload := sPayload v, srOptions := sEnqueueOptions v,
                srInterval := sInterval v, srNextRunAt := sqliteScheduleTime (sNextRunAt v),
                srEnabled := sEnabled v, srUpdatedAt := sqliteScheduleTime (sUpdatedAt v)\<rparr>)))
       (\<lambda>_. ret ())"

definition sqlite_DeleteSchedule :: "string \<Rightarrow> (string, string, unit) action" where
  "sqlite_DeleteSchedule sid = andThen (exec (delete_schedules (\<lambda>r. srID r = sid))) (\<lambda>_. ret ())"

definition sqlite_ListSchedules :: "string \<Rightarrow> (string, string, schedule list) action" where
  "sqlite_ListSchedules queue =
     andThen (query_schedules (\<lambda>rows. SliceStable (\<lambda>a b. text_less (srID a) (srID b))
         (filter (\<lambda>r. queue = '''' \<or> srQueue r = queue) rows))) (\<lambda>rows.
     andThen call (\<lambda>_.
     ret (map scanSQLiteSchedule rows)))"

definition sqlite_DueSchedules :: "time \<Rightarrow> int \<Rightarrow> (string, string, schedule list) action" where
  "sqlite_DueSchedules now limit =
     andThen (query_schedules (\<lambda>rows. sqlite_limit limit
         (SliceStable (\<lambda>a b. text_less (srNextRunAt a) (srNextRunAt b))
           (filter (\<lambda>r. srEnabled r \<and> text_le (srNextRunAt r) (sqliteScheduleTime now)) rows)))) (\<lambda>rows.
     andThen call (\<lambda>_.
     ret (map scanSQLiteSchedule rows)))"

definition sqlite_RunSchedule ::
  "time \<Rightarrow> string \<Rightarrow> schedule \<Rightarrow> time \<Rightarrow> time \<Rightarrow> (string, string, bool) action" where
  "sqlite_RunSchedule clk nid sc now nxt =
     transaction ''shoebox/sqlite: schedule begin'' (\<lambda>_.
       andThen (wrap ''shoebox/sqlite: schedule update''
           (exec (update_schedules
              (\<lambda>r. srID r = sID sc \<and> srEnabled r \<and> srNextRunAt r = sqliteScheduleTime (sNextRunAt sc) \<and>
                   text_le (srNextRunAt r) (sqliteScheduleTime now))
              (\<lambda>r. r\<lparr>srNextRunAt := sqliteScheduleTime nxt, srUpdatedAt := sqliteScheduleTime clk\<rparr>)))) (\<lambda>n.
       andThen (wrap ''shoebox/sqlite: schedule update rows'' call) (\<lambda>_.
       if n \<noteq> 1 then ret False
       else andThen (wrap ''shoebox/sqlite: schedule enqueue''
                (enqueueSQLite id clk (sQueue sc) (periodicMessage nid sc now))) (\<lambda>_.
            andThen (wrap ''shoebox/sqlite: schedule commit'' Commit) (\<lambda>_.
            ret True)))))"

definition sqlite_ops :: "sqlite storage_ops" where
  "sqlite_ops = \<lparr>Enqueue_op = sqlite_Enqueue, EnqueueBatch_op = sqlite_EnqueueBatch, Dequeue_op = sqlite_Dequeue,
     Ack_op = sqlite_Ack, AckBatch_op = sqlite_AckBatch, Retry_op = sqlite_Retry, DeadLetter_op = sqlite_DeadLetter,
     Replay_op = sqlite_Replay, Stats_op = sqlite_Stats, List_op = sqlite_List, Reclaim_op = sqlite_Reclaim,
     Close_op = sqlite_Close\<rparr>"

definition sqlite_schedule_ops :: "sqlite schedule_ops" where
  "sqlite_schedule_ops = \<lparr>CreateSchedule_op = sqlite_CreateSchedule, UpdateSchedule_op = sqlite_UpdateSchedule,
     DeleteSchedule_op = sqlite_DeleteSchedule, ListSchedules_op = sqlite_ListSchedules,
     RunSchedule_op = sqlite_RunSchedule, DueSchedules_op = sqlite_DueSchedules\<rparr>"

subsection \<open>The methods as transitions of the contract\<close>

lemma sqliteEnqueueArgs_new_row: "new_row (sqliteEnqueueArgs f now q msg) (mID msg) q"
  by (simp add: new_row_def sqliteEnqueueArgs_def Let_def user_queue_def split: prod.split)

lemma sqliteEnqueueArgs_id [simp]: "rID (sqliteEnqueueArgs f now q msg) = mID msg"
  by (simp add: sqliteEnqueueArgs_def Let_def split: prod.split)

lemma effect_insertE:
  assumes "effect (enqueueSQLite g now q msg) c r c'"
  obtains (failed) e where "r = Inl e" "c' = c"
    | (ok) "r = Inr ()" "mID msg \<notin> rID ` set (t_messages (current c))"
      "c' = put ((current c)\<lparr>t_messages := t_messages (current c) @ [sqliteEnqueueArgs (g (db_formats c)) now q msg]\<rparr>) c"
  using assms unfolding enqueueSQLite_def
  by (auto elim!: effect_elims simp: insert_message_def split: if_splits)

lemma sqlite_Enqueue_law:
  assumes "effect (sqlite_Enqueue now q msg) c r c'" "db_ok c" "user_queue q"
  shows "db_ok c' \<and> db_view c' = on_ok r (a_Enqueue q (mID msg) (db_view c)) (db_view c)"
proof -
  have w: "db_work c = None" using assms(2) by (simp add: db_ok_def)
  show ?thesis
    using assms(1) unfolding sqlite_Enqueue_def
  proof (cases rule: effect_insertE)
    case ok
    with assms(2) w rows_view_append [OF sqliteEnqueueArgs_new_row assms(3), of "t_messages (db_main c)"]
    show ?thesis by (simp add: db_ok_def db_view_def scans_ok_def)
  qed (use assms(2) in simp)
qed

lemma sqlite_batch_loop_effect:
  assumes "effect (sqlite_batch_loop now q i msgs) c r c'" "db_work c = Some w" "key_ok (t_messages w)" "user_queue q"
  shows "(\<exists>e. r = Inl e \<and> db_main c' = db_main c \<and> same_scans c c') \<or>
    (\<exists>rows. r = Inr () \<and> key_ok rows \<and> c' = c\<lparr>db_work := Some (w\<lparr>t_messages := rows\<rparr>)\<rparr> \<and>
       rows_view rows = a_EnqueueBatch q (map mID msgs) (rows_view (t_messages w)))"
  using assms
proof (induction msgs arbitrary: i c w)
  case Nil
  have "a_EnqueueBatch q [] a = a" for a by (simp add: a_defs)
  moreover have "c\<lparr>db_work := Some (w\<lparr>t_messages := t_messages w\<rparr>)\<rparr> = c" using Nil.prems(2) by simp
  ultimately show ?case using Nil by (auto elim!: effect_retE intro!: exI [of _ "t_messages w"])
next
  case (Cons msg msgs)
  have id: "mID (stamp_batch now i msg) = mID msg" by (simp add: stamp_batch_def Let_def)
  let ?row = "sqliteEnqueueArgs (db_formats c) now q (stamp_batch now i msg)"
  from Cons.prems(1) show ?case
    unfolding sqlite_batch_loop.simps
  proof (cases rule: effect_andThenE)
    case (failed e)
    then show ?thesis by (auto elim!: effect_insertE simp: same_scans_def)
  next
    case (ok x c1)
    from ok(1) have new: "mID msg \<notin> rID ` set (t_messages w)" and
      c1: "c1 = c\<lparr>db_work := Some (w\<lparr>t_messages := t_messages w @ [?row]\<rparr>)\<rparr>"
      using Cons.prems(2) id by (auto elim!: effect_insertE)
    have key: "key_ok (t_messages w @ [?row])" using new Cons.prems(3) id by simp
    have view: "rows_view (t_messages w @ [?row]) = a_Enqueue q (mID msg) (rows_view (t_messages w))"
      using rows_view_append [OF sqliteEnqueueArgs_new_row Cons.prems(4)] id by metis
    have "a_EnqueueBatch q (map mID msgs) (a_Enqueue q (mID msg) a) = a_EnqueueBatch q (map mID (msg # msgs)) a" for a
      by (simp add: a_defs add.commute)
    with Cons.IH [OF ok(2), of "w\<lparr>t_messages := t_messages w @ [?row]\<rparr>"] key view Cons.prems(4)
    show ?thesis by (simp add: c1 same_scans_def)
  qed
qed

lemma sqlite_EnqueueBatch_law:
  assumes "effect (sqlite_EnqueueBatch now q msgs) c r c'" "db_ok c" "user_queue q"
  shows "db_ok c' \<and> db_view c' = on_ok r (a_EnqueueBatch q (map mID msgs) (db_view c)) (db_view c)"
proof (cases "msgs = []")
  case True
  then have "r = Inr () \<and> c' = c" using assms(1) by (auto simp: sqlite_EnqueueBatch_def elim!: effect_retE)
  with True assms(2) show ?thesis by (simp add: a_defs)
next
  case False
  have k: "key_ok (t_messages (db_main c))" using assms(2) by (simp add: db_ok_def)
  show ?thesis
    by (rule transaction_on_ok [OF assms(1) [unfolded sqlite_EnqueueBatch_def if_not_P [OF False]] assms(2)])
      (use k in \<open>auto simp: same_scans_def elim!: effect_elims dest!: sqlite_batch_loop_effect [OF _ _ _ assms(3)]\<close>)
qed

lemma sqlite_Ack_law:
  assumes "effect (sqlite_Ack q i) c r c'" "db_ok c"
  shows "db_ok c' \<and> db_view c' = on_ok r (a_AckBatch q [i] (db_view c)) (db_view c)"
proof -
  have k: "key_ok (t_messages (db_main c))" using assms(2) by (simp add: db_ok_def)
  show ?thesis
    by (rule transaction_on_ok [OF assms(1) [unfolded sqlite_Ack_def] assms(2)])
      (use k in \<open>auto elim!: effect_elims simp: same_scans_def delete_messages_def upsert_stats_def rows_view_delete split: if_splits\<close>)
qed

lemma sqlite_Retry_law:
  assumes "effect (sqlite_Retry now q msg e) c r c'" "db_ok c" "user_queue q"
  shows "db_ok c' \<and> db_view c' = on_ok r (a_Retry q (mID msg) (db_view c)) (db_view c)"
proof -
  have k: "key_ok (t_messages (db_main c))" using assms(2) by (simp add: db_ok_def)
  show ?thesis
    by (rule transaction_on_ok [OF assms(1) [unfolded sqlite_Retry_def] assms(2)])
      (use k in \<open>auto elim!: effect_elims effect_insertE simp: same_scans_def delete_messages_def upsert_stats_def
         rows_view_retry [OF sqliteEnqueueArgs_new_row assms(3)] split: if_splits\<close>)
qed

lemma sqlite_DeadLetter_law:
  assumes "effect (sqlite_DeadLetter now nid q msg e) c r c'" "db_ok c" "user_queue q"
  shows "db_ok c' \<and> db_view c' = on_ok r (a_DeadLetter q (mID msg) nid (db_view c)) (db_view c)"
proof -
  have k: "key_ok (t_messages (db_main c))" using assms(2) by (simp add: db_ok_def)
  let ?dead = "deadLetterMessage nid q msg e now"
  have row: "new_row (sqliteEnqueueArgs f now (q @ ''.dlq'') ?dead) nid (q @ ''.dlq'')" for f
    using sqliteEnqueueArgs_new_row [of f now "q @ ''.dlq''" ?dead] by simp
  show ?thesis
    by (rule transaction_on_ok [OF assms(1) [unfolded sqlite_DeadLetter_def Let_def] assms(2)])
      (use k in \<open>auto elim!: effect_elims effect_insertE simp: same_scans_def update_messages_kill kill_key_ok
         rows_view_dead_letter [OF row assms(3)] upsert_stats_def split: if_splits\<close>)
qed

lemma scanMessage_id: "scanMessage r = Inr m \<Longrightarrow> mID m = rID r"
  by (auto simp: scanMessage_def Let_def split: sum.splits if_splits)

lemma sqlite_Replay_law:
  assumes "effect (sqlite_Replay now q i) c r c'" "db_ok c" "user_queue q"
  shows "db_ok c' \<and> (\<forall>u. r = Inr u \<longrightarrow> i \<in># aDead (db_view c) q) \<and> db_view c' = on_ok r (a_Replay q i (db_view c)) (db_view c)"
proof -
  let ?rows = "t_messages (db_main c)"
  have k: "key_ok ?rows" and scan: "set (db_scan c ?rows) = set ?rows"
    using assms(2) by (auto simp: db_ok_def scans_ok_def dest: mset_eq_setD)
  have view: "rows_view (filter (\<lambda>r. \<not> is_dead i q r) ?rows @ [sqliteEnqueueArgs f now q (replayMessage q m t)]) =
      a_Replay q i (rows_view ?rows)" if "mID m = i" for m t f
    using sqliteEnqueueArgs_new_row [of f now q "replayMessage q m t"] that by (intro rows_view_replay assms(3) k) simp
  have "db_ok c' \<and> (db_main c' = db_main c \<and> (\<exists>e. r = Inl e) \<or>
      (\<exists>x. r = Inr x) \<and> i \<in># ids Dead (q @ ''.dlq'') ?rows \<and> rows_view (t_messages (db_main c')) = a_Replay q i (rows_view ?rows))"
  proof (cases "filter (is_dead i q) (db_scan c ?rows)")
    case Nil
    show ?thesis
      by (rule transaction_law [OF assms(1) [unfolded sqlite_Replay_def Let_def] assms(2)])
        (use Nil in \<open>auto elim!: effect_elims simp: same_scans_def\<close>)
  next
    case (Cons x xs)
    then have "x \<in> set (db_scan c ?rows)" "is_dead i q x" by (auto simp: filter_eq_Cons_iff)
    then have x: "i \<in># ids Dead (q @ ''.dlq'') ?rows" "rID x = i" by (auto simp: scan in_ids is_dead_def)
    then have id: "\<And>m. scanMessage x = Inr m \<Longrightarrow> mID m = i" by (simp add: scanMessage_id)
    show ?thesis
      by (rule transaction_law [OF assms(1) [unfolded sqlite_Replay_def Let_def] assms(2)])
        (use Cons k x(1) in \<open>auto elim!: effect_elims effect_insertE
           simp: id view same_scans_def delete_messages_def upsert_stats_def split: if_splits\<close>)
  qed
  then show ?thesis by (auto simp: db_view_def)
qed

lemma sqlite_ack_loop_effect:
  assumes "effect (sqlite_ack_loop q is p) c r c'" "db_work c = Some w" "key_ok (t_messages w)"
  shows "(\<exists>e. r = Inl e \<and> db_main c' = db_main c \<and> same_scans c c') \<or>
    (\<exists>n rows. r = Inr n \<and> key_ok rows \<and> c' = c\<lparr>db_work := Some (w\<lparr>t_messages := rows\<rparr>)\<rparr> \<and>
       rows_view rows = a_AckBatch q is (rows_view (t_messages w)))"
  using assms
proof (induction "is" arbitrary: p c w)
  case Nil
  have "a_AckBatch q [] a = a" for a by (simp add: a_defs)
  moreover have "c\<lparr>db_work := Some (w\<lparr>t_messages := t_messages w\<rparr>)\<rparr> = c" using Nil.prems(2) by simp
  ultimately show ?case using Nil by (auto elim!: effect_retE intro!: exI [of _ "t_messages w"])
next
  case (Cons i "is")
  let ?rows = "filter (\<lambda>r. \<not> in_process i q r) (t_messages w)"
  let ?c1 = "c\<lparr>db_work := Some (w\<lparr>t_messages := ?rows\<rparr>)\<rparr>"
  have nested: "a_AckBatch q is (rows_view ?rows) = a_AckBatch q (i # is) (rows_view (t_messages w))"
    unfolding rows_view_delete by (rule qabs_eqI) (auto simp: a_defs)
  from Cons.prems(1,2) consider e where "r = Inl e" "db_main c' = db_main c" "same_scans c c'"
    | p' where "effect (sqlite_ack_loop q is p') ?c1 r c'"
    unfolding sqlite_ack_loop.simps by (auto elim!: effect_elims simp: delete_messages_def same_scans_def)
  then show ?case
  proof cases
    case (2 p')
    from Cons.IH [OF this, of "w\<lparr>t_messages := ?rows\<rparr>"] Cons.prems(3) nested show ?thesis by (simp add: same_scans_def)
  qed blast
qed

lemma sqlite_AckBatch_law:
  assumes "effect (sqlite_AckBatch q is) c r c'" "db_ok c"
  shows "db_ok c' \<and> db_view c' = on_ok r (a_AckBatch q is (db_view c)) (db_view c)"
proof (cases "is = []")
  case True
  then have "r = Inr () \<and> c' = c" using assms(1) by (auto simp: sqlite_AckBatch_def elim!: effect_retE)
  with True assms(2) show ?thesis by (simp add: a_defs)
next
  case False
  have k: "key_ok (t_messages (db_main c))" using assms(2) by (simp add: db_ok_def)
  show ?thesis
    by (rule transaction_on_ok [OF assms(1) [unfolded sqlite_AckBatch_def if_not_P [OF False]] assms(2)])
      (use k in \<open>auto simp: same_scans_def upsert_stats_def elim!: effect_elims dest!: sqlite_ack_loop_effect split: if_splits\<close>)
qed

lemma sqlite_due_pending:
  "mset rows = mset rows' \<Longrightarrow> mset (map rID (sqlite_due q now limit rows)) \<subseteq># ids Pending q rows'"
proof -
  assume eq: "mset rows = mset rows'"
  let ?due = "\<lambda>r. rQueue r = q \<and> rStatus r = Pending \<and> text_le (rScheduledAt r) now"
  have "mset (sqlite_limit limit xs) \<subseteq># mset xs" for xs :: "sqlite_row list"
    unfolding sqlite_limit_def using mset_subset_eq_add_left [of "mset (take (nat limit) xs)" "mset (drop (nat limit) xs)"]
    by (simp flip: mset_append)
  from this [of "SliceStable sqlite_before (filter ?due rows)"]
  have "mset (sqlite_due q now limit rows) \<subseteq># mset (filter ?due rows)" by (simp add: sqlite_due_def)
  also have "\<dots> = filter_mset ?due (mset rows')" by (simp add: eq)
  also have "\<dots> \<subseteq># filter_mset (\<lambda>r. rStatus r = Pending \<and> rQueue r = q) (mset rows')"
    by (rule filter_mset_mono_strong) auto
  finally show ?thesis unfolding ids_def mset_map mset_filter by (rule image_mset_subseteq_mono)
qed

lemma sqlite_Dequeue_cases:
  assumes "effect (sqlite_Dequeue now q limit) c r c'" "db_ok c"
  shows "db_ok c' \<and> (db_main c' = db_main c \<and> (\<exists>e. r = Inl e) \<or>
    (\<exists>ms. r = Inr ms \<and> ms \<noteq> [] \<and>
       scan_rows scanMessage ''shoebox/sqlite: dequeue scan'' q
         (sqlite_due q (Format_RFC3339Nano (fZone (db_formats c) now) now) limit (db_scan c (t_messages (db_main c)))) = Inr ms \<and>
       t_messages (db_main c') = map (mark q (mID ` set ms)) (t_messages (db_main c))))"
proof -
  have k: "key_ok (t_messages (db_main c))" using assms(2) by (simp add: db_ok_def)
  let ?scan = "scan_rows scanMessage ''shoebox/sqlite: dequeue scan'' q
    (sqlite_due q (Format_RFC3339Nano (fZone (db_formats c) now) now) limit (db_scan c (t_messages (db_main c))))"
  consider e where "?scan = Inl e" | "?scan = Inr []" | ms where "?scan = Inr ms" "ms \<noteq> []"
    by (cases ?scan) auto
  then show ?thesis
    by cases (rule transaction_law [OF assms(1) [unfolded sqlite_Dequeue_def sqlite_mark_loop_def] assms(2)];
      use k in \<open>auto simp: same_scans_def elim!: effect_elims dest!: mark_loop_effect\<close>)+
qed

lemma sqlite_due_length: "0 \<le> limit \<Longrightarrow> int (length (sqlite_due q now limit rows)) \<le> limit"
  by (simp add: sqlite_due_def sqlite_limit_def)

lemma sqlite_Dequeue_law:
  assumes "effect (sqlite_Dequeue now q limit) c (Inr out) c'" "db_ok c" "0 < limit"
  shows "db_ok c' \<and> out \<noteq> [] \<and> int (length out) \<le> limit \<and> mset (map mID out) \<subseteq># aPend (db_view c) q \<and>
    db_view c' = a_Dequeue q (map mID out) (db_view c)"
proof -
  let ?due = "sqlite_due q (Format_RFC3339Nano (fZone (db_formats c) now) now) limit (db_scan c (t_messages (db_main c)))"
  have k: "key_ok (t_messages (db_main c))" and perm: "mset (db_scan c (t_messages (db_main c))) = mset (t_messages (db_main c))"
    using assms(2) by (auto simp: db_ok_def scans_ok_def)
  from sqlite_Dequeue_cases [OF assms(1,2)] have c': "db_ok c'" "out \<noteq> []"
    and scan: "scan_rows scanMessage ''shoebox/sqlite: dequeue scan'' q ?due = Inr out"
    and rows: "t_messages (db_main c') = map (mark q (mID ` set out)) (t_messages (db_main c))" by auto
  have ids: "map mID out = map rID ?due" by (rule scan_rows_ids [OF scanMessage_id scan])
  then have len: "int (length out) \<le> limit"
    using sqlite_due_length [of limit] assms(3) by (metis length_map less_imp_le)
  have sub: "mset (map mID out) \<subseteq># ids Pending q (t_messages (db_main c))"
    unfolding ids by (rule sqlite_due_pending [OF perm])
  from rows_view_mark [OF k this] have "db_view c' = a_Dequeue q (map mID out) (db_view c)"
    by (simp add: db_view_def rows)
  with c' len sub show ?thesis by (simp add: db_view_def del: mset_map)
qed

lemma sqlite_Stats_law:
  assumes "effect (sqlite_Stats q) c r c'" "db_ok c"
  shows "c' = c \<and> (\<forall>st. r = Inr st \<longrightarrow> qDepth st = size (aPend (db_view c) q))"
proof -
  have perm: "mset (db_scan c (t_messages (db_main c))) = mset (t_messages (db_main c))" and w: "db_work c = None"
    using assms(2) by (auto simp: db_ok_def scans_ok_def)
  show ?thesis
    using assms(1) w unfolding sqlite_Stats_def Let_def
    by (auto elim!: effect_elims simp: db_view_def depth_scan [OF perm])
qed

lemma sqlite_Close_law:
  assumes "sqlite_Close s = (r, s')" "db_ok s"
  shows "db_ok s' \<and> db_view s' = db_view s"
  using assms by (auto simp: sqlite_Close_def call_def db_ok_def scans_ok_def db_view_def split: if_splits)

lemma sqlite_List_law: "effect (sqlite_List qn l) c r c' \<Longrightarrow> c' = c"
  unfolding sqlite_List_def by (auto elim!: effect_elims split: if_splits)

interpretation sqlite: queue_store sqlite_ops db_ok db_view
proof unfold_locales
  fix s s' :: sqlite and q t msg msgs limit out e1 i "is" e nid r1 r2 r6 qn
  assume ok: "db_ok s"
  note eff = effectI [where s = s and s' = s']
  have ok: "db_ok (core s)" using ok by simp
  show "db_ok s' \<and> accepts q [mID msg] r1 (db_view s) (db_view s')"
    if "user_queue q" "Enqueue_op sqlite_ops t q msg s = (r1, s')"
    using sqlite_Enqueue_law [OF eff ok] that by (simp add: sqlite_ops_def accepts_one)
  show "db_ok s' \<and> accepts q (map mID msgs) r1 (db_view s) (db_view s')"
    if "user_queue q" "EnqueueBatch_op sqlite_ops t q msgs s = (r1, s')"
    using sqlite_EnqueueBatch_law [OF eff ok] that by (simp add: sqlite_ops_def accepts_all)
  show "db_ok s' \<and> out \<noteq> [] \<and> int (length out) \<le> limit \<and> mset (map mID out) \<subseteq># aPend (db_view s) q \<and>
      db_view s' = a_Dequeue q (map mID out) (db_view s)"
    if "0 < limit" "Dequeue_op sqlite_ops t q limit s = (Inr out, s')"
    using sqlite_Dequeue_law [OF eff ok] that by (simp add: sqlite_ops_def)
  show "db_ok s' \<and> db_view s' = db_view s" if "Dequeue_op sqlite_ops t q limit s = (Inl e1, s')"
    using sqlite_Dequeue_cases [OF eff ok] that by (fastforce simp: sqlite_ops_def db_view_def)
  show "db_ok s' \<and> db_view s' = on_ok r1 (a_AckBatch q [i] (db_view s)) (db_view s)"
    if "Ack_op sqlite_ops q i s = (r1, s')"
    using sqlite_Ack_law [OF eff ok] that by (simp add: sqlite_ops_def)
  show "db_ok s' \<and> db_view s' = on_ok r1 (a_AckBatch q is (db_view s)) (db_view s)"
    if "AckBatch_op sqlite_ops q is s = (r1, s')"
    using sqlite_AckBatch_law [OF eff ok] that by (simp add: sqlite_ops_def)
  show "db_ok s' \<and> db_view s' = on_ok r1 (a_Retry q (mID msg) (db_view s)) (db_view s)"
    if "user_queue q" "Retry_op sqlite_ops t q msg e s = (r1, s')"
    using sqlite_Retry_law [OF eff ok] that by (simp add: sqlite_ops_def)
  show "db_ok s' \<and> db_view s' = on_ok r1 (a_DeadLetter q (mID msg) nid (db_view s)) (db_view s)"
    if "user_queue q" "DeadLetter_op sqlite_ops t nid q msg e s = (r1, s')"
    using sqlite_DeadLetter_law [OF eff ok] that by (simp add: sqlite_ops_def)
  show "db_ok s' \<and> (\<forall>u. r1 = Inr u \<longrightarrow> i \<in># aDead (db_view s) q) \<and>
      db_view s' = on_ok r1 (a_Replay q i (db_view s)) (db_view s)"
    if "user_queue q" "Replay_op sqlite_ops t q i s = (r1, s')"
    using sqlite_Replay_law [OF eff ok] that by (simp add: sqlite_ops_def)
  show "db_ok s' \<and> db_view s' = db_view s \<and> (\<forall>st. r2 = Inr st \<longrightarrow> qDepth st = size (aPend (db_view s) q))"
    if "Stats_op sqlite_ops q s = (r2, s')"
    using sqlite_Stats_law [OF eff ok] that ok db_ok_core db_view_core by (metis sqlite_ops_def storage_ops.simps(9))
  show "db_ok s' \<and> db_view s' = db_view s" if "List_op sqlite_ops qn limit s = (r6, s')"
    using sqlite_List_law [OF eff] that ok db_ok_core db_view_core by (metis sqlite_ops_def storage_ops.simps(10))
  show "db_ok s' \<and> db_view s' = db_view s" if "Close_op sqlite_ops s = (r1, s')"
    using sqlite_Close_law [of s r1 s'] that ok by (simp add: sqlite_ops_def)
qed

lemma sqlite_RunSchedule_law:
  assumes "effect (sqlite_RunSchedule clk nid sc now nxt) c r c'" "db_ok c" "user_queue (sQueue sc)"
  shows "db_ok c' \<and> (db_view c' = db_view c \<or> db_view c' = a_Enqueue (sQueue sc) nid (db_view c))"
proof -
  have k: "key_ok (t_messages (db_main c))" using assms(2) by (simp add: db_ok_def)
  have row: "new_row (sqliteEnqueueArgs f clk (sQueue sc) (periodicMessage nid sc now)) nid (sQueue sc)" for f
    using sqliteEnqueueArgs_new_row [of f clk "sQueue sc" "periodicMessage nid sc now"] by simp
  have "db_ok c' \<and> (db_main c' = db_main c \<and> True \<or>
      rows_view (t_messages (db_main c')) = a_Enqueue (sQueue sc) nid (rows_view (t_messages (db_main c))))"
    by (rule transaction_law [OF assms(1) [unfolded sqlite_RunSchedule_def] assms(2)])
      (use k in \<open>auto elim!: effect_elims effect_insertE
         simp: same_scans_def update_schedules_def rows_view_append [OF row assms(3)] split: if_splits\<close>)
  then show ?thesis by (auto simp: db_view_def)
qed

lemma sqlite_schedule_frame:
  "effect (sqlite_CreateSchedule sc) c r5 c' \<Longrightarrow> db_ok c \<Longrightarrow> db_ok c' \<and> db_view c' = db_view c"
  "effect (sqlite_DeleteSchedule jid) c r5 c' \<Longrightarrow> db_ok c \<Longrightarrow> db_ok c' \<and> db_view c' = db_view c"
  "effect (sqlite_ListSchedules qn) c r3 c' \<Longrightarrow> db_ok c \<Longrightarrow> db_ok c' \<and> db_view c' = db_view c"
  unfolding sqlite_CreateSchedule_def sqlite_DeleteSchedule_def sqlite_ListSchedules_def
  by (erule effect_andThenE; (erule effect_retE)?; (drule (1) effect_exec_frame)?;
      auto elim!: effect_elims simp: insert_schedule_def delete_schedules_def split: if_splits option.splits)+

interpretation sqlites: schedule_store sqlite_ops db_ok db_view sqlite_schedule_ops
proof unfold_locales
  fix s s' :: sqlite and now l r3 sc clk nid nxt r4 r5 jid qn
  assume ok: "db_ok s"
  note eff = effectI [where s = s and s' = s']
  have ok': "db_ok (core s)" using ok by simp
  show "db_ok s' \<and> db_view s' = db_view s" if "CreateSchedule_op sqlite_schedule_ops sc s = (r5, s')"
    using sqlite_schedule_frame(1) [OF eff ok'] that by (simp add: sqlite_schedule_ops_def)
  show "db_ok s' \<and> db_view s' = db_view s" if "DeleteSchedule_op sqlite_schedule_ops jid s = (r5, s')"
    using sqlite_schedule_frame(2) [OF eff ok'] that by (simp add: sqlite_schedule_ops_def)
  show "db_ok s' \<and> db_view s' = db_view s" if "ListSchedules_op sqlite_schedule_ops qn s = (r3, s')"
    using sqlite_schedule_frame(3) [OF eff ok'] that by (simp add: sqlite_schedule_ops_def)
  show "db_ok s' \<and> db_view s' = db_view s" if "DueSchedules_op sqlite_schedule_ops now l s = (r3, s')"
  proof -
    have "effect (sqlite_DueSchedules now l) (core s) r3 (core s')"
      using that by (intro eff) (simp add: sqlite_schedule_ops_def)
    then have "core s' = core s" unfolding sqlite_DueSchedules_def by (auto elim!: effect_elims)
    then show ?thesis using ok by (metis db_ok_core db_view_core)
  qed
  show "db_ok s' \<and> (db_view s' = db_view s \<or> db_view s' = a_Enqueue (sQueue sc) nid (db_view s))"
    if "user_queue (sQueue sc)" "RunSchedule_op sqlite_schedule_ops clk nid sc now nxt s = (r4, s')"
    using sqlite_RunSchedule_law [OF eff ok' that(1)] that(2) by (simp add: sqlite_schedule_ops_def)
qed

end
