(* ===== verification/Postgres_Store.thy ===== *)
theory Postgres_Store
  imports SQL_Database
begin

text \<open>
  Package \<open>internal/storage\<close>, file \<open>postgres.go\<close>: the backend on an external PostgreSQL database, with
  the durable deduplication of the unique index \<open>idx_shoebox_durable_dedupe\<close>.

  A \<open>TIMESTAMPTZ\<close> counts microseconds: the driver drops the nanoseconds of a \<open>time.Time\<close> when it
  writes one. \<open>now()\<close> of a statement is the clock of the server, an argument like the other readings
  of a clock. A method is one transaction; of concurrent transactions of other connections the
  model keeps the row locks that \<open>SKIP LOCKED\<close> passes over (\<open>db_locked\<close>). Integers fit their
  columns. The cast \<open>::jsonb\<close> is a parameter: it yields the document a text denotes, or fails.
\<close>

type_synonym postgres_row = "(int, int option) row"
type_synonym postgres = "(int, int option) db"

definition pg_write :: "time \<Rightarrow> int" where
  "pg_write t = t div 1000"

definition pg_read :: "int \<Rightarrow> time" where
  "pg_read us = us * 1000"

definition postgresEnqueueArgs :: "formats \<Rightarrow> time \<Rightarrow> string \<Rightarrow> message \<Rightarrow> postgres_row" where
  "postgresEnqueueArgs f now queue msg =
     (let msg = (if IsZero (mCreatedAt msg) then msg\<lparr>mCreatedAt := now\<rparr> else msg);
          msg = (if IsZero (mScheduledAt msg) then msg\<lparr>mScheduledAt := now\<rparr> else msg);
          deadAt = (if \<not> IsZero (mDeadAt msg) then Some (pg_write (mDeadAt msg)) else None);
          status = (if strings_HasSuffix queue ''.dlq'' then Dead else Pending)
      in \<lparr>rID = mID msg, rQueue = queue, rPayload = mPayload msg, rAttempts = mAttempts msg,
          rMaxRetries = mMaxRetries msg, rCreatedAt = pg_write (mCreatedAt msg),
          rScheduledAt = pg_write (mScheduledAt msg), rPriority = mPriority msg,
          rDedupeKey = mDedupeKey msg, rMetadata = fJSON f (mMetadata msg), rError = mError msg,
          rDeadAt = deadAt, rStatus = status\<rparr>)"

definition pg_violation :: err where
  "pg_violation = ErrMsg ''ERROR: duplicate key value violates unique constraint (SQLSTATE 23505)''"

text \<open>
  The rows of the partial unique index, and \<open>INSERT \<dots> ON CONFLICT (queue, dedupe_key) WHERE \<dots> DO
  NOTHING\<close>: an insert that would collide in the index affects no row.
\<close>

definition indexed :: "('t, 'd) row \<Rightarrow> bool" where
  "indexed r \<longleftrightarrow> rDedupeKey r \<noteq> '''' \<and> (rStatus r = Pending \<or> rStatus r = Processing)"

definition insert_unless_conflict :: "('t, 'd) row \<Rightarrow> ('t, 'd, nat) statement" where
  "insert_unless_conflict r t =
     (if indexed r \<and> (\<exists>r' \<in> set (t_messages t). indexed r' \<and> rQueue r' = rQueue r \<and> rDedupeKey r' = rDedupeKey r)
      then (Inr 0, t) else insert_message pg_violation r t)"

definition postgresInsertSQL :: "message \<Rightarrow> postgres_row \<Rightarrow> (int, int option, nat) statement" where
  "postgresInsertSQL msg r = (if mDedupeKey msg \<noteq> '''' then insert_unless_conflict r else insert_message pg_violation r)"

definition enqueuePostgresRow :: "time \<Rightarrow> string \<Rightarrow> message \<Rightarrow> (int, int option, bool) action" where
  "enqueuePostgresRow now queue msg =
     andThen get_formats (\<lambda>f.
     andThen (wrap ''shoebox/postgres: enqueue'' (exec (postgresInsertSQL msg (postgresEnqueueArgs f now queue msg))))
       (\<lambda>n. ret (n = 1)))"

definition enqueuePostgres :: "time \<Rightarrow> string \<Rightarrow> message \<Rightarrow> (int, int option, unit) action" where
  "enqueuePostgres now queue msg = andThen (enqueuePostgresRow now queue msg) (\<lambda>_. ret ())"

definition enqueuePostgresAtomic :: "time \<Rightarrow> string \<Rightarrow> message \<Rightarrow> (int, int option, unit) action" where
  "enqueuePostgresAtomic now queue msg =
     andThen (enqueuePostgresRow now queue msg) (\<lambda>inserted.
       if \<not> inserted then fail (ErrMsg ''shoebox/postgres: enqueue skipped by conflict'') else ret ())"

definition pg_Enqueue :: "time \<Rightarrow> string \<Rightarrow> message \<Rightarrow> (int, int option, unit) action" where
  "pg_Enqueue now queue msg = enqueuePostgres now queue msg"

text \<open>The statements of the batch, as \<open>SendBatch\<close> runs them.\<close>

fun pg_batch_loop :: "time \<Rightarrow> string \<Rightarrow> nat \<Rightarrow> message list \<Rightarrow> (int, int option, unit) action" where
  "pg_batch_loop now queue i [] = ret ()"
| "pg_batch_loop now queue i (msg # msgs) =
     (let msg = stamp_batch now i msg
      in andThen get_formats (\<lambda>f.
         andThen (wrap ''shoebox/postgres: enqueue batch'' (exec (postgresInsertSQL msg (postgresEnqueueArgs f now queue msg))))
           (\<lambda>_. pg_batch_loop now queue (Suc i) msgs)))"

definition pg_EnqueueBatch :: "time \<Rightarrow> string \<Rightarrow> message list \<Rightarrow> (int, int option, unit) action" where
  "pg_EnqueueBatch now queue messages =
     (if messages = [] then ret ()
      else transaction ''shoebox/postgres: enqueue batch begin'' (\<lambda>_.
        andThen (pg_batch_loop now queue 0 messages) (\<lambda>_.
        andThen (wrap ''shoebox/postgres: enqueue batch close'' call) (\<lambda>_.
        wrap ''shoebox/postgres: enqueue batch commit'' Commit))))"

subsection \<open>Reading rows\<close>

text \<open>
  \<open>pgxType\<close>: a nullable timestamp with its own \<open>Scan\<close>. \<open>scanPostgresMessage\<close> hands the field \<open>val\<close> to
  the driver and not the value itself, so its \<open>Scan\<close> does not run and \<open>set\<close> stays false.
\<close>

record pgxType =
  pt_val :: "int option"
  pt_set :: bool
  pt_time :: time

definition pgx_zero :: pgxType where
  "pgx_zero = \<lparr>pt_val = None, pt_set = False, pt_time = 0\<rparr>"

definition pgx_Scan :: "int option \<Rightarrow> pgxType \<Rightarrow> pgxType" where
  "pgx_Scan src p = (case src of None \<Rightarrow> p\<lparr>pt_set := False\<rparr> | Some us \<Rightarrow> p\<lparr>pt_time := pg_read us, pt_set := True\<rparr>)"

definition pgx_Time :: "pgxType \<Rightarrow> time" where
  "pgx_Time p = (if \<not> pt_set p then 0 else pt_time p)"

definition scanPostgresMessage :: "postgres_row \<Rightarrow> message result" where
  "scanPostgresMessage r =
     (let deadAt = pgx_zero\<lparr>pt_val := rDeadAt r\<rparr>
      in Inr (zero_message\<lparr>mID := rID r, mPayload := rPayload r, mAttempts := rAttempts r,
                mMaxRetries := rMaxRetries r, mCreatedAt := pg_read (rCreatedAt r), mScheduledAt := pg_read (rScheduledAt r),
                mDedupeKey := rDedupeKey r, mError := rError r, mPriority := rPriority r,
                mMetadata := rMetadata r, mDeadAt := pgx_Time deadAt\<rparr>))"

text \<open>A negative \<open>LIMIT\<close> is an error.\<close>

definition with_limit :: "int \<Rightarrow> (int, int option, 'a) action \<Rightarrow> (int, int option, 'a) action" where
  "with_limit limit m =
     (if limit < 0 then andThen call (\<lambda>_. fail (ErrMsg ''ERROR: LIMIT must not be negative (SQLSTATE 2201W)'')) else m)"

definition pg_before :: "postgres_row \<Rightarrow> postgres_row \<Rightarrow> bool" where
  "pg_before a b \<longleftrightarrow> (if rPriority a \<noteq> rPriority b then rPriority a > rPriority b else rCreatedAt a < rCreatedAt b)"

definition pg_due :: "string \<Rightarrow> time \<Rightarrow> int \<Rightarrow> postgres_row list \<Rightarrow> postgres_row list" where
  "pg_due queue now limit rows =
     take (nat limit) (SliceStable pg_before
       (filter (\<lambda>r. rQueue r = queue \<and> rStatus r = Pending \<and> rScheduledAt r \<le> pg_write now) rows))"

definition pg_mark_loop :: "string \<Rightarrow> message list \<Rightarrow> (int, int option, unit) action" where
  "pg_mark_loop queue ms = mark_loop ''shoebox/postgres: dequeue mark processing'' queue ms"

definition pg_Dequeue :: "time \<Rightarrow> string \<Rightarrow> int \<Rightarrow> (int, int option, message list) action" where
  "pg_Dequeue now queue limit =
     transaction ''shoebox/postgres: dequeue begin'' (\<lambda>_.
       andThen (wrap ''shoebox/postgres: dequeue query''
           (with_limit limit (query_skip_locked (pg_due queue now limit)))) (\<lambda>rows.
       andThen (give (scan_rows scanPostgresMessage ''shoebox/postgres: dequeue scan'' queue rows)) (\<lambda>msgs.
       andThen (wrap ''shoebox/postgres: dequeue rows'' call) (\<lambda>_.
       if msgs = [] then fail ErrEmpty
       else andThen (pg_mark_loop queue msgs) (\<lambda>_.
            andThen (wrap ''shoebox/postgres: dequeue commit'' Commit) (\<lambda>_.
            ret msgs))))))"

subsection \<open>Settling messages\<close>

definition pg_Ack :: "string \<Rightarrow> string \<Rightarrow> (int, int option, unit) action" where
  "pg_Ack queue msgID =
     transaction ''shoebox/postgres: ack begin'' (\<lambda>_.
       andThen (wrap ''shoebox/postgres: ack delete'' (exec (delete_messages (in_process msgID queue)))) (\<lambda>rows.
       if rows = 0 then Commit
       else andThen (wrap ''shoebox/postgres: ack stats''
                (exec (upsert_stats queue (stats_values 1 0 0 0) (\<lambda>s. s\<lparr>stProcessed := stProcessed s + 1\<rparr>)))) (\<lambda>_.
            Commit)))"

definition pg_AckBatch :: "string \<Rightarrow> string list \<Rightarrow> (int, int option, unit) action" where
  "pg_AckBatch queue msgIDs =
     (if msgIDs = [] then ret ()
      else transaction ''shoebox/postgres: ack batch begin'' (\<lambda>_.
        andThen (wrap ''shoebox/postgres: ack batch delete''
            (exec (delete_messages (\<lambda>r. rQueue r = queue \<and> rStatus r = Processing \<and> rID r \<in> set msgIDs)))) (\<lambda>processed.
        if processed > 0
        then andThen (wrap ''shoebox/postgres: ack batch stats''
                 (exec (upsert_stats queue (stats_values (int processed) 0 0 0)
                    (\<lambda>s. s\<lparr>stProcessed := stProcessed s + int processed\<rparr>)))) (\<lambda>_. Commit)
        else Commit)))"

definition pg_Retry :: "time \<Rightarrow> string \<Rightarrow> message \<Rightarrow> err option \<Rightarrow> (int, int option, unit) action" where
  "pg_Retry now queue msg err =
     transaction ''shoebox/postgres: retry begin'' (\<lambda>_.
       andThen (wrap ''shoebox/postgres: retry delete'' (exec (delete_messages (in_process (mID msg) queue)))) (\<lambda>n.
       if n \<noteq> 1 then fail ErrEmpty
       else andThen (wrap ''shoebox/postgres: retry enqueue'' (enqueuePostgresAtomic now queue msg)) (\<lambda>_.
            andThen (wrap ''shoebox/postgres: retry stats''
                (exec (upsert_stats queue (stats_values 0 1 1 0)
                   (\<lambda>s. s\<lparr>stErrors := stErrors s + 1, stRetries := stRetries s + 1\<rparr>)))) (\<lambda>_.
            Commit))))"

definition pg_DeadLetter :: "time \<Rightarrow> string \<Rightarrow> string \<Rightarrow> message \<Rightarrow> err option \<Rightarrow> (int, int option, unit) action" where
  "pg_DeadLetter now nid queue msg handlerErr =
     transaction ''shoebox/postgres: dead-letter begin'' (\<lambda>_.
       let dead = deadLetterMessage nid queue msg handlerErr now
       in andThen (wrap ''shoebox/postgres: dead-letter enqueue'' (enqueuePostgresAtomic now (mQueue dead) dead)) (\<lambda>_.
          andThen (wrap ''shoebox/postgres: dead-letter update''
            (exec (update_messages (in_process (mID msg) queue)
               (\<lambda>r. r\<lparr>rStatus := Dead, rError := mError dead, rDeadAt := Some (pg_write (mDeadAt dead))\<rparr>)))) (\<lambda>n.
          if n \<noteq> 1 then fail ErrEmpty
          else andThen (wrap ''shoebox/postgres: dead-letter stats''
                   (exec (upsert_stats queue (stats_values 0 0 0 1) (\<lambda>s. s\<lparr>stDead := stDead s + 1\<rparr>)))) (\<lambda>_.
               Commit))))"

definition pg_Replay :: "time \<Rightarrow> string \<Rightarrow> string \<Rightarrow> (int, int option, unit) action" where
  "pg_Replay now queue msgID =
     transaction ''shoebox/postgres: replay begin'' (\<lambda>_.
       andThen (wrap ''shoebox/postgres: replay query'' (query (filter (is_dead msgID queue)))) (\<lambda>rows.
       case rows of
         [] \<Rightarrow> fail ErrEmpty
       | row # _ \<Rightarrow>
           andThen (wrap ''shoebox/postgres: replay query'' (give (scanPostgresMessage row))) (\<lambda>msg.
           let msg = replayMessage queue (msg\<lparr>mQueue := queue @ ''.dlq''\<rparr>) now
           in andThen (wrap ''shoebox/postgres: replay delete'' (exec (delete_messages (is_dead msgID queue)))) (\<lambda>n.
              if n \<noteq> 1 then fail ErrEmpty
              else andThen (wrap ''shoebox/postgres: replay enqueue'' (enqueuePostgresAtomic now queue msg)) (\<lambda>_.
                   andThen (wrap ''shoebox/postgres: replay stats''
                       (exec (upsert_stats (queue @ ''.dlq'') (stats_values 1 0 0 0)
                          (\<lambda>s. s\<lparr>stProcessed := stProcessed s + 1\<rparr>)))) (\<lambda>_.
                   Commit))))))"

subsection \<open>Inspection and recovery\<close>

text \<open>\<open>ORDER BY dead_at DESC\<close>: a \<open>NULL\<close> sorts before every timestamp.\<close>

definition dead_later :: "postgres_row \<Rightarrow> postgres_row \<Rightarrow> bool" where
  "dead_later a b =
     (case (rDeadAt a, rDeadAt b) of
        (None, Some _) \<Rightarrow> True | (Some x, Some y) \<Rightarrow> y < x | _ \<Rightarrow> False)"

definition pg_List :: "string \<Rightarrow> int \<Rightarrow> (int, int option, message list) action" where
  "pg_List queue limit =
     andThen (wrap ''shoebox/postgres: list query'' (with_limit limit (query (\<lambda>rows.
         take (nat limit) (SliceStable dead_later (filter (\<lambda>r. rQueue r = queue \<and> rStatus r = Dead) rows)))))) (\<lambda>rows.
     andThen (give (scan_rows scanPostgresMessage ''shoebox/postgres: list scan'' queue rows)) (\<lambda>msgs.
     andThen (wrap ''shoebox/postgres: list rows'' call) (\<lambda>_.
     if msgs = [] then fail ErrEmpty else ret msgs)))"

definition pg_Reclaim :: "string \<Rightarrow> (int, int option, unit) action" where
  "pg_Reclaim queue =
     andThen (wrap ''shoebox/postgres: reclaim''
         (exec (update_messages (\<lambda>r. rQueue r = queue \<and> rStatus r = Processing) (\<lambda>r. r\<lparr>rStatus := Pending\<rparr>))))
       (\<lambda>_. ret ())"

text \<open>The end of \<open>NewPostgres\<close>.\<close>

definition pg_reclaim_all :: "(int, int option, unit) action" where
  "pg_reclaim_all =
     andThen (wrap ''shoebox/postgres: reclaim''
         (exec (update_messages (\<lambda>r. rStatus r = Processing) (\<lambda>r. r\<lparr>rStatus := Pending\<rparr>))))
       (\<lambda>_. ret ())"

definition pg_Stats :: "string \<Rightarrow> (int, int option, queue_stats) action" where
  "pg_Stats queue =
     andThen (wrap ''shoebox/postgres: stats query'' (query_stats queue)) (\<lambda>st.
     let c = (case st of None \<Rightarrow> stats_values 0 0 0 0 | Some c \<Rightarrow> c)
     in andThen (wrap ''shoebox/postgres: stats depth''
            (query (\<lambda>rows. length (filter (\<lambda>r. rQueue r = queue \<and> rStatus r = Pending) rows)))) (\<lambda>depth.
        ret \<lparr>qQueue = queue, qDepth = depth, qProcessed = nonNegativeUint64 (of_int (stProcessed c)),
             qErrors = nonNegativeUint64 (of_int (stErrors c)), qRetries = nonNegativeUint64 (of_int (stRetries c)),
             qDead = nonNegativeUint64 (of_int (stDead c))\<rparr>))"

definition pg_Close :: "(int, int option, unit) action" where
  "pg_Close s = (Inr (), s\<lparr>db_closed := True\<rparr>)"

subsection \<open>Schedules\<close>

type_synonym jsonb_cast = "byte list \<Rightarrow> byte list option"

definition invalid_json :: err where
  "invalid_json = ErrMsg ''ERROR: invalid input syntax for type json (SQLSTATE 22P02)''"

definition scanPostgresSchedule :: "int schedule_row \<Rightarrow> schedule" where
  "scanPostgresSchedule r =
     \<lparr>sID = srID r, sQueue = srQueue r, sPayload = srPayload r, sEnqueueOptions = srOptions r,
      sInterval = srInterval r, sNextRunAt = pg_read (srNextRunAt r), sEnabled = srEnabled r,
      sCreatedAt = pg_read (srCreatedAt r), sUpdatedAt = pg_read (srUpdatedAt r)\<rparr>"

definition pg_CreateSchedule :: "jsonb_cast \<Rightarrow> schedule \<Rightarrow> (int, int option, unit) action" where
  "pg_CreateSchedule jsonb v =
     andThen (exec (\<lambda>t. case jsonb (sEnqueueOptions v) of
         None \<Rightarrow> (Inl invalid_json, t)
       | Some opts \<Rightarrow> insert_schedule pg_violation
           \<lparr>srID = sID v, srQueue = sQueue v, srPayload = sPayload v, srOptions = opts,
            srInterval = sInterval v, srNextRunAt = pg_write (sNextRunAt v), srEnabled = sEnabled v,
            srCreatedAt = pg_write (sCreatedAt v), srUpdatedAt = pg_write (sUpdatedAt v)\<rparr> t))
       (\<lambda>_. ret ())"

definition pg_UpdateSchedule :: "jsonb_cast \<Rightarrow> schedule \<Rightarrow> (int, int option, unit) action" where
  "pg_UpdateSchedule jsonb v =
     andThen (exec (\<lambda>t. case jsonb (sEnqueueOptions v) of
         None \<Rightarrow> (Inl invalid_json, t)
       | Some opts \<Rightarrow> update_schedules (\<lambda>r. srID r = sID v)
           (\<lambda>r. r\<lparr>srQueue := sQueue v, srPayload := sPayload v, srOptions := opts,
                  srInterval := sInterval v, srNextRunAt := pg_write (sNextRunAt v),
                  srEnabled := sEnabled v, srUpdatedAt := pg_write (sUpdatedAt v)\<rparr>) t))
       (\<lambda>_. ret ())"

definition pg_DeleteSchedule :: "string \<Rightarrow> (int, int option, unit) action" where
  "pg_DeleteSchedule sid = andThen (exec (delete_schedules (\<lambda>r. srID r = sid))) (\<lambda>_. ret ())"

text \<open>\<open>ORDER BY id\<close> follows the collation of the database, a parameter.\<close>

definition pg_ListSchedules :: "(string \<Rightarrow> string \<Rightarrow> bool) \<Rightarrow> string \<Rightarrow> (int, int option, schedule list) action" where
  "pg_ListSchedules collate queue =
     andThen (query_schedules (\<lambda>rows. SliceStable (\<lambda>a b. collate (srID a) (srID b))
         (filter (\<lambda>r. queue = '''' \<or> srQueue r = queue) rows))) (\<lambda>rows.
     andThen call (\<lambda>_.
     ret (map scanPostgresSchedule rows)))"

definition pg_DueSchedules :: "time \<Rightarrow> int \<Rightarrow> (int, int option, schedule list) action" where
  "pg_DueSchedules now limit =
     andThen (with_limit limit (query_schedules (\<lambda>rows. take (nat limit)
         (SliceStable (\<lambda>a b. srNextRunAt a < srNextRunAt b)
           (filter (\<lambda>r. srEnabled r \<and> srNextRunAt r \<le> pg_write now) rows))))) (\<lambda>rows.
     andThen call (\<lambda>_.
     ret (map scanPostgresSchedule rows)))"

definition pg_RunSchedule ::
  "time \<Rightarrow> string \<Rightarrow> schedule \<Rightarrow> time \<Rightarrow> time \<Rightarrow> (int, int option, bool) action" where
  "pg_RunSchedule clk nid sc now nxt =
     transaction ''shoebox/postgres: schedule begin'' (\<lambda>_.
       andThen (wrap ''shoebox/postgres: schedule update''
           (exec (update_schedules
              (\<lambda>r. srID r = sID sc \<and> srEnabled r \<and> srNextRunAt r = pg_write (sNextRunAt sc) \<and>
                   srNextRunAt r \<le> pg_write now)
              (\<lambda>r. r\<lparr>srNextRunAt := pg_write nxt, srUpdatedAt := pg_write clk\<rparr>)))) (\<lambda>n.
       if n \<noteq> 1 then ret False
       else andThen (wrap ''shoebox/postgres: schedule enqueue''
                (enqueuePostgresAtomic clk (sQueue sc) (periodicMessage nid sc now))) (\<lambda>_.
            andThen (wrap ''shoebox/postgres: schedule commit'' Commit) (\<lambda>_.
            ret True))))"

definition postgres_ops :: "postgres storage_ops" where
  "postgres_ops = \<lparr>Enqueue_op = pg_Enqueue, EnqueueBatch_op = pg_EnqueueBatch, Dequeue_op = pg_Dequeue,
     Ack_op = pg_Ack, AckBatch_op = pg_AckBatch, Retry_op = pg_Retry, DeadLetter_op = pg_DeadLetter,
     Replay_op = pg_Replay, Stats_op = pg_Stats, List_op = pg_List, Reclaim_op = pg_Reclaim, Close_op = pg_Close\<rparr>"

definition postgres_schedule_ops :: "jsonb_cast \<Rightarrow> (string \<Rightarrow> string \<Rightarrow> bool) \<Rightarrow> postgres schedule_ops" where
  "postgres_schedule_ops jsonb collate = \<lparr>CreateSchedule_op = pg_CreateSchedule jsonb,
     UpdateSchedule_op = pg_UpdateSchedule jsonb, DeleteSchedule_op = pg_DeleteSchedule,
     ListSchedules_op = pg_ListSchedules collate, RunSchedule_op = pg_RunSchedule, DueSchedules_op = pg_DueSchedules\<rparr>"

subsection \<open>The schema name\<close>

definition strings_ReplaceAll_char :: "char \<Rightarrow> string \<Rightarrow> string \<Rightarrow> string" where
  "strings_ReplaceAll_char c new s = concat (map (\<lambda>d. if d = c then new else [d]) s)"

definition quotePostgresIdentifier :: "string \<Rightarrow> string result" where
  "quotePostgresIdentifier identifier =
     (if identifier = '''' \<or> char_of (0::nat) \<in> set identifier
      then Inl (ErrMsg ''must be a non-empty identifier without NUL bytes'')
      else let q = char_of (34::nat) in Inr ([q] @ strings_ReplaceAll_char q [q, q] identifier @ [q]))"

subsection \<open>The methods as transitions of the contract\<close>

lemma postgresEnqueueArgs_new_row: "new_row (postgresEnqueueArgs f now q msg) (mID msg) q"
  by (simp add: new_row_def postgresEnqueueArgs_def Let_def user_queue_def)

lemma postgresEnqueueArgs_id [simp]: "rID (postgresEnqueueArgs f now q msg) = mID msg"
  by (simp add: postgresEnqueueArgs_def Let_def)

lemma effect_insert_sqlE:
  assumes "effect (exec (postgresInsertSQL m r)) c res c'"
  obtains (failed) e where "res = Inl e" "c' = c"
    | (skipped) "res = Inr 0" "c' = put (current c) c"
    | (ok) "res = Inr 1" "rID r \<notin> rID ` set (t_messages (current c))"
      "c' = put ((current c)\<lparr>t_messages := t_messages (current c) @ [r]\<rparr>) c"
  using assms
  by (auto elim!: effect_execE simp: postgresInsertSQL_def insert_unless_conflict_def insert_message_def split: if_splits)

lemma effect_pg_rowE:
  assumes "effect (enqueuePostgresRow now q msg) c r c'"
  obtains (failed) e where "r = Inl e" "c' = c"
    | (skipped) "r = Inr False" "c' = put (current c) c"
    | (ok) "r = Inr True" "mID msg \<notin> rID ` set (t_messages (current c))"
      "c' = put ((current c)\<lparr>t_messages := t_messages (current c) @ [postgresEnqueueArgs (db_formats c) now q msg]\<rparr>) c"
  using assms unfolding enqueuePostgresRow_def
  by (auto elim!: effect_get_formatsE effect_andThenE effect_wrapE effect_retE effect_insert_sqlE)

lemma effect_pg_atomicE:
  assumes "effect (enqueuePostgresAtomic now q msg) c r c'"
  obtains (failed) e where "r = Inl e" "c' = c \<or> c' = put (current c) c"
    | (ok) "r = Inr ()" "mID msg \<notin> rID ` set (t_messages (current c))"
      "c' = put ((current c)\<lparr>t_messages := t_messages (current c) @ [postgresEnqueueArgs (db_formats c) now q msg]\<rparr>) c"
  using assms unfolding enqueuePostgresAtomic_def
  by (auto elim!: effect_andThenE effect_pg_rowE effect_retE effect_failE split: if_splits)

lemma pg_Enqueue_law:
  assumes "effect (pg_Enqueue now q msg) c r c'" "db_ok c" "user_queue q"
  shows "db_ok c' \<and> accepts q [mID msg] r (db_view c) (db_view c')"
proof -
  have w: "db_work c = None" using assms(2) by (simp add: db_ok_def)
  have "effect (enqueuePostgresRow now q msg) c (map_sum id (\<lambda>_. True) r) c' \<or>
      effect (enqueuePostgresRow now q msg) c (map_sum id (\<lambda>_. False) r) c'"
    using assms(1) unfolding pg_Enqueue_def enqueuePostgres_def
    by (auto elim!: effect_andThenE effect_retE) (metis (full_types))
  then consider e where "r = Inl e" "c' = c" | "r = Inr ()" "c' = c"
    | "r = Inr ()" "mID msg \<notin> rID ` set (t_messages (db_main c))"
      "t_messages (db_main c') = t_messages (db_main c) @ [postgresEnqueueArgs (db_formats c) now q msg]" "db_work c' = None" "same_scans c c'"
    using w by (cases r) (auto elim!: effect_pg_rowE simp: same_scans_def)
  then show ?thesis
  proof cases
    case 1
    then show ?thesis using assms(2) by (auto simp: accepts_def)
  next
    case 2
    then show ?thesis using assms(2) by (auto simp: accepts_def a_EnqueueBatch_simps intro: exI [of _ "[]"])
  next
    case 3
    have "db_view c' = a_Enqueue q (mID msg) (db_view c)"
      using rows_view_append [OF postgresEnqueueArgs_new_row assms(3)] 3(3) by (simp add: db_view_def)
    then have "accepts q [mID msg] r (db_view c) (db_view c')" using accepts_one [of q "mID msg" r "db_view c"] 3(1) by simp
    then show ?thesis using 3 assms(2) by (auto simp: db_ok_def scans_ok_def same_scans_def)
  qed
qed

lemma pg_batch_loop_effect:
  assumes "effect (pg_batch_loop now q i msgs) c r c'" "db_work c = Some w" "key_ok (t_messages w)" "user_queue q"
  shows "(\<exists>e. r = Inl e \<and> db_main c' = db_main c \<and> same_scans c c') \<or>
    (\<exists>rows js. r = Inr () \<and> key_ok rows \<and> c' = c\<lparr>db_work := Some (w\<lparr>t_messages := rows\<rparr>)\<rparr> \<and>
       subseq js (map mID msgs) \<and> rows_view rows = a_EnqueueBatch q js (rows_view (t_messages w)))"
  using assms
proof (induction msgs arbitrary: i c w)
  case Nil
  have "c\<lparr>db_work := Some (w\<lparr>t_messages := t_messages w\<rparr>)\<rparr> = c" using Nil.prems(2) by simp
  then show ?case using Nil
    by (auto elim!: effect_retE simp: a_EnqueueBatch_simps intro!: exI [of _ "t_messages w"])
next
  case (Cons msg msgs)
  let ?m = "stamp_batch now i msg"
  let ?row = "postgresEnqueueArgs (db_formats c) now q ?m"
  have id: "mID ?m = mID msg" by (simp add: stamp_batch_def Let_def)
  have same: "c\<lparr>db_work := Some w\<rparr> = c" using Cons.prems(2) by simp
  from Cons.prems(1,2) consider e where "r = Inl e" "c' = c" | "effect (pg_batch_loop now q (Suc i) msgs) c r c'"
    | "mID msg \<notin> rID ` set (t_messages w)"
      "effect (pg_batch_loop now q (Suc i) msgs) (c\<lparr>db_work := Some (w\<lparr>t_messages := t_messages w @ [?row]\<rparr>)\<rparr>) r c'"
    unfolding pg_batch_loop.simps Let_def
    by (auto elim!: effect_get_formatsE effect_andThenE effect_wrapE effect_insert_sqlE simp: id same)
  then show ?case
  proof cases
    case 1
    then show ?thesis by (simp add: same_scans_def)
  next
    case 2
    from Cons.IH [OF this Cons.prems(2-4)] show ?thesis by (auto intro: list_emb_Cons)
  next
    case 3
    have "a_EnqueueBatch q js (a_Enqueue q (mID msg) a) = a_EnqueueBatch q (mID msg # js) a" for js a
      by (simp add: a_defs add.commute)
    moreover have "rows_view (t_messages w @ [?row]) = a_Enqueue q (mID msg) (rows_view (t_messages w))"
      using rows_view_append [OF postgresEnqueueArgs_new_row Cons.prems(4)] id by metis
    moreover have "key_ok (t_messages w @ [?row])" using 3(1) Cons.prems(3) id by simp
    ultimately show ?thesis
      using Cons.IH [OF 3(2), of "w\<lparr>t_messages := t_messages w @ [?row]\<rparr>"] Cons.prems(4)
      by (auto simp: same_scans_def intro: subseq_Cons2)
  qed
qed

lemma pg_EnqueueBatch_law:
  assumes "effect (pg_EnqueueBatch now q msgs) c r c'" "db_ok c" "user_queue q"
  shows "db_ok c' \<and> accepts q (map mID msgs) r (db_view c) (db_view c')"
proof (cases "msgs = []")
  case True
  then have "r = Inr () \<and> c' = c" using assms(1) by (auto simp: pg_EnqueueBatch_def elim!: effect_retE)
  with True assms(2) show ?thesis by (auto simp: accepts_def a_EnqueueBatch_simps intro: exI [of _ "[]"])
next
  case False
  have k: "key_ok (t_messages (db_main c))" using assms(2) by (simp add: db_ok_def)
  have "db_ok c' \<and> (db_main c' = db_main c \<and> (\<exists>e. r = Inl e) \<or>
      (\<exists>js. r = Inr () \<and> subseq js (map mID msgs) \<and>
         rows_view (t_messages (db_main c')) = a_EnqueueBatch q js (rows_view (t_messages (db_main c)))))"
    by (rule transaction_law [OF assms(1) [unfolded pg_EnqueueBatch_def if_not_P [OF False]] assms(2)])
      (use k in \<open>auto simp: same_scans_def elim!: effect_elims dest!: pg_batch_loop_effect [OF _ _ _ assms(3)]\<close>)
  then show ?thesis by (auto simp: db_view_def accepts_def)
qed

lemma pg_Ack_law:
  assumes "effect (pg_Ack q i) c r c'" "db_ok c"
  shows "db_ok c' \<and> db_view c' = on_ok r (a_AckBatch q [i] (db_view c)) (db_view c)"
proof -
  have k: "key_ok (t_messages (db_main c))" using assms(2) by (simp add: db_ok_def)
  show ?thesis
    by (rule transaction_on_ok [OF assms(1) [unfolded pg_Ack_def] assms(2)])
      (use k in \<open>auto elim!: effect_elims simp: same_scans_def delete_messages_def upsert_stats_def rows_view_delete split: if_splits\<close>)
qed

lemma rows_view_delete_set:
  "rows_view (filter (\<lambda>r. \<not> (rQueue r = q \<and> rStatus r = Processing \<and> rID r \<in> set is)) rows) = a_AckBatch q is (rows_view rows)"
proof (rule qabs_eqI)
  have "ids st q' (filter (\<lambda>r. \<not> (rQueue r = q \<and> rStatus r = Processing \<and> rID r \<in> set is)) rows) =
      (if st = Processing \<and> q' = q then filter_mset (\<lambda>j. j \<notin> set is) (ids st q rows) else ids st q' rows)" for st q'
    by (induction rows) auto
  then show "aPend (rows_view (filter (\<lambda>r. \<not> (rQueue r = q \<and> rStatus r = Processing \<and> rID r \<in> set is)) rows)) q' =
      aPend (a_AckBatch q is (rows_view rows)) q'"
    "aInfl (rows_view (filter (\<lambda>r. \<not> (rQueue r = q \<and> rStatus r = Processing \<and> rID r \<in> set is)) rows)) q' =
      aInfl (a_AckBatch q is (rows_view rows)) q'"
    "aDead (rows_view (filter (\<lambda>r. \<not> (rQueue r = q \<and> rStatus r = Processing \<and> rID r \<in> set is)) rows)) q' =
      aDead (a_AckBatch q is (rows_view rows)) q'" for q'
    by (simp_all only: rows_view_sel a_defs qabs.simps) auto
qed

lemma pg_AckBatch_law:
  assumes "effect (pg_AckBatch q is) c r c'" "db_ok c"
  shows "db_ok c' \<and> db_view c' = on_ok r (a_AckBatch q is (db_view c)) (db_view c)"
proof (cases "is = []")
  case True
  then have "r = Inr () \<and> c' = c" using assms(1) by (auto simp: pg_AckBatch_def elim!: effect_retE)
  with True assms(2) show ?thesis by (simp add: a_defs)
next
  case False
  define D where "D = (\<lambda>r :: postgres_row. rQueue r = q \<and> rStatus r = Processing \<and> rID r \<in> set is)"
  have k: "key_ok (t_messages (db_main c))" using assms(2) by (simp add: db_ok_def)
  have view: "rows_view (filter (\<lambda>r. \<not> D r) rows) = a_AckBatch q is (rows_view rows)" for rows
    unfolding D_def by (rule rows_view_delete_set)
  show ?thesis
    by (rule transaction_on_ok [OF assms(1) [unfolded pg_AckBatch_def if_not_P [OF False], folded D_def] assms(2)])
      (use k in \<open>auto simp: same_scans_def delete_messages_def upsert_stats_def view elim!: effect_elims split: if_splits\<close>)
qed

lemma pg_Retry_law:
  assumes "effect (pg_Retry now q msg e) c r c'" "db_ok c" "user_queue q"
  shows "db_ok c' \<and> db_view c' = on_ok r (a_Retry q (mID msg) (db_view c)) (db_view c)"
proof -
  have k: "key_ok (t_messages (db_main c))" using assms(2) by (simp add: db_ok_def)
  show ?thesis
    by (rule transaction_on_ok [OF assms(1) [unfolded pg_Retry_def] assms(2)])
      (use k in \<open>auto elim!: effect_elims effect_pg_atomicE simp: same_scans_def delete_messages_def upsert_stats_def
         rows_view_retry [OF postgresEnqueueArgs_new_row assms(3)] split: if_splits\<close>)
qed

lemma pg_DeadLetter_law:
  assumes "effect (pg_DeadLetter now nid q msg e) c r c'" "db_ok c" "user_queue q"
  shows "db_ok c' \<and> db_view c' = on_ok r (a_DeadLetter q (mID msg) nid (db_view c)) (db_view c)"
proof -
  have k: "key_ok (t_messages (db_main c))" using assms(2) by (simp add: db_ok_def)
  let ?dead = "deadLetterMessage nid q msg e now"
  have row: "new_row (postgresEnqueueArgs f now (q @ ''.dlq'') ?dead) nid (q @ ''.dlq'')" for f
    using postgresEnqueueArgs_new_row [of f now "q @ ''.dlq''" ?dead] by simp
  show ?thesis
    by (rule transaction_on_ok [OF assms(1) [unfolded pg_DeadLetter_def Let_def] assms(2)])
      (use k in \<open>auto elim!: effect_elims effect_pg_atomicE simp: same_scans_def update_messages_kill kill_key_ok
         rows_view_dead_letter [OF row assms(3)] upsert_stats_def split: if_splits\<close>)
qed

lemma scanPostgresMessage_id: "scanPostgresMessage r = Inr m \<Longrightarrow> mID m = rID r"
  by (auto simp: scanPostgresMessage_def Let_def)

lemma pg_Replay_law:
  assumes "effect (pg_Replay now q i) c r c'" "db_ok c" "user_queue q"
  shows "db_ok c' \<and> (\<forall>u. r = Inr u \<longrightarrow> i \<in># aDead (db_view c) q) \<and> db_view c' = on_ok r (a_Replay q i (db_view c)) (db_view c)"
proof -
  let ?rows = "t_messages (db_main c)"
  have k: "key_ok ?rows" and scan: "set (db_scan c ?rows) = set ?rows"
    using assms(2) by (auto simp: db_ok_def scans_ok_def dest: mset_eq_setD)
  have view: "rows_view (filter (\<lambda>r. \<not> is_dead i q r) ?rows @ [postgresEnqueueArgs f now q (replayMessage q m t)]) =
      a_Replay q i (rows_view ?rows)" if "mID m = i" for m t f
    using postgresEnqueueArgs_new_row [of f now q "replayMessage q m t"] that by (intro rows_view_replay assms(3) k) simp
  have "db_ok c' \<and> (db_main c' = db_main c \<and> (\<exists>e. r = Inl e) \<or>
      (\<exists>x. r = Inr x) \<and> i \<in># ids Dead (q @ ''.dlq'') ?rows \<and> rows_view (t_messages (db_main c')) = a_Replay q i (rows_view ?rows))"
  proof (cases "filter (is_dead i q) (db_scan c ?rows)")
    case Nil
    show ?thesis
      by (rule transaction_law [OF assms(1) [unfolded pg_Replay_def Let_def] assms(2)])
        (use Nil in \<open>auto elim!: effect_elims simp: same_scans_def\<close>)
  next
    case (Cons x xs)
    then have "x \<in> set (db_scan c ?rows)" "is_dead i q x" by (auto simp: filter_eq_Cons_iff)
    then have x: "i \<in># ids Dead (q @ ''.dlq'') ?rows" "rID x = i" by (auto simp: scan in_ids is_dead_def)
    then have id: "\<And>m. scanPostgresMessage x = Inr m \<Longrightarrow> mID m = i" by (simp add: scanPostgresMessage_id)
    show ?thesis
      by (rule transaction_law [OF assms(1) [unfolded pg_Replay_def Let_def] assms(2)])
        (use Cons k x(1) in \<open>auto elim!: effect_elims effect_pg_atomicE
           simp: id view same_scans_def delete_messages_def upsert_stats_def split: if_splits\<close>)
  qed
  then show ?thesis by (auto simp: db_view_def)
qed

lemma pg_due_pending:
  assumes "mset rows = mset rows'"
  shows "mset (map rID (pg_due q now limit (filter P rows))) \<subseteq># ids Pending q rows'"
proof -
  let ?due = "\<lambda>r. rQueue r = q \<and> rStatus r = Pending \<and> rScheduledAt r \<le> pg_write now"
  have "mset (take n xs) \<subseteq># mset xs" for n and xs :: "postgres_row list"
    using mset_subset_eq_add_left [of "mset (take n xs)" "mset (drop n xs)"] by (simp flip: mset_append)
  from this [of "nat limit" "SliceStable pg_before (filter ?due (filter P rows))"]
  have "mset (pg_due q now limit (filter P rows)) \<subseteq># filter_mset (\<lambda>r. P r \<and> ?due r) (mset rows)"
    by (simp add: pg_due_def conj_ac)
  also have "\<dots> \<subseteq># filter_mset (\<lambda>r. rStatus r = Pending \<and> rQueue r = q) (mset rows')"
    unfolding assms by (rule filter_mset_mono_strong) auto
  finally show ?thesis unfolding ids_def mset_map mset_filter by (rule image_mset_subseteq_mono)
qed

lemma pg_Dequeue_cases:
  assumes "effect (pg_Dequeue now q limit) c r c'" "db_ok c"
  shows "db_ok c' \<and> (db_main c' = db_main c \<and> (\<exists>e. r = Inl e) \<or>
    (\<exists>ms. r = Inr ms \<and> ms \<noteq> [] \<and> 0 \<le> limit \<and>
       scan_rows scanPostgresMessage ''shoebox/postgres: dequeue scan'' q
         (pg_due q now limit (filter (\<lambda>r. rID r \<notin> db_locked c) (db_scan c (t_messages (db_main c))))) = Inr ms \<and>
       t_messages (db_main c') = map (mark q (mID ` set ms)) (t_messages (db_main c))))"
proof -
  have k: "key_ok (t_messages (db_main c))" using assms(2) by (simp add: db_ok_def)
  let ?scan = "scan_rows scanPostgresMessage ''shoebox/postgres: dequeue scan'' q
    (pg_due q now limit (filter (\<lambda>r. rID r \<notin> db_locked c) (db_scan c (t_messages (db_main c)))))"
  consider "limit < 0" | e where "?scan = Inl e" "0 \<le> limit" | "?scan = Inr []" "0 \<le> limit"
    | ms where "?scan = Inr ms" "ms \<noteq> []" "0 \<le> limit"
    by (cases ?scan) force+
  then show ?thesis
    by cases (rule transaction_law [OF assms(1) [unfolded pg_Dequeue_def pg_mark_loop_def with_limit_def] assms(2)];
      use k in \<open>auto simp: same_scans_def elim!: effect_elims dest!: mark_loop_effect\<close>)+
qed

lemma pg_Dequeue_law:
  assumes "effect (pg_Dequeue now q limit) c (Inr out) c'" "db_ok c"
  shows "db_ok c' \<and> out \<noteq> [] \<and> int (length out) \<le> limit \<and> mset (map mID out) \<subseteq># aPend (db_view c) q \<and>
    db_view c' = a_Dequeue q (map mID out) (db_view c)"
proof -
  let ?due = "pg_due q now limit (filter (\<lambda>r. rID r \<notin> db_locked c) (db_scan c (t_messages (db_main c))))"
  have k: "key_ok (t_messages (db_main c))" and perm: "mset (db_scan c (t_messages (db_main c))) = mset (t_messages (db_main c))"
    using assms(2) by (auto simp: db_ok_def scans_ok_def)
  from pg_Dequeue_cases [OF assms] have c': "db_ok c'" "out \<noteq> []" "0 \<le> limit"
    and scan: "scan_rows scanPostgresMessage ''shoebox/postgres: dequeue scan'' q ?due = Inr out"
    and rows: "t_messages (db_main c') = map (mark q (mID ` set out)) (t_messages (db_main c))" by auto
  have ids: "map mID out = map rID ?due" by (rule scan_rows_ids [OF scanPostgresMessage_id scan])
  then have "length out = length ?due" by (metis length_map)
  then have len: "int (length out) \<le> limit" using c'(3) by (simp add: pg_due_def)
  have sub: "mset (map mID out) \<subseteq># ids Pending q (t_messages (db_main c))"
    unfolding ids by (rule pg_due_pending [OF perm])
  from rows_view_mark [OF k this] have "db_view c' = a_Dequeue q (map mID out) (db_view c)"
    by (simp add: db_view_def rows)
  with c' len sub show ?thesis by (simp add: db_view_def del: mset_map)
qed

lemma pg_Stats_law:
  assumes "effect (pg_Stats q) c r c'" "db_ok c"
  shows "c' = c \<and> (\<forall>st. r = Inr st \<longrightarrow> qDepth st = size (aPend (db_view c) q))"
proof -
  have perm: "mset (db_scan c (t_messages (db_main c))) = mset (t_messages (db_main c))" and w: "db_work c = None"
    using assms(2) by (auto simp: db_ok_def scans_ok_def)
  show ?thesis
    using assms(1) w unfolding pg_Stats_def Let_def
    by (auto elim!: effect_elims simp: db_view_def depth_scan [OF perm])
qed

lemma pg_RunSchedule_law:
  assumes "effect (pg_RunSchedule clk nid sc now nxt) c r c'" "db_ok c" "user_queue (sQueue sc)"
  shows "db_ok c' \<and> (db_view c' = db_view c \<or> db_view c' = a_Enqueue (sQueue sc) nid (db_view c))"
proof -
  have k: "key_ok (t_messages (db_main c))" using assms(2) by (simp add: db_ok_def)
  have row: "new_row (postgresEnqueueArgs f clk (sQueue sc) (periodicMessage nid sc now)) nid (sQueue sc)" for f
    using postgresEnqueueArgs_new_row [of f clk "sQueue sc" "periodicMessage nid sc now"] by simp
  have "db_ok c' \<and> (db_main c' = db_main c \<and> True \<or>
      rows_view (t_messages (db_main c')) = a_Enqueue (sQueue sc) nid (rows_view (t_messages (db_main c))))"
    by (rule transaction_law [OF assms(1) [unfolded pg_RunSchedule_def] assms(2)])
      (use k in \<open>auto elim!: effect_elims effect_pg_atomicE
         simp: same_scans_def update_schedules_def rows_view_append [OF row assms(3)] split: if_splits\<close>)
  then show ?thesis by (auto simp: db_view_def)
qed

lemma pg_List_law: "effect (pg_List qn l) c r c' \<Longrightarrow> c' = c"
  unfolding pg_List_def with_limit_def by (cases "l < 0") (auto elim!: effect_elims split: if_splits)

interpretation postgres: queue_store postgres_ops db_ok db_view
proof unfold_locales
  fix s s' :: postgres and q t msg msgs limit out e1 i "is" e nid r1 r2 r6 qn
  assume ok: "db_ok s"
  note eff = effectI [where s = s and s' = s']
  have ok': "db_ok (core s)" using ok by simp
  show "db_ok s' \<and> accepts q [mID msg] r1 (db_view s) (db_view s')"
    if "user_queue q" "Enqueue_op postgres_ops t q msg s = (r1, s')"
    using pg_Enqueue_law [OF eff ok'] that by (simp add: postgres_ops_def)
  show "db_ok s' \<and> accepts q (map mID msgs) r1 (db_view s) (db_view s')"
    if "user_queue q" "EnqueueBatch_op postgres_ops t q msgs s = (r1, s')"
    using pg_EnqueueBatch_law [OF eff ok'] that by (simp add: postgres_ops_def)
  show "db_ok s' \<and> out \<noteq> [] \<and> int (length out) \<le> limit \<and> mset (map mID out) \<subseteq># aPend (db_view s) q \<and>
      db_view s' = a_Dequeue q (map mID out) (db_view s)"
    if "Dequeue_op postgres_ops t q limit s = (Inr out, s')"
    using pg_Dequeue_law [OF eff ok'] that by (simp add: postgres_ops_def)
  show "db_ok s' \<and> db_view s' = db_view s" if "Dequeue_op postgres_ops t q limit s = (Inl e1, s')"
    using pg_Dequeue_cases [OF eff ok'] that by (fastforce simp: postgres_ops_def db_view_def)
  show "db_ok s' \<and> db_view s' = on_ok r1 (a_AckBatch q [i] (db_view s)) (db_view s)"
    if "Ack_op postgres_ops q i s = (r1, s')"
    using pg_Ack_law [OF eff ok'] that by (simp add: postgres_ops_def)
  show "db_ok s' \<and> db_view s' = on_ok r1 (a_AckBatch q is (db_view s)) (db_view s)"
    if "AckBatch_op postgres_ops q is s = (r1, s')"
    using pg_AckBatch_law [OF eff ok'] that by (simp add: postgres_ops_def)
  show "db_ok s' \<and> db_view s' = on_ok r1 (a_Retry q (mID msg) (db_view s)) (db_view s)"
    if "user_queue q" "Retry_op postgres_ops t q msg e s = (r1, s')"
    using pg_Retry_law [OF eff ok'] that by (simp add: postgres_ops_def)
  show "db_ok s' \<and> db_view s' = on_ok r1 (a_DeadLetter q (mID msg) nid (db_view s)) (db_view s)"
    if "user_queue q" "DeadLetter_op postgres_ops t nid q msg e s = (r1, s')"
    using pg_DeadLetter_law [OF eff ok'] that by (simp add: postgres_ops_def)
  show "db_ok s' \<and> (\<forall>u. r1 = Inr u \<longrightarrow> i \<in># aDead (db_view s) q) \<and>
      db_view s' = on_ok r1 (a_Replay q i (db_view s)) (db_view s)"
    if "user_queue q" "Replay_op postgres_ops t q i s = (r1, s')"
    using pg_Replay_law [OF eff ok'] that by (simp add: postgres_ops_def)
  show "db_ok s' \<and> db_view s' = db_view s \<and> (\<forall>st. r2 = Inr st \<longrightarrow> qDepth st = size (aPend (db_view s) q))"
    if "Stats_op postgres_ops q s = (r2, s')"
    using pg_Stats_law [OF eff ok'] that ok db_ok_core db_view_core by (metis postgres_ops_def storage_ops.simps(9))
  show "db_ok s' \<and> db_view s' = db_view s" if "List_op postgres_ops qn limit s = (r6, s')"
    using pg_List_law [OF eff] that ok db_ok_core db_view_core by (metis postgres_ops_def storage_ops.simps(10))
  show "db_ok s' \<and> db_view s' = db_view s" if "Close_op postgres_ops s = (r1, s')"
    using that ok by (auto simp: postgres_ops_def pg_Close_def db_ok_def scans_ok_def db_view_def)
qed

lemma pg_schedule_frame:
  "effect (pg_CreateSchedule jsonb sc) c r5 c' \<Longrightarrow> db_ok c \<Longrightarrow> db_ok c' \<and> db_view c' = db_view c"
  "effect (pg_DeleteSchedule jid) c r5 c' \<Longrightarrow> db_ok c \<Longrightarrow> db_ok c' \<and> db_view c' = db_view c"
  "effect (pg_ListSchedules collate qn) c r3 c' \<Longrightarrow> db_ok c \<Longrightarrow> db_ok c' \<and> db_view c' = db_view c"
  unfolding pg_CreateSchedule_def pg_DeleteSchedule_def pg_ListSchedules_def
  by (erule effect_andThenE; (erule effect_retE)?; (drule (1) effect_exec_frame)?;
      auto elim!: effect_elims simp: insert_schedule_def delete_schedules_def split: if_splits option.splits)+

interpretation postgress: schedule_store postgres_ops db_ok db_view "postgres_schedule_ops jsonb collate" for jsonb collate
proof unfold_locales
  fix s s' :: postgres and now l r3 sc clk nid nxt r4 r5 jid qn
  assume ok: "db_ok s"
  note eff = effectI [where s = s and s' = s']
  have ok': "db_ok (core s)" using ok by simp
  show "db_ok s' \<and> db_view s' = db_view s" if "CreateSchedule_op (postgres_schedule_ops jsonb collate) sc s = (r5, s')"
    using pg_schedule_frame(1) [OF eff ok'] that by (simp add: postgres_schedule_ops_def)
  show "db_ok s' \<and> db_view s' = db_view s" if "DeleteSchedule_op (postgres_schedule_ops jsonb collate) jid s = (r5, s')"
    using pg_schedule_frame(2) [OF eff ok'] that by (simp add: postgres_schedule_ops_def)
  show "db_ok s' \<and> db_view s' = db_view s" if "ListSchedules_op (postgres_schedule_ops jsonb collate) qn s = (r3, s')"
    using pg_schedule_frame(3) [OF eff ok'] that by (simp add: postgres_schedule_ops_def)
  show "db_ok s' \<and> db_view s' = db_view s" if "DueSchedules_op (postgres_schedule_ops jsonb collate) now l s = (r3, s')"
  proof -
    have "effect (pg_DueSchedules now l) (core s) r3 (core s')"
      using that by (intro eff) (simp add: postgres_schedule_ops_def)
    then have "core s' = core s"
      unfolding pg_DueSchedules_def with_limit_def by (auto elim!: effect_elims split: if_splits)
    then show ?thesis using ok by (metis db_ok_core db_view_core)
  qed
  show "db_ok s' \<and> (db_view s' = db_view s \<or> db_view s' = a_Enqueue (sQueue sc) nid (db_view s))"
    if "user_queue (sQueue sc)" "RunSchedule_op (postgres_schedule_ops jsonb collate) clk nid sc now nxt s = (r4, s')"
    using pg_RunSchedule_law [OF eff ok' that(1)] that(2) by (simp add: postgres_schedule_ops_def)
qed

end
