(* ===== verification/SQL_Atomicity.thy ===== *)
theory SQL_Atomicity
  imports SQLite_Store Postgres_Store
begin

text \<open>
  What the transactions of the two SQL backends guarantee: a method of the SQLite backend that reports
  an error has left the committed tables as they were, statistics and schedules included, and leaves
  no transaction open; PostgreSQL's deduplication index admits no two live messages with the same
  key; and what a restart recovers.

  Both are proved compositionally. \<open>inner\<close> actions work on the open transaction only; an action is
  \<open>final\<close> when a failure leaves the committed tables alone; the rules \<open>atomic_intros\<close> follow the
  structure of a method. \<open>stable I\<close> says that an action keeps a property \<open>I\<close> of the tables, committed
  or in work; the rules \<open>stable_intros\<close> reduce it to the statements the action sends.
\<close>

subsection \<open>Failures leave the tables alone\<close>

definition inner :: "('t, 'd, 'a) action \<Rightarrow> bool" where
  "inner m \<longleftrightarrow> (\<forall>s r s'. m s = (r, s') \<longrightarrow> db_work s \<noteq> None \<longrightarrow> db_work s' \<noteq> None \<and> db_main s' = db_main s)"

definition final :: "('t, 'd, 'a) action \<Rightarrow> bool" where
  "final m \<longleftrightarrow> (\<forall>s e s'. m s = (Inl e, s') \<longrightarrow> db_work s \<noteq> None \<longrightarrow> db_main s' = db_main s)"

definition atomic :: "('t, 'd, 'a) action \<Rightarrow> bool" where
  "atomic m \<longleftrightarrow> (\<forall>s e s'. m s = (Inl e, s') \<longrightarrow> db_work s = None \<longrightarrow> db_main s' = db_main s \<and> db_work s' = None)"

named_theorems atomic_intros "structural rules for inner, final and atomic"

lemma call_sel:
  assumes "call s = (r, s')"
  shows "db_main s' = db_main s" "db_work s' = db_work s" "db_scan s' = db_scan s"
  using assms by (auto simp: call_def split: if_splits)

lemma inner_call [atomic_intros]: "inner call"
  by (auto simp: inner_def call_sel)

lemma inner_pure [atomic_intros]: "inner (ret x)" "inner (fail e)" "inner (give r)" "inner get_formats"
  by (auto simp: inner_def ret_def fail_def give_def get_formats_def)

lemma inner_andThen [atomic_intros]: "inner m \<Longrightarrow> (\<And>x. inner (f x)) \<Longrightarrow> inner (andThen m f)"
  unfolding inner_def andThen_def by (fastforce split: prod.splits sum.splits)

lemma inner_wrap [atomic_intros]: "inner m \<Longrightarrow> inner (wrap msg m)"
  unfolding inner_def wrap_def by (fastforce split: prod.splits sum.splits)

lemma inner_read: "(\<And>s. snd (f s) = s) \<Longrightarrow> inner (andThen call (\<lambda>_. f))"
  by (rule inner_andThen [OF inner_call]) (auto simp: inner_def, (metis snd_conv)+)

lemma inner_queries [atomic_intros]:
  "inner (query f)" "inner (query_skip_locked f)" "inner (query_stats q)" "inner (query_schedules g)"
  by (simp_all add: query_def query_skip_locked_def query_stats_def query_schedules_def inner_read)

lemma inner_exec [atomic_intros]: "inner (exec f)"
  unfolding exec_def
  by (rule inner_andThen [OF inner_call]) (auto simp: inner_def put_def split: prod.splits sum.splits option.splits)

lemma inner_mark_loop [atomic_intros]: "inner (mark_loop failed q ms)"
  by (induction failed q ms rule: mark_loop.induct) (auto intro!: atomic_intros)

lemma final_inner: "inner m \<Longrightarrow> final m"
  by (auto simp: inner_def final_def)

lemma final_Commit [atomic_intros]: "final Commit"
  by (auto simp: final_def Commit_def andThen_def call_sel split: prod.splits sum.splits)

lemma final_wrap [atomic_intros]: "final m \<Longrightarrow> final (wrap msg m)"
  unfolding final_def wrap_def by (fastforce split: prod.splits sum.splits)

lemma final_andThen [atomic_intros]: "inner m \<Longrightarrow> (\<And>x. final (f x)) \<Longrightarrow> final (andThen m f)"
  unfolding inner_def final_def andThen_def by (fastforce split: prod.splits sum.splits)

lemma final_Commit_ret [atomic_intros]: "final (andThen (wrap msg Commit) (\<lambda>_. ret x))"
  using final_wrap [OF final_Commit, of msg]
  unfolding final_def andThen_def ret_def by (fastforce split: prod.splits sum.splits)

lemmas final_pure [atomic_intros] = inner_pure [THEN final_inner]

lemma atomic_transaction [atomic_intros]:
  assumes "final (body ())"
  shows "atomic (transaction b body)"
  unfolding atomic_def
proof (intro allI impI)
  fix s e s' assume run: "transaction b body s = (Inl e, s')" "db_work s = None"
  obtain r s1 where c: "call s = (r, s1)" by fastforce
  from run c show "db_main s' = db_main s \<and> db_work s' = None"
    using assms call_sel [OF c]
    by (cases r) (auto simp: transaction_def rolling_back_def andThen_def wrap_def Begin_def final_def split: prod.splits)
qed

lemma atomic_exec [atomic_intros]: "atomic (exec f)"
  by (auto simp: atomic_def exec_def andThen_def call_sel split: prod.splits sum.splits)

lemma atomic_wrap [atomic_intros]: "atomic m \<Longrightarrow> atomic (wrap msg m)"
  unfolding atomic_def wrap_def by (fastforce split: prod.splits sum.splits)

lemma atomic_formats [atomic_intros]: "(\<And>x. atomic (f x)) \<Longrightarrow> atomic (andThen get_formats f)"
  by (simp add: atomic_def andThen_def get_formats_def)

lemma atomic_ret [atomic_intros]: "atomic (ret x)" "atomic m \<Longrightarrow> atomic (andThen m (\<lambda>x. ret (f x)))"
  unfolding atomic_def andThen_def ret_def by (fastforce split: prod.splits sum.splits)+

lemma sqlite_loops_inner [atomic_intros]:
  "inner (enqueueSQLite g now q msg)" "inner (sqlite_batch_loop now q i msgs)" "inner (sqlite_ack_loop q is p)"
  "inner (sqlite_mark_loop q ms)"
proof -
  show e: "inner (enqueueSQLite g now q msg)" for msg unfolding enqueueSQLite_def by (intro atomic_intros)
  show "inner (sqlite_batch_loop now q i msgs)"
    by (induction now q i msgs rule: sqlite_batch_loop.induct) (auto intro!: atomic_intros simp: enqueueSQLite_def)
  show "inner (sqlite_ack_loop q is p)"
    by (induction q "is" p rule: sqlite_ack_loop.induct) (auto intro!: atomic_intros)
  show "inner (sqlite_mark_loop q ms)" unfolding sqlite_mark_loop_def by (rule atomic_intros)
qed

text \<open>
  C19. The methods of the SQLite backend are atomic. When one of them reports an error, whichever call
  of the driver failed and at whichever statement of the method, the committed tables (messages,
  statistics and schedules) are exactly what they were before the call, and no transaction stays open.
\<close>

theorem sqlite_failure_atomic:
  "atomic (sqlite_Enqueue now q msg) \<and> atomic (sqlite_EnqueueBatch now q msgs) \<and> atomic (sqlite_Dequeue now q limit) \<and>
   atomic (sqlite_Ack q i) \<and> atomic (sqlite_AckBatch q is) \<and> atomic (sqlite_Retry now q msg e) \<and>
   atomic (sqlite_DeadLetter now nid q msg e) \<and> atomic (sqlite_Replay now q i) \<and> atomic (sqlite_Reclaim q) \<and>
   atomic (sqlite_RunSchedule clk nid sc now nxt)"
  unfolding sqlite_Enqueue_def enqueueSQLite_def sqlite_EnqueueBatch_def sqlite_Dequeue_def sqlite_Ack_def sqlite_AckBatch_def
    sqlite_Retry_def sqlite_DeadLetter_def sqlite_Replay_def sqlite_Reclaim_def sqlite_RunSchedule_def Let_def
  by (intro conjI; auto intro!: atomic_intros split: list.splits)

subsection \<open>Properties every statement keeps\<close>

definition holds :: "(('t, 'd) tables \<Rightarrow> bool) \<Rightarrow> ('t, 'd) db \<Rightarrow> bool" where
  "holds I s \<longleftrightarrow> I (db_main s) \<and> (\<forall>w. db_work s = Some w \<longrightarrow> I w)"

definition stable :: "(('t, 'd) tables \<Rightarrow> bool) \<Rightarrow> ('t, 'd, 'a) action \<Rightarrow> bool" where
  "stable I m \<longleftrightarrow> (\<forall>s r s'. m s = (r, s') \<longrightarrow> holds I s \<longrightarrow> holds I s')"

named_theorems stable_intros "structural rules for stable"

lemma stable_call [stable_intros]: "stable I call"
  by (auto simp: stable_def holds_def call_sel)

lemma stable_pure [stable_intros]: "stable I (ret x)" "stable I (fail e)" "stable I (give r)" "stable I get_formats"
  by (auto simp: stable_def ret_def fail_def give_def get_formats_def)

lemma stable_andThen [stable_intros]: "stable I m \<Longrightarrow> (\<And>x. stable I (f x)) \<Longrightarrow> stable I (andThen m f)"
  unfolding stable_def andThen_def by (fastforce split: prod.splits sum.splits)

lemma stable_wrap [stable_intros]: "stable I m \<Longrightarrow> stable I (wrap msg m)"
  unfolding stable_def wrap_def by (fastforce split: prod.splits sum.splits)

lemma stable_read: "(\<And>s. snd (f s) = s) \<Longrightarrow> stable I (andThen call (\<lambda>_. f))"
  by (rule stable_andThen [OF stable_call]) (auto simp: stable_def, (metis snd_conv)+)

lemma stable_queries [stable_intros]:
  "stable I (query f)" "stable I (query_skip_locked f)" "stable I (query_stats q)" "stable I (query_schedules g)"
  by (simp_all add: query_def query_skip_locked_def query_stats_def query_schedules_def stable_read)

lemma stable_exec:
  assumes "\<And>t x t'. I t \<Longrightarrow> f t = (Inr x, t') \<Longrightarrow> I t'"
  shows "stable I (exec f)"
  unfolding exec_def
  by (rule stable_andThen [OF stable_call])
    (auto simp: stable_def holds_def put_def current_def dest: assms split: prod.splits sum.splits option.splits)

lemma stable_Commit [stable_intros]: "stable I Commit"
  unfolding Commit_def
  by (rule stable_andThen [OF stable_call]) (auto simp: stable_def holds_def current_def split: option.splits)

lemma stable_transaction [stable_intros]:
  assumes "stable I (body ())"
  shows "stable I (transaction b body)"
proof -
  have "stable I Begin" unfolding Begin_def by (rule stable_andThen [OF stable_call]) (auto simp: stable_def holds_def)
  with assms have "stable I (andThen (wrap b Begin) body)" by (intro stable_intros) simp_all
  then have "holds I s1 \<Longrightarrow> andThen (wrap b Begin) body s1 = (r, s2) \<Longrightarrow> holds I s2" for s1 r s2 by (auto simp: stable_def)
  moreover have "\<exists>s2. andThen (wrap b Begin) body s = (r, s2) \<and> s' = s2\<lparr>db_work := None\<rparr>"
    if "transaction b body s = (r, s')" for s r s'
    using that by (simp add: transaction_def rolling_back_def split: prod.splits)
  ultimately show ?thesis unfolding stable_def by (metis holds_def db.select_convs(1,2) db.surjective db.update_convs(2) option.distinct(1))
qed

subsection \<open>The deduplication index of PostgreSQL\<close>

text \<open>No two rows of the partial unique index share the queue and the key.\<close>

definition same_slot :: "('t, 'd) row \<Rightarrow> ('t, 'd) row \<Rightarrow> bool" where
  "same_slot r r' \<longleftrightarrow> indexed r \<and> indexed r' \<and> rQueue r = rQueue r' \<and> rDedupeKey r = rDedupeKey r'"

definition index_ok :: "('t, 'd) tables \<Rightarrow> bool" where
  "index_ok t \<longleftrightarrow> key_ok (t_messages t) \<and>
     (\<forall>r \<in> set (t_messages t). \<forall>r' \<in> set (t_messages t). same_slot r r' \<longrightarrow> rID r = rID r')"

lemma index_okD: "index_ok t \<Longrightarrow> r \<in> set (t_messages t) \<Longrightarrow> r' \<in> set (t_messages t) \<Longrightarrow> same_slot r r' \<Longrightarrow> rID r = rID r'"
  by (simp add: index_ok_def)

lemma same_slot_sym: "same_slot r r' \<Longrightarrow> same_slot r' r"
  by (simp add: same_slot_def)

lemma index_ok_append:
  assumes "index_ok t" "rID r \<notin> rID ` set (t_messages t)" "\<And>r'. r' \<in> set (t_messages t) \<Longrightarrow> \<not> same_slot r r'"
  shows "index_ok (t\<lparr>t_messages := t_messages t @ [r]\<rparr>)"
proof -
  have "rID x = rID y" if "x \<in> insert r (set (t_messages t))" "y \<in> insert r (set (t_messages t))" "same_slot x y" for x y
    using that(1,2)
  proof (elim insertE)
    assume "x = r" "y \<in> set (t_messages t)"
    with assms(3) [of y] that(3) show ?thesis by simp
  next
    assume "x \<in> set (t_messages t)" "y = r"
    with assms(3) [of x] same_slot_sym [OF that(3)] show ?thesis by simp
  next
    assume "x \<in> set (t_messages t)" "y \<in> set (t_messages t)"
    then show ?thesis by (rule index_okD [OF assms(1) _ _ that(3)])
  qed simp
  moreover have "key_ok (t_messages t @ [r])" using assms(1,2) by (simp add: index_ok_def)
  ultimately have "key_ok (t_messages t @ [r]) \<and> (\<forall>x \<in> insert r (set (t_messages t)). \<forall>y \<in> insert r (set (t_messages t)).
      same_slot x y \<longrightarrow> rID x = rID y)" by blast
  then show ?thesis by (simp only: index_ok_def) simp
qed

lemma index_ok_insert:
  assumes "index_ok t" "postgresInsertSQL msg (postgresEnqueueArgs f now q msg) t = (Inr n, t')"
  shows "index_ok t'"
proof -
  let ?r = "postgresEnqueueArgs f now q msg"
  have key: "rDedupeKey ?r = mDedupeKey msg" by (simp add: postgresEnqueueArgs_def Let_def)
  from assms(2) consider "t' = t"
    | "t' = t\<lparr>t_messages := t_messages t @ [?r]\<rparr>" "rID ?r \<notin> rID ` set (t_messages t)"
      "\<not> indexed ?r \<or> (\<forall>r' \<in> set (t_messages t). \<not> (indexed r' \<and> rQueue r' = rQueue ?r \<and> rDedupeKey r' = rDedupeKey ?r))"
    using indexed_def [of ?r, unfolded key]
    by (simp only: postgresInsertSQL_def insert_unless_conflict_def insert_message_def split: if_splits) auto
  then show ?thesis
  proof cases
    case 2
    from 2(3) have "\<not> same_slot ?r r'" if "r' \<in> set (t_messages t)" for r' using that by (metis same_slot_def)
    with 2 show ?thesis using index_ok_append [OF assms(1)] by simp
  qed (simp add: assms(1))
qed

lemma index_ok_delete: "index_ok t \<Longrightarrow> delete_messages P t = (Inr n, t') \<Longrightarrow> index_ok t'"
  by (auto simp: index_ok_def delete_messages_def)

lemma index_ok_stats: "index_ok t \<Longrightarrow> upsert_stats q new upd t = (Inr n, t') \<Longrightarrow> index_ok t'"
  by (auto simp: index_ok_def upsert_stats_def)

lemma index_ok_schedules: "index_ok t \<Longrightarrow> update_schedules P f t = (Inr n, t') \<Longrightarrow> index_ok t'"
  by (auto simp: index_ok_def update_schedules_def)

text \<open>An update of rows that are in the index, or that takes rows out of it, respects the index.\<close>

lemma index_ok_map:
  assumes "index_ok t" "\<And>r. rID (f r) = rID r" "\<And>r. r \<in> set (t_messages t) \<Longrightarrow> indexed (f r) \<Longrightarrow>
    indexed r \<and> rQueue (f r) = rQueue r \<and> rDedupeKey (f r) = rDedupeKey r"
  shows "index_ok (t\<lparr>t_messages := map f (t_messages t)\<rparr>)"
proof -
  have "same_slot r r'" if "r \<in> set (t_messages t)" "r' \<in> set (t_messages t)" "same_slot (f r) (f r')" for r r'
    using that(3) assms(3) [OF that(1)] assms(3) [OF that(2)] by (simp add: same_slot_def)
  with index_okD [OF assms(1)] have "same_slot (f r) (f r') \<longrightarrow> rID r = rID r'"
    if "r \<in> set (t_messages t)" "r' \<in> set (t_messages t)" for r r' using that by blast
  then show ?thesis using assms(1,2) by (simp add: index_ok_def)
qed

lemma index_ok_update:
  assumes "index_ok t" "update_messages P f t = (Inr n, t')" "\<And>r. rID (f r) = rID r"
    "\<And>r. P r \<Longrightarrow> indexed (f r) \<Longrightarrow> indexed r \<and> rQueue (f r) = rQueue r \<and> rDedupeKey (f r) = rDedupeKey r"
  shows "index_ok t'"
proof -
  have "t' = t\<lparr>t_messages := map (\<lambda>r. if P r then f r else r) (t_messages t)\<rparr>" using assms(2) by (simp add: update_messages_def)
  moreover have "index_ok \<dots>" by (rule index_ok_map [OF assms(1)]) (use assms(3,4) in \<open>auto split: if_splits\<close>)
  ultimately show ?thesis by simp
qed

lemma stable_statements [stable_intros]:
  "stable index_ok (exec (postgresInsertSQL msg (postgresEnqueueArgs f now q msg)))"
  "stable index_ok (exec (delete_messages P))" "stable index_ok (exec (upsert_stats q new upd))"
  "stable index_ok (exec (update_schedules Q g))"
  by (rule stable_exec, erule (1) index_ok_insert index_ok_delete index_ok_stats index_ok_schedules)+

lemma stable_update [stable_intros]:
  assumes "\<And>r. rID (f r) = rID r"
    "\<And>r. P r \<Longrightarrow> indexed (f r) \<Longrightarrow> indexed r \<and> rQueue (f r) = rQueue r \<and> rDedupeKey (f r) = rDedupeKey r"
  shows "stable index_ok (exec (update_messages P f))"
  by (rule stable_exec) (erule (1) index_ok_update; rule assms)

lemma stable_pg_rows [stable_intros]:
  "stable index_ok (enqueuePostgresRow now q msg)" "stable index_ok (enqueuePostgresAtomic now q msg)"
  "stable index_ok (pg_batch_loop now q i msgs)"
proof -
  show row: "stable index_ok (enqueuePostgresRow now q msg)"
    unfolding enqueuePostgresRow_def by (intro stable_intros)
  show "stable index_ok (enqueuePostgresAtomic now q msg)"
    unfolding enqueuePostgresAtomic_def by (auto intro!: stable_intros row)
  show "stable index_ok (pg_batch_loop now q i msgs)"
    by (induction now q i msgs rule: pg_batch_loop.induct) (auto intro!: stable_intros simp: Let_def)
qed

lemma pg_Dequeue_index_ok:
  assumes "pg_Dequeue now q limit s = (r, s')" "db_ok s" "index_ok (db_main s)"
  shows "index_ok (db_main s')"
proof -
  let ?rows = "t_messages (db_main s)"
  let ?due = "pg_due q now limit (filter (\<lambda>r. rID r \<notin> db_locked s) (db_scan s ?rows))"
  from pg_Dequeue_cases [OF effectI [of "pg_Dequeue now q limit", OF assms(1)]] assms(2) consider "db_main s' = db_main s"
    | ms where "scan_rows scanPostgresMessage ''shoebox/postgres: dequeue scan'' q ?due = Inr ms"
      "t_messages (db_main s') = map (mark q (mID ` set ms)) ?rows"
    by auto
  then show ?thesis
  proof cases
    case 2
    have "mset (map rID ?due) \<subseteq># ids Pending q ?rows"
      by (rule pg_due_pending) (use assms(2) in \<open>simp add: db_ok_def scans_ok_def\<close>)
    moreover have "map mID ms = map rID ?due" by (rule scan_rows_ids [OF _ 2(1)]) (rule scanPostgresMessage_id)
    ultimately have sub: "mset (map mID ms) \<subseteq># ids Pending q ?rows" by simp
    have pend: "rStatus r = Pending" if "r \<in> set ?rows" "rID r \<in> mID ` set ms" for r
    proof -
      have "rID r \<in># ids Pending q ?rows" using that(2) mset_subset_eqD [OF sub, of "rID r"] by auto
      then show ?thesis using key_unique [of ?rows _ r] that(1) assms(2) by (auto simp: in_ids db_ok_def)
    qed
    have "index_ok ((db_main s)\<lparr>t_messages := map (mark q (mID ` set ms)) ?rows\<rparr>)"
      by (rule index_ok_map [OF assms(3)]) (use pend in \<open>auto simp: mark_def indexed_def split: if_splits\<close>)
    with 2(2) show ?thesis by (simp add: index_ok_def)
  qed (simp add: assms(3))
qed

definition keeps_index :: "(int, int option, 'a) action \<Rightarrow> bool" where
  "keeps_index m \<longleftrightarrow> (\<forall>s r s'. m s = (r, s') \<longrightarrow> db_ok s \<longrightarrow> index_ok (db_main s) \<longrightarrow> index_ok (db_main s'))"

lemma stable_keeps_index: "stable index_ok m \<Longrightarrow> keeps_index m"
  unfolding stable_def keeps_index_def
proof (intro allI impI)
  fix s r s' assume st: "\<forall>s r s'. m s = (r, s') \<longrightarrow> holds index_ok s \<longrightarrow> holds index_ok s'"
    and run: "m s = (r, s')" and ok: "db_ok s" "index_ok (db_main s)"
  have "holds index_ok s" using ok by (simp add: holds_def db_ok_def)
  with st run have "holds index_ok s'" by blast
  then show "index_ok (db_main s')" by (simp add: holds_def)
qed

text \<open>
  C21. The deduplication index of PostgreSQL is an invariant: every method of the backend, whether it
  succeeds or fails, keeps that no two pending or processing messages of a queue carry the same
  non-empty deduplication key (and that identifiers are unique). For \<open>Retry\<close> and \<open>Replay\<close>, which put
  a message back, this rests on the conflict check of \<open>enqueuePostgresAtomic\<close>.
\<close>

theorem postgres_dedupe_index:
  "keeps_index (pg_Enqueue now q msg) \<and> keeps_index (pg_EnqueueBatch now q msgs) \<and> keeps_index (pg_Dequeue now q limit) \<and>
   keeps_index (pg_Ack q i) \<and> keeps_index (pg_AckBatch q is) \<and> keeps_index (pg_Retry now q msg e) \<and>
   keeps_index (pg_DeadLetter now nid q msg e) \<and> keeps_index (pg_Replay now q i) \<and> keeps_index (pg_Reclaim q) \<and>
   keeps_index pg_reclaim_all \<and> keeps_index (pg_RunSchedule clk nid sc now nxt)"
proof -
  have "keeps_index (pg_Dequeue now q limit)" by (simp add: keeps_index_def) (blast intro: pg_Dequeue_index_ok)
  moreover have "keeps_index (pg_Enqueue now q msg)" "keeps_index (pg_EnqueueBatch now q msgs)" "keeps_index (pg_Ack q i)"
    "keeps_index (pg_AckBatch q is)" "keeps_index (pg_Retry now q msg e)" "keeps_index (pg_Replay now q i)"
    "keeps_index (pg_RunSchedule clk nid sc now nxt)"
    unfolding pg_Enqueue_def enqueuePostgres_def pg_EnqueueBatch_def pg_Ack_def pg_AckBatch_def pg_Retry_def pg_Replay_def
      pg_RunSchedule_def Let_def
    by (auto intro!: stable_keeps_index stable_intros split: list.splits)
  moreover have "keeps_index (pg_DeadLetter now nid q msg e)" "keeps_index (pg_Reclaim q)" "keeps_index pg_reclaim_all"
    unfolding pg_DeadLetter_def pg_Reclaim_def pg_reclaim_all_def Let_def
    by (auto intro!: stable_keeps_index stable_intros simp: indexed_def)
  ultimately show ?thesis by blast
qed

text \<open>
  Deduplication on PostgreSQL survives the process. While a message with the same key is pending or
  processing in the queue, however long ago and by whichever process it was stored, \<open>Enqueue\<close> reports
  success and stores nothing: a publisher that repeats itself after a restart adds no second message.
\<close>

theorem postgres_durable_dedupe:
  assumes "r \<in> set (t_messages (db_main s))" "rQueue r = q" "rDedupeKey r = mDedupeKey msg" "mDedupeKey msg \<noteq> ''''"
    "rStatus r = Pending \<or> rStatus r = Processing" "user_queue q" "db_work s = None" "\<not> db_closed s" "db_faults s 0 = None"
  shows "fst (pg_Enqueue now q msg s) = Inr () \<and> db_main (snd (pg_Enqueue now q msg s)) = db_main s"
proof -
  have "rQueue (postgresEnqueueArgs (db_formats s) now q msg) = q" "rDedupeKey (postgresEnqueueArgs (db_formats s) now q msg) = mDedupeKey msg"
    "rStatus (postgresEnqueueArgs (db_formats s) now q msg) = Pending"
    using assms(6) by (simp_all add: postgresEnqueueArgs_def Let_def user_queue_def)
  moreover have "\<exists>r' \<in> set (t_messages (db_main s)). indexed r' \<and> rQueue r' = q \<and> rDedupeKey r' = mDedupeKey msg"
    using assms(1-5) by (intro bexI [of _ r]) (simp_all add: indexed_def)
  ultimately have "postgresInsertSQL msg (postgresEnqueueArgs (db_formats s) now q msg) (db_main s) = (Inr 0, db_main s)"
    using assms(4) by (simp add: postgresInsertSQL_def insert_unless_conflict_def indexed_def)
  then show ?thesis
    using assms(7-9)
    by (simp add: pg_Enqueue_def enqueuePostgres_def enqueuePostgresRow_def get_formats_def andThen_def wrap_def exec_def call_def current_def
        put_def ret_def)
qed

definition example_msg :: "string \<Rightarrow> message" where
  "example_msg i = zero_message\<lparr>mID := i, mDedupeKey := ''k'', mCreatedAt := 5000, mScheduledAt := 5000\<rparr>"

theorem postgres_durable_dedupe_witness:
  "let s = snd (pg_Enqueue 7000 ''q'' (example_msg ''a'') fresh_db)
   in fst (pg_Enqueue 8000 ''q'' (example_msg ''b'') s) = Inr () \<and> db_main (snd (pg_Enqueue 8000 ''q'' (example_msg ''b'') s)) = db_main s"
proof -
  let ?row = "postgresEnqueueArgs UTC 7000 ''q'' (example_msg ''a'')"
  let ?s = "snd (pg_Enqueue 7000 ''q'' (example_msg ''a'') fresh_db)"
  have s: "db_main ?s = empty_tables\<lparr>t_messages := [?row]\<rparr>" "db_work ?s = None" "\<not> db_closed ?s" "db_faults ?s 0 = None"
    by (simp_all add: pg_Enqueue_def enqueuePostgres_def enqueuePostgresRow_def get_formats_def andThen_def wrap_def exec_def call_def current_def
        put_def ret_def fresh_db_def UTC_def empty_tables_def postgresInsertSQL_def insert_unless_conflict_def insert_message_def)
  have q: "user_queue ''q''" by (simp add: user_queue_def strings_HasSuffix_def)
  have row: "?row \<in> set (t_messages (db_main ?s))" by (simp add: s)
  have "rQueue ?row = ''q''" "rDedupeKey ?row = mDedupeKey (example_msg ''b'')" "mDedupeKey (example_msg ''b'') \<noteq> ''''"
    "rStatus ?row = Pending \<or> rStatus ?row = Processing"
    by (simp_all add: postgresEnqueueArgs_def example_msg_def Let_def strings_HasSuffix_def IsZero_def)
  from postgres_durable_dedupe [OF row this q s(2-4)] show ?thesis by (simp add: Let_def)
qed

subsection \<open>Recovery after a crash\<close>

definition reclaim_row :: "('t, 'd) row \<Rightarrow> ('t, 'd) row" where
  "reclaim_row r = (if rStatus r = Processing then r\<lparr>rStatus := Pending\<rparr> else r)"

lemma ids_reclaim:
  "ids Pending q (map reclaim_row rows) = ids Pending q rows + ids Processing q rows"
  "ids Processing q (map reclaim_row rows) = {#}"
  "ids Dead q (map reclaim_row rows) = ids Dead q rows"
  by (induction rows) (simp_all add: reclaim_row_def)

text \<open>A crash ends the process between two calls of the driver: what is not committed is gone.\<close>

definition crash :: "('t, 'd) db \<Rightarrow> ('t, 'd) db" where
  "crash s = s\<lparr>db_work := None\<rparr>"

definition recovered :: "('t, 'd) tables \<Rightarrow> ('t, 'd) tables \<Rightarrow> bool" where
  "recovered t t' \<longleftrightarrow> map rID (t_messages t') = map rID (t_messages t) \<and>
     (\<forall>q. ids Pending q (t_messages t') = ids Pending q (t_messages t) + ids Processing q (t_messages t) \<and>
          ids Processing q (t_messages t') = {#} \<and> ids Dead q (t_messages t') = ids Dead q (t_messages t))"

lemma recovered_reclaim:
  assumes "effect (andThen (wrap msg (exec (update_messages (\<lambda>r. rStatus r = Processing) (\<lambda>r. r\<lparr>rStatus := Pending\<rparr>)))) (\<lambda>_. ret ()))
      (core (crash s)) (Inr ()) (core s')"
  shows "recovered (db_main s) (db_main s')"
proof -
  have "t_messages (db_main s') = map reclaim_row (t_messages (db_main s))"
    using assms
    by (auto elim!: effect_elims simp: crash_def update_messages_def reclaim_row_def [abs_def] core_def put_def current_def
        dest!: arg_cong [of _ _ db_main])
  then show ?thesis by (simp add: recovered_def ids_reclaim) (simp add: reclaim_row_def)
qed

text \<open>
  C2. Delivery at least once across a crash. Whatever a process was doing when it crashed, opening the
  database again makes every message that was pending or in processing pending: none is lost, none
  is duplicated, and no dead letter is touched, on SQLite and on PostgreSQL.
\<close>

theorem crash_recovery:
  assumes "sqlite_reclaim_all (crash s) = (Inr (), s')" "pg_reclaim_all (crash p) = (Inr (), p')"
  shows "recovered (db_main s) (db_main s') \<and> recovered (db_main p) (db_main p')"
proof
  show "recovered (db_main s) (db_main s')"
    using effectI [of sqlite_reclaim_all, OF assms(1)] unfolding sqlite_reclaim_all_def by (rule recovered_reclaim)
  show "recovered (db_main p) (db_main p')"
    using effectI [of pg_reclaim_all, OF assms(2)] unfolding pg_reclaim_all_def by (rule recovered_reclaim)
qed

text \<open>A database left by a crash inside a transaction: one row in processing, and uncommitted work.\<close>

definition crashed_row :: "'t \<Rightarrow> 'd \<Rightarrow> ('t, 'd) row" where
  "crashed_row t d = \<lparr>rID = ''a'', rQueue = ''q'', rPayload = [], rAttempts = 0, rMaxRetries = 3, rCreatedAt = t,
     rScheduledAt = t, rPriority = 0, rDedupeKey = '''', rMetadata = Map.empty, rError = '''', rDeadAt = d, rStatus = Processing\<rparr>"

definition crashed_db :: "'t \<Rightarrow> 'd \<Rightarrow> ('t, 'd) db" where
  "crashed_db t d = fresh_db\<lparr>db_main := empty_tables\<lparr>t_messages := [crashed_row t d]\<rparr>, db_work := Some empty_tables\<rparr>"

theorem crash_recovery_witness:
  "ids Pending ''q'' (t_messages (db_main (snd (sqlite_reclaim_all (crash (crashed_db ''2024'' '''')))))) = {#''a''#} \<and>
   ids Pending ''q'' (t_messages (db_main (snd (pg_reclaim_all (crash (crashed_db 7 None)))))) = {#''a''#}"
proof -
  note ev = sqlite_reclaim_all_def pg_reclaim_all_def crash_def crashed_db_def fresh_db_def andThen_def wrap_def exec_def
    call_def update_messages_def ret_def
  have "sqlite_reclaim_all (crash (crashed_db ''2024'' '''')) = (Inr (), snd (sqlite_reclaim_all (crash (crashed_db ''2024'' ''''))))"
    "pg_reclaim_all (crash (crashed_db 7 None)) = (Inr (), snd (pg_reclaim_all (crash (crashed_db 7 None))))"
    by (simp_all add: ev prod_eq_iff)
  from crash_recovery [OF this] show ?thesis
    by (simp add: recovered_def) (simp add: crashed_db_def crashed_row_def)
qed

subsection \<open>Periodic jobs run once\<close>

text \<open>The claim of an occurrence: the conditional \<open>UPDATE\<close> of \<open>RunSchedule\<close>, and the schedules after it.\<close>

definition claimed :: "('t schedule_row \<Rightarrow> bool) \<Rightarrow> ('t schedule_row \<Rightarrow> 't schedule_row) \<Rightarrow>
    ('t, 'd) db \<Rightarrow> bool result \<Rightarrow> ('t, 'd) db \<Rightarrow> bool" where
  "claimed P f c r c' \<longleftrightarrow>
     (if r = Inr True
      then length (filter P (t_schedules (db_main c))) = 1 \<and>
        t_schedules (db_main c') = map (\<lambda>x. if P x then f x else x) (t_schedules (db_main c))
      else db_main c' = db_main c)"

lemma sqlite_RunSchedule_claims:
  assumes "effect (sqlite_RunSchedule clk nid sc now nxt) c r c'" "db_work c = None"
  shows "claimed (\<lambda>r. srID r = sID sc \<and> srEnabled r \<and> srNextRunAt r = sqliteScheduleTime (sNextRunAt sc) \<and>
      text_le (srNextRunAt r) (sqliteScheduleTime now))
    (\<lambda>r. r\<lparr>srNextRunAt := sqliteScheduleTime nxt, srUpdatedAt := sqliteScheduleTime clk\<rparr>) c r c' \<and> db_work c' = None"
  using assms(1) [unfolded sqlite_RunSchedule_def] assms(2)
  by (elim effect_transactionE)
    (auto elim!: effect_elims effect_insertE simp: claimed_def update_schedules_def split: if_splits)

lemma pg_RunSchedule_claims:
  assumes "effect (pg_RunSchedule clk nid sc now nxt) c r c'" "db_work c = None"
  shows "claimed (\<lambda>r. srID r = sID sc \<and> srEnabled r \<and> srNextRunAt r = pg_write (sNextRunAt sc) \<and>
      srNextRunAt r \<le> pg_write now)
    (\<lambda>r. r\<lparr>srNextRunAt := pg_write nxt, srUpdatedAt := pg_write clk\<rparr>) c r c' \<and> db_work c' = None"
  using assms(1) [unfolded pg_RunSchedule_def] assms(2)
  by (elim effect_transactionE)
    (auto elim!: effect_elims effect_pg_atomicE simp: claimed_def update_schedules_def split: if_splits)

lemma claimed_once:
  assumes "claimed P f c (Inr True) c1" "claimed P' f' c1 r c2" "\<And>x. \<not> P' (f x)" "\<And>x y. P y \<Longrightarrow> P' x \<Longrightarrow> P x"
  shows "r \<noteq> Inr True \<and> db_main c2 = db_main c1"
proof -
  from assms(1) have one: "length (filter P (t_schedules (db_main c))) = 1" by (simp add: claimed_def)
  then obtain y where "y \<in> set (filter P (t_schedules (db_main c)))" by (cases "filter P (t_schedules (db_main c))") auto
  then have "P' x \<Longrightarrow> P x" for x using assms(4) [of y x] by simp
  then have "filter P' (t_schedules (db_main c1)) = []"
    using assms(1,3) by (auto simp: claimed_def filter_empty_conv)
  then have "r \<noteq> Inr True" using assms(2) by (auto simp: claimed_def)
  with assms(2) show ?thesis by (simp add: claimed_def)
qed

text \<open>
  C23. A periodic job fires once per occurrence, also when several processes share the database. After
  one call of \<open>RunSchedule\<close> has claimed the occurrence of a snapshot of a schedule, every further call
  with the same snapshot, at whatever time and with whatever next occurrence, claims nothing and
  leaves the tables as they are, on SQLite and on PostgreSQL. The next occurrence has to differ from
  the one claimed in its stored form, on PostgreSQL by a microsecond.
\<close>

theorem sql_RunSchedule_once:
  assumes "sqlite_RunSchedule clk nid sc now nxt s = (Inr True, s1)" "db_work s = None"
    "sqliteScheduleTime nxt \<noteq> sqliteScheduleTime (sNextRunAt sc)"
    and "pg_RunSchedule clk nid sc now nxt p = (Inr True, p1)" "db_work p = None"
    "pg_write nxt \<noteq> pg_write (sNextRunAt sc)"
  shows "(let (r, s2) = sqlite_RunSchedule clk' nid' sc now' nxt' s1 in r \<noteq> Inr True \<and> db_main s2 = db_main s1) \<and>
         (let (r, p2) = pg_RunSchedule clk' nid' sc now' nxt' p1 in r \<noteq> Inr True \<and> db_main p2 = db_main p1)"
proof
  obtain r s2 where run: "sqlite_RunSchedule clk' nid' sc now' nxt' s1 = (r, s2)" by fastforce
  have w: "db_work (core s) = None" using assms(2) by simp
  note first = sqlite_RunSchedule_claims [OF effectI [of "sqlite_RunSchedule clk nid sc now nxt", OF assms(1)] w]
  note second = sqlite_RunSchedule_claims [OF effectI [of "sqlite_RunSchedule clk' nid' sc now' nxt'", OF run] first [THEN conjunct2]]
  have "r \<noteq> Inr True \<and> db_main (core s2) = db_main (core s1)"
    by (rule claimed_once [OF first [THEN conjunct1] second [THEN conjunct1]])
      (use assms(3) in \<open>auto simp: sqliteScheduleTime_def\<close>)
  with run show "let (r, s2) = sqlite_RunSchedule clk' nid' sc now' nxt' s1 in r \<noteq> Inr True \<and> db_main s2 = db_main s1" by simp
next
  obtain r p2 where run: "pg_RunSchedule clk' nid' sc now' nxt' p1 = (r, p2)" by fastforce
  have w: "db_work (core p) = None" using assms(5) by simp
  note first = pg_RunSchedule_claims [OF effectI [of "pg_RunSchedule clk nid sc now nxt", OF assms(4)] w]
  note second = pg_RunSchedule_claims [OF effectI [of "pg_RunSchedule clk' nid' sc now' nxt'", OF run] first [THEN conjunct2]]
  have "r \<noteq> Inr True \<and> db_main (core p2) = db_main (core p1)"
    by (rule claimed_once [OF first [THEN conjunct1] second [THEN conjunct1]]) (use assms(6) in auto)
  with run show "let (r, p2) = pg_RunSchedule clk' nid' sc now' nxt' p1 in r \<noteq> Inr True \<and> db_main p2 = db_main p1" by simp
qed

lemmas run_sql = get_formats_def transaction_def rolling_back_def andThen_def wrap_def exec_def call_def current_def put_def ret_def fail_def
  give_def Begin_def Commit_def query_def query_skip_locked_def fresh_db_def empty_tables_def

definition hourly :: schedule where
  "hourly = \<lparr>sID = ''hourly'', sQueue = ''reports'', sPayload = [], sEnqueueOptions = [],
     sInterval = 3600 * second, sNextRunAt = 100 * giga, sEnabled = True, sCreatedAt = giga, sUpdatedAt = giga\<rparr>"

lemma hourly_text:
  "text_le (Format_RFC3339Nano 0 (100 * giga)) (Format_RFC3339Nano 0 (120 * giga))"
  "Format_RFC3339Nano 0 (3700 * giga) \<noteq> Format_RFC3339Nano 0 (100 * giga)"
proof -
  have "time_ok 0 (100 * giga)" "time_ok 0 (120 * giga)" "time_ok 0 (3700 * giga)" by (simp_all add: time_ok_def clock_def giga_def)
  then have "text_less (Format_RFC3339Nano 0 (100 * giga)) (Format_RFC3339Nano 0 (120 * giga))"
    "text_less (Format_RFC3339Nano 0 (100 * giga)) (Format_RFC3339Nano 0 (3700 * giga))"
    by (auto intro!: text_order_clock simp: clock_def giga_def)
  then show "text_le (Format_RFC3339Nano 0 (100 * giga)) (Format_RFC3339Nano 0 (120 * giga))"
    "Format_RFC3339Nano 0 (3700 * giga) \<noteq> Format_RFC3339Nano 0 (100 * giga)"
    using text_less_le text_less_def text_le_refl by metis+
qed

theorem sql_RunSchedule_once_witness:
  "let s = snd (sqlite_RunSchedule (120 * giga) ''n1'' hourly (120 * giga) (3700 * giga) (snd (sqlite_CreateSchedule hourly fresh_db)));
       p = snd (pg_RunSchedule (120 * giga) ''n1'' hourly (120 * giga) (3700 * giga) (snd (pg_CreateSchedule Some hourly fresh_db)))
   in fst (sqlite_RunSchedule 9 ''n2'' hourly (120 * giga) (3700 * giga) s) \<noteq> Inr True \<and>
      fst (pg_RunSchedule 9 ''n2'' hourly (120 * giga) (3700 * giga) p) \<noteq> Inr True"
proof -
  let ?s0 = "snd (sqlite_CreateSchedule hourly fresh_db)" and ?p0 = "snd (pg_CreateSchedule Some hourly fresh_db)"
  note ev = sqlite_CreateSchedule_def pg_CreateSchedule_def insert_schedule_def update_schedules_def sqliteScheduleTime_def
    enqueueSQLite_def insert_message_def enqueuePostgresAtomic_def enqueuePostgresRow_def postgresInsertSQL_def
    insert_unless_conflict_def
  have le: "pg_write (100 * giga) \<le> pg_write (120 * giga)" by (simp add: pg_write_def giga_def)
  have "sqlite_RunSchedule (120 * giga) ''n1'' hourly (120 * giga) (3700 * giga) ?s0 =
      (Inr True, snd (sqlite_RunSchedule (120 * giga) ''n1'' hourly (120 * giga) (3700 * giga) ?s0))"
    "pg_RunSchedule (120 * giga) ''n1'' hourly (120 * giga) (3700 * giga) ?p0 =
      (Inr True, snd (pg_RunSchedule (120 * giga) ''n1'' hourly (120 * giga) (3700 * giga) ?p0))"
    "db_work ?s0 = None" "db_work ?p0 = None"
    by (simp_all add: ev run_sql hourly_def sqlite_RunSchedule_def pg_RunSchedule_def prod_eq_iff hourly_text le)
  moreover have "pg_write (3700 * giga) \<noteq> pg_write (sNextRunAt hourly)" "sNextRunAt hourly = 100 * giga"
    by (simp_all add: hourly_def pg_write_def giga_def)
  ultimately show ?thesis
    using sql_RunSchedule_once [of "120 * giga" "''n1''" hourly "120 * giga" "3700 * giga" ?s0 _ ?p0 _ 9 "''n2''" "120 * giga" "3700 * giga"]
      hourly_text(2) by (simp add: Let_def split_beta sqliteScheduleTime_def)
qed

end
