(* ===== verification/SQL_Delivery.thy ===== *)
theory SQL_Delivery
  imports SQL_Atomicity Broker
begin

text \<open>
  What the columns of the SQL backends preserve of a message: the round trip through SQLite, whose
  times are texts, when SQLite holds a message due, and the time of death PostgreSQL loses.
\<close>

subsection \<open>Delivery times on SQLite\<close>

lemma text_less_parallel:
  assumes "x \<parallel> y"
  shows "text_less (x @ a) (y @ b) \<longleftrightarrow> text_less (x @ c) (y @ d)"
proof -
  from parallel_decomp [OF assms] obtain p u x' v y' where "u \<noteq> v" "x = p @ u # x'" "y = p @ v # y'" by blast
  then show ?thesis by (simp add: text_less_split)
qed

text \<open>The fractions of one second in UTC: wrong exactly where one text extends the other.\<close>

lemma fraction_UTC:
  assumes "m < 10 ^ 9" "n < 10 ^ 9"
  shows "text_le (fraction m @ ''Z'') (fraction n @ ''Z'') \<longleftrightarrow>
    (m \<le> n \<and> \<not> strict_prefix (fraction m) (fraction n)) \<or> strict_prefix (fraction n) (fraction m)"
proof -
  have after: "text_le (x @ u # v @ ''Z'') (x @ ''Z'')" "\<not> text_le (x @ ''Z'') (x @ u # v @ ''Z'')"
    if "(of_char u :: nat) < of_char (CHR ''Z'')" for x v :: string and u using that by auto
  have low: "(of_char u :: nat) < of_char (CHR ''Z'')" if "u \<in> set (fraction n)" for u n
  proof -
    have "of_char (CHR ''Z'') = (90 :: nat)" "of_char (CHR ''.'') = (46 :: nat)" by (simp_all add: of_char_def)
    moreover have "d \<in> set (digits w n) \<Longrightarrow> (of_char d :: nat) < 90" for d w n
      by (induction w n rule: digits.induct) (auto simp: of_char_digit)
    moreover have "set (trim_zeros xs) \<subseteq> set xs" for xs
      using set_dropWhileD unfolding trim_zeros_def by fastforce
    ultimately show ?thesis using that unfolding fraction_def by (fastforce split: if_splits)
  qed
  consider "fraction m = fraction n" | u v where "fraction n = fraction m @ u # v" | u v where "fraction m = fraction n @ u # v"
    | "fraction m \<parallel> fraction n"
    by (metis append_Nil2 neq_Nil_conv parallelI prefixE)
  then show ?thesis
  proof cases
    case 1
    have "m = n"
    proof (rule ccontr)
      assume "m \<noteq> n"
      then have "text_less (fraction m @ zone_text 60) (fraction n @ zone_text 60) \<or>
          text_less (fraction n @ zone_text 60) (fraction m @ zone_text 60)"
        using fraction_less [of m n 60] fraction_less [of n m 60] assms by (metis linorder_neqE_nat zero_neq_numeral)
      with 1 show False by (simp add: text_less_def)
    qed
    then show ?thesis by simp
  next
    case (2 u v)
    then show ?thesis using after(2) [OF low [of u n], of "fraction m" v] by (auto simp: strict_prefix_def)
  next
    case (3 u v)
    then show ?thesis using after(1) [OF low [of u m], of "fraction n" v] by (auto simp: strict_prefix_def)
  next
    case 4
    then have par: "fraction n \<parallel> fraction m" by auto
    have "m \<noteq> n" using 4 by auto
    moreover have "\<not> strict_prefix (fraction m) (fraction n)" "\<not> strict_prefix (fraction n) (fraction m)"
      using 4 by (auto simp: strict_prefix_def)
    moreover have "m < n \<Longrightarrow> text_less (fraction m @ ''Z'') (fraction n @ ''Z'')"
      using fraction_less [of m n 60] assms text_less_parallel [OF 4] by (metis zero_neq_numeral)
    moreover have "n < m \<Longrightarrow> text_less (fraction n @ ''Z'') (fraction m @ ''Z'')"
      using fraction_less [of n m 60] assms text_less_parallel [OF par] by (metis zero_neq_numeral)
    ultimately show ?thesis
      using text_less_le by (metis linorder_neqE_nat nless_le not_less text_less_def)
  qed
qed

lemma sqlite_due_iff:
  assumes "r \<in> set rows" "rQueue r = q" "rStatus r = Pending"
  shows "r \<in> set (sqlite_due q now (-1) rows) \<longleftrightarrow> text_le (rScheduledAt r) now"
    "\<not> text_le (rScheduledAt r) now \<Longrightarrow> r \<notin> set (sqlite_due q now limit rows)"
  using assms by (auto simp: sqlite_due_def sqlite_limit_def dest: in_set_takeD)

lemma sqlite_dueD: "r \<in> set (sqlite_due q now limit rows) \<Longrightarrow> r \<in> set rows \<and> text_le (rScheduledAt r) now"
  by (auto simp: sqlite_due_def sqlite_limit_def dest!: in_set_takeD split: if_splits)

text \<open>
  C24. When SQLite holds a pending message due. Its scheduled time \<open>t\<close> was written at a place with
  offset \<open>a\<close> from UTC, the time of the query \<open>now\<close> at a place with offset \<open>b\<close>, and the texts are
  compared: what counts is what the two clocks showed. A message is due once the query's clock shows
  a later second than the one its own clock showed, and not before that second, however far apart
  the two offsets are. With one offset other than zero for both, the comparison is exact to the
  nanosecond. In UTC it is not, within a second: there the order is right except where the decimals
  of one time extend those of the other, and then it is inverted (a message for \<open>.2\<close> is not due at
  \<open>.25\<close>, one for \<open>.25\<close> is due at \<open>.2\<close>).
\<close>

theorem sqlite_due_decided:
  assumes "time_ok a t" "time_ok b now" "r \<in> set rows" "rQueue r = q" "rStatus r = Pending" "rScheduledAt r = Format_RFC3339Nano a t"
  shows "(clock a t < clock b now \<longrightarrow> r \<in> set (sqlite_due q (Format_RFC3339Nano b now) (-1) rows)) \<and>
    (clock b now < clock a t \<longrightarrow> r \<notin> set (sqlite_due q (Format_RFC3339Nano b now) limit rows)) \<and>
    (a = b \<and> a \<noteq> 0 \<longrightarrow> (r \<in> set (sqlite_due q (Format_RFC3339Nano b now) (-1) rows) \<longleftrightarrow> t \<le> now)) \<and>
    (a = 0 \<and> b = 0 \<and> t div giga = now div giga \<longrightarrow>
      (let m = fraction (nat (t mod giga)); n = fraction (nat (now mod giga))
       in r \<in> set (sqlite_due q (Format_RFC3339Nano b now) (-1) rows) \<longleftrightarrow>
          (t \<le> now \<and> \<not> strict_prefix m n) \<or> strict_prefix n m))"
proof (intro conjI impI)
  note due = sqlite_due_iff [OF assms(3-5)]
  show "r \<in> set (sqlite_due q (Format_RFC3339Nano b now) (-1) rows)" if "clock a t < clock b now"
    using text_less_le [OF text_order_clock [OF assms(1,2) that]] by (simp add: due assms(6))
  show "r \<notin> set (sqlite_due q (Format_RFC3339Nano b now) limit rows)" if "clock b now < clock a t"
    using text_order_clock [OF assms(2,1) that] by (intro due(2)) (simp add: assms(6) text_less_def)
  show "r \<in> set (sqlite_due q (Format_RFC3339Nano b now) (-1) rows) \<longleftrightarrow> t \<le> now" if "a = b \<and> a \<noteq> 0"
    using text_order_exact [of b t now] assms(1,2) that by (simp add: due assms(6))
  assume utc: "a = 0 \<and> b = 0 \<and> t div giga = now div giga"
  then have "t mod giga \<le> now mod giga \<longleftrightarrow> t \<le> now" by (metis add_le_cancel_left div_mult_mod_eq)
  moreover have "0 \<le> now mod giga" by (simp add: giga_def)
  ultimately have "nat (t mod giga) \<le> nat (now mod giga) \<longleftrightarrow> t \<le> now" by (simp add: nat_le_eq_zle)
  moreover have "nat (t mod giga) < 10 ^ 9" "nat (now mod giga) < 10 ^ 9" by (simp_all add: giga_def nat_less_iff)
  moreover have "zone_text 0 = ''Z''" by (simp add: zone_text_def)
  ultimately show "let m = fraction (nat (t mod giga)); n = fraction (nat (now mod giga))
       in r \<in> set (sqlite_due q (Format_RFC3339Nano b now) (-1) rows) \<longleftrightarrow>
          (t \<le> now \<and> \<not> strict_prefix m n) \<or> strict_prefix n m"
    using utc fraction_UTC by (simp add: due assms(6) Format_RFC3339Nano_def clock_def Let_def)
qed

lemma Format_nonempty: "Format_RFC3339Nano off t \<noteq> ''''"
  by (simp add: Format_RFC3339Nano_def zone_text_def Let_def)

text \<open>What \<open>Enqueue\<close> writes of a message, \<open>scanMessage\<close> reads back.\<close>

lemma scan_args:
  assumes "fOffsets f msg = (oc, os)" "zone_ok oc" "zone_ok os" "time_ok oc (mCreatedAt msg)" "time_ok os (mScheduledAt msg)"
    "time_ok 0 (mDeadAt msg)" "\<not> IsZero (mCreatedAt msg)" "\<not> IsZero (mScheduledAt msg)" "fJSON f (mMetadata msg) = mMetadata msg"
  shows "scanMessage (sqliteEnqueueArgs f now q msg) = Inr (msg\<lparr>mQueue := ''''\<rparr>)"
proof -
  have "zone_ok 0" by (simp add: zone_ok_def)
  with assms show ?thesis
    by (cases msg) (auto simp: scanMessage_def sqliteEnqueueArgs_def Let_def parse_time_def format_parse tsOrEmpty_def Format_nonempty
        zero_message_def IsZero_def)
qed

lemma due_alone:
  assumes "mset xs = mset (rows @ [r])" "ids Pending q rows = {#}" "rQueue r = q" "rStatus r = Pending"
    "text_le (rScheduledAt r) now" "limit \<noteq> 0"
  shows "sqlite_due q now limit xs = [r]"
proof -
  let ?P = "\<lambda>r. rQueue r = q \<and> rStatus r = Pending \<and> text_le (rScheduledAt r) now"
  have none: "x \<in> set rows \<Longrightarrow> \<not> ?P x" for x
  proof
    assume "x \<in> set rows" "?P x"
    then have "rID x \<in># ids Pending q rows" unfolding in_ids by blast
    with assms(2) show False by simp
  qed
  have "mset (filter ?P xs) = filter_mset ?P (mset (rows @ [r]))" by (simp add: assms(1))
  also have "\<dots> = mset (filter ?P rows @ [r])" using assms(3-5) by simp
  also have "filter ?P rows = []" using none by (simp only: filter_empty_conv) blast
  finally have "filter ?P xs = [r]" by (simp del: mset_filter)
  then show ?thesis
    using assms(6) by (cases "nat limit") (auto simp: sqlite_due_def sqlite_limit_def SliceStable_Cons)
qed

text \<open>
  C22. SQLite returns what it was given. On a database whose driver reports no error, a message with
  valid UTF-8 metadata, stored with \<open>Enqueue\<close> in a queue with nothing else pending, is the one the
  next \<open>Dequeue\<close> returns once the local clock shows a later second than the clock at the location of
  its scheduled time did; every field is as it was: identifier, payload, attempts, retry limit,
  priority, deduplication key, metadata, error and the three times to the nanosecond, whatever the
  local zone and the locations of the times (offsets of whole minutes, years of four digits). Its
  row is then in processing.
\<close>

theorem sqlite_Enqueue_Dequeue_roundtrip:
  assumes "db_ok s" "db_faults s = (\<lambda>_. None)" "\<not> db_closed s" "aPend (db_view s) q = {#}" "user_queue q"
    "mID msg \<notin> rID ` set (t_messages (db_main s))" "\<not> IsZero (mCreatedAt msg)" "\<not> IsZero (mScheduledAt msg)"
    "json_law (db_formats s)" "valid_metadata (mMetadata msg)" "fOffsets (db_formats s) msg = (oc, os)" "zone_ok oc" "zone_ok os"
    "time_ok oc (mCreatedAt msg)" "time_ok os (mScheduledAt msg)" "time_ok 0 (mDeadAt msg)"
    "time_ok (fZone (db_formats s) now) now" "clock os (mScheduledAt msg) < clock (fZone (db_formats s) now) now" "limit \<noteq> 0"
  shows "\<exists>s1 s2. sqlite_Enqueue clk q msg s = (Inr (), s1) \<and> sqlite_Dequeue now q limit s1 = (Inr [msg\<lparr>mQueue := q\<rparr>], s2) \<and>
    aPend (db_view s2) q = {#} \<and> mID msg \<in> aInfl (db_view s2) q"
proof -
  let ?f = "db_formats s" and ?now = "Format_RFC3339Nano (fZone (db_formats s) now) now"
  let ?rows = "t_messages (db_main s)" and ?r = "sqliteEnqueueArgs ?f clk q msg"
  let ?s1 = "s\<lparr>db_main := (db_main s)\<lparr>t_messages := ?rows @ [?r]\<rparr>\<rparr>"
  have row: "rQueue ?r = q" "rStatus ?r = Pending" "rScheduledAt ?r = Format_RFC3339Nano os (mScheduledAt msg)"
    using assms(5,7,8,11) by (simp_all add: sqliteEnqueueArgs_def Let_def user_queue_def)
  have w: "db_work s = None" and scan: "mset (db_scan s (?rows @ [?r])) = mset (?rows @ [?r])"
    using assms(1) by (simp_all add: db_ok_def scans_ok_def)
  have upd: "s\<lparr>db_faults := \<lambda>n. None\<rparr> = s" using assms(2) by simp
  have enq: "sqlite_Enqueue clk q msg s = (Inr (), ?s1)"
    using w assms(2,3,6) upd
    by (simp add: sqlite_Enqueue_def enqueueSQLite_def get_formats_def insert_message_def andThen_def wrap_def exec_def call_def ret_def)
  have "text_le (rScheduledAt ?r) ?now"
    unfolding row(3) by (rule text_less_le, rule text_order_clock) (use assms in auto)
  then have due: "sqlite_due q ?now limit (db_scan s (?rows @ [?r])) = [?r]"
    using assms(4,19) row(1,2) by (intro due_alone [OF scan]) (simp_all add: db_view_def)
  have "fJSON ?f (mMetadata msg) = mMetadata msg" using assms(9,10) by (simp add: json_law_def)
  then have sc: "scanMessage ?r = Inr (msg\<lparr>mQueue := ''''\<rparr>)" by (intro scan_args [OF assms(11-13)]) (use assms in auto)
  let ?s2 = "?s1\<lparr>db_main := (db_main ?s1)\<lparr>t_messages := map (mark q {mID msg}) (?rows @ [?r])\<rparr>\<rparr>"
  have mark: "map (\<lambda>r. if rID r = mID msg \<and> rQueue r = q then r\<lparr>rStatus := Processing\<rparr> else r) xs = map (mark q {mID msg}) xs"
    for xs :: "sqlite_row list" by (simp add: mark_def)
  have deq: "sqlite_Dequeue now q limit ?s1 = (Inr [msg\<lparr>mQueue := q\<rparr>], ?s2)"
    using w assms(2,3) upd
    by (simp add: sqlite_Dequeue_def run_sql due sc sqlite_mark_loop_def update_messages_def mark del: map_append)
  have "aPend (db_view ?s2) q = {#}" "mID msg \<in> aInfl (db_view ?s2) q"
    using assms(4) row by (simp_all add: db_view_def ids_mark_pending mark_def)
  with enq deq show ?thesis by blast
qed

subsection \<open>A replayed message and the local zone\<close>

lemma sqlite_Replay_row:
  assumes "sqlite_Replay t q i s = (Inr u, s')" "db_ok s" "\<not> IsZero t"
  shows "\<exists>r \<in> set (t_messages (db_main s')). rID r = i \<and> rScheduledAt r = Format_RFC3339Nano 0 t"
proof -
  have w: "db_work (core s) = None" using assms(2) by (simp add: db_ok_def)
  have written: "rScheduledAt (sqliteEnqueueArgs (scheduled_UTC f) t q (replayMessage q m t)) = Format_RFC3339Nano 0 t" for f m
    using assms(3) by (auto simp: sqliteEnqueueArgs_def scheduled_UTC_def replayMessage_def Let_def split: prod.split)
  have "\<exists>r \<in> set (t_messages (db_main c')). rID r = i \<and> rScheduledAt r = Format_RFC3339Nano 0 t"
    if eff: "effect (sqlite_Replay t q i) (core s) (Inr u) c'" for c'
  proof (cases "filter (is_dead i q) (db_scan s (t_messages (db_main s)))")
    case Nil
    then show ?thesis using eff w unfolding sqlite_Replay_def Let_def by (auto elim!: effect_transactionE effect_elims)
  next
    case (Cons x xs)
    then have "\<And>m. scanMessage x = Inr m \<Longrightarrow> mID m = i" using scanMessage_id by (auto simp: filter_eq_Cons_iff is_dead_def)
    then show ?thesis using Cons eff w unfolding sqlite_Replay_def Let_def
      by (auto elim!: effect_transactionE effect_elims effect_insertE simp: delete_messages_def upsert_stats_def written
          split: if_splits)
  qed
  from this [OF effectI [where m = "sqlite_Replay t q i", OF assms(1)]] show ?thesis by simp
qed

text \<open>
  C20. A replayed message waits for the local clock to show the UTC time of the replay. \<open>Replay\<close> writes the new
  scheduled time in UTC and \<open>Dequeue\<close> compares it with the local time, both as texts: in a process
  whose zone is west of UTC no \<open>Dequeue\<close> returns the message as long as the local clock is behind
  the UTC reading of the moment of the replay, hours after it has become due; and this does not
  depend on what else the queue holds or on the limit.
\<close>

theorem sqlite_replayed_message_waits:
  assumes "sqlite_Replay t q i s = (Inr u, s1)" "db_ok s" "user_queue q" "\<not> IsZero t" "time_ok 0 t"
    "time_ok (fZone (db_formats s1) now) now" "clock (fZone (db_formats s1) now) now < clock 0 t"
  shows "i \<in># aPend (db_view s1) q \<and> (\<forall>ms s2. sqlite_Dequeue now q limit s1 = (Inr ms, s2) \<longrightarrow> i \<notin> mID ` set ms)"
proof -
  have "effect (sqlite_Replay t q i) (core s) (Inr u) (core s1)" by (rule effectI) (rule assms(1))
  from sqlite_Replay_law [OF this _ assms(3)] assms(2) have ok: "db_ok s1" and dead: "i \<in># aDead (db_view s) q" and
    view: "db_view s1 = a_Replay q i (db_view s)" by auto
  have pend: "i \<in># aPend (db_view s1) q" unfolding view by (simp add: a_defs)
  obtain r where r: "r \<in> set (t_messages (db_main s1))" "rID r = i" "rScheduledAt r = Format_RFC3339Nano 0 t"
    using sqlite_Replay_row [OF assms(1,2,4)] by blast
  let ?due = "sqlite_due q (Format_RFC3339Nano (fZone (db_formats s1) now) now) limit (db_scan s1 (t_messages (db_main s1)))"
  have same: "set (db_scan s1 (t_messages (db_main s1))) = set (t_messages (db_main s1))"
    and inj: "inj_on rID (set (t_messages (db_main s1)))"
    using ok by (auto simp: db_ok_def scans_ok_def key_ok_def distinct_map dest: mset_eq_setD)
  have late: "x \<notin> set ?due" if "rID x = i" for x
  proof
    assume "x \<in> set ?due"
    from sqlite_dueD [OF this] have x: "x \<in> set (t_messages (db_main s1))"
      "text_le (rScheduledAt x) (Format_RFC3339Nano (fZone (db_formats s1) now) now)" by (simp_all add: same)
    from inj_onD [OF inj _ x(1) r(1)] that r(2) have "x = r" by simp
    with x(2) text_order_clock [OF assms(6,5,7)] r(3) show False by (simp add: text_less_def)
  qed
  have "i \<notin> mID ` set ms" if "sqlite_Dequeue now q limit s1 = (Inr ms, s2)" for ms s2
  proof -
    have "effect (sqlite_Dequeue now q limit) (core s1) (Inr ms) (core s2)" by (rule effectI) (rule that)
    from sqlite_Dequeue_cases [OF this] ok
    have "scan_rows scanMessage ''shoebox/sqlite: dequeue scan'' q ?due = Inr ms" by auto
    from scan_rows_ids [OF scanMessage_id this] have "mID ` set ms = rID ` set ?due" by (metis list.set_map)
    with late show ?thesis by auto
  qed
  with pend show ?thesis by blast
qed

subsection \<open>Examples\<close>

definition db_with :: "('t, 'd) row \<Rightarrow> ('t, 'd) db" where
  "db_with r = fresh_db\<lparr>db_main := empty_tables\<lparr>t_messages := [r]\<rparr>\<rparr>"

definition zoned :: "int \<Rightarrow> formats" where
  "zoned off = \<lparr>fZone = (\<lambda>_. off), fOffsets = (\<lambda>_. (off, off)), fJSON = (\<lambda>m. m)\<rparr>"

definition job :: message where
  "job = zero_message\<lparr>mID := ''a'', mPayload := [], mMaxRetries := 3, mCreatedAt := 30000 * giga, mScheduledAt := 30000 * giga,
     mMetadata := [''k'' \<mapsto> ''v'']\<rparr>"

lemma job_sel [simp]: "mCreatedAt job = 30000 * giga" "mScheduledAt job = 30000 * giga" "mDeadAt job = 0" "mID job = ''a''"
    "mMetadata job = [''k'' \<mapsto> ''v'']" "mQueue job = ''''"
  by (simp_all add: job_def zero_message_def)

lemma job_ok: "valid_metadata (mMetadata job)" "json_law (zoned off)" "\<not> IsZero (mCreatedAt job)" "\<not> IsZero (mScheduledAt job)"
    "\<bar>off\<bar> \<le> 25200 \<Longrightarrow> 25200 \<le> n \<Longrightarrow> n < 1000000 \<Longrightarrow> time_ok off (n * giga)" "time_ok 0 0"
  by (auto simp: valid_metadata_def json_law_def zoned_def in_range_def of_char_def IsZero_def giga_def time_ok_def clock_def)

text \<open>The round trip in a process seven hours east of UTC.\<close>

theorem sqlite_Enqueue_Dequeue_roundtrip_witness:
  "let s = fresh_db\<lparr>db_formats := zoned 25200\<rparr> in \<exists>s1 s2. sqlite_Enqueue giga ''q'' job s = (Inr (), s1) \<and>
     sqlite_Dequeue (30001 * giga) ''q'' 5 s1 = (Inr [job\<lparr>mQueue := ''q''\<rparr>], s2) \<and> aInfl (db_view s2) ''q'' \<noteq> {}"
proof -
  let ?s = "fresh_db\<lparr>db_formats := zoned 25200\<rparr> :: sqlite"
  have s: "db_ok ?s" "db_faults ?s = (\<lambda>_. None)" "\<not> db_closed ?s" "aPend (db_view ?s) ''q'' = {#}"
    "mID job \<notin> rID ` set (t_messages (db_main ?s))"
    by (simp_all add: db_ok_def fresh_db_def empty_tables_def key_ok_def scans_ok_def db_view_def)
  have f: "json_law (db_formats ?s)" "fOffsets (db_formats ?s) job = (25200, 25200)" "fZone (db_formats ?s) t = 25200" for t
    using job_ok(2) [of 25200] by (simp_all add: zoned_def)
  have z: "zone_ok 25200" "clock 25200 (mScheduledAt job) < clock 25200 (30001 * giga)"
    by (simp_all add: zone_ok_def clock_def giga_def)
  from sqlite_Enqueue_Dequeue_roundtrip [OF s(1-4) user_queue_q s(5) job_ok(3,4) f(1) job_ok(1) f(2) z(1) z(1), of "30001 * giga" 5 giga]
    f(3) z(2) job_ok(5) [of 25200 30000] job_ok(5) [of 25200 30001] job_ok(6)
  show ?thesis by (auto simp: Let_def)
qed

lemma job_row:
  "rQueue (sqliteEnqueueArgs (zoned off) t ''q'' job) = ''q''" "rStatus (sqliteEnqueueArgs (zoned off) t ''q'' job) = Pending"
  "rScheduledAt (sqliteEnqueueArgs (zoned off) t ''q'' job) = Format_RFC3339Nano off (30000 * giga)"
  using job_ok(3,4) user_queue_q by (simp_all add: sqliteEnqueueArgs_def zoned_def Let_def user_queue_def)

theorem sqlite_due_decided_witness:
  "sqliteEnqueueArgs (zoned 25200) giga ''q'' job
     \<in> set (sqlite_due ''q'' (Format_RFC3339Nano 25200 (30000 * giga)) (-1) [sqliteEnqueueArgs (zoned 25200) giga ''q'' job]) \<and>
   sqliteEnqueueArgs (zoned 0) giga ''q'' job
     \<notin> set (sqlite_due ''q'' (Format_RFC3339Nano 0 (30000 * giga + 1)) (-1) [sqliteEnqueueArgs (zoned 0) giga ''q'' job])"
proof -
  let ?r = "\<lambda>off. sqliteEnqueueArgs (zoned off) giga ''q'' job"
  have ok: "time_ok 25200 (30000 * giga)" "time_ok 0 (30000 * giga)" "time_ok 0 (30000 * giga + 1)"
    by (simp_all add: time_ok_def clock_def giga_def)
  have m: "(30000 * giga) div giga = (30000 * giga + 1) div giga" "(30000 * giga) mod giga = 0" "(30000 * giga + 1) mod giga = 1"
    by (simp_all add: giga_def)
  have "fraction 0 = []" "fraction 1 \<noteq> []" by (simp_all add: fraction_def)
  then have "strict_prefix (fraction (nat ((30000 * giga) mod giga))) (fraction (nat ((30000 * giga + 1) mod giga)))"
    "\<not> strict_prefix (fraction (nat ((30000 * giga + 1) mod giga))) (fraction (nat ((30000 * giga) mod giga)))"
    unfolding m by (simp_all add: strict_prefix_def)
  with sqlite_due_decided [OF ok(2,3) _ job_row(1-3) [of 0 giga], of "[?r 0]"] m(1)
  have "?r 0 \<notin> set (sqlite_due ''q'' (Format_RFC3339Nano 0 (30000 * giga + 1)) (-1) [?r 0])" by (simp add: Let_def)
  with sqlite_due_decided [OF ok(1,1) _ job_row(1-3) [of 25200 giga], of "[?r 25200]"] show ?thesis by simp
qed

text \<open>A replay five hours west of UTC, and a minute later.\<close>

definition dead_job :: sqlite_row where
  "dead_job = sqliteEnqueueArgs UTC giga ''q.dlq'' job"

theorem sqlite_replayed_message_waits_witness:
  "\<exists>s1. sqlite_Replay (40000 * giga) ''q'' ''a'' ((db_with dead_job)\<lparr>db_formats := zoned (-18000)\<rparr>) = (Inr (), s1) \<and>
     ''a'' \<in># aPend (db_view s1) ''q'' \<and>
     (\<forall>ms s2. sqlite_Dequeue (40060 * giga) ''q'' 5 s1 = (Inr ms, s2) \<longrightarrow> ''a'' \<notin> mID ` set ms)"
proof -
  let ?s = "(db_with dead_job)\<lparr>db_formats := zoned (-18000)\<rparr>"
  have ok: "db_ok ?s" by (simp add: db_ok_def db_with_def fresh_db_def scans_ok_def key_ok_def)
  have row: "rID dead_job = ''a''" "is_dead ''a'' ''q'' dead_job"
    by (simp_all add: dead_job_def is_dead_def sqliteEnqueueArgs_def UTC_def Let_def strings_HasSuffix_def)
  have "zone_ok 0" by (simp add: zone_ok_def)
  then have scan: "scanMessage dead_job = Inr (job\<lparr>mQueue := ''''\<rparr>)"
    unfolding dead_job_def using job_ok(3,4,6) job_ok(5) [of 0 30000] by (intro scan_args [of _ _ 0 0]) (simp_all add: UTC_def)
  obtain s1 where run: "sqlite_Replay (40000 * giga) ''q'' ''a'' ?s = (Inr (), s1)" and f: "db_formats s1 = zoned (-18000)"
    by (simp add: sqlite_Replay_def run_sql db_with_def row scan Let_def enqueueSQLite_def insert_message_def
        delete_messages_def upsert_stats_def)
  have "\<not> IsZero (40000 * giga)" "clock (-18000) (40060 * giga) < clock 0 (40000 * giga)"
    by (simp_all add: IsZero_def clock_def giga_def)
  with sqlite_replayed_message_waits [OF run ok user_queue_q _ job_ok(5), of "40060 * giga" 5]
    job_ok(5) [of "-18000" 40060] f have "''a'' \<in># aPend (db_view s1) ''q'' \<and>
     (\<forall>ms s2. sqlite_Dequeue (40060 * giga) ''q'' 5 s1 = (Inr ms, s2) \<longrightarrow> ''a'' \<notin> mID ` set ms)" by (simp add: zoned_def)
  with run show ?thesis by blast
qed

subsection \<open>The time of death on PostgreSQL\<close>

lemma scan_rows_DeadAt:
  "scan_rows scanPostgresMessage failed q rows = Inr ms \<Longrightarrow> m \<in> set ms \<Longrightarrow> mDeadAt m = 0"
proof (induction rows arbitrary: ms)
  case (Cons r rows)
  then show ?case
    by (auto simp: scanPostgresMessage_def Let_def pgx_zero_def pgx_Time_def split: sum.splits)
qed simp

text \<open>
  C25. On PostgreSQL the time of death of a dead letter is stored and never read back: every message
  that \<open>List\<close> returns has a zero \<open>DeadAt\<close>, whatever its row holds, because \<open>scanPostgresMessage\<close> hands
  the field \<open>val\<close> of the nullable timestamp to the driver instead of the scanner itself.
\<close>

theorem postgres_List_loses_DeadAt:
  assumes "pg_List q limit s = (Inr ms, s')" "m \<in> set ms"
  shows "mDeadAt m = 0"
proof -
  from effectI [of "pg_List q limit", OF assms(1)]
  obtain rows where "scan_rows scanPostgresMessage ''shoebox/postgres: list scan'' q rows = Inr ms"
    unfolding pg_List_def with_limit_def by (auto elim!: effect_elims split: if_splits)
  from scan_rows_DeadAt [OF this assms(2)] show ?thesis .
qed

definition buried :: "postgres_row" where
  "buried = (crashed_row 7 (Some 9))\<lparr>rQueue := ''q.dlq'', rStatus := Dead\<rparr>"

theorem postgres_List_loses_DeadAt_witness:
  "\<exists>m s'. pg_List ''q.dlq'' 5 (db_with buried) = (Inr [m], s') \<and> rDeadAt buried = Some 9 \<and> mDeadAt m = 0"
proof -
  obtain m s' where "pg_List ''q.dlq'' 5 (db_with buried) = (Inr [m], s')"
    by (simp add: pg_List_def run_sql with_limit_def db_with_def buried_def crashed_row_def SliceStable_Cons
        scanPostgresMessage_def Let_def)
  with postgres_List_loses_DeadAt [OF this] show ?thesis by (auto simp: buried_def crashed_row_def)
qed

end
