(* ===== verification/Schema.thy ===== *)
theory Schema
  imports Postgres_Store Go_Time
begin

text \<open>
  Package \<open>migrations\<close> and the opening of the two SQL backends: which migrations are embedded, in which
  order they run, how the version of an existing database is found, and what \<open>NewSQLite\<close> and
  \<open>NewPostgres\<close> do before the first message.

  A schema is its tables with their columns and its indexes; the scripts of the directory
  \<open>migrations\<close> are lists of the statements of the datatype \<open>ddl\<close>, which fail as the database lets them
  fail (a column that exists, a table that does not). Data matters in one place, the creation of the
  unique index: \<open>sc_conflict\<close> says that two live messages share a key. The markers of the applied
  version, \<open>PRAGMA user_version\<close> and the table \<open>shoebox_schema_migrations\<close>, are part of the transactional
  state. Any call of the driver may fail. The pool of the SQLite backend has one connection, and the
  context the backends are opened with has no deadline: a call made while a result set is open
  waits for ever (\<open>Blocked\<close>).
\<close>

subsection \<open>Schemas and statements\<close>

datatype dialect = sqlite_dialect | postgres_dialect

datatype ddl =
    CreateTable string "string list"
  | DropTable string
  | AddColumn string string bool
  | DropColumn string string bool
  | CreateIndex string string "string list" bool
  | CreateUniqueIndex string string "string list"
  | DropIndex string

record schema =
  sc_tables :: "(string \<times> string list) list"
  sc_indexes :: "(string \<times> string \<times> string list) list"
  sc_conflict :: bool
  sc_user_version :: int
  sc_versions :: "int list"

definition empty_schema :: schema where
  "empty_schema = \<lparr>sc_tables = [], sc_indexes = [], sc_conflict = False, sc_user_version = 0, sc_versions = []\<rparr>"

definition set_columns :: "string \<Rightarrow> string list \<Rightarrow> (string \<times> string list) list \<Rightarrow> (string \<times> string list) list" where
  "set_columns t cols ts = map (\<lambda>(n, cs). if n = t then (n, cols) else (n, cs)) ts"

text \<open>
  One statement. \<open>CREATE TABLE\<close>, \<open>DROP TABLE\<close> and \<open>DROP INDEX\<close> are written with \<open>IF [NOT] EXISTS\<close>
  everywhere; the flag of the others says whether they are. A column that an index uses cannot be
  dropped in SQLite; PostgreSQL drops the index with it.
\<close>

definition create_index :: "string \<Rightarrow> string \<Rightarrow> string list \<Rightarrow> bool \<Rightarrow> bool \<Rightarrow> schema \<Rightarrow> schema option" where
  "create_index n t cols if_not_exists ok s =
     (case map_of (sc_indexes s) n of
        Some _ \<Rightarrow> if if_not_exists then Some s else None
      | None \<Rightarrow>
          (case map_of (sc_tables s) t of
             None \<Rightarrow> None
           | Some cs \<Rightarrow> if ok \<and> set cols \<subseteq> set cs then Some (s\<lparr>sc_indexes := sc_indexes s @ [(n, t, cols)]\<rparr>) else None))"

fun exec_ddl :: "dialect \<Rightarrow> ddl \<Rightarrow> schema \<Rightarrow> schema option" where
  "exec_ddl d (CreateTable t cols) s =
     (case map_of (sc_tables s) t of
        Some _ \<Rightarrow> Some s
      | None \<Rightarrow> Some (s\<lparr>sc_tables := sc_tables s @ [(t, cols)]\<rparr>))"
| "exec_ddl d (DropTable t) s =
     Some (s\<lparr>sc_tables := filter (\<lambda>(n, _). n \<noteq> t) (sc_tables s), sc_indexes := filter (\<lambda>(_, u, _). u \<noteq> t) (sc_indexes s)\<rparr>)"
| "exec_ddl d (AddColumn t c if_not_exists) s =
     (case map_of (sc_tables s) t of
        None \<Rightarrow> None
      | Some cs \<Rightarrow>
          if c \<in> set cs then (if if_not_exists then Some s else None)
          else Some (s\<lparr>sc_tables := set_columns t (cs @ [c]) (sc_tables s),
                       sc_conflict := (if c = ''dedupe_key'' then False else sc_conflict s)\<rparr>))"
| "exec_ddl d (DropColumn t c if_exists) s =
     (case map_of (sc_tables s) t of
        None \<Rightarrow> None
      | Some cs \<Rightarrow>
          if c \<notin> set cs then (if if_exists then Some s else None)
          else let uses = (\<lambda>(_, u, cols). u = t \<and> c \<in> set cols)
               in if d = sqlite_dialect \<and> (\<exists>i \<in> set (sc_indexes s). uses i) then None
                  else Some (s\<lparr>sc_tables := set_columns t (filter (\<lambda>x. x \<noteq> c) cs) (sc_tables s),
                               sc_indexes := filter (\<lambda>i. \<not> uses i) (sc_indexes s)\<rparr>))"
| "exec_ddl d (CreateIndex n t cols if_not_exists) s = create_index n t cols if_not_exists True s"
| "exec_ddl d (CreateUniqueIndex n t cols) s = create_index n t cols True (\<not> sc_conflict s) s"
| "exec_ddl d (DropIndex n) s = Some (s\<lparr>sc_indexes := filter (\<lambda>(m, _). m \<noteq> n) (sc_indexes s)\<rparr>)"

fun exec_script :: "dialect \<Rightarrow> ddl list \<Rightarrow> schema \<Rightarrow> schema option" where
  "exec_script d [] s = Some s"
| "exec_script d (x # xs) s = (case exec_ddl d x s of None \<Rightarrow> None | Some s \<Rightarrow> exec_script d xs s)"

subsection \<open>The embedded files\<close>

definition messages_columns :: "string list" where
  "messages_columns = [''id'', ''queue'', ''payload'', ''attempts'', ''max_retries'', ''created_at'', ''scheduled_at'',
     ''metadata'', ''error'', ''dead_at'', ''status'']"

definition schedules_columns :: "string list" where
  "schedules_columns = [''id'', ''queue'', ''payload'', ''enqueue_options'', ''interval_ns'', ''next_run_at'', ''enabled'',
     ''created_at'', ''updated_at'']"

definition init_schema :: "ddl list" where
  "init_schema =
     [CreateTable ''shoebox_messages'' messages_columns,
      CreateIndex ''idx_shoebox_dequeue'' ''shoebox_messages'' [''queue'', ''status'', ''scheduled_at''] True,
      CreateIndex ''idx_shoebox_dlq'' ''shoebox_messages'' [''queue'', ''status''] True,
      CreateTable ''shoebox_stats'' [''queue'', ''processed'', ''errors'', ''retries'', ''dead'']]"

definition periodic_jobs :: "ddl list" where
  "periodic_jobs =
     [CreateTable ''shoebox_schedules'' schedules_columns,
      CreateIndex ''idx_shoebox_schedules_due'' ''shoebox_schedules'' [''enabled'', ''next_run_at''] True]"

definition durable_dedupe :: "ddl list" where
  "durable_dedupe =
     [AddColumn ''shoebox_messages'' ''dedupe_key'' True,
      CreateUniqueIndex ''idx_shoebox_durable_dedupe'' ''shoebox_messages'' [''queue'', ''dedupe_key'']]"

definition drop_all :: "ddl list" where
  "drop_all = [DropTable ''shoebox_messages'', DropTable ''shoebox_stats'']"

text \<open>\<open>embed.FS\<close> lists a directory by name.\<close>

definition files :: "(string \<times> ddl list) list" where
  "files =
    [(''0001_init_schema.postgres.down.sql'', drop_all),
     (''0001_init_schema.postgres.up.sql'', init_schema),
     (''0001_init_schema.sqlite.down.sql'', drop_all),
     (''0001_init_schema.sqlite.up.sql'', init_schema),
     (''0002_add_priority.postgres.down.sql'',
        [DropColumn ''shoebox_messages'' ''priority'' False, DropIndex ''idx_shoebox_dequeue'',
         CreateIndex ''idx_shoebox_dequeue'' ''shoebox_messages'' [''queue'', ''status'', ''scheduled_at''] False]),
     (''0002_add_priority.postgres.up.sql'',
        [AddColumn ''shoebox_messages'' ''priority'' False, DropIndex ''idx_shoebox_dequeue'',
         CreateIndex ''idx_shoebox_dequeue'' ''shoebox_messages'' [''queue'', ''status'', ''priority'', ''scheduled_at''] False]),
     (''0002_add_priority.sqlite.down.sql'', [DropColumn ''shoebox_messages'' ''priority'' False]),
     (''0002_add_priority.sqlite.up.sql'', [AddColumn ''shoebox_messages'' ''priority'' False]),
     (''0003_periodic_jobs.postgres.down.sql'', [DropTable ''shoebox_schedules'']),
     (''0003_periodic_jobs.postgres.up.sql'', periodic_jobs),
     (''0003_periodic_jobs.sqlite.down.sql'', [DropTable ''shoebox_schedules'']),
     (''0003_periodic_jobs.sqlite.up.sql'', periodic_jobs),
     (''0004_durable_dedupe.postgres.down.sql'',
        [DropIndex ''idx_shoebox_durable_dedupe'', DropColumn ''shoebox_messages'' ''dedupe_key'' True]),
     (''0004_durable_dedupe.postgres.up.sql'', durable_dedupe),
     (''0004_durable_dedupe.sqlite.down.sql'', [DropColumn ''shoebox_messages'' ''dedupe_key'' False]),
     (''0004_durable_dedupe.sqlite.up.sql'', [AddColumn ''shoebox_messages'' ''dedupe_key'' False]),
     (''0005_repair_postgres_schema.postgres.down.sql'', []),
     (''0005_repair_postgres_schema.postgres.up.sql'', periodic_jobs @ durable_dedupe)]"

subsection \<open>Package migrations\<close>

record migration =
  migVersion :: int
  migDialect :: string
  migUp :: bool
  migName :: string
  migSQL :: "ddl list"

definition Read :: "string \<Rightarrow> ddl list result" where
  "Read name = (case map_of files name of
     None \<Rightarrow> Inl (ErrMsg (''open '' @ name @ '': file does not exist'')) | Some sql \<Rightarrow> Inr sql)"

text \<open>
  The regular expression \<open>nameRe\<close>: four digits and an underscore, a word of lower-case letters, digits and
  underscores (which contains no dot), and the dialect, the direction and the extension after dots.
\<close>

definition word_char :: "char \<Rightarrow> bool" where
  "word_char c \<longleftrightarrow> digit_val c \<noteq> None \<or> c = CHR ''_'' \<or> (97 \<le> (of_char c :: nat) \<and> (of_char c :: nat) \<le> 122)"

definition nameRe :: "string \<Rightarrow> (string \<times> string \<times> string) option" where
  "nameRe name =
     (let v = take 4 name; rest = drop 5 name; tail = dropWhile word_char rest
      in if length v = 4 \<and> list_all (\<lambda>c. digit_val c \<noteq> None) v \<and> take 1 (drop 4 name) = ''_'' \<and> takeWhile word_char rest \<noteq> []
         then (if tail = ''.postgres.up.sql'' then Some (v, ''postgres'', ''up'')
               else if tail = ''.postgres.down.sql'' then Some (v, ''postgres'', ''down'')
               else if tail = ''.sqlite.up.sql'' then Some (v, ''sqlite'', ''up'')
               else if tail = ''.sqlite.down.sql'' then Some (v, ''sqlite'', ''down'')
               else None)
         else None)"

definition parse :: "string \<Rightarrow> migration result" where
  "parse name =
     (case nameRe name of
        None \<Rightarrow> Inl (ErrMsg (''not a migration filename: '' @ strconv_Quote name))
      | Some (v, d, dir) \<Rightarrow>
          (case number 0 v of
             None \<Rightarrow> Inl (ErrMsg ''strconv.Atoi: invalid syntax'')
           | Some n \<Rightarrow>
               (case Read name of
                  Inl e \<Rightarrow> Inl e
                | Inr sql \<Rightarrow> Inr \<lparr>migVersion = int n, migDialect = d, migUp = (dir = ''up''), migName = name, migSQL = sql\<rparr>)))"

fun all_loop :: "string \<Rightarrow> string list \<Rightarrow> migration list" where
  "all_loop d [] = []"
| "all_loop d (name # names) =
     (case parse name of
        Inl e \<Rightarrow> all_loop d names
      | Inr m \<Rightarrow> if migDialect m = d then m # all_loop d names else all_loop d names)"

definition migration_before :: "migration \<Rightarrow> migration \<Rightarrow> bool" where
  "migration_before a b \<longleftrightarrow>
     (if migVersion a \<noteq> migVersion b then migVersion a < migVersion b
      else if migUp a \<noteq> migUp b then migUp a
      else text_less (migName a) (migName b))"

definition All :: "string \<Rightarrow> migration list" where
  "All d = SliceStable migration_before (all_loop d (map fst files))"

definition Up :: "string \<Rightarrow> migration list" where
  "Up d = filter migUp (All d)"

definition Latest :: "string \<Rightarrow> int result" where
  "Latest d = (if Up d = [] then Inl (ErrMsg (''no up migrations embedded for dialect '' @ strconv_Quote d))
     else Inr (migVersion (last (Up d))))"

subsection \<open>The driver while a database is opened\<close>

datatype 'a outcome = Done 'a | Failed err | Blocked

record sdb =
  sd_main :: schema
  sd_work :: "schema option"
  sd_faults :: "nat \<Rightarrow> err option"
  sd_leaked :: bool

type_synonym 'a saction = "sdb \<Rightarrow> 'a outcome \<times> sdb"

definition s_ret :: "'a \<Rightarrow> 'a saction" where
  "s_ret x s = (Done x, s)"

definition s_then :: "'a saction \<Rightarrow> ('a \<Rightarrow> 'b saction) \<Rightarrow> 'b saction" where
  "s_then m f s = (case m s of (Done x, s) \<Rightarrow> f x s | (Failed e, s) \<Rightarrow> (Failed e, s) | (Blocked, s) \<Rightarrow> (Blocked, s))"

definition s_wrap :: "string \<Rightarrow> 'a saction \<Rightarrow> 'a saction" where
  "s_wrap msg m s = (case m s of (Failed e, s) \<Rightarrow> (Failed (ErrWrap msg e), s) | (r, s) \<Rightarrow> (r, s))"

text \<open>A call of the pool waits for the connection; a call on an open transaction has it.\<close>

definition s_call :: "unit saction" where
  "s_call s =
     (if sd_leaked s then (Blocked, s)
      else (case sd_faults s 0 of None \<Rightarrow> Done () | Some e \<Rightarrow> Failed e, s\<lparr>sd_faults := \<lambda>n. sd_faults s (Suc n)\<rparr>))"

definition s_current :: "sdb \<Rightarrow> schema" where
  "s_current s = (case sd_work s of Some w \<Rightarrow> w | None \<Rightarrow> sd_main s)"

definition s_put :: "schema \<Rightarrow> sdb \<Rightarrow> sdb" where
  "s_put t s = (case sd_work s of Some _ \<Rightarrow> s\<lparr>sd_work := Some t\<rparr> | None \<Rightarrow> s\<lparr>sd_main := t\<rparr>)"

definition s_query :: "(schema \<Rightarrow> 'a) \<Rightarrow> 'a saction" where
  "s_query f = s_then s_call (\<lambda>_ s. (Done (f (s_current s)), s))"

definition s_exec :: "(schema \<Rightarrow> schema option) \<Rightarrow> unit saction" where
  "s_exec f = s_then s_call (\<lambda>_ s. case f (s_current s) of
     None \<Rightarrow> (Failed (ErrMsg ''SQL logic error''), s) | Some t \<Rightarrow> (Done (), s_put t s))"

definition s_begin :: "unit saction" where
  "s_begin = s_then s_call (\<lambda>_ s. (Done (), s\<lparr>sd_work := Some (sd_main s)\<rparr>))"

definition s_commit :: "unit saction" where
  "s_commit = s_then s_call (\<lambda>_ s. (Done (), s\<lparr>sd_main := s_current s, sd_work := None\<rparr>))"

text \<open>The rollback at the end of a function, without effect after a commit.\<close>

definition s_rollback :: "'a saction \<Rightarrow> 'a saction" where
  "s_rollback m s = (case m s of (r, s) \<Rightarrow> (r, s\<lparr>sd_work := None\<rparr>))"

subsection \<open>Opening SQLite\<close>

definition sqliteUserVersion :: "int saction" where
  "sqliteUserVersion = s_wrap ''read user_version'' (s_query sc_user_version)"

definition setSQLiteUserVersion :: "int \<Rightarrow> unit saction" where
  "setSQLiteUserVersion version =
     s_wrap (''set user_version '' @ FormatInt version) (s_exec (\<lambda>t. Some (t\<lparr>sc_user_version := version\<rparr>)))"

text \<open>
  The loop over the result of \<open>PRAGMA table_info\<close>. Both early returns leave the result set open; the
  end of the rows closes it.
\<close>

fun table_info_loop :: "int \<Rightarrow> string list \<Rightarrow> int saction" where
  "table_info_loop latest [] = s_then s_call (\<lambda>_. s_ret 1)"
| "table_info_loop latest (name # names) = (\<lambda>s.
     case s_call s of
       (Done _, s) \<Rightarrow>
         (if name = ''priority'' then (Done latest, s\<lparr>sd_leaked := True\<rparr>) else table_info_loop latest names s)
     | (Failed e, s) \<Rightarrow> (Failed e, s\<lparr>sd_leaked := True\<rparr>)
     | (Blocked, s) \<Rightarrow> (Blocked, s))"

definition detectSQLiteBaseline :: "int \<Rightarrow> int saction" where
  "detectSQLiteBaseline latest =
     s_then (s_query (\<lambda>t. map_of (sc_tables t) ''shoebox_messages'')) (\<lambda>found.
       case found of
         None \<Rightarrow> s_ret 0
       | Some cols \<Rightarrow> s_then s_call (\<lambda>_. table_info_loop latest cols))"

fun sqlite_migrate_loop :: "migration list \<Rightarrow> int \<Rightarrow> unit saction" where
  "sqlite_migrate_loop [] version = s_ret ()"
| "sqlite_migrate_loop (m # ms) version =
     (if migVersion m \<le> version then sqlite_migrate_loop ms version
      else s_then (s_rollback (s_then s_begin (\<lambda>_.
             s_then (s_wrap (''migration '' @ migName m) (s_exec (exec_script sqlite_dialect (migSQL m)))) (\<lambda>_.
             s_then (s_wrap (''set user_version '' @ FormatInt (migVersion m))
                 (s_exec (\<lambda>t. Some (t\<lparr>sc_user_version := migVersion m\<rparr>)))) (\<lambda>_.
             s_commit)))))
           (\<lambda>_. sqlite_migrate_loop ms version))"

definition initSQLiteSchema :: "unit saction" where
  "initSQLiteSchema =
     (let ups = Up ''sqlite''; latest = migVersion (last ups)
      in s_then sqliteUserVersion (\<lambda>version.
         s_then (if version = 0
                 then s_then (detectSQLiteBaseline latest) (\<lambda>baseline.
                        if baseline > 0 then s_then (setSQLiteUserVersion baseline) (\<lambda>_. s_ret baseline) else s_ret version)
                 else s_ret version) (\<lambda>version.
         sqlite_migrate_loop ups version)))"

text \<open>\<open>NewSQLite\<close>. \<open>UPDATE\<close> needs its table and its column.\<close>

definition reclaim_statement :: "schema \<Rightarrow> schema option" where
  "reclaim_statement t =
     (case map_of (sc_tables t) ''shoebox_messages'' of
        None \<Rightarrow> None | Some cols \<Rightarrow> if ''status'' \<in> set cols then Some t else None)"

definition NewSQLite :: "string \<Rightarrow> unit saction" where
  "NewSQLite path =
     s_then (s_wrap (''shoebox/sqlite: open '' @ path) s_call) (\<lambda>_.
     s_then (if path \<noteq> '':memory:'' then s_wrap ''shoebox/sqlite: enable WAL'' s_call else s_ret ()) (\<lambda>_.
     s_then (s_wrap ''shoebox/sqlite: set busy timeout'' s_call) (\<lambda>_.
     s_then (s_wrap ''shoebox/sqlite: init schema'' initSQLiteSchema) (\<lambda>_.
     s_wrap ''shoebox/sqlite: reclaim'' (s_exec reclaim_statement)))))"

subsection \<open>Opening PostgreSQL\<close>

definition insert_version :: "int \<Rightarrow> schema \<Rightarrow> schema option" where
  "insert_version v t = (if v \<in> set (sc_versions t) then None else Some (t\<lparr>sc_versions := sc_versions t @ [v]\<rparr>))"

definition appliedPostgresVersion :: "int \<Rightarrow> int saction" where
  "appliedPostgresVersion latest =
     s_then (s_query (\<lambda>t. length (sc_versions t))) (\<lambda>rows.
     if rows > 0 then s_query (\<lambda>t. Max (set (sc_versions t)))
     else s_then (s_query (\<lambda>t. map_of (sc_tables t) ''shoebox_messages'')) (\<lambda>found.
       case found of
         None \<Rightarrow> s_ret 0
       | Some _ \<Rightarrow>
           s_then (s_query (\<lambda>t.
             (''priority'' \<in> set (the (map_of (sc_tables t) ''shoebox_messages'')),
              map_of (sc_tables t) ''shoebox_schedules'' \<noteq> None,
              ''dedupe_key'' \<in> set (the (map_of (sc_tables t) ''shoebox_messages'')),
              map_of (sc_indexes t) ''idx_shoebox_durable_dedupe'' \<noteq> None))) (\<lambda>(priority, schedules, dedupe, dedupeIndex).
           let baseline = 1;
               baseline = (if priority then 2 else baseline);
               baseline = (if priority \<and> schedules then 3 else baseline);
               baseline = (if priority \<and> schedules \<and> dedupe \<and> dedupeIndex then 4 else baseline);
               baseline = (if baseline > latest then latest else baseline)
           in s_then (s_exec (insert_version baseline)) (\<lambda>_. s_ret baseline))))"

fun postgres_migrate_loop :: "migration list \<Rightarrow> int \<Rightarrow> unit saction" where
  "postgres_migrate_loop [] applied = s_ret ()"
| "postgres_migrate_loop (m # ms) applied =
     (if migVersion m \<le> applied then postgres_migrate_loop ms applied
      else s_then (s_wrap (''migration '' @ migName m) (s_exec (exec_script postgres_dialect (migSQL m)))) (\<lambda>_.
           s_then (s_wrap (''record migration '' @ FormatInt (migVersion m)) (s_exec (insert_version (migVersion m)))) (\<lambda>_.
           postgres_migrate_loop ms applied)))"

definition initPostgresSchema :: "unit saction" where
  "initPostgresSchema =
     (let ups = Up ''postgres''; latest = migVersion (last ups)
      in s_then s_call (\<lambda>_.
         s_rollback (s_then s_begin (\<lambda>_.
           s_then s_call (\<lambda>_.
           s_then (s_exec (exec_ddl postgres_dialect (CreateTable ''shoebox_schema_migrations'' [''version'', ''applied_at'']))) (\<lambda>_.
           s_then (appliedPostgresVersion latest) (\<lambda>applied.
           s_then (postgres_migrate_loop ups applied) (\<lambda>_.
           s_commit))))))))"

definition NewPostgres :: "string list \<Rightarrow> unit saction" where
  "NewPostgres schemas =
     (let schema = (case schemas of [] \<Rightarrow> ''public'' | s # _ \<Rightarrow> if s \<noteq> '''' then s else ''public'')
      in case quotePostgresIdentifier schema of
           Inl e \<Rightarrow> (\<lambda>s. (Failed (ErrWrap ''shoebox/postgres: schema'' e), s))
         | Inr quotedSchema \<Rightarrow>
             s_then (s_wrap ''shoebox/postgres: parse dsn'' s_call) (\<lambda>_.
             s_then (s_wrap ''shoebox/postgres: bootstrap connect'' s_call) (\<lambda>_.
             s_then (s_wrap ''shoebox/postgres: bootstrap transaction'' s_call) (\<lambda>_.
             s_then (s_wrap ''shoebox/postgres: schema lock'' s_call) (\<lambda>_.
             s_then (s_wrap ''shoebox/postgres: create schema'' s_call) (\<lambda>_.
             s_then (s_wrap ''shoebox/postgres: bootstrap commit'' s_call) (\<lambda>_.
             s_then (s_wrap ''shoebox/postgres: connect'' s_call) (\<lambda>_.
             s_then (s_wrap ''shoebox/postgres: ping'' s_call) (\<lambda>_.
             s_then (s_wrap ''shoebox/postgres: init schema'' initPostgresSchema) (\<lambda>_.
             s_wrap ''shoebox/postgres: reclaim'' (s_exec reclaim_statement)))))))))))"

subsection \<open>Which migrations run\<close>

definition mig :: "int \<Rightarrow> string \<Rightarrow> bool \<Rightarrow> string \<Rightarrow> migration" where
  "mig v d up name = \<lparr>migVersion = v, migDialect = d, migUp = up, migName = name, migSQL = the (map_of files name)\<rparr>"

lemma mig_sel [simp]: "migVersion (mig v d up n) = v" "migDialect (mig v d up n) = d" "migUp (mig v d up n) = up"
    "migName (mig v d up n) = n" "migSQL (mig v d up n) = the (map_of files n)"
  by (simp_all add: mig_def)

definition embedded :: "migration list" where
  "embedded =
    [mig 1 ''postgres'' False ''0001_init_schema.postgres.down.sql'', mig 1 ''postgres'' True ''0001_init_schema.postgres.up.sql'',
     mig 1 ''sqlite'' False ''0001_init_schema.sqlite.down.sql'', mig 1 ''sqlite'' True ''0001_init_schema.sqlite.up.sql'',
     mig 2 ''postgres'' False ''0002_add_priority.postgres.down.sql'', mig 2 ''postgres'' True ''0002_add_priority.postgres.up.sql'',
     mig 2 ''sqlite'' False ''0002_add_priority.sqlite.down.sql'', mig 2 ''sqlite'' True ''0002_add_priority.sqlite.up.sql'',
     mig 3 ''postgres'' False ''0003_periodic_jobs.postgres.down.sql'', mig 3 ''postgres'' True ''0003_periodic_jobs.postgres.up.sql'',
     mig 3 ''sqlite'' False ''0003_periodic_jobs.sqlite.down.sql'', mig 3 ''sqlite'' True ''0003_periodic_jobs.sqlite.up.sql'',
     mig 4 ''postgres'' False ''0004_durable_dedupe.postgres.down.sql'', mig 4 ''postgres'' True ''0004_durable_dedupe.postgres.up.sql'',
     mig 4 ''sqlite'' False ''0004_durable_dedupe.sqlite.down.sql'', mig 4 ''sqlite'' True ''0004_durable_dedupe.sqlite.up.sql'',
     mig 5 ''postgres'' False ''0005_repair_postgres_schema.postgres.down.sql'',
     mig 5 ''postgres'' True ''0005_repair_postgres_schema.postgres.up.sql'']"

lemma parse_mig:
  assumes "nameRe name = Some (v, d, dir)" "number 0 v = Some n" "name \<in> fst ` set files"
  shows "parse name = Inr (mig (int n) d (dir = ''up'') name)"
proof -
  obtain sql where "map_of files name = Some sql" using assms(3) by (metis map_of_eq_None_iff not_None_eq)
  with assms(1,2) show ?thesis by (simp add: parse_def Read_def mig_def)
qed

lemma names_parsed: "map (\<lambda>n. map_option (\<lambda>(v, d, dir). (number 0 v, d, dir)) (nameRe n)) (map fst files) =
    map (\<lambda>m. Some (Some (nat (migVersion m)), migDialect m, if migUp m then ''up'' else ''down'')) embedded"
  by (simp add: files_def nameRe_def Let_def digit_val_def word_char_def embedded_def del: mig_sel(5))

lemma embedded_names: "map migName embedded = map fst files"
  by (simp add: embedded_def files_def)

lemma parse_files: "map parse (map fst files) = map Inr embedded"
proof (rule nth_equalityI)
  show "length (map parse (map fst files)) = length (map Inr embedded)" by (simp add: files_def embedded_def)
next
  fix i assume i: "i < length (map parse (map fst files))"
  have n: "length files = length embedded" by (simp add: files_def embedded_def)
  let ?m = "embedded ! i" and ?name = "fst (files ! i)"
  have name: "migName ?m = ?name" using embedded_names i n by (metis length_map nth_map)
  have "map_option (\<lambda>(v, d, dir). (number 0 v, d, dir)) (nameRe ?name) =
      Some (Some (nat (migVersion ?m)), migDialect ?m, if migUp ?m then ''up'' else ''down'')"
    using arg_cong [OF names_parsed, of "\<lambda>xs. xs ! i"] i n by simp
  then obtain v d dir where re: "nameRe ?name = Some (v, d, dir)" "number 0 v = Some (nat (migVersion ?m))"
    "d = migDialect ?m" "dir = (if migUp ?m then ''up'' else ''down'')" by auto
  have "?m \<in> set embedded" using i n by simp
  then have "?m = mig (migVersion ?m) (migDialect ?m) (migUp ?m) (migName ?m)" "0 \<le> migVersion ?m"
    by (auto simp: embedded_def)
  with parse_mig [OF re(1,2)] i n re(3,4) name show "map parse (map fst files) ! i = map Inr embedded ! i"
    by (auto split: if_splits)
qed

lemma all_loop_files: "all_loop d (map fst files) = filter (\<lambda>m. migDialect m = d) embedded"
proof -
  have "map parse names = map Inr ms \<Longrightarrow> all_loop d names = filter (\<lambda>m. migDialect m = d) ms" for names ms
    by (induction names arbitrary: ms) (auto simp: Cons_eq_map_conv)
  then show ?thesis using parse_files .
qed

lemma Up_sqlite: "Up ''sqlite'' =
    [mig 1 ''sqlite'' True ''0001_init_schema.sqlite.up.sql'', mig 2 ''sqlite'' True ''0002_add_priority.sqlite.up.sql'',
     mig 3 ''sqlite'' True ''0003_periodic_jobs.sqlite.up.sql'', mig 4 ''sqlite'' True ''0004_durable_dedupe.sqlite.up.sql'']"
  by (simp add: Up_def All_def all_loop_files embedded_def SliceStable_Cons migration_before_def del: mig_sel(5))

lemma Up_postgres: "Up ''postgres'' =
    [mig 1 ''postgres'' True ''0001_init_schema.postgres.up.sql'', mig 2 ''postgres'' True ''0002_add_priority.postgres.up.sql'',
     mig 3 ''postgres'' True ''0003_periodic_jobs.postgres.up.sql'', mig 4 ''postgres'' True ''0004_durable_dedupe.postgres.up.sql'',
     mig 5 ''postgres'' True ''0005_repair_postgres_schema.postgres.up.sql'']"
  by (simp add: Up_def All_def all_loop_files embedded_def SliceStable_Cons migration_before_def del: mig_sel(5))

lemmas scripts = init_schema_def periodic_jobs_def durable_dedupe_def drop_all_def messages_columns_def schedules_columns_def

text \<open>The schema of SQLite after each migration.\<close>

definition stats_table :: "string \<times> string list" where
  "stats_table = (''shoebox_stats'', [''queue'', ''processed'', ''errors'', ''retries'', ''dead''])"

definition first_indexes :: "(string \<times> string \<times> string list) list" where
  "first_indexes = [(''idx_shoebox_dequeue'', ''shoebox_messages'', [''queue'', ''status'', ''scheduled_at'']),
     (''idx_shoebox_dlq'', ''shoebox_messages'', [''queue'', ''status''])]"

definition schedules_index :: "string \<times> string \<times> string list" where
  "schedules_index = (''idx_shoebox_schedules_due'', ''shoebox_schedules'', [''enabled'', ''next_run_at''])"

fun sqlite_schema :: "nat \<Rightarrow> schema" where
  "sqlite_schema 0 = empty_schema"
| "sqlite_schema (Suc 0) = empty_schema\<lparr>sc_tables := [(''shoebox_messages'', messages_columns), stats_table],
     sc_indexes := first_indexes, sc_user_version := 1\<rparr>"
| "sqlite_schema (Suc (Suc 0)) = empty_schema\<lparr>sc_tables := [(''shoebox_messages'', messages_columns @ [''priority'']), stats_table],
     sc_indexes := first_indexes, sc_user_version := 2\<rparr>"
| "sqlite_schema (Suc (Suc (Suc 0))) = empty_schema\<lparr>sc_tables := [(''shoebox_messages'', messages_columns @ [''priority'']), stats_table,
     (''shoebox_schedules'', schedules_columns)], sc_indexes := first_indexes @ [schedules_index], sc_user_version := 3\<rparr>"
| "sqlite_schema v = empty_schema\<lparr>sc_tables := [(''shoebox_messages'', messages_columns @ [''priority'', ''dedupe_key'']), stats_table,
     (''shoebox_schedules'', schedules_columns)], sc_indexes := first_indexes @ [schedules_index], sc_user_version := 4\<rparr>"

lemmas schema_eval = empty_schema_def stats_table_def first_indexes_def schedules_index_def scripts create_index_def set_columns_def

lemma sqlite_script:
  "the (map_of files ''0001_init_schema.sqlite.up.sql'') = init_schema"
  "the (map_of files ''0002_add_priority.sqlite.up.sql'') = [AddColumn ''shoebox_messages'' ''priority'' False]"
  "the (map_of files ''0003_periodic_jobs.sqlite.up.sql'') = periodic_jobs"
  "the (map_of files ''0004_durable_dedupe.sqlite.up.sql'') = [AddColumn ''shoebox_messages'' ''dedupe_key'' False]"
  by (simp_all add: files_def)

lemma sqlite_step1: "exec_script sqlite_dialect init_schema (sqlite_schema 0) = Some ((sqlite_schema 1)\<lparr>sc_user_version := 0\<rparr>)"
  by (simp add: schema_eval)

lemma sqlite_step2: "exec_script sqlite_dialect [AddColumn ''shoebox_messages'' ''priority'' False] (sqlite_schema 1) =
    Some ((sqlite_schema 2)\<lparr>sc_user_version := 1\<rparr>)"
  by (simp add: schema_eval numeral_2_eq_2)

lemma sqlite_step3: "exec_script sqlite_dialect periodic_jobs (sqlite_schema 2) = Some ((sqlite_schema 3)\<lparr>sc_user_version := 2\<rparr>)"
  by (simp add: schema_eval numeral_2_eq_2 numeral_3_eq_3)

lemma sqlite_step4: "exec_script sqlite_dialect [AddColumn ''shoebox_messages'' ''dedupe_key'' False] (sqlite_schema 3) =
    Some ((sqlite_schema 4)\<lparr>sc_user_version := 3\<rparr>)"
  by (simp add: schema_eval numeral_3_eq_3 eval_nat_numeral)

lemma sqlite_steps:
  assumes "m \<in> set (Up ''sqlite'')"
  shows "exec_script sqlite_dialect (migSQL m) (sqlite_schema (nat (migVersion m) - 1)) =
    Some ((sqlite_schema (nat (migVersion m)))\<lparr>sc_user_version := migVersion m - 1\<rparr>)"
  using assms unfolding Up_sqlite
  by (auto simp only: set_simps insert_iff empty_iff mig_sel sqlite_script sqlite_step1 sqlite_step2 sqlite_step3 sqlite_step4)
    (simp_all add: sqlite_step1 [simplified] sqlite_step2 [simplified] sqlite_step3 [simplified] sqlite_step4 [simplified])

lemma sqlite_versions: "map migVersion (Up ''sqlite'') = [1, 2, 3, 4]"
  by (simp add: Up_sqlite)

end
