(* ===== verification/Schema_Upgrade.thy ===== *)
theory Schema_Upgrade
  imports Schema
begin

text \<open>
  What opening a database achieves: every database of a version the program has written is brought to
  the current schema, one migration at a time on SQLite, in one transaction on PostgreSQL, and a
  failure on the way leaves a database that can be opened again. The proofs use a small Hoare logic
  for the actions of theory \<open>Schema\<close>.
\<close>

subsection \<open>Specifications of actions\<close>

definition faultless :: "sdb \<Rightarrow> bool" where
  "faultless s \<longleftrightarrow> sd_faults s = (\<lambda>_. None)"

text \<open>
  \<open>spec P m Q E\<close>: started in a state of \<open>P\<close> with no result set open, the action does not wait for ever;
  it ends with a result and a state in \<open>Q\<close>, or it fails in a state of \<open>E\<close>, and it fails only when
  the driver does.
\<close>

definition spec :: "(sdb \<Rightarrow> bool) \<Rightarrow> 'a saction \<Rightarrow> ('a \<Rightarrow> sdb \<Rightarrow> bool) \<Rightarrow> (sdb \<Rightarrow> bool) \<Rightarrow> bool" where
  "spec P m Q E \<longleftrightarrow> (\<forall>s r s'. P s \<longrightarrow> \<not> sd_leaked s \<longrightarrow> m s = (r, s') \<longrightarrow>
     (case r of
        Done x \<Rightarrow> Q x s' \<and> \<not> sd_leaked s' \<and> (faultless s \<longrightarrow> faultless s')
      | Failed e \<Rightarrow> E s' \<and> \<not> faultless s
      | Blocked \<Rightarrow> False))"

definition at :: "schema \<Rightarrow> schema option \<Rightarrow> sdb \<Rightarrow> bool" where
  "at a w s \<longleftrightarrow> sd_main s = a \<and> sd_work s = w"

definition committed :: "schema \<Rightarrow> sdb \<Rightarrow> bool" where
  "committed a s \<longleftrightarrow> sd_main s = a"

lemma at_committed: "at a w s \<Longrightarrow> committed a s"
  by (simp add: at_def committed_def)

lemma spec_call: "spec (at a w) s_call (\<lambda>_. at a w) (committed a)"
  by (auto simp: spec_def s_call_def at_def committed_def faultless_def split: option.splits outcome.splits)

lemma spec_ret: "spec (P x) (s_ret x) P E"
  by (auto simp: spec_def s_ret_def)

lemma spec_then:
  assumes "spec P m Q E" "\<And>x. spec (Q x) (f x) R E"
  shows "spec P (s_then m f) R E"
  unfolding spec_def
proof (intro allI impI)
  fix s r s' assume s: "P s" "\<not> sd_leaked s" and run: "s_then m f s = (r, s')"
  obtain r1 s1 where m: "m s = (r1, s1)" by fastforce
  show "case r of Done x \<Rightarrow> R x s' \<and> \<not> sd_leaked s' \<and> (faultless s \<longrightarrow> faultless s') | Failed e \<Rightarrow> E s' \<and> \<not> faultless s | Blocked \<Rightarrow> False"
  proof (cases r1)
    case (Done x)
    with assms(1) s m have 1: "Q x s1" "\<not> sd_leaked s1" "faultless s \<longrightarrow> faultless s1" by (auto simp: spec_def)
    moreover have "f x s1 = (r, s')" using run m Done by (simp add: s_then_def)
    ultimately show ?thesis using assms(2) [of x, unfolded spec_def] by (cases r) fastforce+
  next
    case (Failed e)
    with assms(1) s m run show ?thesis by (auto simp: spec_def s_then_def)
  next
    case Blocked
    with assms(1) s m show ?thesis by (auto simp: spec_def)
  qed
qed

lemma spec_wrap: "spec P m Q E \<Longrightarrow> spec P (s_wrap msg m) Q E"
  by (fastforce simp: spec_def s_wrap_def split: prod.splits outcome.splits)

lemma spec_conseq: "spec P m Q E \<Longrightarrow> (\<And>s. P' s \<Longrightarrow> P s) \<Longrightarrow> (\<And>x s. Q x s \<Longrightarrow> Q' x s) \<Longrightarrow> (\<And>s. E s \<Longrightarrow> E' s) \<Longrightarrow> spec P' m Q' E'"
  by (fastforce simp: spec_def split: outcome.splits)

lemma spec_query: "spec (at a None) (s_query f) (\<lambda>x s. at a None s \<and> x = f a) (committed a)"
  unfolding s_query_def
  by (rule spec_then [OF spec_call]) (auto simp: spec_def at_def s_current_def)

lemma spec_query_work: "spec (at a (Some w)) (s_query f) (\<lambda>x s. at a (Some w) s \<and> x = f w) (committed a)"
  unfolding s_query_def
  by (rule spec_then [OF spec_call]) (auto simp: spec_def at_def s_current_def)

lemma spec_exec:
  assumes "f w = Some w'"
  shows "spec (at a (Some w)) (s_exec f) (\<lambda>_. at a (Some w')) (committed a)"
  unfolding s_exec_def
  by (rule spec_then [OF spec_call]) (auto simp: spec_def at_def s_current_def s_put_def assms faultless_def)

lemma spec_exec_main:
  assumes "f a = Some b"
  shows "spec (at a None) (s_exec f) (\<lambda>_. at b None) (committed a)"
  unfolding s_exec_def
  by (rule spec_then [OF spec_call]) (auto simp: spec_def at_def s_current_def s_put_def assms faultless_def)

lemma spec_begin: "spec (at a None) s_begin (\<lambda>_. at a (Some a)) (committed a)"
  unfolding s_begin_def
  by (rule spec_then [OF spec_call]) (auto simp: spec_def at_def faultless_def)

lemma spec_commit: "spec (at a (Some w)) s_commit (\<lambda>_. at w None) (committed a)"
  unfolding s_commit_def
  by (rule spec_then [OF spec_call]) (auto simp: spec_def at_def s_current_def faultless_def)

lemma spec_rollback:
  assumes "spec P m (\<lambda>_. at b None) (committed a)"
  shows "spec P (s_rollback m) (\<lambda>_. at b None) (at a None)"
  using assms by (fastforce simp: spec_def s_rollback_def at_def committed_def faultless_def split: prod.splits outcome.splits)

subsection \<open>SQLite upgrades step by step\<close>

abbreviation at_version :: "nat \<Rightarrow> sdb \<Rightarrow> bool" where
  "at_version v \<equiv> at (sqlite_schema v) None"

lemma spec_one_migration:
  assumes "m \<in> set (Up ''sqlite'')" "migVersion m = int (Suc v)"
  shows "spec (at_version v)
    (s_rollback (s_then s_begin (\<lambda>_.
       s_then (s_wrap (''migration '' @ migName m) (s_exec (exec_script sqlite_dialect (migSQL m)))) (\<lambda>_.
       s_then (s_wrap (''set user_version '' @ FormatInt (migVersion m))
           (s_exec (\<lambda>t. Some (t\<lparr>sc_user_version := migVersion m\<rparr>)))) (\<lambda>_.
       s_commit))))) (\<lambda>_. at_version (Suc v)) (at_version v)"
proof -
  have "migVersion m \<le> 4" using assms(1) by (auto simp: Up_sqlite)
  then have v: "v < 4" using assms(2) by simp
  have ver: "(sqlite_schema (Suc v))\<lparr>sc_user_version := int (Suc v)\<rparr> = sqlite_schema (Suc v)"
    using v by (auto simp: less_Suc_eq numeral_eq_Suc)
  have step: "exec_script sqlite_dialect (migSQL m) (sqlite_schema v) = Some ((sqlite_schema (Suc v))\<lparr>sc_user_version := int v\<rparr>)"
  proof -
    have n: "nat (migVersion m) = Suc v" "migVersion m - 1 = int v" using assms(2) by simp_all
    from sqlite_steps [OF assms(1)] show ?thesis unfolding n by simp
  qed
  show ?thesis
    by (intro spec_rollback spec_then [OF spec_begin] spec_then [OF spec_wrap [OF spec_exec [where f = "exec_script sqlite_dialect (migSQL m)", OF step]]]
        spec_then [OF spec_wrap [OF spec_exec [OF refl]]] spec_conseq [OF spec_commit])
      (simp_all add: assms(2) ver [simplified])
qed

definition between :: "nat \<Rightarrow> nat \<Rightarrow> sdb \<Rightarrow> bool" where
  "between v n s \<longleftrightarrow> (\<exists>v'. v \<le> v' \<and> v' \<le> n \<and> at_version v' s)"

lemma spec_migrate:
  assumes "set ms \<subseteq> set (Up ''sqlite'')" "map migVersion ms = map int [Suc v..<Suc n]" "v \<le> n" "v0 \<le> v"
  shows "spec (at_version v) (sqlite_migrate_loop ms (int v0)) (\<lambda>_. at_version n) (between v n)"
  using assms
proof (induction ms arbitrary: v)
  case Nil
  then have "v = n" by (auto split: if_splits)
  then show ?case using spec_ret [where P = "\<lambda>_. at_version n"] by simp
next
  case (Cons m ms)
  then have v: "v < n" "migVersion m = int (Suc v)" "map migVersion ms = map int [Suc (Suc v)..<Suc n]"
    by (auto simp: upt_rec [of "Suc v"] split: if_splits)
  have "spec (at_version (Suc v)) (sqlite_migrate_loop ms (int v0)) (\<lambda>_. at_version n) (between v n)"
    by (rule spec_conseq [OF Cons.IH [of "Suc v"]]) (use Cons.prems v in \<open>auto simp: between_def intro: Suc_leD\<close>)
  moreover have "between v n s" if "at_version v s" for s using that Cons.prems(3) by (auto simp: between_def)
  moreover have "m \<in> set (Up ''sqlite'')" "\<not> migVersion m \<le> int v0" using Cons.prems v by auto
  ultimately show ?case
    by (simp only: sqlite_migrate_loop.simps if_False)
      (rule spec_then [OF spec_conseq [OF spec_one_migration [OF _ v(2)]]])
qed

lemma migrate_skip:
  "sqlite_migrate_loop ms v = sqlite_migrate_loop (filter (\<lambda>m. v < migVersion m) ms) v"
  by (induction ms v rule: sqlite_migrate_loop.induct) auto

lemma spec_migrate_all:
  assumes "v \<le> 4"
  shows "spec (at_version v) (sqlite_migrate_loop (Up ''sqlite'') (int v)) (\<lambda>_. at_version 4) (between v 4)"
proof -
  let ?ms = "filter (\<lambda>m. int v < migVersion m) (Up ''sqlite'')"
  have "map migVersion ?ms = map int [Suc v..<Suc 4]"
    using assms by (auto simp: Up_sqlite le_Suc_eq numeral_eq_Suc upt_rec)
  then have "spec (at_version v) (sqlite_migrate_loop ?ms (int v)) (\<lambda>_. at_version 4) (between v 4)"
    using assms by (intro spec_migrate) auto
  then show ?thesis by (subst migrate_skip)
qed

lemma spec_table_info:
  assumes "''priority'' \<notin> set names"
  shows "spec (at a None) (table_info_loop latest names) (\<lambda>x s. at a None s \<and> x = 1) (committed a)"
  using assms
proof (induction names)
  case Nil
  show ?case by (simp, rule spec_then [OF spec_call]) (simp add: spec_def s_ret_def)
next
  case (Cons name names)
  then have IH: "spec (at a None) (table_info_loop latest names) (\<lambda>x s. at a None s \<and> x = 1) (committed a)" by simp
  show ?case
    unfolding spec_def
  proof (intro allI impI)
    fix s r s' assume s: "at a None s" "\<not> sd_leaked s" and run: "table_info_loop latest (name # names) s = (r, s')"
    obtain r1 s1 where c: "s_call s = (r1, s1)" by fastforce
    from spec_call [of a None, unfolded spec_def, rule_format, OF s c]
    show "case r of Done x \<Rightarrow> (at a None s' \<and> x = 1) \<and> \<not> sd_leaked s' \<and> (faultless s \<longrightarrow> faultless s')
      | Failed e \<Rightarrow> committed a s' \<and> \<not> faultless s | Blocked \<Rightarrow> False"
    proof (cases r1)
      case (Done u)
      then have "at a None s1" "\<not> sd_leaked s1" "faultless s \<longrightarrow> faultless s1" "table_info_loop latest names s1 = (r, s')"
        using spec_call [of a None, unfolded spec_def, rule_format, OF s c] Cons.prems run c by (auto split: if_splits)
      with IH [unfolded spec_def, rule_format, of s1 r s'] show ?thesis by (cases r) auto
    qed (use run c in \<open>auto simp: committed_def\<close>)
  qed
qed

definition legacy :: schema where
  "legacy = (sqlite_schema 1)\<lparr>sc_user_version := 0\<rparr>"

definition upgradable :: "schema \<Rightarrow> bool" where
  "upgradable t \<longleftrightarrow> t = legacy \<or> (\<exists>v \<le> 4. t = sqlite_schema v)"

lemma version_of: "v \<le> 4 \<Longrightarrow> sc_user_version (sqlite_schema v) = int v"
  by (auto simp: le_Suc_eq numeral_eq_Suc empty_schema_def)

lemma between_upgradable: "v \<le> 4 \<Longrightarrow> between v 4 s \<Longrightarrow> upgradable (sd_main s)"
  by (auto simp: between_def upgradable_def at_def)

lemma spec_version:
  "spec (at a None) sqliteUserVersion (\<lambda>x s. at a None s \<and> x = sc_user_version a) (committed a)"
  unfolding sqliteUserVersion_def by (rule spec_wrap, rule spec_conseq [OF spec_query]) simp_all

lemma spec_pre: "(P \<Longrightarrow> spec Q m R E) \<Longrightarrow> spec (\<lambda>s. Q s \<and> P) m R E"
  by (auto simp: spec_def)

lemma spec_init_recorded:
  assumes "v \<le> 4"
  shows "spec (at_version v) initSQLiteSchema (\<lambda>_. at_version 4) (\<lambda>s. upgradable (sd_main s))"
proof -
  let ?E = "\<lambda>s. upgradable (sd_main s)"
  have E: "committed (sqlite_schema v) s \<Longrightarrow> ?E s" for s using assms by (auto simp: committed_def upgradable_def)
  have loop: "spec (at_version v) (sqlite_migrate_loop (Up ''sqlite'') (int v)) (\<lambda>_. at_version 4) ?E"
    by (rule spec_conseq [OF spec_migrate_all [OF assms]]) (use assms between_upgradable in auto)
  have q: "spec (at_version v) (s_query (\<lambda>t. map_of (sc_tables t) ''shoebox_messages''))
      (\<lambda>x s. at_version v s \<and> x = map_of (sc_tables (sqlite_schema v)) ''shoebox_messages'') ?E"
    by (rule spec_conseq [OF spec_query]) (auto simp: E)
  have base: "spec (at_version v) (if int v = 0 then s_then (detectSQLiteBaseline 4) (\<lambda>baseline.
      if baseline > 0 then s_then (setSQLiteUserVersion baseline) (\<lambda>_. s_ret baseline) else s_ret (int v)) else s_ret (int v))
      (\<lambda>x s. at_version v s \<and> x = int v) ?E"
  proof (cases "v = 0")
    case True
    have det: "spec (at_version 0) (detectSQLiteBaseline 4) (\<lambda>x s. at_version 0 s \<and> x = 0) ?E"
      unfolding detectSQLiteBaseline_def
      by (rule spec_then [OF q [unfolded True]], rule spec_pre) (simp add: empty_schema_def spec_def s_ret_def)
    have "spec (at_version 0) (s_then (detectSQLiteBaseline 4) (\<lambda>baseline.
      if baseline > 0 then s_then (setSQLiteUserVersion baseline) (\<lambda>_. s_ret baseline) else s_ret (int v)))
      (\<lambda>x s. at_version 0 s \<and> x = int v) ?E"
      by (rule spec_then [OF det], rule spec_pre) (simp add: spec_def s_ret_def)
    then show ?thesis by (simp add: True)
  next
    case False
    then show ?thesis by (simp add: spec_def s_ret_def)
  qed
  have latest: "migVersion (last (Up ''sqlite'')) = 4" by (simp add: Up_sqlite)
  show ?thesis
    unfolding initSQLiteSchema_def Let_def latest
    by (rule spec_then [OF spec_conseq [OF spec_version]], assumption, assumption, erule E,
        rule spec_pre, simp only: version_of [OF assms], rule spec_then [OF base], rule spec_pre) (simp add: loop)
qed

lemma spec_weaken: "spec P m Q E \<Longrightarrow> (\<And>s. E s \<Longrightarrow> E' s) \<Longrightarrow> spec P m Q E'"
  by (erule spec_conseq)

text \<open>The rules with the failures this theory is about: the committed schema can be upgraded.\<close>

lemma spec_upgradable:
  assumes "upgradable a"
  shows "spec (at a None) s_call (\<lambda>_. at a None) (\<lambda>s. upgradable (sd_main s))"
    "spec (at a None) (s_query f) (\<lambda>x s. at a None s \<and> x = f a) (\<lambda>s. upgradable (sd_main s))"
    "spec (at a None) sqliteUserVersion (\<lambda>x s. at a None s \<and> x = sc_user_version a) (\<lambda>s. upgradable (sd_main s))"
    "g a = Some b \<Longrightarrow> spec (at a None) (s_exec g) (\<lambda>_. at b None) (\<lambda>s. upgradable (sd_main s))"
    "\<And>names latest. ''priority'' \<notin> set names \<Longrightarrow>
      spec (at a None) (table_info_loop latest names) (\<lambda>x s. at a None s \<and> x = 1) (\<lambda>s. upgradable (sd_main s))"
proof -
  have E: "committed a s \<Longrightarrow> upgradable (sd_main s)" for s using assms by (simp add: committed_def)
  show "spec (at a None) s_call (\<lambda>_. at a None) (\<lambda>s. upgradable (sd_main s))" by (rule spec_weaken [OF spec_call E])
  show "spec (at a None) (s_query f) (\<lambda>x s. at a None s \<and> x = f a) (\<lambda>s. upgradable (sd_main s))" by (rule spec_weaken [OF spec_query E])
  show "spec (at a None) sqliteUserVersion (\<lambda>x s. at a None s \<and> x = sc_user_version a) (\<lambda>s. upgradable (sd_main s))"
    by (rule spec_weaken [OF spec_version E])
  show "g a = Some b \<Longrightarrow> spec (at a None) (s_exec g) (\<lambda>_. at b None) (\<lambda>s. upgradable (sd_main s))"
    by (rule spec_weaken [OF spec_exec_main E])
  show "''priority'' \<notin> set names \<Longrightarrow>
      spec (at a None) (table_info_loop latest names) (\<lambda>x s. at a None s \<and> x = 1) (\<lambda>s. upgradable (sd_main s))" for names latest
    by (rule spec_weaken [OF spec_table_info E])
qed

lemma spec_init_legacy: "spec (at legacy None) initSQLiteSchema (\<lambda>_. at_version 4) (\<lambda>s. upgradable (sd_main s))"
proof -
  let ?E = "\<lambda>s. upgradable (sd_main s)"
  have up: "upgradable legacy" by (simp add: upgradable_def)
  have cols: "map_of (sc_tables legacy) ''shoebox_messages'' = Some messages_columns" "sc_user_version legacy = 0"
    by (simp_all add: legacy_def)
  have det: "spec (at legacy None) (detectSQLiteBaseline 4) (\<lambda>x s. at legacy None s \<and> x = 1) ?E"
    unfolding detectSQLiteBaseline_def
  proof (rule spec_then [OF spec_upgradable(2) [OF up]], rule spec_pre)
    fix x assume "x = map_of (sc_tables legacy) ''shoebox_messages''"
    moreover have "spec (at legacy None) (s_then s_call (\<lambda>_. table_info_loop 4 messages_columns)) (\<lambda>x s. at legacy None s \<and> x = 1) ?E"
      by (rule spec_then [OF spec_upgradable(1) [OF up]], rule spec_upgradable(5) [OF up]) (simp add: messages_columns_def)
    ultimately show "spec (at legacy None) (case x of None \<Rightarrow> s_ret 0 | Some cols \<Rightarrow> s_then s_call (\<lambda>_. table_info_loop 4 cols))
        (\<lambda>x s. at legacy None s \<and> x = 1) ?E" by (simp add: cols)
  qed
  have one: "legacy\<lparr>sc_user_version := 1\<rparr> = sqlite_schema 1" by (simp add: legacy_def)
  have set1: "spec (at legacy None) (s_then (setSQLiteUserVersion 1) (\<lambda>_. s_ret 1)) (\<lambda>x s. at_version 1 s \<and> x = (1::int)) ?E"
    unfolding setSQLiteUserVersion_def
    by (rule spec_then [OF spec_wrap [OF spec_upgradable(4) [OF up refl]]]) (simp add: spec_def s_ret_def one)
  have loop: "spec (at_version 1) (sqlite_migrate_loop (Up ''sqlite'') 1) (\<lambda>_. at_version 4) ?E"
    using spec_weaken [OF spec_migrate_all [of 1], of ?E] between_upgradable [of 1] by simp
  have base: "spec (at legacy None) (s_then (detectSQLiteBaseline 4) (\<lambda>baseline.
      if baseline > 0 then s_then (setSQLiteUserVersion baseline) (\<lambda>_. s_ret baseline) else s_ret 0))
      (\<lambda>x s. at_version 1 s \<and> x = 1) ?E"
    by (rule spec_then [OF det], rule spec_pre) (use set1 in simp)
  have latest: "migVersion (last (Up ''sqlite'')) = 4" by (simp add: Up_sqlite)
  show ?thesis
    unfolding initSQLiteSchema_def Let_def latest
  proof (rule spec_then [OF spec_upgradable(3) [OF up]], rule spec_pre)
    fix version assume v: "version = sc_user_version legacy"
    show "spec (at legacy None) (s_then (if version = 0 then s_then (detectSQLiteBaseline 4) (\<lambda>baseline.
        if baseline > 0 then s_then (setSQLiteUserVersion baseline) (\<lambda>_. s_ret baseline) else s_ret version) else s_ret version)
        (sqlite_migrate_loop (Up ''sqlite''))) (\<lambda>_. at_version 4) ?E"
      unfolding v cols(2) if_True simp_thms
      by (rule spec_then [OF base], rule spec_pre) (use loop in simp)
  qed
qed

lemma spec_NewSQLite:
  assumes "upgradable a"
  shows "spec (at a None) (NewSQLite path) (\<lambda>_. at_version 4) (\<lambda>s. upgradable (sd_main s))"
proof -
  let ?E = "\<lambda>s. upgradable (sd_main s)"
  note call = spec_wrap [OF spec_upgradable(1) [OF assms]]
  have init: "spec (at a None) initSQLiteSchema (\<lambda>_. at_version 4) ?E"
    using assms spec_init_legacy spec_init_recorded by (auto simp: upgradable_def)
  have four: "upgradable (sqlite_schema 4)" by (auto simp: upgradable_def)
  have "reclaim_statement (sqlite_schema 4) = Some (sqlite_schema 4)"
    by (simp add: reclaim_statement_def messages_columns_def eval_nat_numeral)
  note reclaim = spec_wrap [OF spec_upgradable(4) [where g = reclaim_statement, OF four this]]
  have wal: "spec (at a None) (if path \<noteq> '':memory:'' then s_wrap ''shoebox/sqlite: enable WAL'' s_call else s_ret ()) (\<lambda>_. at a None) ?E"
    using call spec_ret [where P = "\<lambda>_ :: unit. at a None"] by simp
  show ?thesis
    unfolding NewSQLite_def
    by (rule spec_then [OF call], rule spec_then [OF wal], rule spec_then [OF call], rule spec_then [OF spec_wrap [OF init]], rule reclaim)
qed

text \<open>
  C17. Opening a SQLite database upgrades it, and a failure is not the end. Start from an empty database,
  from one at any recorded version, or from one of the first schema made before versions were
  recorded, and let any call of the driver fail: \<open>NewSQLite\<close> never waits for ever; if it succeeds the
  database has the current schema with version 4 recorded; if it fails, then because the driver
  did, and the database is again one of these, so that opening it once more continues the upgrade.
\<close>

theorem NewSQLite_upgrades:
  assumes "upgradable (sd_main s)" "sd_work s = None" "\<not> sd_leaked s" "NewSQLite path s = (r, s')"
  shows "r \<noteq> Blocked \<and> upgradable (sd_main s') \<and> (r = Done () \<longrightarrow> sd_main s' = sqlite_schema 4) \<and> (faultless s \<longrightarrow> r = Done ())"
proof -
  have "at (sd_main s) None s" using assms(2) by (simp add: at_def)
  from spec_NewSQLite [OF assms(1), of path, unfolded spec_def, rule_format, OF this assms(3,4)]
  show ?thesis by (cases r) (auto simp: at_def upgradable_def)
qed

definition opened :: "schema \<Rightarrow> sdb" where
  "opened t = \<lparr>sd_main = t, sd_work = None, sd_faults = (\<lambda>_. None), sd_leaked = False\<rparr>"

lemma opened_faultless [simp]: "faultless (opened t)" "sd_main (opened t) = t" "sd_work (opened t) = None" "\<not> sd_leaked (opened t)"
  by (simp_all add: opened_def faultless_def)

theorem NewSQLite_upgrades_witness:
  "sd_main (snd (NewSQLite ''queue.db'' (opened empty_schema))) = sqlite_schema 4 \<and>
   sd_main (snd (NewSQLite ''queue.db'' (opened legacy))) = sqlite_schema 4"
proof -
  have e: "empty_schema = sqlite_schema 0" by simp
  have "upgradable empty_schema" unfolding upgradable_def e by blast
  moreover have "upgradable legacy" by (simp add: upgradable_def)
  ultimately show ?thesis
    using NewSQLite_upgrades [of "opened empty_schema" "''queue.db''"] NewSQLite_upgrades [of "opened legacy" "''queue.db''"]
    by (metis opened_faultless prod.collapse)
qed

subsection \<open>The databases the baseline detection locks out\<close>

lemma call_opened: "s_call (opened t) = (Done (), opened t)"
  by (simp add: s_call_def opened_def)

lemma table_info_priority:
  "''priority'' \<in> set names \<Longrightarrow> table_info_loop latest names (opened t) = (Done latest, (opened t)\<lparr>sd_leaked := True\<rparr>)"
  by (induction names) (auto simp: call_opened)

text \<open>
  C18. A SQLite database made before versions were recorded, but after the column \<open>priority\<close> was
  added, cannot be opened: \<open>detectSQLiteBaseline\<close> returns from the loop over the columns without
  closing its result set, which keeps the only connection of the pool, and the call that records the
  version waits for it for ever.
\<close>

theorem NewSQLite_blocks_on_priority:
  assumes "map_of (sc_tables t) ''shoebox_messages'' = Some cols" "''priority'' \<in> set cols" "sc_user_version t = 0"
  shows "fst (NewSQLite path (opened t)) = Blocked"
proof -
  have cur: "s_current (opened t) = t" by (simp add: s_current_def opened_def)
  have latest: "migVersion (last (Up ''sqlite'')) = 4" by (simp add: Up_sqlite)
  have "detectSQLiteBaseline 4 (opened t) = (Done 4, (opened t)\<lparr>sd_leaked := True\<rparr>)"
    using assms table_info_priority [OF assms(2)]
    by (simp add: detectSQLiteBaseline_def s_query_def s_then_def call_opened cur)
  moreover have "sqliteUserVersion (opened t) = (Done 0, opened t)"
    using assms(3) by (simp add: sqliteUserVersion_def s_wrap_def s_query_def s_then_def call_opened cur)
  moreover have "fst (setSQLiteUserVersion 4 ((opened t)\<lparr>sd_leaked := True\<rparr>)) = Blocked"
    by (simp add: setSQLiteUserVersion_def s_wrap_def s_exec_def s_then_def s_call_def)
  ultimately have "fst (initSQLiteSchema (opened t)) = Blocked"
    by (auto simp: initSQLiteSchema_def Let_def latest s_then_def split: prod.splits outcome.splits)
  then show ?thesis
    by (auto simp: NewSQLite_def s_then_def s_wrap_def s_ret_def call_opened split: prod.splits outcome.splits)
qed

definition prerunner :: schema where
  "prerunner = (sqlite_schema 2)\<lparr>sc_user_version := 0\<rparr>"

theorem NewSQLite_blocks_on_priority_witness: "fst (NewSQLite ''queue.db'' (opened prerunner)) = Blocked"
  by (rule NewSQLite_blocks_on_priority [of _ "messages_columns @ [''priority'']"])
    (simp_all add: prerunner_def numeral_2_eq_2)

end
