(* ===== verification/Schema_Postgres.thy ===== *)
theory Schema_Postgres
  imports Schema_Upgrade
begin

text \<open>
  The upgrade of a PostgreSQL database: the whole run is one transaction, so a failure leaves the
  schema as it was, and every database the program can have left behind, with or without recorded
  versions and with any subset of the objects of the later migrations, ends with the current schema.
\<close>

subsection \<open>One transaction\<close>

definition s_inner :: "'a saction \<Rightarrow> bool" where
  "s_inner m \<longleftrightarrow> (\<forall>s r s'. m s = (r, s') \<longrightarrow> sd_work s \<noteq> None \<longrightarrow> sd_work s' \<noteq> None \<and> sd_main s' = sd_main s)"

named_theorems s_inner_intros "structural rules for s_inner"

lemma s_inner_call [s_inner_intros]: "s_inner s_call"
  by (auto simp: s_inner_def s_call_def split: if_splits)

lemma s_inner_ret [s_inner_intros]: "s_inner (s_ret x)"
  by (auto simp: s_inner_def s_ret_def)

lemma s_inner_then [s_inner_intros]:
  assumes "s_inner m" "\<And>x. s_inner (f x)"
  shows "s_inner (s_then m f)"
  unfolding s_inner_def
proof (intro allI impI)
  fix s r s' assume run: "s_then m f s = (r, s')" "sd_work s \<noteq> None"
  obtain r1 s1 where m: "m s = (r1, s1)" by fastforce
  with assms(1) run(2) have 1: "sd_work s1 \<noteq> None" "sd_main s1 = sd_main s" by (auto simp: s_inner_def)
  show "sd_work s' \<noteq> None \<and> sd_main s' = sd_main s"
  proof (cases r1)
    case (Done x)
    then have "f x s1 = (r, s')" using run m by (simp add: s_then_def)
    with assms(2) [of x] 1 show ?thesis by (simp add: s_inner_def)
  qed (use run m 1 in \<open>simp_all add: s_then_def\<close>)
qed

lemma s_inner_wrap [s_inner_intros]: "s_inner m \<Longrightarrow> s_inner (s_wrap msg m)"
  unfolding s_inner_def s_wrap_def by (fastforce split: prod.splits outcome.splits)

lemma s_inner_query [s_inner_intros]: "s_inner (s_query f)"
  unfolding s_query_def by (intro s_inner_then s_inner_call) (auto simp: s_inner_def)

lemma s_inner_exec [s_inner_intros]: "s_inner (s_exec f)"
  unfolding s_exec_def by (intro s_inner_then s_inner_call) (auto simp: s_inner_def s_put_def split: option.splits)

lemma s_inner_applied [s_inner_intros]: "s_inner (appliedPostgresVersion latest)"
  unfolding appliedPostgresVersion_def Let_def
  by (auto intro!: s_inner_intros split: option.splits)

lemma s_inner_loop [s_inner_intros]: "s_inner (postgres_migrate_loop ms applied)"
  by (induction ms applied rule: postgres_migrate_loop.induct) (auto intro!: s_inner_intros)

lemma s_commit_main: "s_commit s = (Failed e, s') \<Longrightarrow> sd_main s' = sd_main s" "s_commit s = (Blocked, s') \<Longrightarrow> sd_main s' = sd_main s"
  by (auto simp: s_commit_def s_then_def s_call_def split: if_splits option.splits)

lemma s_final:
  assumes "s_inner m" "s_then m (\<lambda>_. s_commit) s = (r, s')" "sd_work s \<noteq> None" "r \<noteq> Done ()"
  shows "sd_main s' = sd_main s"
proof -
  obtain r1 s1 where m: "m s = (r1, s1)" by fastforce
  with assms(1,3) have 1: "sd_main s1 = sd_main s" by (auto simp: s_inner_def)
  with assms(2,4) m show ?thesis
    by (cases r1; cases r) (auto simp: s_then_def dest: s_commit_main)
qed

text \<open>
  A failed upgrade of PostgreSQL leaves no trace. When \<open>initPostgresSchema\<close> does not succeed, because
  the driver fails, or because a statement of a migration does, whatever the database looked like,
  the committed schema and the recorded versions are what they were and no transaction is open.
\<close>

theorem initPostgresSchema_atomic:
  assumes "initPostgresSchema s = (r, s')" "r \<noteq> Done ()" "sd_work s = None"
  shows "sd_main s' = sd_main s \<and> sd_work s' = None"
proof -
  define body where "body = s_then s_call (\<lambda>_.
    s_then (s_exec (exec_ddl postgres_dialect (CreateTable ''shoebox_schema_migrations'' [''version'', ''applied_at'']))) (\<lambda>_.
    s_then (appliedPostgresVersion (migVersion (last (Up ''postgres'')))) (postgres_migrate_loop (Up ''postgres''))))"
  have inner: "s_inner body" unfolding body_def by (intro s_inner_intros)
  have assoc: "s_then s_call (\<lambda>_. s_then (s_exec f) (\<lambda>_. s_then a (\<lambda>x. s_then (b x) (\<lambda>_. s_commit)))) =
      s_then (s_then s_call (\<lambda>_. s_then (s_exec f) (\<lambda>_. s_then a b))) (\<lambda>_. s_commit)" for f b and a :: "int saction"
    by (auto simp: s_then_def fun_eq_iff split: prod.splits outcome.splits)
  obtain r1 s1 where c1: "s_call s = (r1, s1)" by fastforce
  then have s1: "sd_main s1 = sd_main s" "sd_work s1 = None"
    using assms(3) by (auto simp: s_call_def split: if_splits)
  obtain r2 s2 where c2: "s_call s1 = (r2, s2)" by fastforce
  then have s2: "sd_main s2 = sd_main s" "sd_work s2 = None" using s1 by (auto simp: s_call_def split: if_splits)
  have bg: "s_begin s1 = (case r2 of Done _ \<Rightarrow> (Done (), s2\<lparr>sd_work := Some (sd_main s2)\<rparr>) | Failed e \<Rightarrow> (Failed e, s2) | Blocked \<Rightarrow> (Blocked, s2))"
    using c2 by (cases r2) (simp_all add: s_begin_def s_then_def)
  have run: "initPostgresSchema s = s_then s_call (\<lambda>_. s_rollback (s_then s_begin (\<lambda>_. s_then body (\<lambda>_. s_commit)))) s"
    unfolding initPostgresSchema_def Let_def body_def assoc ..
  show ?thesis
  proof (cases "r1 = Done () \<and> r2 = Done ()")
    case True
    let ?s3 = "s2\<lparr>sd_work := Some (sd_main s2)\<rparr>"
    obtain s4 where b: "s_then body (\<lambda>_. s_commit) ?s3 = (r, s4)" "s' = s4\<lparr>sd_work := None\<rparr>"
      using assms(1) True c1 bg unfolding run
      by (auto simp: s_then_def [of s_call] s_then_def [of s_begin] s_rollback_def split: prod.splits)
    with s_final [OF inner b(1) _ assms(2)] s2 show ?thesis by simp
  next
    case False
    with assms(1) c1 bg s1 s2 show ?thesis unfolding run
      by (cases r1; cases r2) (auto simp: s_then_def [of s_call] s_then_def [of s_begin] s_rollback_def)
  qed
qed

subsection \<open>Every database reaches the current schema\<close>

text \<open>
  A database with the tables of the first migration, with or without the column \<open>priority\<close> (and the
  dequeue index that goes with it), the table of the schedules, the column \<open>dedupe_key\<close> and its index,
  and with the rows \<open>vs\<close> of the version table, which exists if \<open>vt\<close>.
\<close>

definition dequeue_index :: "bool \<Rightarrow> string \<times> string \<times> string list" where
  "dequeue_index p = (''idx_shoebox_dequeue'', ''shoebox_messages'',
     if p then [''queue'', ''status'', ''priority'', ''scheduled_at''] else [''queue'', ''status'', ''scheduled_at''])"

definition pg_db :: "bool \<Rightarrow> bool \<Rightarrow> bool \<Rightarrow> bool \<Rightarrow> bool \<Rightarrow> int list \<Rightarrow> schema" where
  "pg_db p sch dk di vt vs = empty_schema\<lparr>
     sc_tables := [(''shoebox_messages'', messages_columns @ (if p then [''priority''] else []) @ (if dk then [''dedupe_key''] else [])), stats_table] @
       (if sch then [(''shoebox_schedules'', schedules_columns)] else []) @
       (if vt then [(''shoebox_schema_migrations'', [''version'', ''applied_at''])] else []),
     sc_indexes := [dequeue_index p, (''idx_shoebox_dlq'', ''shoebox_messages'', [''queue'', ''status''])] @
       (if sch then [schedules_index] else []) @
       (if di then [(''idx_shoebox_durable_dedupe'', ''shoebox_messages'', [''queue'', ''dedupe_key''])] else []),
     sc_versions := vs\<rparr>"

text \<open>The tables, columns and indexes the statements of the backend rely on.\<close>

definition complete :: "schema \<Rightarrow> bool" where
  "complete t \<longleftrightarrow>
     map_option set (map_of (sc_tables t) ''shoebox_messages'') = Some (set (messages_columns @ [''priority'', ''dedupe_key''])) \<and>
     map_of (sc_tables t) ''shoebox_stats'' = Some (snd stats_table) \<and>
     map_of (sc_tables t) ''shoebox_schedules'' = Some schedules_columns \<and>
     map_of (sc_indexes t) ''idx_shoebox_dequeue'' = Some (''shoebox_messages'', [''queue'', ''status'', ''priority'', ''scheduled_at'']) \<and>
     map_of (sc_indexes t) ''idx_shoebox_durable_dedupe'' = Some (''shoebox_messages'', [''queue'', ''dedupe_key'']) \<and>
     Max (set (sc_versions t)) = 5"

text \<open>The loop over the migrations on the schema alone.\<close>

fun run_migrations :: "migration list \<Rightarrow> int \<Rightarrow> schema \<Rightarrow> schema option" where
  "run_migrations [] applied t = Some t"
| "run_migrations (m # ms) applied t =
     (if migVersion m \<le> applied then run_migrations ms applied t
      else case exec_script postgres_dialect (migSQL m) t of
             None \<Rightarrow> None
           | Some t \<Rightarrow> (case insert_version (migVersion m) t of None \<Rightarrow> None | Some t \<Rightarrow> run_migrations ms applied t))"

lemma spec_run_migrations:
  assumes "run_migrations ms applied w = Some w'"
  shows "spec (at a (Some w)) (postgres_migrate_loop ms applied) (\<lambda>_. at a (Some w')) (committed a)"
  using assms
proof (induction ms arbitrary: w)
  case Nil
  then show ?case using spec_ret [where P = "\<lambda>_ :: unit. at a (Some w)"] by simp
next
  case (Cons m ms)
  show ?case
  proof (cases "migVersion m \<le> applied")
    case False
    with Cons.prems obtain t1 t2 where t: "exec_script postgres_dialect (migSQL m) w = Some t1"
      "insert_version (migVersion m) t1 = Some t2" "run_migrations ms applied t2 = Some w'"
      by (auto split: option.splits)
    show ?thesis using False
      by (simp, intro spec_then [OF spec_wrap [OF spec_exec [of "exec_script postgres_dialect (migSQL m)", OF t(1)]]]
          spec_then [OF spec_wrap [OF spec_exec [of "insert_version (migVersion m)", OF t(2)]]] Cons.IH t(3))
  qed (use Cons in simp)
qed

lemma spec_initPostgres:
  assumes "exec_ddl postgres_dialect (CreateTable ''shoebox_schema_migrations'' [''version'', ''applied_at'']) a = Some w"
    "spec (at a (Some w)) (appliedPostgresVersion 5) (\<lambda>x s. at a (Some w') s \<and> x = n) (committed a)"
    "run_migrations (Up ''postgres'') n w' = Some b"
  shows "spec (at a None) initPostgresSchema (\<lambda>_. at b None) (at a None)"
proof -
  have latest: "migVersion (last (Up ''postgres'')) = 5" by (simp add: Up_postgres)
  have body: "spec (at a None) (s_rollback (s_then s_begin (\<lambda>_.
      s_then s_call (\<lambda>_.
      s_then (s_exec (exec_ddl postgres_dialect (CreateTable ''shoebox_schema_migrations'' [''version'', ''applied_at'']))) (\<lambda>_.
      s_then (appliedPostgresVersion 5) (\<lambda>applied.
      s_then (postgres_migrate_loop (Up ''postgres'') applied) (\<lambda>_. s_commit))))))) (\<lambda>_. at b None) (at a None)"
    by (rule spec_rollback, rule spec_then [OF spec_begin], rule spec_then [OF spec_call],
        rule spec_then [OF spec_exec [of "exec_ddl postgres_dialect (CreateTable ''shoebox_schema_migrations'' [''version'', ''applied_at''])", OF assms(1)]],
        rule spec_then [OF assms(2)], rule spec_pre, simp only:,
        rule spec_then [OF spec_run_migrations [OF assms(3)]], rule spec_commit)
  have call: "spec (at a None) s_call (\<lambda>_. at a None) (at a None)"
    by (auto simp: spec_def s_call_def at_def faultless_def split: option.splits outcome.splits)
  show ?thesis
    unfolding initPostgresSchema_def Let_def latest by (rule spec_then [OF call], rule body)
qed

text \<open>The version the detection finds.\<close>

definition baseline :: "bool \<Rightarrow> bool \<Rightarrow> bool \<Rightarrow> bool \<Rightarrow> int" where
  "baseline p sch dk di = (if p \<and> sch \<and> dk \<and> di then 4 else if p \<and> sch then 3 else if p then 2 else 1)"

lemma spec_applied_recorded:
  assumes "sc_versions w \<noteq> []"
  shows "spec (at a (Some w)) (appliedPostgresVersion latest) (\<lambda>x s. at a (Some w) s \<and> x = Max (set (sc_versions w))) (committed a)"
  unfolding appliedPostgresVersion_def
  by (rule spec_then [OF spec_query_work], rule spec_pre) (use assms spec_query_work in auto)

lemma spec_applied_fresh:
  assumes "sc_versions w = []" "map_of (sc_tables w) ''shoebox_messages'' = None"
  shows "spec (at a (Some w)) (appliedPostgresVersion latest) (\<lambda>x s. at a (Some w) s \<and> x = 0) (committed a)"
  unfolding appliedPostgresVersion_def
  by (rule spec_then [OF spec_query_work], rule spec_pre, simp add: assms(1),
      rule spec_then [OF spec_query_work], rule spec_pre) (simp add: assms(2) spec_def s_ret_def)

lemma spec_applied_legacy:
  assumes "sc_versions w = []" "map_of (sc_tables w) ''shoebox_messages'' = Some cols"
    "n = baseline (''priority'' \<in> set cols) (map_of (sc_tables w) ''shoebox_schedules'' \<noteq> None) (''dedupe_key'' \<in> set cols)
       (map_of (sc_indexes w) ''idx_shoebox_durable_dedupe'' \<noteq> None)"
  shows "spec (at a (Some w)) (appliedPostgresVersion 5) (\<lambda>x s. at a (Some (w\<lparr>sc_versions := [n]\<rparr>)) s \<and> x = n) (committed a)"
proof -
  have ins: "insert_version n w = Some (w\<lparr>sc_versions := [n]\<rparr>)" by (simp add: insert_version_def assms(1))
  have "spec (at a (Some w)) (s_then (s_exec (insert_version n)) (\<lambda>_. s_ret n)) (\<lambda>x s. at a (Some (w\<lparr>sc_versions := [n]\<rparr>)) s \<and> x = n) (committed a)"
    by (rule spec_then [OF spec_exec [of "insert_version n", OF ins]]) (simp add: spec_def s_ret_def)
  then show ?thesis
    unfolding appliedPostgresVersion_def
    by (intro spec_then [OF spec_query_work] spec_pre, simp add: assms(1), intro spec_then [OF spec_query_work] spec_pre,
        simp add: assms(2), intro spec_then [OF spec_query_work] spec_pre)
      (simp add: assms(2,3) baseline_def Let_def)
qed

lemma pg_script:
  "the (map_of files ''0001_init_schema.postgres.up.sql'') = init_schema"
  "the (map_of files ''0002_add_priority.postgres.up.sql'') =
     [AddColumn ''shoebox_messages'' ''priority'' False, DropIndex ''idx_shoebox_dequeue'',
      CreateIndex ''idx_shoebox_dequeue'' ''shoebox_messages'' [''queue'', ''status'', ''priority'', ''scheduled_at''] False]"
  "the (map_of files ''0003_periodic_jobs.postgres.up.sql'') = periodic_jobs"
  "the (map_of files ''0004_durable_dedupe.postgres.up.sql'') = durable_dedupe"
  "the (map_of files ''0005_repair_postgres_schema.postgres.up.sql'') = periodic_jobs @ durable_dedupe"
  by (simp_all add: files_def)

lemma run_fresh:
  "\<exists>b. run_migrations (Up ''postgres'') 0 (empty_schema\<lparr>sc_tables := [(''shoebox_schema_migrations'', [''version'', ''applied_at''])]\<rparr>) = Some b \<and>
     complete b"
  by (simp add: Up_postgres pg_script schema_eval insert_version_def complete_def)

lemma run_legacy:
  assumes "di \<longrightarrow> dk"
  shows "\<exists>b. run_migrations (Up ''postgres'') (baseline p sch dk di) (pg_db p sch dk di True [baseline p sch dk di]) = Some b \<and> complete b"
  using assms
  by (cases p; cases sch; cases dk; cases di)
    (auto simp: Up_postgres pg_script schema_eval pg_db_def dequeue_index_def baseline_def insert_version_def complete_def)

text \<open>The objects a database with recorded versions can have: those of its version; at version 4 possibly fewer.\<close>

definition recorded_ok :: "int \<Rightarrow> bool \<Rightarrow> bool \<Rightarrow> bool \<Rightarrow> bool \<Rightarrow> bool" where
  "recorded_ok n p sch dk di \<longleftrightarrow>
     n \<in> {1, 2, 3} \<and> p = (2 \<le> n) \<and> sch = (n = 3) \<and> \<not> dk \<and> \<not> di \<or> n = 4 \<and> p \<and> (di \<longrightarrow> dk) \<or> n = 5 \<and> p \<and> sch \<and> dk \<and> di"

lemma Max_append: "vs \<noteq> [] \<Longrightarrow> Max (set vs) < v \<Longrightarrow> Max (insert v (set vs)) = v"
  by (subst Max_insert) auto

lemma run_recorded:
  assumes "recorded_ok n p sch dk di" "vs \<noteq> []" "Max (set vs) = n"
  shows "\<exists>b. run_migrations (Up ''postgres'') n (pg_db p sch dk di True vs) = Some b \<and> complete b"
proof -
  have notin: "v \<notin> set vs" if "n < v" for v using that assms(3) Max_ge [of "set vs" v] by auto
  note eval = Up_postgres pg_script schema_eval pg_db_def dequeue_index_def insert_version_def complete_def notin assms(3) Max_insert
  consider "n = 1" "\<not> p" "\<not> sch" "\<not> dk" "\<not> di" | "n = 2" "p" "\<not> sch" "\<not> dk" "\<not> di" | "n = 3" "p" "sch" "\<not> dk" "\<not> di"
    | "n = 4" "p" "di \<longrightarrow> dk" | "n = 5" "p" "sch" "dk" "di"
    using assms(1) by (auto simp: recorded_ok_def)
  then show ?thesis
  proof cases
    case 4
    then show ?thesis using assms(2) by (cases sch; cases dk; cases di) (auto simp: eval)
  qed (use assms(2) in \<open>simp_all add: eval\<close>)
qed

text \<open>
  Opening a PostgreSQL database brings it to the current schema: a database with nothing in it; one
  made before versions were recorded, with any subset of the objects of the migrations after the
  first; one at a recorded version with the objects of that version; and one that recorded version 4
  without having all its objects, which migration 5 repairs. If the driver reports no error the
  upgrade succeeds and ends with every table, column and index the backend relies on and version 5
  recorded. (The column of the keys exists if its index does, and no two live messages share a key.)
\<close>

theorem initPostgresSchema_upgrades:
  assumes "t = empty_schema \<or> t = pg_db p sch dk di vt [] \<and> (di \<longrightarrow> dk) \<or>
      t = pg_db p sch dk di True vs \<and> vs \<noteq> [] \<and> recorded_ok (Max (set vs)) p sch dk di"
  shows "\<exists>s'. initPostgresSchema (opened t) = (Done (), s') \<and> complete (sd_main s') \<and> sd_work s' = None"
proof -
  let ?create = "exec_ddl postgres_dialect (CreateTable ''shoebox_schema_migrations'' [''version'', ''applied_at''])"
  have done_: "\<exists>s'. initPostgresSchema (opened t) = (Done (), s') \<and> complete (sd_main s') \<and> sd_work s' = None"
    if "spec (at t None) initPostgresSchema (\<lambda>_. at b None) (at t None)" "complete b" for b
  proof -
    obtain r s' where run: "initPostgresSchema (opened t) = (r, s')" by fastforce
    have "at t None (opened t)" by (simp add: at_def)
    from that(1) [unfolded spec_def, rule_format, OF this _ run] that(2) run show ?thesis by (cases r) (auto simp: at_def)
  qed
  consider "t = empty_schema" | "t = pg_db p sch dk di vt []" "di \<longrightarrow> dk"
    | "t = pg_db p sch dk di True vs" "vs \<noteq> []" "recorded_ok (Max (set vs)) p sch dk di"
    using assms by blast
  then show ?thesis
  proof cases
    case 1
    let ?w = "empty_schema\<lparr>sc_tables := [(''shoebox_schema_migrations'', [''version'', ''applied_at''])]\<rparr>"
    have c: "?create t = Some ?w" by (simp add: 1 empty_schema_def)
    obtain b where b: "run_migrations (Up ''postgres'') 0 ?w = Some b" "complete b" using run_fresh by blast
    have a: "spec (at t (Some ?w)) (appliedPostgresVersion 5) (\<lambda>x s. at t (Some ?w) s \<and> x = 0) (committed t)"
      by (rule spec_applied_fresh) (simp_all add: empty_schema_def)
    show ?thesis by (rule done_ [OF spec_initPostgres [OF c a b(1)] b(2)])
  next
    case 2
    let ?w = "pg_db p sch dk di True []" and ?n = "baseline p sch dk di"
    have c: "?create t = Some ?w" by (auto simp: 2 pg_db_def stats_table_def split: if_splits)
    obtain b where b: "run_migrations (Up ''postgres'') ?n (pg_db p sch dk di True [?n]) = Some b" "complete b"
      using run_legacy [OF 2(2)] by blast
    have w: "?w\<lparr>sc_versions := [?n]\<rparr> = pg_db p sch dk di True [?n]" by (simp add: pg_db_def)
    have a: "spec (at t (Some ?w)) (appliedPostgresVersion 5) (\<lambda>x s. at t (Some (pg_db p sch dk di True [?n])) s \<and> x = ?n) (committed t)"
      by (rule spec_applied_legacy [of ?w _ ?n, unfolded w])
        (use 2(2) in \<open>auto simp: pg_db_def stats_table_def messages_columns_def dequeue_index_def schedules_index_def baseline_def\<close>)
    show ?thesis by (rule done_ [OF spec_initPostgres [OF c a b(1)] b(2)])
  next
    case 3
    have c: "?create t = Some t" by (auto simp: 3 pg_db_def stats_table_def split: if_splits)
    obtain b where b: "run_migrations (Up ''postgres'') (Max (set vs)) t = Some b" "complete b"
      using run_recorded [OF 3(3,2) refl] 3(1) by blast
    have vs: "sc_versions t = vs" by (simp add: 3 pg_db_def)
    have a: "spec (at t (Some t)) (appliedPostgresVersion 5) (\<lambda>x s. at t (Some t) s \<and> x = Max (set vs)) (committed t)"
      using spec_applied_recorded [of t t 5] 3(2) by (simp add: vs)
    show ?thesis by (rule done_ [OF spec_initPostgres [OF c a b(1)] b(2)])
  qed
qed

theorem initPostgresSchema_upgrades_witness:
  "\<exists>s'. initPostgresSchema (opened (pg_db True False True False True [2, 3, 4])) = (Done (), s') \<and> complete (sd_main s')"
  using initPostgresSchema_upgrades [of "pg_db True False True False True [2, 3, 4]" True False True False True "[2, 3, 4]"]
  by (auto simp: recorded_ok_def)

theorem initPostgresSchema_atomic_witness:
  "let s = (opened empty_schema)\<lparr>sd_faults := \<lambda>n. if n = 3 then Some (ErrMsg ''connection reset'') else None\<rparr>
   in fst (initPostgresSchema s) \<noteq> Done () \<and> sd_main (snd (initPostgresSchema s)) = empty_schema"
proof -
  let ?s = "(opened empty_schema)\<lparr>sd_faults := \<lambda>n. if n = 3 then Some (ErrMsg ''connection reset'') else None\<rparr>"
  have "fst (initPostgresSchema ?s) \<noteq> Done ()"
    by (simp add: initPostgresSchema_def Let_def s_then_def s_call_def s_begin_def s_exec_def s_rollback_def opened_def)
  with initPostgresSchema_atomic [of ?s "fst (initPostgresSchema ?s)" "snd (initPostgresSchema ?s)"] show ?thesis
    by (simp add: Let_def)
qed

subsection \<open>The name of the schema\<close>

text \<open>How SQL reads a quoted identifier: up to the closing quote, a doubled quote standing for one.\<close>

abbreviation dquote :: char where "dquote \<equiv> CHR 0x22"

fun read_quoted :: "string \<Rightarrow> (string \<times> string) option" where
  "read_quoted [] = None"
| "read_quoted (c # cs) =
     (if c \<noteq> dquote then map_option (\<lambda>(n, r). (c # n, r)) (read_quoted cs)
      else case cs of
             d # ds \<Rightarrow> if d = dquote then map_option (\<lambda>(n, r). (d # n, r)) (read_quoted ds) else Some ([], cs)
           | [] \<Rightarrow> Some ([], []))"

lemma read_quoted_replace:
  assumes "rest = [] \<or> hd rest \<noteq> dquote"
  shows "read_quoted (strings_ReplaceAll_char dquote [dquote, dquote] s @ dquote # rest) = Some (s, rest)"
  using assms by (induction s) (auto simp: strings_ReplaceAll_char_def split: list.splits)

text \<open>
  A schema name cannot break out of its quotes. For every configured name that
  \<open>quotePostgresIdentifier\<close> accepts, SQL reads the text it produces, followed by anything that does not
  begin with a quote, as one quoted identifier, exactly the configured name, and the rest: the name
  reaches \<open>CREATE SCHEMA\<close> and \<open>SET search_path\<close> unchanged and adds no SQL. It refuses exactly the empty
  name and names with a NUL byte.
\<close>

theorem quotePostgresIdentifier_safe:
  assumes "rest = [] \<or> hd rest \<noteq> dquote"
  shows "(case quotePostgresIdentifier s of
      Inl e \<Rightarrow> s = '''' \<or> CHR 0x00 \<in> set s
    | Inr q \<Rightarrow> s \<noteq> '''' \<and> CHR 0x00 \<notin> set s \<and> hd q = dquote \<and> read_quoted (tl q @ rest) = Some (s, rest))"
proof -
  have q: "char_of (34::nat) = dquote" "char_of (0::nat) = CHR 0x00" by (simp_all add: char_of_def bit_0)
  show ?thesis
    using read_quoted_replace [OF assms, of s] by (simp add: quotePostgresIdentifier_def q Let_def)
qed

theorem quotePostgresIdentifier_safe_witness:
  "case quotePostgresIdentifier (''a'' @ [dquote] @ ''; DROP'') of Inl e \<Rightarrow> False
   | Inr q \<Rightarrow> read_quoted (tl q @ '' CASCADE'') = Some (''a'' @ [dquote] @ ''; DROP'', '' CASCADE'')"
  using quotePostgresIdentifier_safe [of "'' CASCADE''" "''a'' @ [dquote] @ ''; DROP''"] by (simp split: sum.splits)

end
