(* ===== verification/Backends.thy ===== *)
theory Backends
  imports SQLite_Store Postgres_Store Broker_Ownership
begin

text \<open>
  The interface \<open>storage.Storage\<close> as the rest of the program uses it: a value that holds one of the
  three backends, with its methods chosen by the backend. It satisfies the contract of the storage
  interface because each backend does, so what is proved of the broker on the contract holds on
  whichever backend was configured.
\<close>

datatype store = MemoryStore memory | SQLiteStore sqlite | PostgresStore postgres

definition dispatch ::
  "(memory \<Rightarrow> 'a \<times> memory) \<Rightarrow> (sqlite \<Rightarrow> 'a \<times> sqlite) \<Rightarrow> (postgres \<Rightarrow> 'a \<times> postgres) \<Rightarrow> store \<Rightarrow> 'a \<times> store" where
  "dispatch fm fs fp st =
     (case st of
        MemoryStore m \<Rightarrow> map_prod id MemoryStore (fm m)
      | SQLiteStore s \<Rightarrow> map_prod id SQLiteStore (fs s)
      | PostgresStore p \<Rightarrow> map_prod id PostgresStore (fp p))"

definition store_ops :: "store storage_ops" where
  "store_ops = \<lparr>
     Enqueue_op = (\<lambda>t q m. dispatch (mem_Enqueue t q m) (sqlite_Enqueue t q m) (pg_Enqueue t q m)),
     EnqueueBatch_op = (\<lambda>t q ms. dispatch (mem_EnqueueBatch t q ms) (sqlite_EnqueueBatch t q ms) (pg_EnqueueBatch t q ms)),
     Dequeue_op = (\<lambda>t q l. dispatch (mem_Dequeue t q l) (sqlite_Dequeue t q l) (pg_Dequeue t q l)),
     Ack_op = (\<lambda>q i. dispatch (mem_Ack q i) (sqlite_Ack q i) (pg_Ack q i)),
     AckBatch_op = (\<lambda>q is. dispatch (mem_AckBatch q is) (sqlite_AckBatch q is) (pg_AckBatch q is)),
     Retry_op = (\<lambda>t q m e. dispatch (mem_Retry t q m e) (sqlite_Retry t q m e) (pg_Retry t q m e)),
     DeadLetter_op = (\<lambda>t n q m e. dispatch (mem_DeadLetter t n q m e) (sqlite_DeadLetter t n q m e) (pg_DeadLetter t n q m e)),
     Replay_op = (\<lambda>t q i. dispatch (mem_Replay t q i) (sqlite_Replay t q i) (pg_Replay t q i)),
     Stats_op = (\<lambda>q. dispatch (mem_Stats q) (sqlite_Stats q) (pg_Stats q)),
     List_op = (\<lambda>q l. dispatch (mem_List q l) (sqlite_List q l) (pg_List q l)),
     Reclaim_op = (\<lambda>q. dispatch (mem_Reclaim q) (sqlite_Reclaim q) (pg_Reclaim q)),
     Close_op = dispatch mem_Close sqlite_Close pg_Close\<rparr>"

text \<open>
  The schedule methods; \<open>ks\<close> is the order in which the memory backend ranges over its map, \<open>jsonb\<close>
  and \<open>collate\<close> are the parameters of PostgreSQL.
\<close>

definition store_schedule_ops :: "string list \<Rightarrow> jsonb_cast \<Rightarrow> (string \<Rightarrow> string \<Rightarrow> bool) \<Rightarrow> store schedule_ops" where
  "store_schedule_ops ks jsonb collate = \<lparr>
     CreateSchedule_op = (\<lambda>v. dispatch (mem_CreateSchedule v) (sqlite_CreateSchedule v) (pg_CreateSchedule jsonb v)),
     UpdateSchedule_op = (\<lambda>v. dispatch (mem_UpdateSchedule v) (sqlite_UpdateSchedule v) (pg_UpdateSchedule jsonb v)),
     DeleteSchedule_op = (\<lambda>i. dispatch (mem_DeleteSchedule i) (sqlite_DeleteSchedule i) (pg_DeleteSchedule i)),
     ListSchedules_op = (\<lambda>q. dispatch (mem_ListSchedules ks q) (sqlite_ListSchedules q) (pg_ListSchedules collate q)),
     RunSchedule_op = (\<lambda>clk n sc now nxt. dispatch (mem_RunSchedule clk n sc now nxt) (sqlite_RunSchedule clk n sc now nxt)
       (pg_RunSchedule clk n sc now nxt)),
     DueSchedules_op = (\<lambda>now l. dispatch (mem_DueSchedules ks now l) (sqlite_DueSchedules now l) (pg_DueSchedules now l))\<rparr>"

fun store_inv :: "store \<Rightarrow> bool" where
  "store_inv (MemoryStore m) = mem_inv m"
| "store_inv (SQLiteStore s) = db_ok s"
| "store_inv (PostgresStore p) = db_ok p"

fun store_view :: "store \<Rightarrow> qabs" where
  "store_view (MemoryStore m) = mem_view m"
| "store_view (SQLiteStore s) = db_view s"
| "store_view (PostgresStore p) = db_view p"

lemma dispatch_eq:
  "dispatch fm fs fp st = (r, st') \<longleftrightarrow>
     (case st of
        MemoryStore m \<Rightarrow> \<exists>m'. fm m = (r, m') \<and> st' = MemoryStore m'
      | SQLiteStore s \<Rightarrow> \<exists>s'. fs s = (r, s') \<and> st' = SQLiteStore s'
      | PostgresStore p \<Rightarrow> \<exists>p'. fp p = (r, p') \<and> st' = PostgresStore p')"
  by (cases st) (auto simp: dispatch_def map_prod_def split: prod.splits)

lemma store_ops_sel:
  "Enqueue_op store_ops t q m = dispatch (Enqueue_op memory_ops t q m) (Enqueue_op sqlite_ops t q m) (Enqueue_op postgres_ops t q m)"
  "EnqueueBatch_op store_ops t q ms = dispatch (EnqueueBatch_op memory_ops t q ms) (EnqueueBatch_op sqlite_ops t q ms) (EnqueueBatch_op postgres_ops t q ms)"
  "Dequeue_op store_ops t q l = dispatch (Dequeue_op memory_ops t q l) (Dequeue_op sqlite_ops t q l) (Dequeue_op postgres_ops t q l)"
  "Ack_op store_ops q i = dispatch (Ack_op memory_ops q i) (Ack_op sqlite_ops q i) (Ack_op postgres_ops q i)"
  "AckBatch_op store_ops q is = dispatch (AckBatch_op memory_ops q is) (AckBatch_op sqlite_ops q is) (AckBatch_op postgres_ops q is)"
  "Retry_op store_ops t q m e = dispatch (Retry_op memory_ops t q m e) (Retry_op sqlite_ops t q m e) (Retry_op postgres_ops t q m e)"
  "DeadLetter_op store_ops t n q m e = dispatch (DeadLetter_op memory_ops t n q m e) (DeadLetter_op sqlite_ops t n q m e) (DeadLetter_op postgres_ops t n q m e)"
  "Replay_op store_ops t q i = dispatch (Replay_op memory_ops t q i) (Replay_op sqlite_ops t q i) (Replay_op postgres_ops t q i)"
  "Stats_op store_ops q = dispatch (Stats_op memory_ops q) (Stats_op sqlite_ops q) (Stats_op postgres_ops q)"
  "List_op store_ops q l = dispatch (List_op memory_ops q l) (List_op sqlite_ops q l) (List_op postgres_ops q l)"
  "Close_op store_ops = dispatch (Close_op memory_ops) (Close_op sqlite_ops) (Close_op postgres_ops)"
  by (simp_all add: store_ops_def memory_ops_def sqlite_ops_def postgres_ops_def)

text \<open>A law that the methods of every backend satisfy holds of the method of the interface.\<close>

lemma dispatch_law:
  assumes "dispatch fm fs fp st = (r, st')" "store_inv st" "P (store_view st)"
    and "\<And>m m'. mem_inv m \<Longrightarrow> P (mem_view m) \<Longrightarrow> fm m = (r, m') \<Longrightarrow> mem_inv m' \<and> R (mem_view m) (mem_view m')"
    and "\<And>s s'. db_ok s \<Longrightarrow> P (db_view s) \<Longrightarrow> fs s = (r, s') \<Longrightarrow> db_ok s' \<and> R (db_view s) (db_view s')"
    and "\<And>p p'. db_ok p \<Longrightarrow> P (db_view p) \<Longrightarrow> fp p = (r, p') \<Longrightarrow> db_ok p' \<and> R (db_view p) (db_view p')"
  shows "store_inv st' \<and> R (store_view st) (store_view st')"
  using assms by (cases st) (auto simp: dispatch_eq)

interpretation any: queue_store store_ops store_inv store_view
proof unfold_locales
  fix s s' :: store and q i nid t msg msgs limit e out r1 r2 r6 e1 qn "is"
  assume inv: "store_inv s"
  note law = dispatch_law [OF _ inv, where P = "\<lambda>_. True", OF _ TrueI]
  show "store_inv s' \<and> store_view s' = store_view s" if "List_op store_ops qn limit s = (r6, s')"
    by (rule law [OF that [unfolded store_ops_sel], where R = "\<lambda>a b. b = a"])
      (rule mem.List_law, assumption, assumption, rule sqlite.List_law, assumption, assumption, rule postgres.List_law, assumption, assumption)
  show "store_inv s' \<and> store_view s' = store_view s" if "Close_op store_ops s = (r1, s')"
    by (rule law [OF that [unfolded store_ops_sel], where R = "\<lambda>a b. b = a"])
      (rule mem.Close_law, assumption, assumption, rule sqlite.Close_law, assumption, assumption, rule postgres.Close_law, assumption, assumption)
  assume q: "user_queue q"
  show "store_inv s' \<and> accepts q [mID msg] r1 (store_view s) (store_view s')" if "Enqueue_op store_ops t q msg s = (r1, s')"
    by (rule law [OF that [unfolded store_ops_sel], where R = "accepts q [mID msg] r1"])
      (rule mem.Enqueue_law [OF _ q], assumption, assumption, rule sqlite.Enqueue_law [OF _ q], assumption, assumption, rule postgres.Enqueue_law [OF _ q], assumption, assumption)
  show "store_inv s' \<and> accepts q (map mID msgs) r1 (store_view s) (store_view s')" if "EnqueueBatch_op store_ops t q msgs s = (r1, s')"
    by (rule law [OF that [unfolded store_ops_sel], where R = "accepts q (map mID msgs) r1"])
      (rule mem.EnqueueBatch_law [OF _ q], assumption, assumption, rule sqlite.EnqueueBatch_law [OF _ q], assumption, assumption, rule postgres.EnqueueBatch_law [OF _ q], assumption, assumption)
  show "store_inv s' \<and> out \<noteq> [] \<and> int (length out) \<le> limit \<and> mset (map mID out) \<subseteq># aPend (store_view s) q \<and>
      store_view s' = a_Dequeue q (map mID out) (store_view s)"
    if l: "0 < limit" and that: "Dequeue_op store_ops t q limit s = (Inr out, s')"
    by (rule law [OF that [unfolded store_ops_sel], where R = "\<lambda>a b. out \<noteq> [] \<and> int (length out) \<le> limit \<and>
        mset (map mID out) \<subseteq># aPend a q \<and> b = a_Dequeue q (map mID out) a"])
      (rule mem.Dequeue_ok [OF _ q l], assumption, assumption, rule sqlite.Dequeue_ok [OF _ q l], assumption, assumption, rule postgres.Dequeue_ok [OF _ q l], assumption, assumption)
  show "store_inv s' \<and> store_view s' = store_view s"
    if l: "0 < limit" and that: "Dequeue_op store_ops t q limit s = (Inl e1, s')"
    by (rule law [OF that [unfolded store_ops_sel], where R = "\<lambda>a b. b = a"])
      (rule mem.Dequeue_err [OF _ q l], assumption, assumption, rule sqlite.Dequeue_err [OF _ q l], assumption, assumption, rule postgres.Dequeue_err [OF _ q l], assumption, assumption)
  show "store_inv s' \<and> store_view s' = on_ok r1 (a_AckBatch q [i] (store_view s)) (store_view s)" if "Ack_op store_ops q i s = (r1, s')"
    by (rule law [OF that [unfolded store_ops_sel], where R = "\<lambda>a b. b = on_ok r1 (a_AckBatch q [i] a) a"])
      (rule mem.Ack_law [OF _ q], assumption, assumption, rule sqlite.Ack_law [OF _ q], assumption, assumption, rule postgres.Ack_law [OF _ q], assumption, assumption)
  show "store_inv s' \<and> store_view s' = on_ok r1 (a_AckBatch q is (store_view s)) (store_view s)" if "AckBatch_op store_ops q is s = (r1, s')"
    by (rule law [OF that [unfolded store_ops_sel], where R = "\<lambda>a b. b = on_ok r1 (a_AckBatch q is a) a"])
      (rule mem.AckBatch_law [OF _ q], assumption, assumption, rule sqlite.AckBatch_law [OF _ q], assumption, assumption, rule postgres.AckBatch_law [OF _ q], assumption, assumption)
  show "store_inv s' \<and> store_view s' = on_ok r1 (a_Retry q (mID msg) (store_view s)) (store_view s)"
    if "mID msg \<in> aInfl (store_view s) q" "Retry_op store_ops t q msg e s = (r1, s')"
    by (rule dispatch_law [OF that(2) [unfolded store_ops_sel] inv, where P = "\<lambda>a. mID msg \<in> aInfl a q", OF that(1)])
      (rule mem.Retry_law [OF _ q], assumption+, rule sqlite.Retry_law [OF _ q], assumption+, rule postgres.Retry_law [OF _ q], assumption+)
  show "store_inv s' \<and> store_view s' = on_ok r1 (a_DeadLetter q (mID msg) nid (store_view s)) (store_view s)"
    if "mID msg \<in> aInfl (store_view s) q" "DeadLetter_op store_ops t nid q msg e s = (r1, s')"
    by (rule dispatch_law [OF that(2) [unfolded store_ops_sel] inv, where P = "\<lambda>a. mID msg \<in> aInfl a q", OF that(1)])
      (rule mem.DeadLetter_law [OF _ q], assumption+, rule sqlite.DeadLetter_law [OF _ q], assumption+, rule postgres.DeadLetter_law [OF _ q], assumption+)
  show "store_inv s' \<and> (\<forall>u. r1 = Inr u \<longrightarrow> i \<in># aDead (store_view s) q) \<and> store_view s' = on_ok r1 (a_Replay q i (store_view s)) (store_view s)"
    if "Replay_op store_ops t q i s = (r1, s')"
    by (rule law [OF that [unfolded store_ops_sel], where R = "\<lambda>a b. (\<forall>u. r1 = Inr u \<longrightarrow> i \<in># aDead a q) \<and> b = on_ok r1 (a_Replay q i a) a"])
      (rule mem.Replay_law [OF _ q], assumption, assumption, rule sqlite.Replay_law [OF _ q], assumption, assumption, rule postgres.Replay_law [OF _ q], assumption, assumption)
  show "store_inv s' \<and> store_view s' = store_view s \<and> (\<forall>st. r2 = Inr st \<longrightarrow> qDepth st = size (aPend (store_view s) q))"
    if "Stats_op store_ops q s = (r2, s')"
    by (rule law [OF that [unfolded store_ops_sel], where R = "\<lambda>a b. b = a \<and> (\<forall>st. r2 = Inr st \<longrightarrow> qDepth st = size (aPend a q))"])
      (rule mem.Stats_law [OF _ q], assumption, assumption, rule sqlite.Stats_law [OF _ q], assumption, assumption, rule postgres.Stats_law [OF _ q], assumption, assumption)
qed

lemma store_schedule_sel:
  "CreateSchedule_op (store_schedule_ops ks jsonb collate) sc = dispatch (CreateSchedule_op (memory_schedule_ops ks) sc)
     (CreateSchedule_op sqlite_schedule_ops sc) (CreateSchedule_op (postgres_schedule_ops jsonb collate) sc)"
  "DeleteSchedule_op (store_schedule_ops ks jsonb collate) jid = dispatch (DeleteSchedule_op (memory_schedule_ops ks) jid)
     (DeleteSchedule_op sqlite_schedule_ops jid) (DeleteSchedule_op (postgres_schedule_ops jsonb collate) jid)"
  "ListSchedules_op (store_schedule_ops ks jsonb collate) qn = dispatch (ListSchedules_op (memory_schedule_ops ks) qn)
     (ListSchedules_op sqlite_schedule_ops qn) (ListSchedules_op (postgres_schedule_ops jsonb collate) qn)"
  "DueSchedules_op (store_schedule_ops ks jsonb collate) now l = dispatch (DueSchedules_op (memory_schedule_ops ks) now l)
     (DueSchedules_op sqlite_schedule_ops now l) (DueSchedules_op (postgres_schedule_ops jsonb collate) now l)"
  "RunSchedule_op (store_schedule_ops ks jsonb collate) clk n sc now nxt = dispatch (RunSchedule_op (memory_schedule_ops ks) clk n sc now nxt)
     (RunSchedule_op sqlite_schedule_ops clk n sc now nxt) (RunSchedule_op (postgres_schedule_ops jsonb collate) clk n sc now nxt)"
  by (simp_all add: store_schedule_ops_def memory_schedule_ops_def sqlite_schedule_ops_def postgres_schedule_ops_def)

interpretation anys: schedule_store store_ops store_inv store_view "store_schedule_ops ks jsonb collate" for ks jsonb collate
proof unfold_locales
  fix s s' :: store and now l r3 sc clk nid nxt r4 r5 jid qn
  assume inv: "store_inv s"
  note law = dispatch_law [OF _ inv, where P = "\<lambda>_. True", OF _ TrueI]
  show "store_inv s' \<and> store_view s' = store_view s" if "CreateSchedule_op (store_schedule_ops ks jsonb collate) sc s = (r5, s')"
    by (rule law [OF that [unfolded store_schedule_sel], where R = "\<lambda>a b. b = a"])
      (rule mems.CreateSchedule_law, assumption, assumption, rule sqlites.CreateSchedule_law, assumption, assumption,
       rule postgress.CreateSchedule_law, assumption, assumption)
  show "store_inv s' \<and> store_view s' = store_view s" if "DeleteSchedule_op (store_schedule_ops ks jsonb collate) jid s = (r5, s')"
    by (rule law [OF that [unfolded store_schedule_sel], where R = "\<lambda>a b. b = a"])
      (rule mems.DeleteSchedule_law, assumption, assumption, rule sqlites.DeleteSchedule_law, assumption, assumption,
       rule postgress.DeleteSchedule_law, assumption, assumption)
  show "store_inv s' \<and> store_view s' = store_view s" if "ListSchedules_op (store_schedule_ops ks jsonb collate) qn s = (r3, s')"
    by (rule law [OF that [unfolded store_schedule_sel], where R = "\<lambda>a b. b = a"])
      (rule mems.ListSchedules_law, assumption, assumption, rule sqlites.ListSchedules_law, assumption, assumption,
       rule postgress.ListSchedules_law, assumption, assumption)
  show "store_inv s' \<and> store_view s' = store_view s" if "DueSchedules_op (store_schedule_ops ks jsonb collate) now l s = (r3, s')"
    by (rule law [OF that [unfolded store_schedule_sel], where R = "\<lambda>a b. b = a"])
      (rule mems.DueSchedules_law, assumption, assumption, rule sqlites.DueSchedules_law, assumption, assumption,
       rule postgress.DueSchedules_law, assumption, assumption)
  show "store_inv s' \<and> (store_view s' = store_view s \<or> store_view s' = a_Enqueue (sQueue sc) nid (store_view s))"
    if q: "user_queue (sQueue sc)" and that: "RunSchedule_op (store_schedule_ops ks jsonb collate) clk nid sc now nxt s = (r4, s')"
    by (rule law [OF that [unfolded store_schedule_sel], where R = "\<lambda>a b. b = a \<or> b = a_Enqueue (sQueue sc) nid a"])
      (rule mems.RunSchedule_law [OF _ q], assumption, assumption, rule sqlites.RunSchedule_law [OF _ q], assumption, assumption,
       rule postgress.RunSchedule_law [OF _ q], assumption, assumption)
qed

text \<open>
  No message is with two workers at once, on every backend. Take the broker on a memory, a SQLite or
  a PostgreSQL backend in any consistent state, and any interleaving of its goroutines with calls of
  clients, any call of the backend possibly failing. In every state reached, the messages in the
  hands of the dispatcher and of the workers of a queue, together with those whose acknowledgement is
  still owed, are pairwise different; the backend holds each of them as in flight, and none of them
  as pending, so no \<open>Dequeue\<close> can return it a second time.
\<close>

lemma any_no_duplicate:
  assumes "sys_reachable store_ops (store_schedule_ops ks jsonb collate) store_view opts w y"
    "store_inv (optStorage opts)" "exclusive (store_view (optStorage opts))"
  shows "distinct (held y q @ owed (sy_b y) q) \<and>
    set (held y q @ owed (sy_b y) q) \<subseteq> aInfl (store_view (b_store (sy_b y))) q \<and>
    (\<forall>i \<in> set (held y q @ owed (sy_b y) q). i \<notin># aPend (store_view (b_store (sy_b y))) q)"
proof -
  have own: "own_inv store_inv store_view y" by (rule anys.own_reachable [OF assms])
  then have led: "ledger_ok (store_view (b_store (sy_b y))) (owes (sy_b y)) (\<lambda>q. mset (held y q))" by (simp add: own_inv_def)
  from anys.ledger_distinct [OF led, of q] exclusiveD(1) [OF ledger_exclusive [OF led]]
  show ?thesis by (metis (no_types, lifting) subsetD)
qed

end
