(* ===== verification/Queue_API.thy ===== *)
theory Queue_API
  imports Backends Schema_Upgrade Naming SQL_Atomicity
begin

text \<open>
  Package \<open>shoebox\<close>, files \<open>shoebox.go\<close>, \<open>options.go\<close>, \<open>task.go\<close>, \<open>middleware.go\<close> and \<open>metrics.go\<close>: the
  public interface.

  A \<open>Queue\<close> is its broker, the registry its metrics are registered with and the registry it was
  given. The databases outside the process are the record \<open>env\<close>: what a path or a DSN leads to, the
  schema of the database with the behaviour of its driver while it is opened (\<open>sdb\<close>) and its rows.
  Log output is not modelled. The JSON codec of the standard library is a parameter of the task
  functions.
\<close>

subsection \<open>Options\<close>

definition Memory :: int where "Memory = 0"
definition SQLite :: int where "SQLite = 1"
definition Postgres :: int where "Postgres = 2"

definition Low :: int where "Low = 0"
definition Normal :: int where "Normal = 1"
definition High :: int where "High = 2"

definition DedupePolicyUnboundedTTL :: string where "DedupePolicyUnboundedTTL = ''unbounded_ttl''"
definition DedupePolicyBoundedLRU :: string where "DedupePolicyBoundedLRU = ''bounded_lru''"
definition DedupePolicyDurable :: string where "DedupePolicyDurable = ''durable''"

record BatchOptions =
  boEnabled :: bool
  boAckBatchSize :: int
  boAckFlushInterval :: duration

text \<open>A registry is known by its address; \<open>None\<close> is the nil pointer.\<close>

record Options =
  qoStorage :: int
  qoPath :: string
  qoDSN :: string
  qoSchema :: string
  qoConcurrency :: int
  qoMetricsRegistry :: "nat option"
  qoDedupe :: dedupe_options
  qoBatching :: BatchOptions

record EnqueueOptions =
  eoDelay :: duration
  eoSchedule :: time
  eoDedupeKey :: string
  eoPriority :: int
  eoMetadata :: metadata

type_synonym EnqueueOpt = "EnqueueOptions \<Rightarrow> EnqueueOptions"

record EnqueueBatchItem =
  ebPayload :: "byte list"
  ebOptions :: "EnqueueOpt list"

record PeriodicJob =
  pjID :: string
  pjQueue :: string
  pjPayload :: "byte list"
  pjEvery :: duration
  pjStartAt :: time
  pjEnabled :: bool

definition Delay :: "duration \<Rightarrow> EnqueueOpt" where
  "Delay d = (\<lambda>eo. eo\<lparr>eoDelay := d\<rparr>)"

definition Schedule :: "time \<Rightarrow> EnqueueOpt" where
  "Schedule t = (\<lambda>eo. eo\<lparr>eoSchedule := t\<rparr>)"

definition DedupeKey :: "string \<Rightarrow> EnqueueOpt" where
  "DedupeKey k = (\<lambda>eo. eo\<lparr>eoDedupeKey := k\<rparr>)"

definition WithMetadata :: "metadata \<Rightarrow> EnqueueOpt" where
  "WithMetadata m = (\<lambda>eo. eo\<lparr>eoMetadata := m\<rparr>)"

definition WithPriority :: "int \<Rightarrow> EnqueueOpt" where
  "WithPriority p = (\<lambda>eo. eo\<lparr>eoPriority := p\<rparr>)"

definition zero_options :: EnqueueOptions where
  "zero_options = \<lparr>eoDelay = 0, eoSchedule = 0, eoDedupeKey = '''', eoPriority = 0, eoMetadata = Map.empty\<rparr>"

fun apply_loop :: "EnqueueOpt list \<Rightarrow> EnqueueOptions \<Rightarrow> EnqueueOptions" where
  "apply_loop [] eo = eo"
| "apply_loop (opt # opts) eo = apply_loop opts (opt eo)"

definition applyEnqueueOptions :: "EnqueueOpt list \<Rightarrow> EnqueueOptions" where
  "applyEnqueueOptions opts = apply_loop opts zero_options"

definition broker_opts :: "EnqueueOptions \<Rightarrow> enqueue_opts" where
  "broker_opts eo = \<lparr>oDelay = eoDelay eo, oSchedule = eoSchedule eo, oPriority = eoPriority eo,
     oDedupeKey = eoDedupeKey eo, oMetadata = eoMetadata eo\<rparr>"

subsection \<open>Metrics\<close>

text \<open>
  A \<open>Registerer\<close> is an interface value: nil, or a registry. A nil \<open>*prometheus.Registry\<close> in it is not
  the nil interface. The Prometheus client is a parameter: \<open>mreg r n\<close> registers the collector named \<open>n\<close>
  with the registry \<open>r\<close>, a panic is an \<open>Inl\<close>, \<open>'r\<close> is what the registries of the process hold. A set of
  metrics is known by the registry it was registered with.
\<close>

datatype registry = DefaultRegistry | CustomRegistry nat | FreshRegistry nat

datatype registerer = NilRegisterer | NilRegistry | Registerer registry

type_synonym 'r must_register = "registry \<Rightarrow> string \<Rightarrow> 'r \<Rightarrow> unit result \<times> 'r"

definition metric_names :: "string \<Rightarrow> string list" where
  "metric_names namespace = map (\<lambda>n. namespace @ ''_'' @ n)
     [''messages_processed_total'', ''messages_errors_total'', ''messages_retries_total'', ''messages_dead_total'',
      ''queue_depth'', ''handler_duration_seconds'', ''dedupe_hits_total'', ''dedupe_misses_total'',
      ''dedupe_evictions_total'', ''dedupe_entries'']"

fun register_all :: "'r must_register \<Rightarrow> registry \<Rightarrow> string list \<Rightarrow> 'r \<Rightarrow> unit result \<times> 'r" where
  "register_all mreg r [] rs = (Inr (), rs)"
| "register_all mreg r (n # ns) rs =
     (case mreg r n rs of (Inl p, rs) \<Rightarrow> (Inl p, rs) | (Inr _, rs) \<Rightarrow> register_all mreg r ns rs)"

text \<open>\<open>fresh\<close> is the address of the registry \<open>prometheus.NewRegistry\<close> would make.\<close>

definition NewMetrics :: "'r must_register \<Rightarrow> nat \<Rightarrow> string \<Rightarrow> registerer \<Rightarrow> 'r \<Rightarrow> registry result \<times> 'r" where
  "NewMetrics mreg fresh namespace rg rs =
     (let rg = (if rg = NilRegisterer then Registerer DefaultRegistry else rg);
          rg = (if rg = NilRegistry then Registerer (FreshRegistry fresh) else rg);
          namespace = (if namespace = '''' then ''shoebox'' else namespace)
      in case rg of
           Registerer r \<Rightarrow>
             (case register_all mreg r (metric_names namespace) rs of
                (Inl p, rs) \<Rightarrow> (Inl p, rs) | (Inr _, rs) \<Rightarrow> (Inr r, rs))
         | _ \<Rightarrow> (Inl (GoPanic ''nil pointer dereference''), rs))"

subsection \<open>Construction\<close>

record env =
  env_disk :: "string \<Rightarrow> sdb \<times> sqlite"
  env_server :: "string \<Rightarrow> string \<Rightarrow> sdb \<times> postgres"

text \<open>
  The rows the constructor of a SQL backend leaves: it opens the schema, and its last statement makes
  the deliveries a crashed process left in processing pending again.
\<close>

definition finish_open :: "unit outcome \<times> sdb \<Rightarrow> unit result \<times> ('t, 'd) db \<Rightarrow> ('t, 'd) db outcome" where
  "finish_open r d =
     (case fst r of
        Done _ \<Rightarrow> (case d of (Inr _, s) \<Rightarrow> Done s | (Inl e, _) \<Rightarrow> Failed e)
      | Failed e \<Rightarrow> Failed e
      | Blocked \<Rightarrow> Blocked)"

definition open_sqlite :: "string \<Rightarrow> sdb \<times> sqlite \<Rightarrow> sqlite outcome" where
  "open_sqlite path d = finish_open (NewSQLite path (fst d)) (sqlite_reclaim_all (crash (snd d)))"

definition open_postgres :: "string \<Rightarrow> sdb \<times> postgres \<Rightarrow> postgres outcome" where
  "open_postgres schema d = finish_open (NewPostgres [schema] (fst d)) (pg_reclaim_all (crash (snd d)))"

definition map_outcome :: "('a \<Rightarrow> 'b) \<Rightarrow> 'a outcome \<Rightarrow> 'b outcome" where
  "map_outcome f r = (case r of Done x \<Rightarrow> Done (f x) | Failed e \<Rightarrow> Failed e | Blocked \<Rightarrow> Blocked)"

definition buildStorage :: "env \<Rightarrow> Options \<Rightarrow> store outcome" where
  "buildStorage env opts =
     (if qoStorage opts = Memory then Done (MemoryStore NewMemory)
      else if qoStorage opts = SQLite
        then (if qoPath opts = '''' then Failed (ErrMsg ''shoebox: SQLite storage requires Options.Path'')
              else map_outcome SQLiteStore (open_sqlite (qoPath opts) (env_disk env (qoPath opts))))
      else if qoStorage opts = Postgres
        then (if qoDSN opts = '''' then Failed (ErrMsg ''shoebox: Postgres storage requires Options.DSN'')
              else map_outcome PostgresStore
                (open_postgres (qoSchema opts) (env_server env (qoDSN opts) (qoSchema opts))))
      else Failed (ErrMsg (''shoebox: unknown storage kind '' @ FormatInt (qoStorage opts))))"

record 'w Queue =
  q_b :: "(store, 'w) broker"
  q_metrics :: registry
  q_registry :: "nat option"

definition normalize_options :: "Options \<Rightarrow> Options" where
  "normalize_options opts =
     (let opts = (if qoConcurrency opts \<le> 0 then opts\<lparr>qoConcurrency := 4\<rparr> else opts);
          ba = qoBatching opts
      in if boEnabled ba
         then opts\<lparr>qoBatching := ba\<lparr>boAckBatchSize := (if boAckBatchSize ba \<le> 0 then 50 else boAckBatchSize ba),
                boAckFlushInterval := (if sint (boAckFlushInterval ba) \<le> 0 then 10 * millisecond else boAckFlushInterval ba)\<rparr>\<rparr>
         else opts\<lparr>qoBatching := ba\<lparr>boAckBatchSize := 0, boAckFlushInterval := 0\<rparr>\<rparr>)"

definition as_registerer :: "nat option \<Rightarrow> registerer" where
  "as_registerer r = (case r of None \<Rightarrow> NilRegistry | Some a \<Rightarrow> Registerer (CustomRegistry a))"

definition queue_options :: "store \<Rightarrow> Options \<Rightarrow> store options" where
  "queue_options store opts =
     \<lparr>optStorage = store, optScheduleStore = True, optConcurrency = qoConcurrency opts,
      optDedupe = qoDedupe opts, optMetrics = True,
      optDurableDedupe = (doPolicy (qoDedupe opts) = DedupePolicyDurable),
      optAckBatchSize = boAckBatchSize (qoBatching opts),
      optAckFlushInterval = boAckFlushInterval (qoBatching opts)\<rparr>"

definition New_Queue :: "env \<Rightarrow> 'r must_register \<Rightarrow> nat \<Rightarrow> Options \<Rightarrow> 'r \<Rightarrow> 'w Queue outcome \<times> 'r" where
  "New_Queue env mreg fresh opts rs =
     (let opts = normalize_options opts; policy = doPolicy (qoDedupe opts)
      in if policy \<noteq> '''' \<and> policy \<noteq> DedupePolicyUnboundedTTL \<and> policy \<noteq> DedupePolicyBoundedLRU \<and> policy \<noteq> DedupePolicyDurable
         then (Failed (ErrMsg (''shoebox: unsupported dedupe policy '' @ strconv_Quote policy)), rs)
         else if policy = DedupePolicyDurable \<and> qoStorage opts \<noteq> Postgres
         then (Failed (ErrMsg ''shoebox: durable dedupe requires Postgres storage''), rs)
         else case buildStorage env opts of
                Failed e \<Rightarrow> (Failed e, rs)
              | Blocked \<Rightarrow> (Blocked, rs)
              | Done store \<Rightarrow>
                  (case NewMetrics mreg fresh '''' (as_registerer (qoMetricsRegistry opts)) rs of
                     (Inl p, rs) \<Rightarrow> (Failed p, rs)
                   | (Inr m, rs) \<Rightarrow>
                       (Done \<lparr>q_b = New (queue_options store opts), q_metrics = m, q_registry = qoMetricsRegistry opts\<rparr>, rs)))"

subsection \<open>Methods\<close>

definition Handle :: "string \<Rightarrow> 'w HandlerFunc \<Rightarrow> handler_options list \<Rightarrow> 'w Queue \<Rightarrow> bool \<times> 'w Queue" where
  "Handle queue h opts q =
     (let ho = (case opts of [] \<Rightarrow> \<lparr>hoMaxRetries = 5, hoBackoff = None, hoTimeout = 0\<rparr> | h0 # _ \<Rightarrow> h0);
          ho = (if hoMaxRetries ho < 0 then ho\<lparr>hoMaxRetries := 0\<rparr> else ho);
          ho = (if hoBackoff ho = None then ho\<lparr>hoBackoff := Some default_backoff\<rparr> else ho);
          (started, b) = Register queue h ho (q_b q)
      in (started, q\<lparr>q_b := b\<rparr>))"

definition invalid_name :: "string \<Rightarrow> err" where
  "invalid_name queue = ErrMsg (''shoebox: invalid queue name '' @ strconv_Quote queue)"

definition Enqueue :: "time \<Rightarrow> time \<Rightarrow> time \<Rightarrow> string \<Rightarrow> string \<Rightarrow> byte list \<Rightarrow> EnqueueOpt list \<Rightarrow> 'w Queue \<Rightarrow> unit result \<times> 'w Queue" where
  "Enqueue now tD tS nid queue payload opts q =
     (if \<not> ValidQueueName queue then (Inl (invalid_name queue), q)
      else let eo = applyEnqueueOptions opts;
               (r, b) = b_Enqueue store_ops now tD tS nid queue payload (broker_opts eo) (q_b q)
           in (r, q\<lparr>q_b := b\<rparr>))"

definition EnqueueBatch ::
  "time \<Rightarrow> time \<Rightarrow> string \<Rightarrow> (EnqueueBatchItem \<times> time \<times> string) list \<Rightarrow> 'w Queue \<Rightarrow> unit result \<times> 'w Queue" where
  "EnqueueBatch now tS queue items q =
     (if \<not> ValidQueueName queue then (Inl (invalid_name queue), q)
      else if items = [] then (Inr (), q)
      else let batch = map (\<lambda>(item, t). (\<lparr>biPayload = ebPayload item, biOpts = broker_opts (applyEnqueueOptions (ebOptions item))\<rparr>, t)) items;
               (r, b) = b_EnqueueBatch store_ops now tS queue batch (q_b q)
           in (r, q\<lparr>q_b := b\<rparr>))"

definition Use_Queue :: "'w Middleware list \<Rightarrow> 'w Queue \<Rightarrow> 'w Queue" where
  "Use_Queue mw q = q\<lparr>q_b := Use mw (q_b q)\<rparr>"

definition Healthy_Queue :: "'w Queue \<Rightarrow> bool" where
  "Healthy_Queue q = Healthy (q_b q)"

definition Stats :: "string \<Rightarrow> 'w Queue \<Rightarrow> queue_stats result \<times> 'w Queue" where
  "Stats queue q = (let (r, b) = b_Stats store_ops queue (q_b q) in (r, q\<lparr>q_b := b\<rparr>))"

text \<open>\<open>promhttp.Handler\<close> serves the default registry.\<close>

definition MetricsHandler :: "'w Queue \<Rightarrow> registry" where
  "MetricsHandler q = (case q_registry q of None \<Rightarrow> DefaultRegistry | Some a \<Rightarrow> CustomRegistry a)"

text \<open>
  \<open>set_depth\<close> is \<open>Depth.WithLabelValues(queue).Set\<close> on the state \<open>'g\<close> of the gauges; \<open>ks\<close> is the order in
  which \<open>Queues\<close> lists the map.
\<close>

definition Queues_Queue :: "string list \<Rightarrow> 'w Queue \<Rightarrow> string list" where
  "Queues_Queue ks q = Queues ks (q_b q)"

definition Store :: "'w Queue \<Rightarrow> store" where
  "Store q = b_store (q_b q)"

fun depth_loop :: "(string \<Rightarrow> nat \<Rightarrow> 'g \<Rightarrow> 'g) \<Rightarrow> string list \<Rightarrow> 'w Queue \<Rightarrow> 'g \<Rightarrow> 'g \<times> 'w Queue" where
  "depth_loop set_depth [] q g = (g, q)"
| "depth_loop set_depth (queue # qs) q g =
     (case Stats queue q of
        (Inl e, q) \<Rightarrow> depth_loop set_depth qs q g
      | (Inr st, q) \<Rightarrow> depth_loop set_depth qs q (set_depth queue (qDepth st) g))"

definition UpdateDepthGauges :: "(string \<Rightarrow> nat \<Rightarrow> 'g \<Rightarrow> 'g) \<Rightarrow> string list \<Rightarrow> 'w Queue \<Rightarrow> 'g \<Rightarrow> 'g \<times> 'w Queue" where
  "UpdateDepthGauges set_depth ks q g = depth_loop set_depth (Queues_Queue ks q) q g"

subsection \<open>Periodic jobs\<close>

fun exists_loop :: "string \<Rightarrow> schedule list \<Rightarrow> bool" where
  "exists_loop jid [] = False"
| "exists_loop jid (e # es) = (if sID e = jid then True else exists_loop jid es)"

definition periodic_schedule :: "time \<Rightarrow> PeriodicJob \<Rightarrow> schedule" where
  "periodic_schedule now job =
     (let start = (if IsZero (pjStartAt job) then now else pjStartAt job)
      in \<lparr>sID = pjID job, sQueue = pjQueue job, sPayload = pjPayload job, sEnqueueOptions = [],
          sInterval = pjEvery job, sNextRunAt = start, sEnabled = pjEnabled job,
          sCreatedAt = now, sUpdatedAt = now\<rparr>)"

definition RegisterPeriodic_Queue :: "store schedule_ops \<Rightarrow> time \<Rightarrow> PeriodicJob \<Rightarrow> 'w Queue \<Rightarrow> unit result \<times> 'w Queue" where
  "RegisterPeriodic_Queue sops now job q =
     (if pjID job = '''' then (Inl (ErrMsg ''shoebox: periodic job ID is required''), q)
      else if \<not> ValidQueueName (pjQueue job) then (Inl (invalid_name (pjQueue job)), q)
      else if sint (pjEvery job) \<le> 0 then (Inl (ErrMsg ''shoebox: periodic interval must be positive''), q)
      else case PeriodicJobs sops '''' (q_b q) of
             (Inl e, b) \<Rightarrow> (Inl e, q\<lparr>q_b := b\<rparr>)
           | (Inr schedules, b) \<Rightarrow>
               if exists_loop (pjID job) schedules then (Inl ErrScheduleExists, q\<lparr>q_b := b\<rparr>)
               else let (r, b) = RegisterPeriodic sops (periodic_schedule now job) b in (r, q\<lparr>q_b := b\<rparr>))"

definition RemovePeriodic_Queue :: "store schedule_ops \<Rightarrow> string \<Rightarrow> 'w Queue \<Rightarrow> unit result \<times> 'w Queue" where
  "RemovePeriodic_Queue sops jid q =
     (if jid = '''' then (Inl (ErrMsg ''shoebox: periodic job ID is required''), q)
      else let (r, b) = RemovePeriodic sops jid (q_b q) in (r, q\<lparr>q_b := b\<rparr>))"

definition periodic_job :: "schedule \<Rightarrow> PeriodicJob" where
  "periodic_job s = \<lparr>pjID = sID s, pjQueue = sQueue s, pjPayload = sPayload s, pjEvery = sInterval s,
     pjStartAt = sNextRunAt s, pjEnabled = sEnabled s\<rparr>"

definition PeriodicJobs_Queue :: "store schedule_ops \<Rightarrow> 'w Queue \<Rightarrow> PeriodicJob list result \<times> 'w Queue" where
  "PeriodicJobs_Queue sops q =
     (case PeriodicJobs sops '''' (q_b q) of
        (Inl e, b) \<Rightarrow> (Inl e, q\<lparr>q_b := b\<rparr>)
      | (Inr schedules, b) \<Rightarrow> (Inr (map periodic_job schedules), q\<lparr>q_b := b\<rparr>))"

definition Pause_Queue :: "string \<Rightarrow> 'w Queue \<Rightarrow> 'w Queue" where
  "Pause_Queue queue q = q\<lparr>q_b := Pause queue (q_b q)\<rparr>"

definition Resume_Queue :: "string \<Rightarrow> 'w Queue \<Rightarrow> bool \<times> 'w Queue" where
  "Resume_Queue queue q = (let (started, b) = Resume queue (q_b q) in (started, q\<lparr>q_b := b\<rparr>))"

text \<open>
  \<open>Shutdown\<close> and \<open>Drain\<close> wait for other goroutines between the parts of the broker's methods, which
  \<open>Broker_System\<close> interleaves; the methods of \<open>Queue\<close> add nothing to them.
\<close>

definition Shutdown_Queue_begin :: "'w Queue \<Rightarrow> unit result \<times> 'w Queue" where
  "Shutdown_Queue_begin q = (let (r, b) = Shutdown_begin (q_b q) in (r, q\<lparr>q_b := b\<rparr>))"

definition Drain_Queue_begin :: "string \<Rightarrow> 'w Queue \<Rightarrow> nat option \<times> 'w Queue" where
  "Drain_Queue_begin queue q = (let (c, b) = Drain_begin queue (q_b q) in (c, q\<lparr>q_b := b\<rparr>))"

subsection \<open>Middleware\<close>

text \<open>
  The contexts a chain of middleware makes are made at the same instant: a timeout keeps the earlier
  deadline. \<open>bump\<close> is what a call of a Prometheus collector does to the user's world.
\<close>

datatype metric_event = ObserveDuration string | IncErrors string | IncProcessed string

definition LoggingMiddleware :: "'w Middleware" where
  "LoggingMiddleware nxt = (\<lambda>ctx m w. nxt ctx m w)"

definition WithTimeout :: "hctx \<Rightarrow> duration \<Rightarrow> hctx" where
  "WithTimeout ctx d =
     (case ctx_timeout ctx of
        None \<Rightarrow> ctx\<lparr>ctx_timeout := Some d\<rparr>
      | Some c \<Rightarrow> ctx\<lparr>ctx_timeout := Some (if sint c \<le> sint d then c else d)\<rparr>)"

definition TimeoutMiddleware :: "duration \<Rightarrow> 'w Middleware" where
  "TimeoutMiddleware d nxt = (\<lambda>ctx m w. nxt (WithTimeout ctx d) m w)"

definition errPanic :: err where
  "errPanic = ErrMsg ''shoebox: handler panicked''"

definition RecoveryMiddleware :: "'w Middleware" where
  "RecoveryMiddleware nxt =
     (\<lambda>ctx m w. case nxt ctx m w of (Inl p, w) \<Rightarrow> (Inr (Some errPanic), w) | (Inr r, w) \<Rightarrow> (Inr r, w))"

definition MetricsMiddleware :: "(metric_event \<Rightarrow> 'w \<Rightarrow> 'w) \<Rightarrow> registry option \<Rightarrow> 'w Middleware result" where
  "MetricsMiddleware bump metrics =
     (case metrics of
        None \<Rightarrow> Inl (GoPanic ''shoebox: MetricsMiddleware requires a non-nil *Metrics'')
      | Some _ \<Rightarrow> Inr (\<lambda>nxt ctx m w.
          case nxt ctx m w of
            (Inl p, w) \<Rightarrow> (Inl p, w)
          | (Inr r, w) \<Rightarrow>
              (let w = bump (ObserveDuration (mQueue m)) w;
                   w = (if r \<noteq> None then bump (IncErrors (mQueue m)) w else bump (IncProcessed (mQueue m)) w)
               in (Inr r, w))))"

subsection \<open>Typed tasks\<close>

text \<open>
  A codec is code of the user or \<open>encoding/json\<close>; \<open>Unmarshal\<close> gets the zero value of the task type and
  returns its error and what it left in the variable. \<open>None\<close> is the nil interface.
\<close>

record 'a TaskCodec =
  Marshal :: "'a \<Rightarrow> byte list result"
  Unmarshal :: "byte list \<Rightarrow> 'a \<Rightarrow> err option \<times> 'a"

definition EnqueueTaskWithCodec ::
  "time \<Rightarrow> time \<Rightarrow> time \<Rightarrow> string \<Rightarrow> string \<Rightarrow> 'a \<Rightarrow> 'a TaskCodec option \<Rightarrow> EnqueueOpt list \<Rightarrow> 'w Queue \<Rightarrow>
   unit result \<times> 'w Queue" where
  "EnqueueTaskWithCodec now tD tS nid queue task codec opts q =
     (case codec of
        None \<Rightarrow> (Inl ErrNilTaskCodec, q)
      | Some c \<Rightarrow>
          (case Marshal c task of
             Inl err \<Rightarrow> (Inl err, q)
           | Inr payload \<Rightarrow> Enqueue now tD tS nid queue payload opts q))"

type_synonym ('a, 'w) TaskHandler = "hctx \<Rightarrow> 'a \<Rightarrow> 'w \<Rightarrow> err option result \<times> 'w"

definition task_handler :: "'a \<Rightarrow> 'a TaskCodec option \<Rightarrow> ('a, 'w) TaskHandler \<Rightarrow> 'w HandlerFunc" where
  "task_handler zero codec handler = (\<lambda>ctx msg w.
     case codec of
       None \<Rightarrow> (Inr (Some ErrNilTaskCodec), w)
     | Some c \<Rightarrow>
         (case Unmarshal c (mPayload msg) zero of
            (Some err, _) \<Rightarrow> (Inr (Some err), w)
          | (None, task) \<Rightarrow> handler ctx task w))"

definition HandleTaskWithCodec ::
  "string \<Rightarrow> 'a \<Rightarrow> 'a TaskCodec option \<Rightarrow> ('a, 'w) TaskHandler \<Rightarrow> handler_options list \<Rightarrow>
   'w Queue \<Rightarrow> bool \<times> 'w Queue" where
  "HandleTaskWithCodec queue zero codec handler opts q = Handle queue (task_handler zero codec handler) opts q"

definition EnqueueTask ::
  "'a TaskCodec \<Rightarrow> time \<Rightarrow> time \<Rightarrow> time \<Rightarrow> string \<Rightarrow> string \<Rightarrow> 'a \<Rightarrow> EnqueueOpt list \<Rightarrow> 'w Queue \<Rightarrow> unit result \<times> 'w Queue" where
  "EnqueueTask json now tD tS nid queue task opts q = EnqueueTaskWithCodec now tD tS nid queue task (Some json) opts q"

definition HandleTask ::
  "'a TaskCodec \<Rightarrow> string \<Rightarrow> 'a \<Rightarrow> ('a, 'w) TaskHandler \<Rightarrow> handler_options list \<Rightarrow> 'w Queue \<Rightarrow> bool \<times> 'w Queue" where
  "HandleTask json queue zero handler opts q = HandleTaskWithCodec queue zero (Some json) handler opts q"

end
