(* ===== verification/Queue_Guarantees.thy ===== *)
theory Queue_Guarantees
  imports Queue_API
begin

text \<open>
  What the public interface guarantees: the queue that \<open>New\<close> returns, the methods as steps of the
  system of goroutines, the recovery middleware, typed tasks from \<open>EnqueueTask\<close> to the handler, periodic
  jobs and the registry the metrics are served from.
\<close>

subsection \<open>A new queue\<close>

lemma exclusive_rows: assumes "key_ok rows" shows "exclusive (rows_view rows)"
  unfolding exclusive_def
proof (intro allI)
  fix q i
  have le: "length (filter (\<lambda>r. rID r = i) rows) \<le> 1"
    using assms by (induction rows) (auto simp: key_ok_def filter_empty_conv dest: image_eqI [OF sym])
  have "places (rows_view rows) q i \<le> length (filter (\<lambda>r. rID r = i) rows)"
    unfolding places_def
    by (induction rows) (auto simp: of_bool_def)
  with le show "places (rows_view rows) q i \<le> 1" by simp
qed

lemma reclaim_frame:
  assumes "andThen (wrap msg (exec (update_messages P f))) (\<lambda>_. ret ()) (crash s) = (r, s')"
  shows "db_work s' = None" "scans_ok s' = scans_ok s"
  using assms
  by (auto simp: andThen_def wrap_def exec_def call_def crash_def ret_def update_messages_def put_def current_def scans_ok_def
      split: prod.splits sum.splits option.splits if_splits)

lemma recovered_ok:
  assumes "recovered (db_main s) (db_main s')" "db_work s' = None" "scans_ok s'" "key_ok (t_messages (db_main s))"
  shows "db_ok s' \<and> (\<forall>q. aInfl (db_view s') q = {})"
  using assms by (simp add: recovered_def db_ok_def key_ok_def db_view_def)

lemma opened_sqlite:
  assumes "open_sqlite path (d, s) = Done s'" "key_ok (t_messages (db_main s))" "scans_ok s"
  shows "recovered (db_main s) (db_main s')" "db_ok s' \<and> (\<forall>q. aInfl (db_view s') q = {})"
proof -
  have r: "sqlite_reclaim_all (crash s) = (Inr (), s')"
    using assms(1) by (auto simp: open_sqlite_def finish_open_def split: outcome.splits prod.splits sum.splits)
  show rec: "recovered (db_main s) (db_main s')"
    using effectI [of sqlite_reclaim_all, OF r] unfolding sqlite_reclaim_all_def by (rule recovered_reclaim)
  show "db_ok s' \<and> (\<forall>q. aInfl (db_view s') q = {})"
    using reclaim_frame [OF r [unfolded sqlite_reclaim_all_def]] assms by (intro recovered_ok [OF rec]) simp_all
qed

lemma opened_postgres:
  assumes "open_postgres schema (d, p) = Done p'" "key_ok (t_messages (db_main p))" "scans_ok p"
  shows "recovered (db_main p) (db_main p')" "db_ok p' \<and> (\<forall>q. aInfl (db_view p') q = {})"
proof -
  have r: "pg_reclaim_all (crash p) = (Inr (), p')"
    using assms(1) by (auto simp: open_postgres_def finish_open_def split: outcome.splits prod.splits sum.splits)
  show rec: "recovered (db_main p) (db_main p')"
    using effectI [of pg_reclaim_all, OF r] unfolding pg_reclaim_all_def by (rule recovered_reclaim)
  show "db_ok p' \<and> (\<forall>q. aInfl (db_view p') q = {})"
    using reclaim_frame [OF r [unfolded pg_reclaim_all_def]] assms by (intro recovered_ok [OF rec]) simp_all
qed

text \<open>The databases that can be opened hold a table with a primary key and answer each scan with every row once.\<close>

definition env_ok :: "env \<Rightarrow> bool" where
  "env_ok env \<longleftrightarrow>
     (\<forall>path. key_ok (t_messages (db_main (snd (env_disk env path)))) \<and> scans_ok (snd (env_disk env path))) \<and>
     (\<forall>dsn schema. key_ok (t_messages (db_main (snd (env_server env dsn schema)))) \<and> scans_ok (snd (env_server env dsn schema)))"

fun kind_of :: "store \<Rightarrow> int" where
  "kind_of (MemoryStore _) = Memory" | "kind_of (SQLiteStore _) = SQLite" | "kind_of (PostgresStore _) = Postgres"

lemma kinds_distinct [simp]: "Memory \<noteq> SQLite" "Memory \<noteq> Postgres" "SQLite \<noteq> Postgres" "SQLite \<noteq> Memory" "Postgres \<noteq> Memory" "Postgres \<noteq> SQLite"
  by (simp_all add: Memory_def SQLite_def Postgres_def)

lemma buildStorage_ok:
  assumes "buildStorage env opts = Done st" "env_ok env"
  shows "kind_of st = qoStorage opts \<and> store_inv st \<and> exclusive (store_view st) \<and> (\<forall>q. aInfl (store_view st) q = {})"
proof (cases st)
  case (MemoryStore m)
  then have "st = MemoryStore NewMemory" "qoStorage opts = Memory"
    using assms by (auto simp: buildStorage_def map_outcome_def split: if_splits outcome.splits)
  moreover have "aInfl (mem_view NewMemory) q = {}" for q by (simp add: mem_view_def NewMemory_def)
  ultimately show ?thesis by (simp add: mem_inv_NewMemory exclusive_NewMemory)
next
  case (SQLiteStore s)
  then have o: "qoStorage opts = SQLite" "open_sqlite (qoPath opts) (env_disk env (qoPath opts)) = Done s"
    using assms by (auto simp: buildStorage_def map_outcome_def split: if_splits outcome.splits)
  obtain d s0 where e: "env_disk env (qoPath opts) = (d, s0)" by fastforce
  have k: "key_ok (t_messages (db_main s0))" "scans_ok s0" using assms(2) e by (simp_all add: env_ok_def) (metis snd_conv)+
  show ?thesis using opened_sqlite(2) [OF o(2) [unfolded e] k] SQLiteStore o(1)
    by (simp add: db_view_def db_ok_def exclusive_rows)
next
  case (PostgresStore p)
  then have o: "qoStorage opts = Postgres"
      "open_postgres (qoSchema opts) (env_server env (qoDSN opts) (qoSchema opts)) = Done p"
    using assms by (auto simp: buildStorage_def map_outcome_def split: if_splits outcome.splits)
  obtain d p0 where e: "env_server env (qoDSN opts) (qoSchema opts) = (d, p0)" by fastforce
  have k: "key_ok (t_messages (db_main p0))" "scans_ok p0" using assms(2) e by (simp_all add: env_ok_def) (metis snd_conv)+
  show ?thesis using opened_postgres(2) [OF o(2) [unfolded e] k] PostgresStore o(1)
    by (simp add: db_view_def db_ok_def exclusive_rows)
qed

lemma normalize_options_sel [simp]:
  "qoStorage (normalize_options opts) = qoStorage opts" "qoDedupe (normalize_options opts) = qoDedupe opts"
  "qoPath (normalize_options opts) = qoPath opts" "qoDSN (normalize_options opts) = qoDSN opts"
  "qoSchema (normalize_options opts) = qoSchema opts" "qoMetricsRegistry (normalize_options opts) = qoMetricsRegistry opts"
  "qoConcurrency (normalize_options opts) > 0"
  by (simp_all add: normalize_options_def Let_def)

lemma normalize_batching:
  "boEnabled (qoBatching opts) \<Longrightarrow> boAckBatchSize (qoBatching (normalize_options opts)) > 0 \<and>
     sint (boAckFlushInterval (qoBatching (normalize_options opts))) > 0"
  "\<not> boEnabled (qoBatching opts) \<Longrightarrow> boAckBatchSize (qoBatching (normalize_options opts)) = 0"
  by (auto simp: normalize_options_def Let_def duration_units)

lemma New_sel [simp]:
  "b_store (New bo) = optStorage bo" "b_ackBatchSize (New bo) = optAckBatchSize bo" "b_durableDedupe (New bo) = optDurableDedupe bo"
  "b_schedules (New bo) = optScheduleStore bo" "b_handlers (New bo) = Map.empty" "\<not> b_closed (New bo)"
  "0 < b_concurrency (New bo)"
  by (simp_all add: New_def Let_def)

lemma New_Queue_DoneE:
  assumes "New_Queue env mreg fresh opts rs = (Done q, rs')"
  obtains st where "buildStorage env (normalize_options opts) = Done st" "q_b q = New (queue_options st (normalize_options opts))"
    "Store q = st" "doPolicy (qoDedupe opts) = DedupePolicyDurable \<longrightarrow> qoStorage opts = Postgres"
    "doPolicy (qoDedupe opts) \<in> {'''', DedupePolicyUnboundedTTL, DedupePolicyBoundedLRU, DedupePolicyDurable}"
    "q_registry q = qoMetricsRegistry opts"
    "q_metrics q = (case qoMetricsRegistry opts of None \<Rightarrow> FreshRegistry fresh | Some a \<Rightarrow> CustomRegistry a)"
proof -
  let ?opts = "normalize_options opts"
  have pol: "doPolicy (qoDedupe opts) \<in> {'''', DedupePolicyUnboundedTTL, DedupePolicyBoundedLRU, DedupePolicyDurable}"
      "doPolicy (qoDedupe opts) = DedupePolicyDurable \<longrightarrow> qoStorage opts = Postgres"
    using assms by (auto simp: New_Queue_def Let_def split: if_splits)
  obtain st where st: "buildStorage env ?opts = Done st"
    using assms by (auto simp: New_Queue_def Let_def split: if_splits outcome.splits)
  have m: "fst (NewMetrics mreg fresh '''' (as_registerer (qoMetricsRegistry opts)) rs) = Inr r \<Longrightarrow>
      r = (case qoMetricsRegistry opts of None \<Rightarrow> FreshRegistry fresh | Some a \<Rightarrow> CustomRegistry a)" for r
    by (auto simp: NewMetrics_def as_registerer_def Let_def split: option.splits prod.splits sum.splits)
  have q: "q_b q = New (queue_options st ?opts)" "q_registry q = qoMetricsRegistry opts"
      "fst (NewMetrics mreg fresh '''' (as_registerer (qoMetricsRegistry opts)) rs) = Inr (q_metrics q)"
    using assms st by (auto simp: New_Queue_def Let_def split: if_splits sum.splits prod.splits)
  show thesis by (rule that [OF st q(1) _ pol(2,1) q(2) m [OF q(3)]]) (simp add: Store_def q(1) queue_options_def)
qed

text \<open>
  C12. What \<open>New\<close> returns. If the databases that can be opened have a primary key on their messages, a
  queue that \<open>New\<close> returns is on the backend that was asked for, whose state satisfies the contract of
  the storage interface with no message in flight; it runs at least one worker per queue, batches
  acknowledgements, with a running flush loop, exactly when that was asked for, and uses durable
  deduplication only on PostgreSQL.
\<close>

theorem New_Queue_wellformed:
  assumes "New_Queue env mreg fresh opts rs = (Done q, rs')" "env_ok env"
  shows "kind_of (Store q) = qoStorage opts \<and> store_inv (Store q) \<and> exclusive (store_view (Store q)) \<and>
    (\<forall>n. aInfl (store_view (Store q)) n = {}) \<and> 0 < b_concurrency (q_b q) \<and>
    (if boEnabled (qoBatching opts) then 0 < b_ackBatchSize (q_b q) \<and> b_ackStop (q_b q) = Some False
     else b_ackBatchSize (q_b q) = 0 \<and> b_ackStop (q_b q) = None) \<and>
    (b_durableDedupe (q_b q) \<longrightarrow> qoStorage opts = Postgres)"
proof -
  from assms(1) obtain st where st: "buildStorage env (normalize_options opts) = Done st"
      "q_b q = New (queue_options st (normalize_options opts))" "Store q = st"
      "doPolicy (qoDedupe opts) = DedupePolicyDurable \<longrightarrow> qoStorage opts = Postgres"
    by (rule New_Queue_DoneE)
  have "b_ackStop (New (queue_options st (normalize_options opts))) = (if boEnabled (qoBatching opts) then Some False else None)"
    using normalize_batching [of opts] by (simp add: New_def queue_options_def Let_def)
  then show ?thesis
    using buildStorage_ok [OF st(1) assms(2)] st(2-4) normalize_batching [of opts]
    by (cases "boEnabled (qoBatching opts)") (simp_all add: queue_options_def)
qed

text \<open>
  An environment for the examples: every path leads to a database in which a crash interrupted a
  delivery, every server to an empty one. A registry refuses a name it already has.
\<close>

definition example_env :: env where
  "example_env = \<lparr>env_disk = (\<lambda>_. (opened empty_schema, crashed_db ''2024'' '''')),
     env_server = (\<lambda>_ _. (opened empty_schema, fresh_db))\<rparr>"

definition set_registry :: "(registry \<Rightarrow> string set) must_register" where
  "set_registry r n rs =
     (if n \<in> rs r then (Inl (GoPanic ''duplicate metrics collector registration attempted''), rs)
      else (Inr (), rs(r := insert n (rs r))))"

definition memory_options :: Options where
  "memory_options = \<lparr>qoStorage = Memory, qoPath = '''', qoDSN = '''', qoSchema = '''', qoConcurrency = 2,
     qoMetricsRegistry = None, qoDedupe = \<lparr>doPolicy = '''', doCapacity = 0\<rparr>,
     qoBatching = \<lparr>boEnabled = True, boAckBatchSize = 2, boAckFlushInterval = second\<rparr>\<rparr>"

definition memory_queue :: "'w Queue" where
  "memory_queue = \<lparr>q_b = New (queue_options (MemoryStore NewMemory) memory_options), q_metrics = FreshRegistry 0, q_registry = None\<rparr>"

lemma env_ok_example: "env_ok example_env"
  by (simp add: env_ok_def example_env_def crashed_db_def fresh_db_def scans_ok_def key_ok_def empty_tables_def)

lemma register_all_fresh:
  "distinct ns \<Longrightarrow> \<forall>n \<in> set ns. n \<notin> rs r \<Longrightarrow> fst (register_all set_registry r ns rs) = Inr ()"
proof (induction ns arbitrary: rs)
  case (Cons a ns)
  then have "fst (register_all set_registry r ns (rs(r := insert a (rs r)))) = Inr ()" by (intro Cons.IH) auto
  moreover have "set_registry r a rs = (Inr (), rs(r := insert a (rs r)))" using Cons.prems by (simp add: set_registry_def)
  ultimately show ?case by simp
qed simp

lemma normalize_memory_options: "normalize_options memory_options = memory_options"
  by (simp add: normalize_options_def memory_options_def duration_units)

lemma New_memory_queue: "\<exists>rs'. New_Queue example_env set_registry 0 memory_options (\<lambda>_. {}) = (Done memory_queue, rs')"
proof -
  have "distinct (metric_names ''shoebox'')" by (simp add: metric_names_def)
  then have "fst (register_all set_registry (FreshRegistry 0) (metric_names ''shoebox'') (\<lambda>_. {})) = Inr ()"
    by (rule register_all_fresh) simp
  with normalize_memory_options show ?thesis
    by (auto simp: New_Queue_def NewMetrics_def as_registerer_def buildStorage_def memory_queue_def Let_def
        memory_options_def DedupePolicyDurable_def split: prod.splits sum.splits)
qed

theorem New_Queue_wellformed_witness:
  "\<exists>q rs'. New_Queue example_env set_registry 0 memory_options (\<lambda>_. {}) = (Done (q :: unit Queue), rs') \<and>
     kind_of (Store q) = Memory \<and> 0 < b_ackBatchSize (q_b q) \<and> b_ackStop (q_b q) = Some False"
proof -
  from New_memory_queue obtain rs' where
    n: "New_Queue example_env set_registry 0 memory_options (\<lambda>_. {}) = (Done (memory_queue :: unit Queue), rs')" by blast
  have "qoStorage memory_options = Memory" "boEnabled (qoBatching memory_options)" by (simp_all add: memory_options_def)
  with New_Queue_wellformed [OF n env_ok_example] n show ?thesis by auto
qed

text \<open>
  C16. Where the metrics are served. \<open>MetricsHandler\<close> serves the registry the metrics of the queue were
  registered with exactly when a registry was passed in the options. With none the metrics go to a
  registry made for them, which nothing serves: the nil pointer of the options, as an interface value,
  is not the nil the default registry is chosen for.
\<close>

theorem MetricsHandler_registry:
  assumes "New_Queue env mreg fresh opts rs = (Done q, rs')"
  shows "MetricsHandler q = q_metrics q \<longleftrightarrow> qoMetricsRegistry opts \<noteq> None"
  using assms by (rule New_Queue_DoneE) (simp add: MetricsHandler_def split: option.splits)

theorem MetricsHandler_registry_witness:
  "\<exists>q rs'. New_Queue example_env set_registry 0 memory_options (\<lambda>_. {}) = (Done (q :: unit Queue), rs') \<and>
     MetricsHandler q \<noteq> q_metrics q"
proof -
  from New_memory_queue obtain rs' where
    n: "New_Queue example_env set_registry 0 memory_options (\<lambda>_. {}) = (Done (memory_queue :: unit Queue), rs')" by blast
  have "qoMetricsRegistry memory_options = None" by (simp add: memory_options_def)
  with MetricsHandler_registry [OF n] n show ?thesis by auto
qed

subsection \<open>The methods as steps of the system\<close>

lemma ValidQueueName_user: "ValidQueueName q \<Longrightarrow> user_queue q"
  by (auto simp: ValidQueueName_def user_queue_def split: if_splits)

lemma sys_self: "y\<lparr>sy_b := sy_b y\<rparr> = y"
  by simp

text \<open>What the methods do to the broker.\<close>

lemma q_b_Enqueue:
  "q_b (snd (Enqueue now tD tS nid queue payload opts q)) =
     (if ValidQueueName queue
      then snd (b_Enqueue store_ops now tD tS nid queue payload (broker_opts (applyEnqueueOptions opts)) (q_b q)) else q_b q)"
  by (simp add: Enqueue_def split: prod.splits)

definition batch_items :: "(EnqueueBatchItem \<times> time \<times> string) list \<Rightarrow> (batch_item \<times> time \<times> string) list" where
  "batch_items items =
     map (\<lambda>(item, t). (\<lparr>biPayload = ebPayload item, biOpts = broker_opts (applyEnqueueOptions (ebOptions item))\<rparr>, t)) items"

lemma q_b_EnqueueBatch:
  "q_b (snd (EnqueueBatch now tS queue items q)) =
     (if ValidQueueName queue \<and> items \<noteq> [] then snd (b_EnqueueBatch store_ops now tS queue (batch_items items) (q_b q)) else q_b q)"
  by (simp add: EnqueueBatch_def batch_items_def Let_def split: prod.splits)

lemma batch_items_ids: "map (\<lambda>it. snd (snd it)) (batch_items items) = map (\<lambda>it. snd (snd it)) items"
  by (auto simp: batch_items_def)

lemma batch_items_snd: "it \<in> set (batch_items items) \<Longrightarrow> snd (snd it) \<in> (\<lambda>it. snd (snd it)) ` set items"
  by (force simp: batch_items_def)

lemma q_b_PeriodicJobs: "q_b (snd (PeriodicJobs_Queue sops q)) = snd (PeriodicJobs sops '''' (q_b q))"
  by (auto simp: PeriodicJobs_Queue_def split: prod.splits sum.splits)

lemma q_b_RemovePeriodic:
  "q_b (snd (RemovePeriodic_Queue sops jid q)) = (if jid = '''' then q_b q else snd (RemovePeriodic sops jid (q_b q)))"
  by (simp add: RemovePeriodic_Queue_def split: prod.splits)

lemma q_b_RegisterPeriodic:
  "q_b (snd (RegisterPeriodic_Queue sops now job q)) \<in>
     {q_b q, snd (PeriodicJobs sops '''' (q_b q)),
      snd (RegisterPeriodic sops (periodic_schedule now job) (snd (PeriodicJobs sops '''' (q_b q))))}"
  by (cases "PeriodicJobs sops '''' (q_b q)") (simp add: RegisterPeriodic_Queue_def split: prod.splits sum.splits)

text \<open>
  The public interface drives the system the safety theorems are about. When a method of the
  queue is called in a reachable state of the broker's goroutines, with fresh message identifiers, the
  state after it is reachable, whether it accepts the call or rejects it: \<open>Enqueue\<close>, \<open>EnqueueBatch\<close>,
  \<open>RegisterPeriodic\<close>, \<open>RemovePeriodic\<close>, \<open>PeriodicJobs\<close>.
\<close>

lemma public_calls_are_steps:
  assumes "sys_reachable store_ops sops store_view bo w y" "sy_b y = q_b q"
  shows "(fresh_id queue nid (store_view (Store q)) \<longrightarrow>
      sys_reachable store_ops sops store_view bo w (y\<lparr>sy_b := q_b (snd (Enqueue now tD tS nid queue payload opts q))\<rparr>)) \<and>
    (distinct (map (\<lambda>it. snd (snd it)) items) \<and> (\<forall>it \<in> set items. fresh_id queue (snd (snd it)) (store_view (Store q))) \<longrightarrow>
      sys_reachable store_ops sops store_view bo w (y\<lparr>sy_b := q_b (snd (EnqueueBatch now tS queue items q))\<rparr>)) \<and>
    sys_reachable store_ops sops store_view bo w (y\<lparr>sy_b := q_b (snd (RegisterPeriodic_Queue sops now job q))\<rparr>) \<and>
    sys_reachable store_ops sops store_view bo w (y\<lparr>sy_b := q_b (snd (RemovePeriodic_Queue sops jid q))\<rparr>) \<and>
    sys_reachable store_ops sops store_view bo w (y\<lparr>sy_b := q_b (snd (PeriodicJobs_Queue sops q))\<rparr>)"
    (is "?enqueue \<and> ?batch \<and> ?register \<and> ?remove \<and> ?list")
proof -
  let ?R = "sys_reachable store_ops sops store_view bo w"
  have self: "?R (y\<lparr>sy_b := q_b q\<rparr>)" using assms by (metis sys_self)
  have st: "b_store (sy_b y) = Store q" by (simp add: assms(2) Store_def)
  have ?enqueue
    using sr_step [OF assms(1) s_Enqueue [OF ValidQueueName_user, of queue nid store_view y]] self
    by (simp add: q_b_Enqueue st flip: assms(2))
  moreover have ?batch
  proof
    assume f: "distinct (map (\<lambda>it. snd (snd it)) items) \<and> (\<forall>it \<in> set items. fresh_id queue (snd (snd it)) (store_view (Store q)))"
    have "\<forall>it \<in> set (batch_items items). fresh_id queue (snd (snd it)) (store_view (b_store (sy_b y)))"
      using f batch_items_snd st by fastforce
    from sr_step [OF assms(1) s_EnqueueBatch [where q = queue and items = "batch_items items" and view = store_view, OF ValidQueueName_user _ this]] f self
    show "?R (y\<lparr>sy_b := q_b (snd (EnqueueBatch now tS queue items q))\<rparr>)"
      by (simp add: q_b_EnqueueBatch batch_items_ids flip: assms(2))
  qed
  moreover have list: ?list
    using sr_step [OF assms(1) s_PeriodicJobs [of store_ops sops store_view y "''''"]]
    by (simp add: q_b_PeriodicJobs flip: assms(2))
  moreover have ?register
  proof -
    note r = sr_step [OF list s_RegisterPeriodic [of _ _ _ _ "periodic_schedule now job"]]
    show ?thesis using q_b_RegisterPeriodic [of sops now job q] self list r by (auto simp: q_b_PeriodicJobs)
  qed
  moreover have ?remove
    using sr_step [OF assms(1) s_RemovePeriodic [of store_ops sops store_view y jid]] self
    by (simp add: q_b_RemovePeriodic flip: assms(2))
  ultimately show ?thesis by blast
qed

subsection \<open>Handlers\<close>

lemma Handle_handler:
  "b_handlers (q_b (snd (Handle queue fn opts q))) queue =
     Some \<lparr>h_fn = fn, h_opts = normalize_handler_options
            (case opts of [] \<Rightarrow> \<lparr>hoMaxRetries = 5, hoBackoff = None, hoTimeout = 0\<rparr> | h0 # _ \<Rightarrow> h0),
          h_chain = chain (b_mw (q_b q)) fn\<rparr>"
  by (cases opts) (auto simp: Handle_def Register_def normalize_handler_options_def Let_def split: if_splits)

lemma normalize_backoff: "hoBackoff (normalize_handler_options ho) \<noteq> None"
  by (simp add: normalize_handler_options_def Let_def)

lemma RecoveryMiddleware_total: "\<exists>r w'. RecoveryMiddleware nxt ctx m w = (Inr r, w')"
  by (auto simp: RecoveryMiddleware_def split: prod.splits sum.splits)

text \<open>
  A panic does not end the process behind the recovery middleware. When \<open>RecoveryMiddleware\<close> is the
  first middleware a queue uses, no message its handler gets makes the worker panic, whatever the other
  middleware and the handler do; a handler that panics counts as one that returned \<open>errPanic\<close>, so the
  message is retried or dead-lettered as after any error.
\<close>

theorem RecoveryMiddleware_no_crash:
  assumes "b_mw (q_b q) = RecoveryMiddleware # mw" "b_handlers b queue = b_handlers (q_b (snd (Handle queue fn opts q))) queue"
  shows "fst (handleOne ops now tS nid queue msg b w) = Inr () \<and>
    (\<forall>h p w'. b_handlers b queue = Some h \<and> chain mw fn (handlerCtx h) msg w = (Inl p, w') \<longrightarrow>
      h_chain h (handlerCtx h) msg w = (Inr (Some errPanic), w'))"
proof -
  obtain h where h: "b_handlers b queue = Some h" "h_chain h = RecoveryMiddleware (chain mw fn)" "hoBackoff (h_opts h) \<noteq> None"
    using assms normalize_backoff by (auto simp: Handle_handler chain_foldr)
  obtain r w' where r: "h_chain h (handlerCtx h) msg w = (Inr r, w')" unfolding h(2) using RecoveryMiddleware_total [of "chain mw fn" "handlerCtx h" msg w] by blast
  have "fst (handleOne ops now tS nid queue msg b w) = Inr ()"
    using h(1,3) r by (auto simp: handleOne_def Let_def split: option.splits prod.splits)
  moreover have "h_chain h (handlerCtx h) msg w = (Inr (Some errPanic), w'')" if "chain mw fn (handlerCtx h) msg w = (Inl p, w'')" for p w''
    unfolding h(2) by (simp add: RecoveryMiddleware_def that)
  ultimately show ?thesis using h(1) by simp
qed

definition panicking :: "unit HandlerFunc" where
  "panicking = (\<lambda>ctx m w. (Inl (GoPanic ''boom''), w))"

theorem RecoveryMiddleware_no_crash_witness:
  "let q = Use_Queue [RecoveryMiddleware] memory_queue; b = q_b (snd (Handle ''q'' panicking [] q))
   in fst (handleOne store_ops 9 9 ''n'' ''q'' (build_message ''a'' ''q'' [] quiet_opts 9 9) b ()) = Inr ()"
proof -
  have "b_mw (q_b (Use_Queue [RecoveryMiddleware] (memory_queue :: unit Queue))) = RecoveryMiddleware # []"
    by (simp add: Use_Queue_def Use_def memory_queue_def New_def Let_def)
  from RecoveryMiddleware_no_crash [OF this refl] show ?thesis unfolding Let_def by blast
qed

subsection \<open>Typed tasks\<close>

text \<open>The parts of a queue a delivery needs, before and after \<open>Handle\<close> and \<open>Enqueue\<close>.\<close>

lemma Handle_sel [simp]:
  "b_store (q_b (snd (Handle queue fn opts q))) = b_store (q_b q)" "b_aborted (q_b (snd (Handle queue fn opts q))) = b_aborted (q_b q)"
  "b_paused (q_b (snd (Handle queue fn opts q))) = b_paused (q_b q)" "b_concurrency (q_b (snd (Handle queue fn opts q))) = b_concurrency (q_b q)"
  by (simp_all add: Handle_def Register_def Let_def split: prod.splits if_splits)

lemma normalize_retries: "hoMaxRetries (normalize_handler_options ho) \<ge> 0"
  by (simp add: normalize_handler_options_def Let_def)

definition plain_message :: "time \<Rightarrow> string \<Rightarrow> string \<Rightarrow> byte list \<Rightarrow> message" where
  "plain_message now nid queue payload = build_message nid queue payload (broker_opts zero_options) now now"

lemma plain_message_sel [simp]:
  "mPayload (plain_message now nid queue payload) = payload" "mAttempts (plain_message now nid queue payload) = 0"
  "mCreatedAt (plain_message now nid queue payload) = now" "mScheduledAt (plain_message now nid queue payload) = now"
  by (simp_all add: plain_message_def build_message_def broker_opts_def zero_options_def IsZero_def Let_def)

lemma Enqueue_plain:
  assumes "ValidQueueName queue" "Store q = MemoryStore m" "now \<noteq> 0"
  shows "Enqueue now tD tS nid queue payload [] q =
    (Inr (), q\<lparr>q_b := wake queue ((q_b q)\<lparr>b_store := MemoryStore (push_queue queue (plain_message now nid queue payload) m)\<rparr>)\<rparr>)"
  using assms plain_message_sel(3,4) [of now nid queue payload]
  by (simp add: Enqueue_def b_Enqueue_def enqueueMessage_def applyEnqueueOptions_def broker_opts_def zero_options_def Let_def
      store_ops_def dispatch_def mem_Enqueue_def Store_def plain_message_def IsZero_def)

lemma dispatch_plain:
  assumes "b_store b = MemoryStore (push_queue queue msg m)" "mem_queues m queue = []" "mScheduledAt msg \<le> t"
    "\<not> b_aborted b" "b_paused b = Map.empty" "b_concurrency b > 0"
  shows "\<exists>b'. dispatch_top store_ops t queue b = (Got [msg], b') \<and> b_handlers b' = b_handlers b"
  using assms
  by (simp add: dispatch_top_def isPaused_def pausedFlag_def store_ops_def dispatch_def mem_Dequeue_def push_queue_def
      sort_pending_def SliceStable_def Let_def)

text \<open>
  C14. A typed task, end to end. On a new queue with the memory backend, when the codec decodes what it
  encoded for the task, \<open>EnqueueTaskWithCodec\<close> succeeds after \<open>HandleTaskWithCodec\<close>, the next round of the
  dispatcher takes one message, and the worker that gets it runs the handler on exactly the task that was
  enqueued.
\<close>

theorem task_end_to_end:
  assumes "Marshal c task = Inr payload" "Unmarshal c payload zero = (None, task)"
    and "ValidQueueName queue" "now \<noteq> 0" "now \<le> t"
    and "q_b q = New (queue_options (MemoryStore NewMemory) qo)"
    and "q1 = snd (HandleTaskWithCodec queue zero (Some c) handler hopts q)"
    and "EnqueueTaskWithCodec now tD tS nid queue task (Some c) [] q1 = (r, q2)"
  shows "r = Inr () \<and> (\<exists>msg b h. dispatch_top store_ops t queue (q_b q2) = (Got [msg], b) \<and> b_handlers b queue = Some h \<and>
     snd (snd (handleOne store_ops now' tS' nid' queue msg b w)) = snd (handler (handlerCtx h) task w))"
proof -
  let ?msg = "plain_message now nid queue payload"
  have New: "\<not> b_aborted (q_b q)" "b_paused (q_b q) = Map.empty" "0 < b_concurrency (q_b q)" "b_mw (q_b q) = []"
      "b_store (q_b q) = MemoryStore NewMemory"
    by (simp_all add: assms(6) queue_options_def) (simp_all add: New_def Let_def)
  have q1: "b_store (q_b q1) = MemoryStore NewMemory" "\<not> b_aborted (q_b q1)" "b_paused (q_b q1) = Map.empty" "0 < b_concurrency (q_b q1)"
    using New by (simp_all add: assms(7) HandleTaskWithCodec_def)
  obtain h where h: "b_handlers (q_b q1) queue = Some h" "h_chain h = task_handler zero (Some c) handler" "\<not> 0 > hoMaxRetries (h_opts h)"
    using normalize_retries New(4) by (auto simp: assms(7) HandleTaskWithCodec_def Handle_handler chain_def not_less)
  have e: "r = Inr ()" "q2 = q1\<lparr>q_b := wake queue ((q_b q1)\<lparr>b_store := MemoryStore (push_queue queue ?msg NewMemory)\<rparr>)\<rparr>"
    using assms(8) Enqueue_plain [OF assms(3) _ assms(4), of q1 NewMemory tD tS nid payload] q1(1)
    by (simp_all add: EnqueueTaskWithCodec_def assms(1) Store_def)
  have "\<exists>b'. dispatch_top store_ops t queue (q_b q2) = (Got [?msg], b') \<and> b_handlers b' = b_handlers (q_b q2)"
    by (rule dispatch_plain [where m = NewMemory]) (use q1 assms(5) in \<open>simp_all add: e(2) NewMemory_def\<close>)
  then obtain b where b: "dispatch_top store_ops t queue (q_b q2) = (Got [?msg], b)" "b_handlers b queue = Some h"
    using h(1) by (auto simp: e(2))
  have "snd (snd (handleOne store_ops now' tS' nid' queue ?msg b w)) = snd (handler (handlerCtx h) task w)"
    using b(2) h(2,3) assms(2)
    by (auto simp: handleOne_def task_handler_def Let_def split: option.splits prod.splits sum.splits)
  with b e(1) show ?thesis by blast
qed

text \<open>A codec for bytes, on the queue of the example.\<close>

definition bytes_codec :: "byte list TaskCodec" where
  "bytes_codec = \<lparr>Marshal = Inr, Unmarshal = (\<lambda>p _. (None, p))\<rparr>"

theorem task_end_to_end_witness:
  "\<exists>msg b h. dispatch_top store_ops 9 ''q''
       (q_b (snd (EnqueueTaskWithCodec 9 9 9 ''a'' ''q'' [7] (Some bytes_codec) []
          (snd (HandleTaskWithCodec ''q'' [] (Some bytes_codec) (\<lambda>ctx t w. (Inr None, t)) [] memory_queue))))) = (Got [msg], b) \<and>
     b_handlers b ''q'' = Some h \<and> snd (snd (handleOne store_ops 9 9 ''d'' ''q'' msg b [])) = [7]"
proof -
  have "ValidQueueName ''q''" by (simp add: ValidQueueName_def strings_HasSuffix_def queue_rune_ok_def of_char_def)
  from task_end_to_end [where c = bytes_codec and task = "[7]" and payload = "[7]" and zero = "[]" and queue = "''q''" and now = 9 and t = 9
      and q = memory_queue and qo = memory_options and handler = "\<lambda>ctx t w. (Inr None, t)" and hopts = "[]" and w = "[]",
      OF _ _ this _ _ _ refl prod.collapse [symmetric]]
  show ?thesis by (simp add: bytes_codec_def memory_queue_def)
qed

subsection \<open>Periodic jobs\<close>

lemma exists_loop_iff: "exists_loop jid ss \<longleftrightarrow> (\<exists>s \<in> set ss. sID s = jid)"
  by (induction ss) auto

lemma set_list_schedules: "set (list_schedules_loop '''' ks ss) = {s. \<exists>k \<in> set ks. ss k = Some s}"
  by (induction ks) (auto split: option.splits)

lemma memory_PeriodicJobs:
  assumes "b_store b = MemoryStore m" "b_schedules b" "set ks = dom (mem_schedules m)"
  shows "\<exists>ss. PeriodicJobs (store_schedule_ops ks jsonb collate) '''' b = (Inr ss, b) \<and> set ss = ran (mem_schedules m)"
proof -
  have "set (list_schedules_loop '''' ks (mem_schedules m)) = ran (mem_schedules m)"
    using assms(3) by (auto simp: set_list_schedules ran_def)
  then show ?thesis using assms(1,2)
    by (simp add: PeriodicJobs_def store_schedule_ops_def dispatch_def mem_ListSchedules_def)
qed

text \<open>
  C13. Periodic jobs on the memory backend, as long as no other call comes between the two that
  \<open>RegisterPeriodic\<close> makes of the store (the list of the jobs, then the insert). A job with an identifier, a valid queue and a positive
  interval is refused with \<open>ErrScheduleExists\<close>, and changes nothing, exactly when its identifier is
  taken; otherwise \<open>PeriodicJobs\<close> afterwards lists it with its first run, beside exactly the jobs it
  listed before.
\<close>

theorem RegisterPeriodic_roundtrip:
  assumes "Store q = MemoryStore m" "b_schedules (q_b q)"
    and "\<forall>k s. mem_schedules m k = Some s \<longrightarrow> sID s = k" "set ks = dom (mem_schedules m)"
    and "pjID job \<noteq> ''''" "ValidQueueName (pjQueue job)" "0 < sint (pjEvery job)"
    and "RegisterPeriodic_Queue (store_schedule_ops ks jsonb collate) now job q = (r, q')"
  shows "if pjID job \<in> dom (mem_schedules m) then r = Inl ErrScheduleExists \<and> q' = q
    else r = Inr () \<and> (\<forall>ks'. set ks' = insert (pjID job) (dom (mem_schedules m)) \<longrightarrow>
      (\<exists>js. fst (PeriodicJobs_Queue (store_schedule_ops ks' jsonb collate) q') = Inr js \<and>
        set js = insert (job\<lparr>pjStartAt := (if IsZero (pjStartAt job) then now else pjStartAt job)\<rparr>)
                   (periodic_job ` ran (mem_schedules m))))"
proof -
  let ?sops = "store_schedule_ops ks jsonb collate" and ?sc = "periodic_schedule now job"
  have b: "b_store (q_b q) = MemoryStore m" using assms(1) by (simp add: Store_def)
  obtain ss where ss: "PeriodicJobs ?sops '''' (q_b q) = (Inr ss, q_b q)" "set ss = ran (mem_schedules m)"
    using memory_PeriodicJobs [OF b assms(2,4)] by blast
  have taken: "exists_loop (pjID job) ss \<longleftrightarrow> pjID job \<in> dom (mem_schedules m)"
    using assms(3) by (auto simp: exists_loop_iff ss(2) ran_def)
  have reg: "RegisterPeriodic_Queue ?sops now job q =
      (if pjID job \<in> dom (mem_schedules m) then (Inl ErrScheduleExists, q)
       else let (r, b) = RegisterPeriodic ?sops ?sc (q_b q) in (r, q\<lparr>q_b := b\<rparr>))"
    using assms(5-7) by (simp add: RegisterPeriodic_Queue_def ss(1) taken)
  show ?thesis
  proof (cases "pjID job \<in> dom (mem_schedules m)")
    case False
    let ?m = "m\<lparr>mem_schedules := (mem_schedules m)(pjID job \<mapsto> ?sc)\<rparr>"
    have sid: "sID ?sc = pjID job" by (simp add: periodic_schedule_def Let_def)
    have "RegisterPeriodic ?sops ?sc (q_b q) = (Inr (), (q_b q)\<lparr>b_store := MemoryStore ?m\<rparr>)"
      using False assms(2) b by (simp add: RegisterPeriodic_def store_schedule_ops_def dispatch_def mem_CreateSchedule_def sid domIff)
    then have q': "r = Inr ()" "q' = q\<lparr>q_b := (q_b q)\<lparr>b_store := MemoryStore ?m\<rparr>\<rparr>"
      using assms(8) reg False by simp_all
    have job: "periodic_job ?sc = job\<lparr>pjStartAt := (if IsZero (pjStartAt job) then now else pjStartAt job)\<rparr>"
      by (simp add: periodic_job_def periodic_schedule_def Let_def)
    have ran: "ran (mem_schedules ?m) = insert ?sc (ran (mem_schedules m))" using False by (simp add: ran_map_upd domIff)
    have "\<exists>js. fst (PeriodicJobs_Queue (store_schedule_ops ks' jsonb collate) q') = Inr js \<and> set js = periodic_job ` ran (mem_schedules ?m)"
      if "set ks' = insert (pjID job) (dom (mem_schedules m))" for ks'
    proof -
      have "set ks' = dom (mem_schedules ?m)" using that by simp
      from memory_PeriodicJobs [OF _ _ this, of "q_b q'" jsonb collate] show ?thesis
        using assms(2) by (auto simp: PeriodicJobs_Queue_def q'(2))
    qed
    with False q'(1) show ?thesis unfolding ran by (simp add: job)
  qed (use assms(8) reg in simp)
qed

definition heartbeat :: PeriodicJob where
  "heartbeat = \<lparr>pjID = ''heartbeat'', pjQueue = ''q'', pjPayload = [1], pjEvery = second, pjStartAt = 0, pjEnabled = True\<rparr>"

lemma ValidQueueName_q: "ValidQueueName ''q''"
  by (simp add: ValidQueueName_def strings_HasSuffix_def queue_rune_ok_def of_char_def)

theorem RegisterPeriodic_roundtrip_witness:
  "\<exists>js. fst (PeriodicJobs_Queue (store_schedule_ops [''heartbeat''] Some (\<lambda>_ _. False))
      (snd (RegisterPeriodic_Queue (store_schedule_ops [] Some (\<lambda>_ _. False)) 9 heartbeat (memory_queue :: unit Queue)))) = Inr js \<and>
    set js = {heartbeat\<lparr>pjStartAt := 9\<rparr>}"
proof -
  have "Store (memory_queue :: unit Queue) = MemoryStore NewMemory" "b_schedules (q_b (memory_queue :: unit Queue))"
    by (simp_all add: Store_def memory_queue_def queue_options_def)
  from RegisterPeriodic_roundtrip [OF this, of "[]" heartbeat Some "\<lambda>_ _. False" 9, OF _ _ _ _ _ prod.collapse [symmetric]]
  show ?thesis by (auto simp: NewMemory_def heartbeat_def ValidQueueName_q IsZero_def duration_units)
qed

lemma pg_CreateSchedule_fails:
  assumes "jsonb (sEnqueueOptions sc) = None"
  shows "\<exists>e. fst (pg_CreateSchedule jsonb sc p) = Inl e"
  using assms by (auto simp: pg_CreateSchedule_def andThen_def exec_def split: prod.splits sum.splits)

text \<open>
  C15. No periodic job can be registered on PostgreSQL. \<open>RegisterPeriodic\<close> leaves the enqueue options of
  the schedule empty, and \<open>CreateSchedule\<close> casts them to \<open>jsonb\<close>; the cast of the empty text is an error
  of PostgreSQL, so every call fails, whatever the job and the state of the database.
\<close>

theorem RegisterPeriodic_fails_on_Postgres:
  assumes "Store q = PostgresStore p" "jsonb [] = None"
  shows "\<exists>e. fst (RegisterPeriodic_Queue (store_schedule_ops ks jsonb collate) now job q) = Inl e"
proof -
  let ?sops = "store_schedule_ops ks jsonb collate"
  obtain r b where pj: "PeriodicJobs ?sops '''' (q_b q) = (r, b)" by fastforce
  have "\<exists>p'. b_store b = PostgresStore p'"
    using pj assms(1) by (auto simp: PeriodicJobs_def store_schedule_ops_def dispatch_def Store_def map_prod_def split: if_splits prod.splits)
  then obtain p' where b: "b_store b = PostgresStore p'" by blast
  have o: "jsonb (sEnqueueOptions (periodic_schedule now job)) = None" by (simp add: periodic_schedule_def Let_def assms(2))
  have "\<exists>e. fst (RegisterPeriodic ?sops (periodic_schedule now job) b) = Inl e"
    using pg_CreateSchedule_fails [of jsonb "periodic_schedule now job", OF o, of p'] b
    by (auto simp: RegisterPeriodic_def store_schedule_ops_def dispatch_def map_prod_def split: prod.splits)
  then show ?thesis by (auto simp: RegisterPeriodic_Queue_def pj split: sum.splits prod.splits)
qed

theorem RegisterPeriodic_fails_on_Postgres_witness:
  "\<exists>e. fst (RegisterPeriodic_Queue (store_schedule_ops [] (\<lambda>s. if s = [] then None else Some s) (\<lambda>_ _. False)) 9 heartbeat
     (\<lparr>q_b = New (queue_options (PostgresStore fresh_db) memory_options), q_metrics = FreshRegistry 0, q_registry = None\<rparr> :: unit Queue)) = Inl e"
  by (rule RegisterPeriodic_fails_on_Postgres [where p = fresh_db]) (simp_all add: Store_def queue_options_def)

end
