(* ===== verification/Tracing.thy ===== *)
theory Tracing
  imports Queue_Guarantees
begin

text \<open>
  Package \<open>otel\<close>: spans around handlers. OpenTelemetry is a parameter, the record \<open>otel\<close>: the propagator of
  W3C trace contexts, and the tracer with the operations of its spans on the world of the user. A context
  is a value of a type \<open>'c\<close>; \<open>None\<close> is the nil interface. Go copies the metadata into a new map before the
  propagator writes to it; here a map is a value, so the copy is the map itself.
\<close>

datatype attribute = AString string string | AInt string int
datatype span_status = StatusOk | StatusError string

record ('c, 'w) tracer =
  tr_Start :: "'c \<Rightarrow> string \<Rightarrow> attribute list \<Rightarrow> 'w \<Rightarrow> 'c \<times> nat \<times> 'w"
  span_SetStatus :: "nat \<Rightarrow> span_status \<Rightarrow> 'w \<Rightarrow> 'w"
  span_RecordError :: "nat \<Rightarrow> err \<Rightarrow> 'w \<Rightarrow> 'w"
  span_End :: "nat \<Rightarrow> 'w \<Rightarrow> 'w"

record ('c, 'w) otel =
  Background :: 'c
  Extract :: "'c \<Rightarrow> metadata \<Rightarrow> 'c"
  Inject :: "'c \<Rightarrow> metadata \<Rightarrow> metadata"
  DefaultTracer :: "('c, 'w) tracer"

type_synonym ('c, 'w) ctx_handler = "'c \<Rightarrow> message \<Rightarrow> 'w \<Rightarrow> err option result \<times> 'w"

definition ExtractContext :: "('c, 'w) otel \<Rightarrow> 'c option \<Rightarrow> metadata \<Rightarrow> 'c" where
  "ExtractContext api ctx metadata =
     (let ctx = (case ctx of None \<Rightarrow> Background api | Some c \<Rightarrow> c); carrier = metadata
      in Extract api ctx carrier)"

definition InjectTraceparent :: "('c, 'w) otel \<Rightarrow> 'c option \<Rightarrow> metadata \<Rightarrow> metadata" where
  "InjectTraceparent api ctx metadata =
     (let out = metadata; ctx = (case ctx of None \<Rightarrow> Background api | Some c \<Rightarrow> c)
      in Inject api ctx out)"

definition span_attributes :: "message \<Rightarrow> attribute list" where
  "span_attributes msg = [AString ''shoebox.queue'' (mQueue msg), AString ''shoebox.message_id'' (mID msg),
     AInt ''shoebox.attempts'' (mAttempts msg), AInt ''shoebox.priority'' (mPriority msg)]"

definition TraceMiddleware :: "('c, 'w) otel \<Rightarrow> ('c, 'w) tracer option \<Rightarrow> ('c, 'w) ctx_handler \<Rightarrow> ('c, 'w) ctx_handler" where
  "TraceMiddleware api tracer nxt = (\<lambda>ctx msg w.
     let tracer = (case tracer of None \<Rightarrow> DefaultTracer api | Some t \<Rightarrow> t);
         ctx = ExtractContext api (Some ctx) (mMetadata msg);
         (ctx, span, w) = tr_Start tracer ctx ''shoebox.process'' (span_attributes msg) w
     in case nxt ctx msg w of
          (Inl p, w) \<Rightarrow> (Inl p, span_End tracer span w)
        | (Inr (Some err), w) \<Rightarrow>
            (Inr (Some err), span_End tracer span (span_RecordError tracer span err
               (span_SetStatus tracer span (StatusError (Error_text err)) w)))
        | (Inr None, w) \<Rightarrow> (Inr None, span_End tracer span (span_SetStatus tracer span StatusOk w)))"

subsection \<open>Properties\<close>

lemma TraceMiddleware_result:
  assumes "tr_Start t (ExtractContext api (Some ctx) (mMetadata msg)) ''shoebox.process'' (span_attributes msg) w = (c, span, w1)"
  shows "fst (TraceMiddleware api (Some t) nxt ctx msg w) = fst (nxt c msg w1)"
  using assms by (auto simp: TraceMiddleware_def Let_def split: prod.splits sum.splits option.splits)

lemma Enqueue_metadata:
  assumes "ValidQueueName queue" "Store q = MemoryStore m" "now \<noteq> 0"
  shows "Enqueue now tD tS nid queue payload [WithMetadata md] q =
    (Inr (), q\<lparr>q_b := wake queue ((q_b q)\<lparr>b_store := MemoryStore (push_queue queue ((plain_message now nid queue payload)\<lparr>mMetadata := md\<rparr>) m)\<rparr>)\<rparr>)"
  using assms plain_message_sel(3,4) [of now nid queue payload]
  by (simp add: Enqueue_def b_Enqueue_def enqueueMessage_def applyEnqueueOptions_def broker_opts_def zero_options_def Let_def WithMetadata_def
      store_ops_def dispatch_def mem_Enqueue_def Store_def plain_message_def IsZero_def build_message_def)

text \<open>
  A trace follows its message. Let the propagator read back from a carrier the parent span it wrote
  into it. On a queue with an empty memory backend, the message of an \<open>Enqueue\<close> with the metadata of
  \<open>InjectTraceparent\<close> is dispatched, and on every attempt the traced handler starts its span as a child of
  the span the caller was in, whatever context the worker has, and returns what the handler returns.
\<close>

theorem trace_follows_message:
  assumes propagator: "\<And>c md. parent (Extract api c (Inject api caller md)) = parent caller"
    and "ValidQueueName queue" "Store q = MemoryStore m" "mem_queues m queue = []" "now \<noteq> 0" "now \<le> t"
    and "\<not> b_aborted (q_b q)" "b_paused (q_b q) = Map.empty" "0 < b_concurrency (q_b q)"
    and "Enqueue now tD tS nid queue payload [WithMetadata (InjectTraceparent api (Some caller) md)] q = (r, q')"
  shows "r = Inr () \<and> (\<exists>msg b'. dispatch_top store_ops t queue (q_b q') = (Got [msg], b') \<and> mPayload msg = payload \<and>
    (\<forall>ctx n w c span w1. let msg = msg\<lparr>mAttempts := n\<rparr>; start = ExtractContext api (Some ctx) (mMetadata msg) in
       parent start = parent caller \<and>
       (tr_Start tracer start ''shoebox.process'' (span_attributes msg) w = (c, span, w1) \<longrightarrow>
         fst (TraceMiddleware api (Some tracer) nxt ctx msg w) = fst (nxt c msg w1))))"
proof -
  let ?msg = "(plain_message now nid queue payload)\<lparr>mMetadata := InjectTraceparent api (Some caller) md\<rparr>"
  have q': "r = Inr ()" "q_b q' = wake queue ((q_b q)\<lparr>b_store := MemoryStore (push_queue queue ?msg m)\<rparr>)"
    using assms(10) by (auto simp: Enqueue_metadata [OF assms(2,3,5)])
  have b: "b_store (q_b q') = MemoryStore (push_queue queue ?msg m)" "\<not> b_aborted (q_b q')" "b_paused (q_b q') = Map.empty" "b_concurrency (q_b q') > 0"
    using assms(7-9) by (simp_all add: q'(2) wake_def Let_def split: option.splits)
  obtain b' where top: "dispatch_top store_ops t queue (q_b q') = (Got [?msg], b')"
    using dispatch_plain [OF b(1) assms(4) _ b(2-4), of t] assms(6) by auto
  have "parent (ExtractContext api (Some ctx) (mMetadata ?msg)) = parent caller" for ctx
    by (simp add: ExtractContext_def InjectTraceparent_def propagator)
  then show ?thesis using q'(1) top
    by (intro conjI exI [of _ ?msg] exI [of _ b']) (auto simp: Let_def intro!: TraceMiddleware_result)
qed

text \<open>A context is its parent span; the propagator writes it as text.\<close>

definition text_otel :: "(string, unit) otel" where
  "text_otel = \<lparr>Background = '''', Extract = (\<lambda>c md. case md ''traceparent'' of None \<Rightarrow> c | Some p \<Rightarrow> p),
     Inject = (\<lambda>c md. if c = '''' then md else md(''traceparent'' \<mapsto> c)),
     DefaultTracer = \<lparr>tr_Start = (\<lambda>c n a w. (c @ ''/child'', 0, w)), span_SetStatus = (\<lambda>_ _ w. w), span_RecordError = (\<lambda>_ _ w. w),
       span_End = (\<lambda>_ w. w)\<rparr>\<rparr>"

theorem trace_follows_message_witness:
  "\<exists>msg b'. dispatch_top store_ops 9 ''q'' (q_b (snd (Enqueue 9 9 9 ''a'' ''q'' [7]
       [WithMetadata (InjectTraceparent text_otel (Some ''span'') Map.empty)] (memory_queue :: unit Queue)))) = (Got [msg], b') \<and>
     ExtractContext text_otel (Some ''worker'') (mMetadata (msg\<lparr>mAttempts := 3\<rparr>)) = ''span''"
proof -
  let ?q = "memory_queue :: unit Queue"
  have q: "Store ?q = MemoryStore NewMemory" "\<not> b_aborted (q_b ?q)" "b_paused (q_b ?q) = Map.empty" "0 < b_concurrency (q_b ?q)"
    by (simp_all add: memory_queue_def Store_def queue_options_def New_def Let_def)
  have p: "id (Extract text_otel c (Inject text_otel ''span'' md)) = id ''span''" for c md by (simp add: text_otel_def)
  have e: "mem_queues NewMemory ''q'' = []" by (simp add: NewMemory_def)
  let ?t = "DefaultTracer text_otel" and ?h = "\<lambda>c m w. (Inr None, w)"
  from trace_follows_message [where parent = id and api = text_otel and tracer = ?t and nxt = ?h and t = 9 and now = 9,
      OF p ValidQueueName_q q(1) e _ order_refl q(2-4) prod.collapse [symmetric]]
  obtain msg b' where m: "dispatch_top store_ops 9 ''q'' (q_b (snd (Enqueue 9 9 9 ''a'' ''q'' [7]
       [WithMetadata (InjectTraceparent text_otel (Some ''span'') Map.empty)] ?q))) = (Got [msg], b')"
      "\<And>ctx n. id (ExtractContext text_otel (Some ctx) (mMetadata (msg\<lparr>mAttempts := n\<rparr>))) = id ''span''"
    unfolding Let_def by (metis zero_neq_numeral)
  from m(1) m(2) [of "''worker''" 3] show ?thesis by (simp only: id_apply) blast
qed

end
