(* ===== verification/Webhook.thy ===== *)
theory Webhook
  imports Queue_Guarantees
begin

text \<open>
  Package \<open>shoebox\<close>, file \<open>webhook.go\<close>: push delivery as a handler. The parts of the standard library that
  leave the process or compute a MAC are parameters, the record \<open>http_env\<close>: whether a target is a URL a
  request can be built for, what a client does with a request (any response or error, any effect on the
  world outside), and HMAC-SHA256. A client is known by the settings the code gives it.
\<close>

subsection \<open>Requests and clients\<close>

record http_request =
  hrMethod :: string
  hrURL :: string
  hrHeader :: "string \<rightharpoonup> string"
  hrBody :: "byte list"

record http_response =
  hsStatusCode :: int
  hsBody :: string

record http_client =
  hcTimeout :: duration
  hcMaxIdleConns :: int
  hcMaxIdleConnsPerHost :: int
  hcFollowsRedirects :: bool

record 'w http_env =
  NewRequest_error :: "string \<Rightarrow> err option"
  Do :: "http_client \<Rightarrow> hctx \<Rightarrow> http_request \<Rightarrow> 'w \<Rightarrow> http_response result \<times> 'w"
  HMAC_SHA256 :: "byte list \<Rightarrow> byte list \<Rightarrow> byte list"

text \<open>
  \<open>strings.TrimSpace\<close> removes the white space of Unicode at both ends: six ASCII characters and the UTF-8
  encodings of the others.
\<close>

definition white_space :: "string list" where
  "white_space = map (map char_of)
     [[9], [10], [11], [12], [13], [32 :: nat], [0xC2, 0x85], [0xC2, 0xA0], [0xE1, 0x9A, 0x80],
      [0xE2, 0x80, 0x80], [0xE2, 0x80, 0x81], [0xE2, 0x80, 0x82], [0xE2, 0x80, 0x83], [0xE2, 0x80, 0x84],
      [0xE2, 0x80, 0x85], [0xE2, 0x80, 0x86], [0xE2, 0x80, 0x87], [0xE2, 0x80, 0x88], [0xE2, 0x80, 0x89],
      [0xE2, 0x80, 0x8A], [0xE2, 0x80, 0xA8], [0xE2, 0x80, 0xA9], [0xE2, 0x80, 0xAF], [0xE2, 0x81, 0x9F],
      [0xE3, 0x80, 0x80]]"

lemma white_space_nonempty: "p \<in> set white_space \<Longrightarrow> p \<noteq> []"
  by (auto simp: white_space_def)

function trim_prefix :: "string list \<Rightarrow> string \<Rightarrow> string" where
  "trim_prefix ws s =
     (case find (\<lambda>p. p \<noteq> [] \<and> take (length p) s = p) ws of
        Some p \<Rightarrow> trim_prefix ws (drop (length p) s)
      | None \<Rightarrow> s)"
  by pat_completeness auto
termination
proof (relation "measure (\<lambda>(ws, s). length s)")
  fix ws p and s :: string
  assume "find (\<lambda>p. p \<noteq> [] \<and> take (length p) s = p) ws = Some p"
  then have "p \<noteq> []" "take (length p) s = p" by (auto simp: find_Some_iff)
  then show "((ws, drop (length p) s), ws, s) \<in> measure (\<lambda>(ws, s). length s)" by (cases s) auto
qed simp

declare trim_prefix.simps [simp del]

definition strings_TrimSpace :: "string \<Rightarrow> string" where
  "strings_TrimSpace s = rev (trim_prefix (map rev white_space) (rev (trim_prefix white_space s)))"

subsection \<open>The handler\<close>

record webhookConfig =
  whTimeout :: duration
  whContentType :: string
  whSecret :: string
  whMaxIdleConns :: int

type_synonym WebhookOption = "webhookConfig \<Rightarrow> webhookConfig"

definition WithWebhookTimeout :: "duration \<Rightarrow> WebhookOption" where
  "WithWebhookTimeout d = (\<lambda>c. c\<lparr>whTimeout := d\<rparr>)"

definition WithWebhookContentType :: "string \<Rightarrow> WebhookOption" where
  "WithWebhookContentType ct = (\<lambda>c. c\<lparr>whContentType := ct\<rparr>)"

definition WithWebhookSecret :: "string \<Rightarrow> WebhookOption" where
  "WithWebhookSecret secret = (\<lambda>c. c\<lparr>whSecret := secret\<rparr>)"

definition WithWebhookMaxIdleConns :: "int \<Rightarrow> WebhookOption" where
  "WithWebhookMaxIdleConns n = (\<lambda>c. c\<lparr>whMaxIdleConns := n\<rparr>)"

text \<open>\<open>base\<close> is the transport of the package when it is an \<open>http.Transport\<close>, with its two limits.\<close>

definition newWebhookClient :: "(int \<times> int) \<times> bool \<Rightarrow> duration \<Rightarrow> int \<Rightarrow> http_client" where
  "newWebhookClient base timeout maxIdle =
     (let maxIdle = (if maxIdle \<le> 0 then 16 else maxIdle);
          (conns, perHost) = (if snd base then (maxIdle, maxIdle) else fst base)
      in \<lparr>hcTimeout = timeout, hcMaxIdleConns = conns, hcMaxIdleConnsPerHost = perHost, hcFollowsRedirects = False\<rparr>)"

record webhookHandler =
  wh_target :: string
  wh_client :: http_client
  wh_config :: webhookConfig

definition webhook_request :: "'w http_env \<Rightarrow> webhookHandler \<Rightarrow> message \<Rightarrow> http_request" where
  "webhook_request E h m =
     (let headers = [''Content-Type'' \<mapsto> whContentType (wh_config h), ''X-Shoebox-Message-ID'' \<mapsto> mID m,
            ''X-Shoebox-Queue'' \<mapsto> mQueue m, ''X-Shoebox-Attempt'' \<mapsto> FormatInt (mAttempts m + 1)];
          headers = (if whSecret (wh_config h) \<noteq> ''''
            then headers(''X-Shoebox-Signature'' \<mapsto>
              hex_EncodeToString (HMAC_SHA256 E (bytes_of_string (whSecret (wh_config h))) (mPayload m)))
            else headers)
      in \<lparr>hrMethod = ''POST'', hrURL = wh_target h, hrHeader = headers, hrBody = mPayload m\<rparr>)"

definition deliver :: "'w http_env \<Rightarrow> webhookHandler \<Rightarrow> 'w HandlerFunc" where
  "deliver E h ctx m w =
     (case NewRequest_error E (wh_target h) of
        Some err \<Rightarrow> (Inr (Some (ErrWrap (''webhook: '' @ wh_target h @ '': build request'') err)), w)
      | None \<Rightarrow>
          (case Do E (wh_client h) ctx (webhook_request E h m) w of
             (Inl err, w) \<Rightarrow> (Inr (Some (ErrWrap (''webhook: post '' @ wh_target h) err)), w)
           | (Inr resp, w) \<Rightarrow>
               if hsStatusCode resp < 200 \<or> hsStatusCode resp \<ge> 300
               then (Inr (Some (ErrMsg (''webhook: '' @ wh_target h @ '' returned '' @ FormatInt (hsStatusCode resp) @ '': '' @
                       strings_TrimSpace (take 4096 (hsBody resp))))), w)
               else (Inr None, w)))"

definition default_webhook :: webhookConfig where
  "default_webhook = \<lparr>whTimeout = 10 * second, whContentType = ''application/json'', whSecret = '''', whMaxIdleConns = 16\<rparr>"

fun webhook_options :: "WebhookOption list \<Rightarrow> webhookConfig \<Rightarrow> webhookConfig" where
  "webhook_options [] cfg = cfg"
| "webhook_options (wo # wos) cfg = webhook_options wos (wo cfg)"

definition WebhookHandler ::
  "'w http_env \<Rightarrow> (int \<times> int) \<times> bool \<Rightarrow> string \<Rightarrow> http_client option \<Rightarrow> WebhookOption list \<Rightarrow> 'w HandlerFunc" where
  "WebhookHandler E base target client opts =
     (let cfg = webhook_options opts default_webhook;
          client = (case client of None \<Rightarrow> newWebhookClient base (whTimeout cfg) (whMaxIdleConns cfg) | Some c \<Rightarrow> c)
      in deliver E \<lparr>wh_target = target, wh_client = client, wh_config = cfg\<rparr>)"

subsection \<open>What a delivery does\<close>

lemma WebhookHandler_deliver:
  "WebhookHandler E base target None opts = deliver E
     \<lparr>wh_target = target, wh_client = newWebhookClient base (whTimeout (webhook_options opts default_webhook))
        (whMaxIdleConns (webhook_options opts default_webhook)), wh_config = webhook_options opts default_webhook\<rparr>"
  by (simp add: WebhookHandler_def Let_def)

lemma newWebhookClient_redirects [simp]: "\<not> hcFollowsRedirects (newWebhookClient base d n)"
  by (simp add: newWebhookClient_def Let_def split: prod.splits)

lemma webhook_request_sel:
  "hrMethod (webhook_request E h m) = ''POST''" "hrURL (webhook_request E h m) = wh_target h" "hrBody (webhook_request E h m) = mPayload m"
  "hrHeader (webhook_request E h m) ''X-Shoebox-Attempt'' = Some (FormatInt (mAttempts m + 1))"
  "hrHeader (webhook_request E h m) ''X-Shoebox-Message-ID'' = Some (mID m)"
  "hrHeader (webhook_request E h m) ''X-Shoebox-Signature'' =
     (if whSecret (wh_config h) = '''' then None
      else Some (hex_EncodeToString (HMAC_SHA256 E (bytes_of_string (whSecret (wh_config h))) (mPayload m))))"
  by (simp_all add: webhook_request_def Let_def)

lemma deliver_outcome:
  assumes "NewRequest_error E (wh_target h) = None" "Do E (wh_client h) ctx (webhook_request E h m) w = (r, w')"
  shows "\<exists>err. deliver E h ctx m w =
    (Inr (if \<exists>resp. r = Inr resp \<and> 200 \<le> hsStatusCode resp \<and> hsStatusCode resp < 300 then None else Some err), w')"
  using assms by (cases r) (auto simp: deliver_def)

lemma handleOne_error:
  assumes "b_handlers b queue = Some h" "\<not> (hoMaxRetries (h_opts h) > 0 \<and> mAttempts msg > hoMaxRetries (h_opts h))"
    "hoBackoff (h_opts h) = Some backoff" "h_chain h (handlerCtx h) msg w = (Inr (Some err), w')"
  shows "handleOne ops now tS nid queue msg b w = (Inr (),
    let msg' = msg\<lparr>mAttempts := mAttempts msg + 1\<rparr> in
      if mAttempts msg' > hoMaxRetries (h_opts h) then toDeadLetter ops tS nid queue msg' err b
      else b\<lparr>b_store := snd (Retry_op ops tS queue
             (msg'\<lparr>mScheduledAt := time_add now (Next backoff (mAttempts msg'))\<rparr>) (Some err) (b_store b))\<rparr>, w')"
  using assms by (auto simp: handleOne_def Let_def split: prod.splits)

text \<open>
  C6. Push delivery. A worker that runs a webhook handler made with the default client posts the payload
  to the target in one request, through a client that follows no redirect, with the identifier and the
  attempt number, and with the HMAC of the payload exactly when a secret is set. The message is
  acknowledged if the answer has a status from 200 to 299; after any other status, a redirect included, or
  no answer, it is retried, or dead-lettered when its retries are used up.
\<close>

theorem webhook_delivery:
  assumes "b_handlers b queue = Some h" "h_chain h = WebhookHandler E base target None wopts"
    and "mAttempts msg \<le> hoMaxRetries (h_opts h) \<or> hoMaxRetries (h_opts h) = 0" "hoBackoff (h_opts h) = Some backoff"
    and "NewRequest_error E target = None"
    and "cfg = webhook_options wopts default_webhook" "client = newWebhookClient base (whTimeout cfg) (whMaxIdleConns cfg)"
    and "req = webhook_request E \<lparr>wh_target = target, wh_client = client, wh_config = cfg\<rparr> msg"
    and "Do E client (handlerCtx h) req w = (r, w')"
  shows "\<not> hcFollowsRedirects client \<and> hrMethod req = ''POST'' \<and> hrURL req = target \<and> hrBody req = mPayload msg \<and>
    hrHeader req ''X-Shoebox-Attempt'' = Some (FormatInt (mAttempts msg + 1)) \<and>
    (hrHeader req ''X-Shoebox-Signature'' \<noteq> None \<longleftrightarrow> whSecret cfg \<noteq> '''') \<and>
    (\<exists>b'. handleOne ops now tS nid queue msg b w = (Inr (), b', w') \<and>
      (if \<exists>resp. r = Inr resp \<and> 200 \<le> hsStatusCode resp \<and> hsStatusCode resp < 300 then b' = snd (ack ops queue (mID msg) b)
       else \<exists>err. let msg' = msg\<lparr>mAttempts := mAttempts msg + 1\<rparr> in
         b' = (if mAttempts msg' > hoMaxRetries (h_opts h) then toDeadLetter ops tS nid queue msg' err b
               else b\<lparr>b_store := snd (Retry_op ops tS queue
                      (msg'\<lparr>mScheduledAt := time_add now (Next backoff (mAttempts msg'))\<rparr>) (Some err) (b_store b))\<rparr>)))"
proof -
  let ?h = "\<lparr>wh_target = target, wh_client = client, wh_config = cfg\<rparr>"
  have chain: "h_chain h = deliver E ?h" using assms(2,6,7) by (simp add: WebhookHandler_deliver)
  obtain err where out: "h_chain h (handlerCtx h) msg w =
      (Inr (if \<exists>resp. r = Inr resp \<and> 200 \<le> hsStatusCode resp \<and> hsStatusCode resp < 300 then None else Some err), w')"
    using deliver_outcome [of E ?h "handlerCtx h" msg w r w'] assms(5,8,9) by (auto simp: chain)
  have lim: "\<not> (hoMaxRetries (h_opts h) > 0 \<and> mAttempts msg > hoMaxRetries (h_opts h))" using assms(3) by auto
  have "\<exists>b'. handleOne ops now tS nid queue msg b w = (Inr (), b', w') \<and>
      (if \<exists>resp. r = Inr resp \<and> 200 \<le> hsStatusCode resp \<and> hsStatusCode resp < 300 then b' = snd (ack ops queue (mID msg) b)
       else \<exists>err. let msg' = msg\<lparr>mAttempts := mAttempts msg + 1\<rparr> in
         b' = (if mAttempts msg' > hoMaxRetries (h_opts h) then toDeadLetter ops tS nid queue msg' err b
               else b\<lparr>b_store := snd (Retry_op ops tS queue
                      (msg'\<lparr>mScheduledAt := time_add now (Next backoff (mAttempts msg'))\<rparr>) (Some err) (b_store b))\<rparr>))"
  proof (cases "\<exists>resp. r = Inr resp \<and> 200 \<le> hsStatusCode resp \<and> hsStatusCode resp < 300")
    case True
    then show ?thesis using out lim by (auto simp: handleOne_def assms(1) split: prod.splits)
  next
    case False
    then have "h_chain h (handlerCtx h) msg w = (Inr (Some err), w')" using out by simp
    from handleOne_error [OF assms(1) lim assms(4) this, of ops now tS nid] False show ?thesis by (simp add: Let_def) blast
  qed
  then show ?thesis by (simp add: assms(6-8) webhook_request_sel)
qed

text \<open>A target that answers every request with a redirect; the requests sent are the world.\<close>

definition redirecting :: "http_request list http_env" where
  "redirecting = \<lparr>NewRequest_error = (\<lambda>_. None), Do = (\<lambda>c ctx rq w. (Inr \<lparr>hsStatusCode = 302, hsBody = '' moved ''\<rparr>, rq # w)),
     HMAC_SHA256 = (\<lambda>k m. m)\<rparr>"

theorem webhook_delivery_witness:
  "\<exists>b' rq. handleOne store_ops 9 9 ''d'' ''q'' (plain_message 9 ''a'' ''q'' [7])
       (q_b (snd (Handle ''q'' (WebhookHandler redirecting ((100, 2), True) ''http://h'' None [WithWebhookSecret ''k'']) [] memory_queue))) [] =
     (Inr (), b', [rq]) \<and> hrBody rq = [7] \<and> hrHeader rq ''X-Shoebox-Signature'' \<noteq> None"
proof -
  let ?opts = "[WithWebhookSecret ''k'']" and ?base = "((100, 2), True)" and ?m = "plain_message 9 ''a'' ''q'' [7]"
  let ?fn = "WebhookHandler redirecting ?base ''http://h'' None ?opts"
  let ?b = "q_b (snd (Handle ''q'' ?fn [] memory_queue))"
  let ?o = "normalize_handler_options \<lparr>hoMaxRetries = 5, hoBackoff = None, hoTimeout = 0\<rparr>"
  let ?h = "\<lparr>h_fn = ?fn, h_opts = ?o, h_chain = ?fn\<rparr>" and ?cfg = "webhook_options ?opts default_webhook"
  let ?c = "newWebhookClient ?base (whTimeout ?cfg) (whMaxIdleConns ?cfg)"
  let ?rq = "webhook_request redirecting \<lparr>wh_target = ''http://h'', wh_client = ?c, wh_config = ?cfg\<rparr> ?m"
  have mw: "b_mw (q_b memory_queue) = []" by (simp add: memory_queue_def New_def Let_def)
  have h: "b_handlers ?b ''q'' = Some ?h" by (simp add: Handle_handler mw chain_def)
  have o: "mAttempts ?m \<le> hoMaxRetries (h_opts ?h) \<or> hoMaxRetries (h_opts ?h) = 0" "hoBackoff (h_opts ?h) = Some default_backoff"
    by (simp_all add: normalize_handler_options_def)
  have fn: "h_chain ?h = ?fn" by simp
  have ne: "NewRequest_error redirecting ''http://h'' = None" by (simp add: redirecting_def)
  have d: "Do redirecting ?c (handlerCtx ?h) ?rq [] = (Inr \<lparr>hsStatusCode = 302, hsBody = '' moved ''\<rparr>, [?rq])"
    by (simp add: redirecting_def)
  have secret: "whSecret ?cfg \<noteq> ''''" by (simp add: WithWebhookSecret_def)
  have body: "mPayload ?m = [7]" by simp
  note r = webhook_delivery [OF h fn o ne refl refl refl d, of store_ops 9 9 "''d''"]
  from r obtain b' where "handleOne store_ops 9 9 ''d'' ''q'' ?m ?b [] = (Inr (), b', [?rq])" by blast
  moreover have "hrBody ?rq = [7]" "hrHeader ?rq ''X-Shoebox-Signature'' \<noteq> None" using r secret body by metis+
  ultimately show ?thesis by blast
qed

end
