(* ===== verification/Example_Programs.thy ===== *)
theory Example_Programs
  imports Webhook Tracing Broker_Delivery
begin

text \<open>
  The programs under \<open>examples/\<close> and \<open>otel/example\<close>, as clients of the public interface: their handlers, and the
  calls their \<open>main\<close> makes up to \<open>Shutdown\<close>. What dispatchers and workers do between these calls is the
  subject of the theories of the broker. JSON, the random source, the HTTP client and what is printed are
  parameters; a \<open>reading\<close> gives a call of \<open>Enqueue\<close> its readings of the clock and its identifier. A program that
  leaves by \<open>return\<close> after a failed \<open>New\<close>, or by \<open>log.Fatal\<close>, which runs no deferred call, is \<open>None\<close>.
\<close>

type_synonym reading = "time \<times> time \<times> time \<times> string"

text \<open>\<open>payload, _ := json.Marshal(v)\<close>: of a value that cannot be encoded, nothing.\<close>

definition ignore_error :: "byte list result \<Rightarrow> byte list" where
  "ignore_error r = (case r of Inl e \<Rightarrow> [] | Inr payload \<Rightarrow> payload)"

definition enqueue_ignoring :: "string \<Rightarrow> byte list \<times> EnqueueOpt list \<Rightarrow> reading \<Rightarrow> 'w Queue \<Rightarrow> 'w Queue" where
  "enqueue_ignoring queue item r q =
     (let (now, tD, tS, nid) = r in snd (Enqueue now tD tS nid queue (fst item) (snd item) q))"

fun seed :: "string \<Rightarrow> (byte list \<times> EnqueueOpt list) list \<Rightarrow> reading list \<Rightarrow> 'w Queue \<Rightarrow> 'w Queue" where
  "seed queue (item # items) (r # rs) q = seed queue items rs (enqueue_ignoring queue item r q)"
| "seed queue _ _ q = q"

definition started :: "Options \<Rightarrow> ('w Queue \<Rightarrow> 'w Queue option) \<Rightarrow> env \<Rightarrow> 'r must_register \<Rightarrow> nat \<Rightarrow> 'r \<Rightarrow> 'w Queue option" where
  "started opts body env mreg fresh rs = (case New_Queue env mreg fresh opts rs of (Done q, rs) \<Rightarrow> body q | (_, rs) \<Rightarrow> None)"

definition program :: "Options \<Rightarrow> ('w Queue \<Rightarrow> 'w Queue option) \<Rightarrow> env \<Rightarrow> 'r must_register \<Rightarrow> nat \<Rightarrow> 'r \<Rightarrow> 'w Queue option" where
  "program opts body env mreg fresh rs = map_option (\<lambda>q. snd (Shutdown_Queue_begin q)) (started opts body env mreg fresh rs)"

definition or_fatal :: "unit result \<times> 'w Queue \<Rightarrow> 'w Queue option" where
  "or_fatal r = (case r of (Inl err, q) \<Rightarrow> None | (Inr _, q) \<Rightarrow> Some q)"

definition memory_with :: "int \<Rightarrow> Options" where
  "memory_with concurrency = \<lparr>qoStorage = Memory, qoPath = '''', qoDSN = '''', qoSchema = '''', qoConcurrency = concurrency,
     qoMetricsRegistry = None, qoDedupe = \<lparr>doPolicy = '''', doCapacity = 0\<rparr>,
     qoBatching = \<lparr>boEnabled = False, boAckBatchSize = 0, boAckFlushInterval = 0\<rparr>\<rparr>"

subsection \<open>\<open>email-sender\<close>\<close>

record email =
  emTo :: string
  emSubject :: string
  emBody :: string

definition email_handler ::
  "(byte list \<Rightarrow> email result) \<Rightarrow> ('w \<Rightarrow> int result \<times> 'w) \<Rightarrow> (email \<Rightarrow> int \<Rightarrow> 'w \<Rightarrow> 'w) \<Rightarrow> 'w HandlerFunc" where
  "email_handler unmarshal rand_Int printf ctx msg w =
     (case unmarshal (mPayload msg) of
        Inl err \<Rightarrow> (Inr (Some err), w)
      | Inr e \<Rightarrow>
          (case rand_Int w of
             (Inl err, w) \<Rightarrow> (Inr (Some (ErrWrap ''smtp: random failure simulation'' err)), w)
           | (Inr n, w) \<Rightarrow>
               if n = 0
               then (Inr (Some (ErrMsg (''smtp: transient failure for '' @ emTo e @ '' (attempt '' @ FormatInt (mAttempts msg + 1) @ '')''))), w)
               else (Inr None, printf e (mAttempts msg + 1) w)))"

definition welcome_email :: "int \<Rightarrow> email" where
  "welcome_email i = \<lparr>emTo = ''user'' @ FormatInt i @ ''@example.test'', emSubject = ''Welcome #'' @ FormatInt i, emBody = ''Thanks for signing up!''\<rparr>"

definition email_setup ::
  "(byte list \<Rightarrow> email result) \<Rightarrow> ('w \<Rightarrow> int result \<times> 'w) \<Rightarrow> (email \<Rightarrow> int \<Rightarrow> 'w \<Rightarrow> 'w) \<Rightarrow> 'w Queue \<Rightarrow> 'w Queue" where
  "email_setup unmarshal rand_Int printf q =
     snd (Handle ''emails'' (email_handler unmarshal rand_Int printf)
       [\<lparr>hoMaxRetries = 5, hoBackoff = Some (Exponential (1 * second) (60 * second)), hoTimeout = 0\<rparr>] q)"

definition email_main ::
  "(email \<Rightarrow> byte list result) \<Rightarrow> (byte list \<Rightarrow> email result) \<Rightarrow> ('w \<Rightarrow> int result \<times> 'w) \<Rightarrow> (email \<Rightarrow> int \<Rightarrow> 'w \<Rightarrow> 'w) \<Rightarrow>
   reading list \<Rightarrow> env \<Rightarrow> 'r must_register \<Rightarrow> nat \<Rightarrow> 'r \<Rightarrow> 'w Queue option" where
  "email_main marshal unmarshal rand_Int printf readings =
     program (memory_with 3) (\<lambda>q. Some (seed ''emails'' (map (\<lambda>i. (ignore_error (marshal (welcome_email i)), [])) [1..10]) readings
       (email_setup unmarshal rand_Int printf q)))"

subsection \<open>\<open>lead-assignment\<close>\<close>

record lead =
  ldID :: string
  ldName :: string
  ldWhatsApp :: string
  ldAssignedTo :: string

text \<open>
  The state the handlers share: the atomic counter, and what has been printed and sent. \<open>enqueue\<close> is what a
  call of \<open>q.Enqueue\<close> does to the rest \<open>'w\<close> of the world, the queue included.
\<close>

record 'w lead_world =
  lwNext :: "64 word"
  lwAssigned :: "(string \<times> string) list"
  lwNotified :: "(string \<times> string) list"
  lwRest :: 'w

definition salesmen :: "string list" where
  "salesmen = [''Ani'', ''Budi'', ''Citra'', ''Dewi'']"

definition leads_handler ::
  "(lead \<Rightarrow> byte list result) \<Rightarrow> (byte list \<Rightarrow> lead result) \<Rightarrow> (string \<Rightarrow> byte list \<Rightarrow> 'w \<Rightarrow> unit result \<times> 'w) \<Rightarrow> 'w lead_world HandlerFunc" where
  "leads_handler marshal unmarshal enqueue ctx msg w =
     (case unmarshal (mPayload msg) of
        Inl err \<Rightarrow> (Inr (Some err), w)
      | Inr l \<Rightarrow>
          (let w = w\<lparr>lwNext := lwNext w + 1\<rparr>;
               idx = lwNext w - 1;
               l = l\<lparr>ldAssignedTo := salesmen ! unat (idx mod of_nat (length salesmen))\<rparr>;
               w = w\<lparr>lwAssigned := lwAssigned w @ [(ldName l, ldAssignedTo l)]\<rparr>;
               (r, rest) = enqueue ''notifications'' (ignore_error (marshal l)) (lwRest w)
           in (Inr (case r of Inl err \<Rightarrow> Some err | Inr _ \<Rightarrow> None), w\<lparr>lwRest := rest\<rparr>)))"

definition zero_lead :: lead where
  "zero_lead = \<lparr>ldID = '''', ldName = '''', ldWhatsApp = '''', ldAssignedTo = ''''\<rparr>"

definition notifications_handler ::
  "(byte list \<Rightarrow> lead result) \<Rightarrow> ('w \<Rightarrow> int \<times> 'w) \<Rightarrow> 'w lead_world HandlerFunc" where
  "notifications_handler unmarshal UnixNano ctx msg w =
     (let l = (case unmarshal (mPayload msg) of Inl e \<Rightarrow> zero_lead | Inr l \<Rightarrow> l);
          (t, rest) = UnixNano (lwRest w);
          w = w\<lparr>lwRest := rest\<rparr>;
          digit = (if t < 0 then - ((- t) mod 10) else t mod 10)
      in if digit < 3 then (Inr (Some (ErrMsg (''simulated WhatsApp failure for '' @ ldName l))), w)
         else (Inr None, w\<lparr>lwNotified := lwNotified w @ [(ldWhatsApp l, ldAssignedTo l)]\<rparr>))"

definition lead_setup ::
  "(lead \<Rightarrow> byte list result) \<Rightarrow> (byte list \<Rightarrow> lead result) \<Rightarrow> (string \<Rightarrow> byte list \<Rightarrow> 'w \<Rightarrow> unit result \<times> 'w) \<Rightarrow> ('w \<Rightarrow> int \<times> 'w) \<Rightarrow>
   'w lead_world Queue \<Rightarrow> 'w lead_world Queue" where
  "lead_setup marshal unmarshal enqueue UnixNano q =
     (let q = snd (Handle ''leads'' (leads_handler marshal unmarshal enqueue) [] q)
      in snd (Handle ''notifications'' (notifications_handler unmarshal UnixNano) [\<lparr>hoMaxRetries = 3, hoBackoff = None, hoTimeout = 0\<rparr>] q))"

text \<open>\<open>fmt.Sprintf\<close> with \<open>%03d\<close>.\<close>

definition pad3 :: "int \<Rightarrow> string" where
  "pad3 i = (let s = FormatInt i in replicate (3 - length s) (CHR ''0'') @ s)"

definition seed_lead :: "int \<Rightarrow> lead" where
  "seed_lead i = \<lparr>ldID = ''L'' @ pad3 i, ldName = ''Lead '' @ FormatInt i, ldWhatsApp = ''+62'' @ FormatInt (8000000 + i), ldAssignedTo = ''''\<rparr>"

definition lead_main ::
  "(lead \<Rightarrow> byte list result) \<Rightarrow> (byte list \<Rightarrow> lead result) \<Rightarrow> (string \<Rightarrow> byte list \<Rightarrow> 'w \<Rightarrow> unit result \<times> 'w) \<Rightarrow> ('w \<Rightarrow> int \<times> 'w) \<Rightarrow>
   reading list \<Rightarrow> env \<Rightarrow> 'r must_register \<Rightarrow> nat \<Rightarrow> 'r \<Rightarrow> 'w lead_world Queue option" where
  "lead_main marshal unmarshal enqueue UnixNano readings =
     program (memory_with 2) (\<lambda>q. Some (seed ''leads'' (map (\<lambda>i. (ignore_error (marshal (seed_lead i)), [])) [1..5]) readings
       (lead_setup marshal unmarshal enqueue UnixNano q)))"

subsection \<open>\<open>webhook-retry\<close>\<close>

definition example_client :: http_client where
  "example_client = \<lparr>hcTimeout = 3 * second, hcMaxIdleConns = 100, hcMaxIdleConnsPerHost = 2, hcFollowsRedirects = True\<rparr>"

definition retry_handler :: "'w http_env \<Rightarrow> (string \<Rightarrow> int \<Rightarrow> message \<Rightarrow> 'w \<Rightarrow> 'w) \<Rightarrow> 'w HandlerFunc" where
  "retry_handler E printf ctx msg w =
     (let url = (case mMetadata msg ''url'' of None \<Rightarrow> '''' | Some u \<Rightarrow> u)
      in case NewRequest_error E url of
           Some err \<Rightarrow> (Inr (Some err), w)
         | None \<Rightarrow>
             (case Do E example_client \<lparr>ctx_timeout = None\<rparr>
                 \<lparr>hrMethod = ''POST'', hrURL = url, hrHeader = [''Content-Type'' \<mapsto> ''application/json''], hrBody = mPayload msg\<rparr> w of
                (Inl err, w) \<Rightarrow> (Inr (Some err), w)
              | (Inr resp, w) \<Rightarrow>
                  if hsStatusCode resp \<ge> 500
                  then (Inr (Some (ErrMsg (''webhook '' @ url @ '' -> '' @ FormatInt (hsStatusCode resp)))), w)
                  else (Inr None, printf url (hsStatusCode resp) msg w)))"

definition retry_setup :: "'w http_env \<Rightarrow> (string \<Rightarrow> int \<Rightarrow> message \<Rightarrow> 'w \<Rightarrow> 'w) \<Rightarrow> 'w Queue \<Rightarrow> 'w Queue" where
  "retry_setup E printf q =
     snd (Handle ''webhooks'' (retry_handler E printf)
       [\<lparr>hoMaxRetries = 10, hoBackoff = Some (Exponential (1 * second) (3600 * second)), hoTimeout = 0\<rparr>] q)"

definition order_event :: "int \<Rightarrow> byte list" where
  "order_event i = bytes_of_string (''{\"event\":\"order.created\",\"seq\":'' @ FormatInt i @ ''}'')"

definition retry_main ::
  "'w http_env \<Rightarrow> (string \<Rightarrow> int \<Rightarrow> message \<Rightarrow> 'w \<Rightarrow> 'w) \<Rightarrow> reading list \<Rightarrow> env \<Rightarrow> 'r must_register \<Rightarrow> nat \<Rightarrow> 'r \<Rightarrow> 'w Queue option" where
  "retry_main E printf readings =
     program (memory_with 2) (\<lambda>q. Some (seed ''webhooks'' (map (\<lambda>(i, target). (order_event i, [WithMetadata [''url'' \<mapsto> target]]))
         [(0, ''http://httpbin.org/status/200''), (1, ''http://httpbin.org/status/500''), (2, ''http://httpbin.org/status/500'')])
       readings (retry_setup E printf q)))"

subsection \<open>\<open>typed-task\<close>, \<open>periodic\<close> and \<open>otel/example\<close>\<close>

record Email =
  tyTo :: string
  tySubject :: string

definition typed_main ::
  "Email TaskCodec \<Rightarrow> (Email \<Rightarrow> 'w \<Rightarrow> 'w) \<Rightarrow> reading \<Rightarrow> env \<Rightarrow> 'r must_register \<Rightarrow> nat \<Rightarrow> 'r \<Rightarrow> 'w Queue option" where
  "typed_main json Printf r =
     program (memory_with 0) (\<lambda>q.
       let q = snd (HandleTask json ''emails'' \<lparr>tyTo = '''', tySubject = ''''\<rparr> (\<lambda>ctx email w. (Inr None, Printf email w)) [] q);
           (now, tD, tS, nid) = r
       in or_fatal (EnqueueTask json now tD tS nid ''emails'' \<lparr>tyTo = ''user@example.com'', tySubject = ''Welcome''\<rparr> [] q))"

text \<open>\<open>periodic\<close> ends in \<open>select {}\<close>, which blocks for ever: its deferred \<open>Shutdown\<close> is not reached.\<close>

definition hourly_report :: PeriodicJob where
  "hourly_report = \<lparr>pjID = ''hourly-report'', pjQueue = ''reports'', pjPayload = bytes_of_string ''{\"kind\":\"summary\"}'',
     pjEvery = 3600 * second, pjStartAt = 0, pjEnabled = True\<rparr>"

definition periodic_main ::
  "('w \<Rightarrow> 'w) \<Rightarrow> store schedule_ops \<Rightarrow> time \<Rightarrow> env \<Rightarrow> 'r must_register \<Rightarrow> nat \<Rightarrow> 'r \<Rightarrow> 'w Queue option" where
  "periodic_main Println sops now =
     started (memory_with 0) (\<lambda>q.
       or_fatal (RegisterPeriodic_Queue sops now hourly_report (snd (Handle ''reports'' (\<lambda>ctx msg w. (Inr None, Println w)) [] q))))"

definition otel_main ::
  "(hctx, 'w) otel \<Rightarrow> (hctx, 'w) tracer \<Rightarrow> reading \<Rightarrow> env \<Rightarrow> 'r must_register \<Rightarrow> nat \<Rightarrow> 'r \<Rightarrow> 'w Queue option" where
  "otel_main api tracer r =
     program (memory_with 0) (\<lambda>q.
       let q = Use_Queue [TraceMiddleware api (Some tracer)] q;
           q = snd (Handle ''jobs'' (\<lambda>ctx msg w. (Inr None, w)) [] q);
           (now, tD, tS, nid) = r
       in or_fatal (Enqueue now tD tS nid ''jobs'' (bytes_of_string ''work'') [] q))"

subsection \<open>What the programs leave in their queues\<close>

lemma ValidQueueName_examples [simp]: "ValidQueueName ''emails''" "ValidQueueName ''leads''" "ValidQueueName ''notifications''"
  by (simp_all add: ValidQueueName_def strings_HasSuffix_def queue_rune_ok_def of_char_def)

text \<open>A loop of \<open>Enqueue\<close> without options, on the memory backend: every message is stored, in order.\<close>

definition plain_messages :: "string \<Rightarrow> byte list list \<Rightarrow> reading list \<Rightarrow> message list" where
  "plain_messages queue payloads rs = map2 (\<lambda>payload (now, tD, tS, nid). plain_message now nid queue payload) payloads rs"

lemma seed_plain:
  assumes "ValidQueueName queue" "Store q = MemoryStore m" "\<forall>(now, tD, tS, nid) \<in> set rs. now \<noteq> 0"
  shows "\<exists>m'. Store (seed queue (map (\<lambda>p. (p, [])) payloads) rs q) = MemoryStore m' \<and>
    mem_queues m' queue = mem_queues m queue @ plain_messages queue payloads rs \<and>
    b_handlers (q_b (seed queue (map (\<lambda>p. (p, [])) payloads) rs q)) = b_handlers (q_b q)"
  using assms(2-)
proof (induction payloads arbitrary: rs q m)
  case (Cons p ps)
  show ?case
  proof (cases rs)
    case (Cons r rs')
    obtain now tD tS nid where r: "r = (now, tD, tS, nid)" by (metis prod_cases4)
    let ?q = "enqueue_ignoring queue (p, []) r q" and ?m = "push_queue queue (plain_message now nid queue p) m"
    have e: "?q = q\<lparr>q_b := wake queue ((q_b q)\<lparr>b_store := MemoryStore ?m\<rparr>)\<rparr>"
      using Cons.prems Cons Enqueue_plain [OF assms(1) Cons.prems(1), of now tD tS nid p] by (simp add: enqueue_ignoring_def r)
    then have s: "Store ?q = MemoryStore ?m" "b_handlers (q_b ?q) = b_handlers (q_b q)" by (simp_all add: Store_def)
    obtain m' where "Store (seed queue (map (\<lambda>p. (p, [])) ps) rs' ?q) = MemoryStore m'"
        "mem_queues m' queue = mem_queues ?m queue @ plain_messages queue ps rs'"
        "b_handlers (q_b (seed queue (map (\<lambda>p. (p, [])) ps) rs' ?q)) = b_handlers (q_b ?q)"
      using Cons.IH [OF s(1), of rs'] Cons.prems(2) Cons by auto
    then show ?thesis using s(2) by (simp add: Cons) (simp add: push_queue_def plain_messages_def r)
  qed (use Cons.prems in \<open>simp add: plain_messages_def\<close>)
qed (simp add: plain_messages_def)

lemma Shutdown_Queue_frame [simp]:
  "Store (snd (Shutdown_Queue_begin q)) = Store q" "b_handlers (q_b (snd (Shutdown_Queue_begin q))) = b_handlers (q_b q)"
  by (simp_all add: Shutdown_Queue_begin_def Shutdown_begin_def wakeAll_def Store_def)

lemma start_memory:
  assumes "New_Queue env mreg fresh (memory_with c) regs = (Done q, regs')"
  shows "Store q = MemoryStore NewMemory" "b_mw (q_b q) = []"
proof -
  obtain st where st: "buildStorage env (normalize_options (memory_with c)) = Done st" "q_b q = New (queue_options st (normalize_options (memory_with c)))" "Store q = st"
    using New_Queue_DoneE [OF assms] by metis
  then show "Store q = MemoryStore NewMemory" by (simp add: buildStorage_def) (simp add: memory_with_def)
  show "b_mw (q_b q) = []" by (simp add: st(2)) (simp add: New_def Let_def)
qed

text \<open>
  The run of \<open>email-sender\<close> up to \<open>Shutdown\<close>: ten messages in order, the handler registered.
\<close>

lemma email_main_Some:
  fixes q :: "'w Queue"
  assumes "email_main marshal unmarshal rand_Int printf rs env mreg fresh regs = Some q" "\<forall>(now, tD, tS, nid) \<in> set rs. now \<noteq> 0"
  shows "\<exists>m. Store q = MemoryStore m \<and>
      mem_queues m ''emails'' = plain_messages ''emails'' (map (\<lambda>i. ignore_error (marshal (welcome_email i))) [1..10]) rs"
    and "b_handlers (q_b q) ''emails'' = Some \<lparr>h_fn = email_handler unmarshal rand_Int printf,
      h_opts = normalize_handler_options \<lparr>hoMaxRetries = 5, hoBackoff = Some (Exponential (1 * second) (60 * second)), hoTimeout = 0\<rparr>,
      h_chain = email_handler unmarshal rand_Int printf\<rparr>"
proof -
  obtain q0 :: "'w Queue" and regs' where n: "New_Queue env mreg fresh (memory_with 3) regs = (Done q0, regs')"
    using assms(1) by (auto simp: email_main_def program_def started_def split: prod.splits outcome.splits)
  let ?q1 = "email_setup unmarshal rand_Int printf q0" and ?ps = "map (\<lambda>i. ignore_error (marshal (welcome_email i))) [1..10]"
  have q: "q = snd (Shutdown_Queue_begin (seed ''emails'' (map (\<lambda>p. (p, [])) ?ps) rs ?q1))"
    using assms(1) n by (simp add: email_main_def program_def started_def comp_def)
  have st: "Store ?q1 = MemoryStore NewMemory" using start_memory(1) [OF n] by (simp add: email_setup_def Store_def)
  obtain m where m: "Store (seed ''emails'' (map (\<lambda>p. (p, [])) ?ps) rs ?q1) = MemoryStore m"
      "mem_queues m ''emails'' = plain_messages ''emails'' ?ps rs"
      "b_handlers (q_b (seed ''emails'' (map (\<lambda>p. (p, [])) ?ps) rs ?q1)) = b_handlers (q_b ?q1)"
    using seed_plain [OF ValidQueueName_examples(1) st assms(2), of ?ps] by (auto simp: NewMemory_def)
  from m(1,2) show "\<exists>m. Store q = MemoryStore m \<and> mem_queues m ''emails'' = plain_messages ''emails'' ?ps rs" unfolding q by simp
  from m(3) show "b_handlers (q_b q) ''emails'' = Some \<lparr>h_fn = email_handler unmarshal rand_Int printf,
      h_opts = normalize_handler_options \<lparr>hoMaxRetries = 5, hoBackoff = Some (Exponential (1 * second) (60 * second)), hoTimeout = 0\<rparr>,
      h_chain = email_handler unmarshal rand_Int printf\<rparr>"
    unfolding q by (simp add: email_setup_def Handle_handler start_memory(2) [OF n] chain_def)
qed

lemma email_delays:
  assumes "a < 5"
  shows "Next (Exponential (1 * second) (60 * second)) (int (Suc a)) = 2 ^ a * second"
proof -
  from assms consider "a = 0" | "a = 1" | "a = 2" | "a = 3" | "a = 4" by linarith
  then show ?thesis by cases (simp_all add: exponential_Next_def duration_units)
qed

text \<open>
  C29. The attempts of \<open>email-sender\<close>. On the queue its \<open>main\<close> sets up, whatever the queue has done since, a run of
  the handler that fails puts the message back with a delay of \<open>2 ^ a\<close> seconds after \<open>a\<close> earlier failures, for
  \<open>a\<close> from 0 to 4, and makes it a dead letter after the failure with \<open>a = 5\<close>, with six attempts recorded: the
  handler makes six attempts, not the five its comment speaks of.
\<close>

theorem email_attempts:
  assumes "email_main marshal unmarshal rand_Int printf rs env mreg fresh regs = Some q" "\<forall>(now, tD, tS, nid) \<in> set rs. now \<noteq> 0"
    and "b_handlers b = b_handlers (q_b q)" "email_handler unmarshal rand_Int printf \<lparr>ctx_timeout = None\<rparr> msg w = (Inr (Some e), w')" "mAttempts msg = int a"
  shows "(a < 5 \<longrightarrow> handleOne ops now tS nid ''emails'' msg b w =
      (Inr (), b\<lparr>b_store := snd (Retry_op ops tS ''emails'' (msg\<lparr>mAttempts := int (Suc a), mScheduledAt := time_add now (2 ^ a * second)\<rparr>) (Some e) (b_store b))\<rparr>, w')) \<and>
    (a = 5 \<longrightarrow> handleOne ops now tS nid ''emails'' msg b w = (Inr (), toDeadLetter ops tS nid ''emails'' (msg\<lparr>mAttempts := 6\<rparr>) e b, w'))"
proof -
  let ?ho = "normalize_handler_options \<lparr>hoMaxRetries = 5, hoBackoff = Some (Exponential (1 * second) (60 * second)), hoTimeout = 0\<rparr>"
  let ?h = "\<lparr>h_fn = email_handler unmarshal rand_Int printf, h_opts = ?ho, h_chain = email_handler unmarshal rand_Int printf\<rparr>"
  have h: "b_handlers b ''emails'' = Some ?h" using email_main_Some(2) [OF assms(1,2)] assms(3) by simp
  have run: "h_chain ?h (handlerCtx ?h) msg w = (Inr (Some e), w')" using assms(4) by (simp add: email_handler_def)
  have ho: "hoMaxRetries (h_opts ?h) = int 5" "hoBackoff (h_opts ?h) = Some (Exponential (1 * second) (60 * second))"
    by (simp_all add: normalize_handler_options_def)
  show ?thesis
    using handleOne_retry [OF h run ho(1) assms(5) _ ho(2), of ops now tS nid] handleOne_dead [OF h run ho(1), of ops now tS nid] assms(5)
    by (simp only: email_delays) auto
qed

text \<open>A run with a source of random numbers that makes every sending fail.\<close>

lemma New_memory_with: "\<exists>(q :: 'w Queue) rs'. New_Queue example_env set_registry 0 (memory_with c) (\<lambda>_. {}) = (Done q, rs')"
proof -
  have "distinct (metric_names ''shoebox'')" by (simp add: metric_names_def)
  then have r: "fst (register_all set_registry (FreshRegistry 0) (metric_names ''shoebox'') (\<lambda>_. {})) = Inr ()"
    by (rule register_all_fresh) simp
  have "buildStorage example_env (normalize_options (memory_with c)) = Done (MemoryStore NewMemory)"
    by (simp add: buildStorage_def) (simp add: memory_with_def)
  moreover have "doPolicy (qoDedupe (memory_with c)) = ''''" "qoMetricsRegistry (memory_with c) = None" by (simp_all add: memory_with_def)
  ultimately show ?thesis using r
    by (auto simp: New_Queue_def NewMetrics_def as_registerer_def Let_def DedupePolicyDurable_def split: prod.splits sum.splits)
qed

definition failing_email_main :: "nat Queue option" where
  "failing_email_main = email_main (\<lambda>e. Inr []) (\<lambda>p. Inr (welcome_email 1)) (\<lambda>n. (Inr 0, Suc n)) (\<lambda>e a n. n)
     (replicate 10 (9, 9, 9, ''a'')) example_env set_registry 0 (\<lambda>_. {})"

theorem email_attempts_witness:
  "\<exists>q. failing_email_main = Some q \<and>
     snd (snd (handleOne store_ops 9 9 ''d'' ''emails'' (zero_message\<lparr>mAttempts := 5\<rparr>) (q_b q) 0)) = 1 \<and>
     (\<exists>e. fst (snd (handleOne store_ops 9 9 ''d'' ''emails'' (zero_message\<lparr>mAttempts := 5\<rparr>) (q_b q) 0)) =
       toDeadLetter store_ops 9 ''d'' ''emails'' (zero_message\<lparr>mAttempts := 6\<rparr>) e (q_b q))"
proof -
  obtain q0 :: "nat Queue" and rs' where n: "New_Queue example_env set_registry 0 (memory_with 3) (\<lambda>_. {}) = (Done q0, rs')"
    using New_memory_with by blast
  then obtain q where q: "failing_email_main = Some q" by (simp add: failing_email_main_def email_main_def program_def started_def)
  let ?m = "zero_message\<lparr>mAttempts := 5\<rparr>"
  obtain e where e: "email_handler (\<lambda>p. Inr (welcome_email 1)) (\<lambda>n. (Inr 0, Suc n)) (\<lambda>e a n. n) \<lparr>ctx_timeout = None\<rparr> ?m 0 = (Inr (Some e), Suc 0)"
    by (simp add: email_handler_def)
  from email_attempts [OF q [unfolded failing_email_main_def] _ refl e, of 5 store_ops 9 9 "''d''"]
  have "handleOne store_ops 9 9 ''d'' ''emails'' ?m (q_b q) 0 = (Inr (), toDeadLetter store_ops 9 ''d'' ''emails'' (zero_message\<lparr>mAttempts := 6\<rparr>) e (q_b q), 1)"
    by simp
  with q show ?thesis by (intro exI [of _ q] conjI exI [of _ e]) simp_all
qed

subsection \<open>The assignment of leads\<close>

lemma salesman_index: "unat ((c + of_nat k :: 64 word) mod of_nat (length salesmen)) = (unat c + k) mod 4"
proof -
  have "(4 :: nat) dvd 2 ^ 64" by simp
  then have "(unat c + k) mod 2 ^ 64 mod 4 = (unat c + k) mod 4" by (rule mod_mod_cancel)
  moreover have "unat (c + of_nat k) = (unat c + k) mod 2 ^ 64" by (simp add: unat_word_ariths unat_of_nat mod_add_right_eq)
  ultimately show ?thesis by (simp add: salesmen_def unat_mod)
qed

text \<open>
  Leads are assigned in turn. When every lead can be decoded, each run of the handler makes exactly one
  assignment, whether or not its notification can be enqueued, and the \<open>k\<close>-th run after the counter stood at
  \<open>c\<close> assigns salesman \<open>(c + k) mod 4\<close>, also when the 64-bit counter wraps around on the way.
\<close>

theorem lead_round_robin:
  assumes "\<forall>msg \<in> set msgs. \<exists>l. unmarshal (mPayload msg) = Inr l"
  shows "map snd (lwAssigned (fold (\<lambda>msg w. snd (leads_handler marshal unmarshal enqueue ctx msg w)) msgs w)) =
      map snd (lwAssigned w) @ map (\<lambda>k. salesmen ! ((unat (lwNext w) + k) mod 4)) [0..<length msgs]"
  using assms
proof (induction msgs rule: rev_induct)
  case (snoc msg msgs)
  let ?w = "fold (\<lambda>msg w. snd (leads_handler marshal unmarshal enqueue ctx msg w)) msgs w"
  have n: "lwNext ?w = lwNext w + of_nat (length msgs)"
    using snoc.prems by (induction msgs rule: rev_induct) (auto simp: leads_handler_def Let_def split: prod.splits sum.splits)
  obtain l where "unmarshal (mPayload msg) = Inr l" using snoc.prems by auto
  then have "map snd (lwAssigned (snd (leads_handler marshal unmarshal enqueue ctx msg ?w))) =
      map snd (lwAssigned ?w) @ [salesmen ! unat (lwNext ?w mod of_nat (length salesmen))]"
    by (simp add: leads_handler_def Let_def split: prod.splits)
  with snoc show ?case by (simp add: n salesman_index del: of_nat_add)
qed simp

theorem lead_round_robin_witness:
  "map snd (lwAssigned (fold (\<lambda>msg w. snd (leads_handler (\<lambda>l. Inr []) (\<lambda>p. Inr zero_lead) (\<lambda>q p u. (Inl ErrEmpty, u)) \<lparr>ctx_timeout = None\<rparr> msg w))
       (replicate 3 zero_message) \<lparr>lwNext = 2 ^ 64 - 1, lwAssigned = [], lwNotified = [], lwRest = ()\<rparr>)) = [''Dewi'', ''Ani'', ''Budi'']"
proof -
  have "[0..<length (replicate 3 zero_message)] = [0, 1, 2]" by (simp add: upt_rec)
  then show ?thesis by (subst lead_round_robin) (simp_all add: salesmen_def)
qed

end
