(* ===== verification/Server_Config.thy ===== *)
theory Server_Config
  imports Shoebox_Prelude
begin

text \<open>
  Package \<open>internal/config\<close>: the configuration file of \<open>shoeboxd\<close>. The YAML parser is the parameter \<open>yaml\<close>,
  the reader of files the parameter \<open>read\<close>. The map of webhooks is a list of its entries, in the order the
  program ranges over them.
\<close>

record ServerConfig =
  scAddr :: string
  scAuthToken :: string
  scDashboardUser :: string
  scDashboardPassword :: string

record StorageConfig =
  stKind :: string
  stPath :: string
  stDSN :: string
  stSchema :: string

record WebhookConfig =
  wcURL :: string
  wcTimeout :: duration
  wcContentType :: string
  wcSecret :: string

record Config =
  cfServer :: ServerConfig
  cfStorage :: StorageConfig
  cfWebhooks :: "(string \<times> WebhookConfig) list"

definition zero_config :: Config where
  "zero_config = \<lparr>cfServer = \<lparr>scAddr = '''', scAuthToken = '''', scDashboardUser = '''', scDashboardPassword = ''''\<rparr>,
     cfStorage = \<lparr>stKind = '''', stPath = '''', stDSN = '''', stSchema = ''''\<rparr>, cfWebhooks = []\<rparr>"

definition webhook_defaults :: "WebhookConfig \<Rightarrow> WebhookConfig" where
  "webhook_defaults wh = wh\<lparr>
     wcTimeout := (if wcTimeout wh = 0 then 10 * second else wcTimeout wh),
     wcContentType := (if wcContentType wh = '''' then ''application/json'' else wcContentType wh)\<rparr>"

definition server_defaults :: "ServerConfig \<Rightarrow> ServerConfig" where
  "server_defaults sv = sv\<lparr>scAddr := (if scAddr sv = '''' then ''127.0.0.1:8080'' else scAddr sv)\<rparr>"

definition storage_defaults :: "StorageConfig \<Rightarrow> StorageConfig" where
  "storage_defaults st = st\<lparr>
     stKind := (if stKind st = '''' then ''memory'' else stKind st),
     stPath := (if stPath st = '''' then ''shoebox.db'' else stPath st),
     stSchema := (if stSchema st = '''' then ''public'' else stSchema st)\<rparr>"

definition defaults :: "Config \<Rightarrow> Config" where
  "defaults c = c\<lparr>cfServer := server_defaults (cfServer c), cfStorage := storage_defaults (cfStorage c),
     cfWebhooks := map (\<lambda>(name, wh). (name, webhook_defaults wh)) (cfWebhooks c)\<rparr>"

fun validate_loop :: "(string \<times> WebhookConfig) list \<Rightarrow> unit result" where
  "validate_loop [] = Inr ()"
| "validate_loop ((name, wh) # whs) =
     (if wcURL wh = '''' then Inl (ErrMsg (''config: webhooks.'' @ name @ ''.url is empty'')) else validate_loop whs)"

definition validate :: "Config \<Rightarrow> unit result" where
  "validate c =
     (let st = cfStorage c
      in if stKind st \<notin> {''memory'', ''sqlite'', ''postgres''}
         then Inl (ErrMsg (''config: unknown storage.kind '' @ strconv_Quote (stKind st) @ '' (want memory|sqlite|postgres)''))
         else if stKind st = ''sqlite'' \<and> stPath st = '''' then Inl (ErrMsg ''config: storage.path is required for sqlite'')
         else if stKind st = ''postgres'' \<and> stDSN st = '''' then Inl (ErrMsg ''config: storage.dsn is required for postgres'')
         else validate_loop (cfWebhooks c))"

type_synonym yaml_parser = "byte list \<Rightarrow> Config result"
type_synonym fileReader = "string \<Rightarrow> byte list result"

definition parseBytes :: "yaml_parser \<Rightarrow> byte list \<Rightarrow> Config result" where
  "parseBytes yaml data = (case yaml data of Inl err \<Rightarrow> Inl (ErrWrap ''yaml'' err) | Inr c \<Rightarrow> Inr c)"

definition loadWith :: "yaml_parser \<Rightarrow> string \<Rightarrow> fileReader \<Rightarrow> Config result" where
  "loadWith yaml path read =
     (if path = '''' then Inr (defaults zero_config)
      else case read path of
             Inl err \<Rightarrow> Inl (ErrWrap (''config: read '' @ path) err)
           | Inr data \<Rightarrow>
               (case parseBytes yaml data of
                  Inl err \<Rightarrow> Inl (ErrWrap (''config: parse '' @ path) err)
                | Inr c \<Rightarrow>
                    let c = defaults c
                    in case validate c of Inl err \<Rightarrow> Inl err | Inr _ \<Rightarrow> Inr c))"

lemma validate_loop_iff: "validate_loop whs = Inr () \<longleftrightarrow> (\<forall>(name, wh) \<in> set whs. wcURL wh \<noteq> '''')"
  by (induction whs rule: validate_loop.induct) auto

lemma parts_idem:
  "webhook_defaults (webhook_defaults wh) = webhook_defaults wh" "server_defaults (server_defaults sv) = server_defaults sv"
  "storage_defaults (storage_defaults st) = storage_defaults st"
  by (simp_all add: webhook_defaults_def server_defaults_def storage_defaults_def duration_units)

lemma defaults_idem: "defaults (defaults c) = defaults c"
  by (simp add: defaults_def parts_idem case_prod_beta comp_def)

lemma defaults_sel:
  "scAddr (cfServer (defaults c)) \<noteq> ''''" "stPath (cfStorage (defaults c)) \<noteq> ''''" "stSchema (cfStorage (defaults c)) \<noteq> ''''"
  "(name, wh) \<in> set (cfWebhooks (defaults c)) \<Longrightarrow> wcTimeout wh \<noteq> 0 \<and> wcContentType wh \<noteq> ''''"
  by (auto simp: defaults_def webhook_defaults_def server_defaults_def storage_defaults_def duration_units split: if_splits)

lemma loaded_defaults:
  assumes "loadWith yaml path read = Inr c"
  obtains c0 where "c = defaults c0" "validate c = Inr ()"
proof -
  obtain c0 where c0: "c = defaults c0" "validate c = Inr () \<or> c0 = zero_config"
    using assms by (auto simp: loadWith_def parseBytes_def Let_def split: if_splits sum.splits)
  moreover have "validate c = Inr ()"
    using c0 by (auto simp: validate_def defaults_def storage_defaults_def zero_config_def)
  ultimately show thesis by (simp add: that)
qed

lemma loaded_webhook:
  assumes "loadWith yaml path read = Inr c" "(name, wh) \<in> set (cfWebhooks c)"
  shows "wcTimeout wh \<noteq> 0 \<and> wcContentType wh \<noteq> ''''"
proof -
  from assms(1) obtain c0 where "c = defaults c0" by (rule loaded_defaults)
  with defaults_sel(4) [of name wh c0] assms(2) show ?thesis by simp
qed

text \<open>
  What a loaded configuration guarantees. Whatever the file says, a configuration that \<open>Load\<close> returns
  has an address, a known storage kind with the path, the schema and the DSN that kind needs, and for
  every webhook a URL, a timeout that is not zero and a content type; the defaults change nothing in it.
\<close>

theorem Load_valid:
  assumes "loadWith yaml path read = Inr c"
  shows "scAddr (cfServer c) \<noteq> '''' \<and> stKind (cfStorage c) \<in> {''memory'', ''sqlite'', ''postgres''} \<and>
    stPath (cfStorage c) \<noteq> '''' \<and> stSchema (cfStorage c) \<noteq> '''' \<and>
    (stKind (cfStorage c) = ''postgres'' \<longrightarrow> stDSN (cfStorage c) \<noteq> '''') \<and>
    (\<forall>(name, wh) \<in> set (cfWebhooks c). wcURL wh \<noteq> '''' \<and> wcTimeout wh \<noteq> 0 \<and> wcContentType wh \<noteq> '''') \<and>
    defaults c = c"
proof -
  from assms obtain c0 where c0: "c = defaults c0" and v: "validate c = Inr ()" by (rule loaded_defaults)
  from v have "stKind (cfStorage c) \<in> {''memory'', ''sqlite'', ''postgres''}"
      "stKind (cfStorage c) = ''postgres'' \<longrightarrow> stDSN (cfStorage c) \<noteq> ''''"
      "\<forall>(name, wh) \<in> set (cfWebhooks c). wcURL wh \<noteq> ''''"
    by (auto simp: validate_def validate_loop_iff Let_def split: if_splits)
  with defaults_sel [where c = c0] defaults_idem [of c0] show ?thesis unfolding c0 by blast
qed

definition example_yaml :: yaml_parser where
  "example_yaml data = Inr (zero_config\<lparr>cfStorage := \<lparr>stKind = ''sqlite'', stPath = '''', stDSN = '''', stSchema = ''''\<rparr>\<rparr>)"

theorem Load_valid_witness:
  "\<exists>c. loadWith example_yaml ''config.yaml'' (\<lambda>_. Inr []) = Inr c \<and> stPath (cfStorage c) \<noteq> '''' \<and> defaults c = c"
proof -
  obtain c where c: "loadWith example_yaml ''config.yaml'' (\<lambda>_. Inr []) = Inr c"
    by (simp add: loadWith_def parseBytes_def example_yaml_def validate_def defaults_def storage_defaults_def zero_config_def)
  with Load_valid [OF c] show ?thesis by simp
qed

end
