(* ===== verification/DLQ.thy ===== *)
theory DLQ
  imports Backends
begin

text \<open>
  Package \<open>internal/dlq\<close>: the manager of the dead-letter queues, over any backend. A \<open>Record\<close> embeds the
  message it is made of. What \<open>Inspect\<close> can find is stated for the memory backend, whose dead-letter
  queue is a slice in order of arrival.
\<close>

record Record =
  rcMessage :: message
  rcOriginalQueue :: string
  rcErrorMessage :: string
  rcDeadAt :: time

definition maxListLimit :: int where "maxListLimit = 1000"

definition dlqQueue :: "string \<Rightarrow> string" where
  "dlqQueue queue = queue @ ''.dlq''"

definition toRecord :: "message \<Rightarrow> string \<Rightarrow> Record" where
  "toRecord msg originalQueue = \<lparr>rcMessage = msg, rcOriginalQueue = originalQueue, rcErrorMessage = mError msg, rcDeadAt = mDeadAt msg\<rparr>"

definition dlq_List :: "'s storage_ops \<Rightarrow> string \<Rightarrow> int \<Rightarrow> 's \<Rightarrow> Record list result \<times> 's" where
  "dlq_List ops queue limit s =
     (let limit = (if limit \<le> 0 then 50 else limit);
          limit = (if limit > maxListLimit then maxListLimit else limit)
      in case List_op ops (dlqQueue queue) limit s of
           (Inl err, s) \<Rightarrow> (Inl (ErrWrap (''dlq: list '' @ queue) err), s)
         | (Inr msgs, s) \<Rightarrow> (Inr (map (\<lambda>msg. toRecord msg queue) msgs), s))"

fun inspect_loop :: "string \<Rightarrow> string \<Rightarrow> message list \<Rightarrow> Record result" where
  "inspect_loop queue mid [] = Inl (ErrWrap (''dlq: '' @ queue @ ''/'' @ mid) ErrEmpty)"
| "inspect_loop queue mid (msg # msgs) = (if mID msg = mid then Inr (toRecord msg queue) else inspect_loop queue mid msgs)"

definition Inspect :: "'s storage_ops \<Rightarrow> string \<Rightarrow> string \<Rightarrow> 's \<Rightarrow> Record result \<times> 's" where
  "Inspect ops queue mid s =
     (case List_op ops (dlqQueue queue) maxListLimit s of
        (Inl err, s) \<Rightarrow> (Inl (ErrWrap (''dlq: inspect '' @ queue @ ''/'' @ mid) err), s)
      | (Inr msgs, s) \<Rightarrow> (inspect_loop queue mid msgs, s))"

definition dlq_Replay :: "'s storage_ops \<Rightarrow> time \<Rightarrow> string \<Rightarrow> string \<Rightarrow> 's \<Rightarrow> unit result \<times> 's" where
  "dlq_Replay ops now queue mid s =
     (case Replay_op ops now queue mid s of
        (Inl err, s) \<Rightarrow> (Inl (ErrWrap (''dlq: replay '' @ queue @ ''/'' @ mid) err), s)
      | (Inr _, s) \<Rightarrow> (Inr (), s))"

subsection \<open>What the manager sees\<close>

lemma inspect_loop_find:
  "inspect_loop queue mid msgs =
     (case find (\<lambda>m. mID m = mid) msgs of Some m \<Rightarrow> Inr (toRecord m queue) | None \<Rightarrow> Inl (ErrWrap (''dlq: '' @ queue @ ''/'' @ mid) ErrEmpty))"
  by (induction msgs) simp_all

lemma find_append: "find P (xs @ ys) = (case find P xs of None \<Rightarrow> find P ys | Some x \<Rightarrow> Some x)"
  by (induction xs) simp_all

lemma memory_Inspect:
  "fst (Inspect memory_ops queue mid m) =
     (if mem_queues m (dlqQueue queue) = [] then Inl (ErrWrap (''dlq: inspect '' @ queue @ ''/'' @ mid) ErrEmpty)
      else inspect_loop queue mid (take 1000 (mem_queues m (dlqQueue queue))))"
  by (auto simp: Inspect_def memory_ops_def mem_List_def maxListLimit_def Let_def nat_le_iff split: if_splits)

text \<open>
  C11. Dead letters are inspectable, up to the thousandth. On the memory backend, after a worker
  dead-letters a message under a fresh identifier, \<open>Inspect\<close> finds it, with the queue it came from, its
  payload, the handler's error and the time of its death, exactly when fewer than 1000 dead letters were
  there before; with 1000 or more it reports \<open>ErrEmpty\<close>, although \<open>Replay\<close> still finds the message.
\<close>

theorem Inspect_dead_letter:
  assumes "nid \<notin> set (map mID (mem_queues m (dlqQueue queue)))" "mem_DeadLetter now nid queue msg (Some e) m = (r, m')"
  shows "(if length (mem_queues m (dlqQueue queue)) < 1000
      then (\<exists>rec. fst (Inspect memory_ops queue nid m') = Inr rec \<and> rcOriginalQueue rec = queue \<and>
        mPayload (rcMessage rec) = mPayload msg \<and> mAttempts (rcMessage rec) = mAttempts msg \<and>
        rcErrorMessage rec = Error_text e \<and> rcDeadAt rec = now)
      else (\<exists>err. fst (Inspect memory_ops queue nid m') = Inl err \<and> errors_Is err ErrEmpty)) \<and>
    fst (dlq_Replay memory_ops now' queue nid m') = Inr ()"
proof -
  let ?old = "mem_queues m (dlqQueue queue)" and ?dead = "deadLetterMessage nid queue msg (Some e) now"
  have new: "mem_queues m' (dlqQueue queue) = ?old @ [?dead]"
    using assms(2) by (auto simp: mem_DeadLetter_def deadLetterMessage_def push_queue_def dlqQueue_def Let_def)
  have none: "find (\<lambda>x. mID x = nid) (take n ?old) = None" for n
    using assms(1) by (auto simp: find_None_iff dest: in_set_takeD)
  have dead: "mID ?dead = nid" by (simp add: deadLetterMessage_def)
  have "\<exists>x. replay_find nid b (xs @ [?dead]) = Some x" for b xs
    by (induction xs arbitrary: b) (simp_all add: dead)
  then have "fst (dlq_Replay memory_ops now' queue nid m') = Inr ()"
    using new by (auto simp: dlq_Replay_def memory_ops_def mem_Replay_def dlqQueue_def Let_def split: option.splits)
  moreover have "fst (Inspect memory_ops queue nid m') =
      (if length ?old < 1000 then Inr (toRecord ?dead queue) else Inl (ErrWrap (''dlq: '' @ queue @ ''/'' @ nid) ErrEmpty))"
    using none [of 1000] none [of "length ?old"]
    by (simp add: memory_Inspect new inspect_loop_find find_append dead)
  ultimately show ?thesis by (simp add: toRecord_def deadLetterMessage_def)
qed

theorem Inspect_dead_letter_witness:
  "\<exists>rec. fst (Inspect memory_ops ''q'' ''d'' (snd (mem_DeadLetter 9 ''d'' ''q'' zero_message (Some ErrEmpty) NewMemory))) = Inr rec \<and>
     rcDeadAt rec = 9"
  using Inspect_dead_letter [OF _ prod.collapse [symmetric], of "''d''" NewMemory "''q''" 9 zero_message ErrEmpty]
  by (auto simp: NewMemory_def)

end
