(* ===== verification/HTTP_Server.thy ===== *)
theory HTTP_Server
  imports DLQ
begin

text \<open>
  What the HTTP server of \<open>shoeboxd\<close> uses of \<open>net/http\<close>, and package \<open>internal/api\<close>, file \<open>middleware.go\<close>.

  \<^item> A request is its method, the segments of its cleaned and decoded path (\<open>/\<close> is one empty segment),
    its headers and query by name, what \<open>BasicAuth\<close> reads, its body and the correlation identifier in its
    context.
  \<^item> A response writer keeps the headers set so far; the first \<open>WriteHeader\<close>, or the first write, sends
    the status with them, later ones change nothing. A body is the values encoded into it, in order.
  \<^item> A handler runs on the state \<open>'s\<close> of the backend and the readings of the clock and of the random
    source it may need; \<open>Inl\<close> is a panic. Log output is not modelled.
\<close>

subsection \<open>Requests and responses\<close>

record inputs =
  inNow :: time
  inClock :: time
  inIDRand :: "byte list option"
  inUnixNano :: int
  inRand :: "byte list option"
  inClockText :: string

record request =
  rqMethod :: string
  rqPath :: "string list"
  rqHeader :: "string \<Rightarrow> string"
  rqBasicAuth :: "(string \<times> string) option"
  rqQuery :: "string \<Rightarrow> string"
  rqBody :: "byte list"
  rqID :: "string option"

record queueStat =
  qsName :: string
  qsDepth :: nat
  qsProcessed :: "64 word"
  qsErrors :: "64 word"
  qsRetries :: "64 word"
  qsDead :: "64 word"

datatype http_body =
    JSONError string
  | JSONID string
  | JSONMessage message
  | JSONStats queue_stats
  | JSONRecords "Record list"
  | JSONStatus string
  | JSONStatsMap "(string \<times> queue_stats) list"
  | StatsPage string "queueStat list"
  | DLQPage string "Record list"
  | MetricsPage
  | PlainText string

record writer =
  wHeader :: "string \<rightharpoonup> string"
  wSent :: "(int \<times> (string \<rightharpoonup> string)) option"
  wBody :: "http_body list"

definition new_writer :: writer where
  "new_writer = \<lparr>wHeader = Map.empty, wSent = None, wBody = []\<rparr>"

definition set_header :: "string \<Rightarrow> string \<Rightarrow> writer \<Rightarrow> writer" where
  "set_header k v w = w\<lparr>wHeader := (wHeader w)(k \<mapsto> v)\<rparr>"

definition WriteHeader :: "int \<Rightarrow> writer \<Rightarrow> writer" where
  "WriteHeader code w = (case wSent w of None \<Rightarrow> w\<lparr>wSent := Some (code, wHeader w)\<rparr> | Some _ \<Rightarrow> w)"

definition write_body :: "http_body \<Rightarrow> writer \<Rightarrow> writer" where
  "write_body b w = (let w = WriteHeader 200 w in w\<lparr>wBody := wBody w @ [b]\<rparr>)"

definition http_Error :: "string \<Rightarrow> int \<Rightarrow> writer \<Rightarrow> writer" where
  "http_Error msg code w =
     write_body (PlainText msg) (WriteHeader code (set_header ''X-Content-Type-Options'' ''nosniff''
       (set_header ''Content-Type'' ''text/plain; charset=utf-8'' w)))"

definition writeJSON :: "int \<Rightarrow> http_body \<Rightarrow> writer \<Rightarrow> writer" where
  "writeJSON status v w = write_body v (WriteHeader status (set_header ''Content-Type'' ''application/json'' w))"

definition writeError :: "int \<Rightarrow> string \<Rightarrow> writer \<Rightarrow> writer" where
  "writeError status msg w = write_body (JSONError msg) (WriteHeader status (set_header ''Content-Type'' ''application/json'' w))"

type_synonym 's http_handler = "inputs \<Rightarrow> request \<Rightarrow> writer \<Rightarrow> 's \<Rightarrow> unit result \<times> writer \<times> 's"
type_synonym 's http_middleware = "'s http_handler \<Rightarrow> 's http_handler"

definition respond :: "(writer \<Rightarrow> writer) \<Rightarrow> writer \<Rightarrow> 's \<Rightarrow> unit result \<times> writer \<times> 's" where
  "respond f w s = (Inr (), f w, s)"

text \<open>A pattern with method GET matches HEAD too; a wildcard matches one segment that is not empty.\<close>

definition is_get :: "string \<Rightarrow> bool" where
  "is_get m \<longleftrightarrow> m = ''GET'' \<or> m = ''HEAD''"

definition NotFound :: "writer \<Rightarrow> 's \<Rightarrow> unit result \<times> writer \<times> 's" where
  "NotFound = respond (http_Error ''404 page not found'' 404)"

definition MethodNotAllowed :: "string \<Rightarrow> writer \<Rightarrow> 's \<Rightarrow> unit result \<times> writer \<times> 's" where
  "MethodNotAllowed allow = respond (\<lambda>w. http_Error ''Method Not Allowed'' 405 (set_header ''Allow'' allow w))"

text \<open>
  The multiplexer matches on the escaped path, segment by segment. \<open>cleanPath\<close> drops empty segments and
  dots, lets two dots take back the segment before them, and keeps a trailing slash; \<open>PathUnescape\<close>
  decodes one segment, and leaves a segment with a bad escape as it is. The query, the escaping of
  \<open>Location\<close> and the body of a redirect are left out.
\<close>

fun cleanSegments :: "string list \<Rightarrow> string list \<Rightarrow> string list" where
  "cleanSegments acc [] = rev acc"
| "cleanSegments acc (seg # segs) =
     (if seg = '''' \<or> seg = ''.'' then cleanSegments acc segs
      else if seg = ''..'' then cleanSegments (drop 1 acc) segs
      else cleanSegments (seg # acc) segs)"

definition cleanPath :: "string list \<Rightarrow> string list" where
  "cleanPath segs =
     (let np = cleanSegments [] segs
      in if np = [] then [''''] else if last segs = '''' then np @ [''''] else np)"

definition unhex :: "char \<Rightarrow> nat option" where
  "unhex c =
     (let n = of_char c :: nat
      in if 48 \<le> n \<and> n \<le> 57 then Some (n - 48)
         else if 97 \<le> n \<and> n \<le> 102 then Some (n - 87)
         else if 65 \<le> n \<and> n \<le> 70 then Some (n - 55)
         else None)"

fun unescape :: "string \<Rightarrow> string option" where
  "unescape [] = Some []"
| "unescape (c # cs) =
     (if c \<noteq> CHR ''%'' then map_option ((#) c) (unescape cs)
      else case cs of
             x # y # rest \<Rightarrow>
               (case (unhex x, unhex y) of
                  (Some a, Some b) \<Rightarrow> map_option ((#) (char_of (16 * a + b))) (unescape rest)
                | _ \<Rightarrow> None)
           | _ \<Rightarrow> None)"

definition PathUnescape :: "string \<Rightarrow> string" where
  "PathUnescape seg = (case unescape seg of None \<Rightarrow> seg | Some t \<Rightarrow> t)"

definition path_text :: "string list \<Rightarrow> string" where
  "path_text segs = concat (map ((#) CHR ''/'') segs)"

definition Redirect :: "int \<Rightarrow> string \<Rightarrow> writer \<Rightarrow> 's \<Rightarrow> unit result \<times> writer \<times> 's" where
  "Redirect code url = respond (\<lambda>w. WriteHeader code (set_header ''Location'' url w))"

subsection \<open>Middleware\<close>

fun Chain_loop :: "'s http_middleware list \<Rightarrow> nat \<Rightarrow> 's http_handler \<Rightarrow> 's http_handler" where
  "Chain_loop mw 0 h = h"
| "Chain_loop mw (Suc i) h = Chain_loop mw i ((mw ! i) h)"

definition Chain :: "'s http_middleware list \<Rightarrow> 's http_middleware" where
  "Chain mw final = Chain_loop mw (length mw) final"

definition newCorrelationID :: "inputs \<Rightarrow> string" where
  "newCorrelationID inp =
     (case inRand inp of
        None \<Rightarrow> ''ts-'' @ hex_EncodeToString (bytes_of_string (inClockText inp))
      | Some b \<Rightarrow> hex_EncodeToString b)"

definition correlation_id :: "inputs \<Rightarrow> request \<Rightarrow> string" where
  "correlation_id inp r =
     (let rid = rqHeader r ''X-Request-ID'' in if rid = '''' then newCorrelationID inp else rid)"

definition RequestIDMiddleware :: "'s http_middleware" where
  "RequestIDMiddleware nxt = (\<lambda>inp r w s.
     let rid = correlation_id inp r
     in nxt inp (r\<lparr>rqID := Some rid\<rparr>) (set_header ''X-Request-ID'' rid w) s)"

definition HTTP_LoggingMiddleware :: "'s http_middleware" where
  "HTTP_LoggingMiddleware nxt = (\<lambda>inp r w s. nxt inp r w s)"

definition provided_token :: "request \<Rightarrow> string" where
  "provided_token r =
     (let provided = rqHeader r ''X-API-Key''
      in if provided = ''''
         then let auth = rqHeader r ''Authorization''
              in if length auth > 7 \<and> take 7 auth = ''Bearer '' then drop 7 auth else provided
         else provided)"

definition AuthMiddleware :: "string \<Rightarrow> 's http_middleware" where
  "AuthMiddleware token nxt =
     (if token = '''' then nxt
      else (\<lambda>inp r w s. if provided_token r \<noteq> token then respond (writeError 401 ''unauthorized'') w s else nxt inp r w s))"

definition BasicAuthMiddleware :: "string \<Rightarrow> string \<Rightarrow> 's http_middleware" where
  "BasicAuthMiddleware username password nxt =
     (if username = '''' then nxt
      else (\<lambda>inp r w s.
        case rqBasicAuth r of
          Some (u, p) \<Rightarrow>
            if u \<noteq> username \<or> p \<noteq> password
            then respond (\<lambda>w. writeError 401 ''unauthorized''
                   (set_header ''WWW-Authenticate'' ''Basic realm=\"shoebox\", charset=\"UTF-8\"'' w)) w s
            else nxt inp r w s
        | None \<Rightarrow> respond (\<lambda>w. writeError 401 ''unauthorized''
                   (set_header ''WWW-Authenticate'' ''Basic realm=\"shoebox\", charset=\"UTF-8\"'' w)) w s))"

definition HTTP_RecoveryMiddleware :: "'s http_middleware" where
  "HTTP_RecoveryMiddleware nxt = (\<lambda>inp r w s.
     case nxt inp r w s of
       (Inl p, w, s) \<Rightarrow> (Inr (), writeError 500 ''internal panic'' w, s)
     | (Inr _, w, s) \<Rightarrow> (Inr (), w, s))"

lemma Chain_loop_foldr: "n \<le> length mw \<Longrightarrow> Chain_loop mw n h = foldr (\<lambda>m h. m h) (take n mw) h"
  by (induction mw n h rule: Chain_loop.induct) (simp_all add: take_Suc_conv_app_nth)

lemma Chain_foldr: "Chain mw h = foldr (\<lambda>m h. m h) mw h"
  by (simp add: Chain_def Chain_loop_foldr)

subsection \<open>What a router promises the chain around it\<close>

text \<open>
  A handler that is given a writer nothing was sent to, with a correlation identifier among its headers,
  either panics before it writes or sends one of the statuses of this server, the identifier with it. The
  middleware keeps the promise, and behind the recovery the panic is gone too.
\<close>

definition answer_codes :: "int set" where
  "answer_codes = {200, 201, 400, 401, 404, 405, 500}"

definition sends :: "string \<Rightarrow> writer \<Rightarrow> bool" where
  "sends rid w \<longleftrightarrow> (\<exists>code hd. wSent w = Some (code, hd) \<and> code \<in> answer_codes \<and> hd ''X-Request-ID'' = Some rid \<and>
     (code = 401 \<longrightarrow> wBody w = [JSONError ''unauthorized'']))"

definition unsent :: "string \<Rightarrow> writer \<Rightarrow> bool" where
  "unsent rid w \<longleftrightarrow> wSent w = None \<and> wBody w = [] \<and> wHeader w ''X-Request-ID'' = Some rid"

definition answers :: "string \<Rightarrow> unit result \<times> writer \<times> 's \<Rightarrow> bool" where
  "answers rid res = (case res of (Inl p, w, s) \<Rightarrow> unsent rid w | (Inr _, w, s) \<Rightarrow> sends rid w)"

lemmas writer_defs = writeError_def writeJSON_def http_Error_def write_body_def WriteHeader_def set_header_def Let_def

lemma answers_respond [simp]: "answers rid (respond f w s) = sends rid (f w)"
  by (simp add: answers_def respond_def)

lemma sends_writeError: "unsent rid w \<Longrightarrow> code \<in> answer_codes - {401} \<Longrightarrow> sends rid (writeError code msg w)"
  by (simp add: sends_def unsent_def writer_defs)

lemma sends_writeJSON: "unsent rid w \<Longrightarrow> code \<in> answer_codes - {401} \<Longrightarrow> sends rid (writeJSON code v w)"
  by (simp add: sends_def unsent_def writer_defs)

lemma sends_http_Error: "unsent rid w \<Longrightarrow> code \<in> answer_codes - {401} \<Longrightarrow> sends rid (http_Error msg code w)"
  by (simp add: sends_def unsent_def writer_defs)

lemma sends_write_body: "unsent rid w \<Longrightarrow> sends rid (write_body b w)"
  by (simp add: sends_def unsent_def writer_defs answer_codes_def)

lemma unsent_set_header: "unsent rid w \<Longrightarrow> k \<noteq> ''X-Request-ID'' \<Longrightarrow> unsent rid (set_header k v w)"
  by (simp add: unsent_def set_header_def)

lemma sends_unauthorized: "unsent rid w \<Longrightarrow> sends rid (writeError 401 ''unauthorized'' w)"
  by (simp add: sends_def unsent_def writer_defs answer_codes_def)

lemma codes_in [simp]: "200 \<in> answer_codes" "201 \<in> answer_codes" "400 \<in> answer_codes" "404 \<in> answer_codes" "405 \<in> answer_codes" "500 \<in> answer_codes"
  by (simp_all add: answer_codes_def)

lemmas sends_intros = sends_writeError sends_writeJSON sends_http_Error sends_write_body unsent_set_header sends_unauthorized

lemma NotFound_answers: "unsent rid w \<Longrightarrow> answers rid (NotFound w s)"
  by (simp add: NotFound_def sends_http_Error)

lemma MethodNotAllowed_answers: "unsent rid w \<Longrightarrow> answers rid (MethodNotAllowed a w s)"
  by (simp add: MethodNotAllowed_def sends_http_Error unsent_set_header)

locale endpoint =
  fixes h :: "'s http_handler"
  assumes h_answers: "unsent rid w \<Longrightarrow> answers rid (h inp r w s)"
begin

lemma auth_endpoint: "endpoint (AuthMiddleware token h)"
  by unfold_locales (simp add: AuthMiddleware_def h_answers sends_unauthorized)

lemma basic_auth_endpoint: "endpoint (BasicAuthMiddleware user password h)"
  by unfold_locales (auto simp: BasicAuthMiddleware_def h_answers sends_unauthorized unsent_set_header split: option.splits)

lemma logging_endpoint: "endpoint (HTTP_LoggingMiddleware h)"
  by unfold_locales (simp add: HTTP_LoggingMiddleware_def h_answers)

lemma recovered:
  assumes "unsent rid w"
  shows "\<exists>w' s'. HTTP_RecoveryMiddleware h inp r w s = (Inr (), w', s') \<and> sends rid w'"
proof -
  obtain res w' s' where "h inp r w s = (res, w', s')" by (metis prod_cases3)
  with h_answers [OF assms, of inp r s] show ?thesis
    by (cases res) (simp_all add: HTTP_RecoveryMiddleware_def answers_def sends_writeError)
qed

text \<open>Every request is answered once, and the answer carries the identifier the request came with, or a new one.\<close>

lemma guarded:
  "\<exists>w' s'. HTTP_RecoveryMiddleware (RequestIDMiddleware h) inp r new_writer s = (Inr (), w', s') \<and>
     sends (correlation_id inp r) w'"
proof -
  let ?rid = "correlation_id inp r"
  have "unsent ?rid (set_header ''X-Request-ID'' ?rid new_writer)" by (simp add: unsent_def set_header_def new_writer_def)
  from recovered [OF this, of inp "r\<lparr>rqID := Some ?rid\<rparr>" s] show ?thesis
    by (simp add: HTTP_RecoveryMiddleware_def RequestIDMiddleware_def Let_def)
qed

end

end
