(* ===== verification/HTTP_API.thy ===== *)
theory HTTP_API
  imports HTTP_Server Naming
begin

text \<open>
  Package \<open>internal/api\<close>, file \<open>handler.go\<close>: the six endpoints over a backend and its dead-letter manager.

  The JSON decoder and the duration parser of the standard library are the parameters \<open>decode\<close> and
  \<open>ParseDuration\<close>. The decoder reads the first \<open>maxPayloadSize\<close> bytes of the body; the flag says that the
  reader fails after them. The deadline of five seconds each endpoint sets may make any call of a backend
  fail, as the SQL backends do anyway.
\<close>

record enqueueRequest =
  erPayload :: string
  erDelay :: string
  erMetadata :: metadata

type_synonym json_decoder = "byte list \<Rightarrow> bool \<Rightarrow> enqueueRequest result"
type_synonym duration_parser = "string \<Rightarrow> duration result"

definition maxPayloadSize :: nat where "maxPayloadSize = 1048576"
definition maxDLQLimit :: int where "maxDLQLimit = 1000"

definition newRequestID :: "inputs \<Rightarrow> string" where
  "newRequestID inp = NewMessageID (inIDRand inp) (inUnixNano inp)"

definition api_enqueue :: "'s storage_ops \<Rightarrow> json_decoder \<Rightarrow> duration_parser \<Rightarrow> string \<Rightarrow> 's http_handler" where
  "api_enqueue ops decode ParseDuration queue inp r w s =
     (if \<not> ValidQueueName queue then respond (writeError 400 ''invalid queue name'') w s
      else case decode (take maxPayloadSize (rqBody r)) (length (rqBody r) > maxPayloadSize) of
             Inl err \<Rightarrow> respond (writeError 400 (''invalid JSON body: '' @ Error_text err)) w s
           | Inr req \<Rightarrow>
               if erPayload req = '''' then respond (writeError 400 ''payload is required'') w s
               else let msg = zero_message\<lparr>mID := newRequestID inp, mQueue := queue,
                          mPayload := bytes_of_string (erPayload req), mMetadata := erMetadata req\<rparr>
                    in case (if erDelay req \<noteq> '''' then ParseDuration (erDelay req) else Inr 0) of
                         Inl err \<Rightarrow> respond (writeError 400 (''invalid delay: '' @ Error_text err)) w s
                       | Inr d \<Rightarrow>
                           let msg = (if sint d > 0 then msg\<lparr>mScheduledAt := time_add (inNow inp) d\<rparr> else msg)
                           in case Enqueue_op ops (inClock inp) queue msg s of
                                (Inl err, s) \<Rightarrow> respond (writeError 500 ''enqueue failed'') w s
                              | (Inr _, s) \<Rightarrow> respond (writeJSON 201 (JSONID (mID msg))) w s)"

definition api_consume :: "'s storage_ops \<Rightarrow> string \<Rightarrow> 's http_handler" where
  "api_consume ops queue inp r w s =
     (case Dequeue_op ops (inClock inp) queue 1 s of
        (Inl err, s) \<Rightarrow>
          if errors_Is err ErrEmpty then respond (writeError 404 ''no messages available'') w s
          else respond (writeError 500 ''dequeue failed'') w s
      | (Inr msgs, s) \<Rightarrow>
          (case msgs of
             [] \<Rightarrow> (Inl (GoPanic ''index out of range [0] with length 0''), w, s)
           | m # _ \<Rightarrow> respond (writeJSON 200 (JSONMessage m)) w s))"

definition api_stats :: "'s storage_ops \<Rightarrow> string \<Rightarrow> 's http_handler" where
  "api_stats ops queue inp r w s =
     (case Stats_op ops queue s of
        (Inl err, s) \<Rightarrow> respond (writeError 500 ''stats failed'') w s
      | (Inr st, s) \<Rightarrow> respond (writeJSON 200 (JSONStats st)) w s)"

text \<open>\<open>strconv.Atoi\<close>: an optional sign, decimal digits, a value that fits 64 bits.\<close>

definition is_digit :: "char \<Rightarrow> bool" where
  "is_digit c \<longleftrightarrow> 48 \<le> (of_char c :: nat) \<and> (of_char c :: nat) \<le> 57"

definition Atoi :: "string \<Rightarrow> int option" where
  "Atoi s =
     (let neg = (take 1 s = ''-''); ds = (if take 1 s = ''-'' \<or> take 1 s = ''+'' then drop 1 s else s)
      in if ds = [] \<or> \<not> list_all is_digit ds then None
         else let v = foldl (\<lambda>n c. 10 * n + (int (of_char c) - 48)) 0 ds; v = (if neg then - v else v)
              in if v < - (2 ^ 63) \<or> v \<ge> 2 ^ 63 then None else Some v)"

definition list_limit :: "request \<Rightarrow> int" where
  "list_limit r =
     (let l = rqQuery r ''limit''
      in if l = '''' then 50
         else case Atoi l of
                None \<Rightarrow> 50
              | Some parsed \<Rightarrow> if parsed > 0 then (if parsed > maxDLQLimit then maxDLQLimit else parsed) else 50)"

definition api_listDLQ :: "'s storage_ops \<Rightarrow> string \<Rightarrow> 's http_handler" where
  "api_listDLQ ops queue inp r w s =
     (case dlq_List ops queue (list_limit r) s of
        (Inl err, s) \<Rightarrow>
          if errors_Is err ErrEmpty then respond (writeJSON 200 (JSONRecords [])) w s
          else respond (writeError 500 ''dlq list failed'') w s
      | (Inr records, s) \<Rightarrow> respond (writeJSON 200 (JSONRecords records)) w s)"

definition api_replayDLQ :: "'s storage_ops \<Rightarrow> string \<Rightarrow> string \<Rightarrow> 's http_handler" where
  "api_replayDLQ ops queue mid inp r w s =
     (case dlq_Replay ops (inClock inp) queue mid s of
        (Inl err, s) \<Rightarrow>
          if errors_Is err ErrEmpty then respond (writeError 404 ''dlq message not found'') w s
          else respond (writeError 500 ''replay failed'') w s
      | (Inr _, s) \<Rightarrow> respond (writeJSON 200 (JSONStatus ''replayed'')) w s)"

definition api_ack :: "'s storage_ops \<Rightarrow> string \<Rightarrow> string \<Rightarrow> 's http_handler" where
  "api_ack ops queue mid inp r w s =
     (case Ack_op ops queue mid s of
        (Inl err, s) \<Rightarrow> respond (writeError 500 ''ack failed'') w s
      | (Inr _, s) \<Rightarrow> respond (writeJSON 200 (JSONStatus ''acked'')) w s)"

text \<open>The routes of \<open>Register\<close>, as the multiplexer of \<open>net/http\<close> matches them.\<close>

definition api_mux :: "'s storage_ops \<Rightarrow> json_decoder \<Rightarrow> duration_parser \<Rightarrow> 's http_handler" where
  "api_mux ops decode ParseDuration inp r w s =
     (case rqPath r of
        [a, name, b] \<Rightarrow>
          if a \<noteq> ''queues'' \<or> name = '''' then NotFound w s
          else if b = ''messages''
            then (if rqMethod r = ''POST'' then api_enqueue ops decode ParseDuration name inp r w s else MethodNotAllowed ''POST'' w s)
          else if b = ''stats''
            then (if is_get (rqMethod r) then api_stats ops name inp r w s else MethodNotAllowed ''GET, HEAD'' w s)
          else if b = ''dlq''
            then (if is_get (rqMethod r) then api_listDLQ ops name inp r w s else MethodNotAllowed ''GET, HEAD'' w s)
          else NotFound w s
      | [a, name, b, mid] \<Rightarrow>
          if a \<noteq> ''queues'' \<or> name = '''' \<or> b \<noteq> ''messages'' \<or> mid = '''' then NotFound w s
          else if mid = ''next'' \<and> is_get (rqMethod r) then api_consume ops name inp r w s
          else if rqMethod r = ''DELETE'' then api_ack ops name mid inp r w s
          else MethodNotAllowed (if mid = ''next'' then ''DELETE, GET, HEAD'' else ''DELETE'') w s
      | [a, name, b, mid, c] \<Rightarrow>
          if a \<noteq> ''queues'' \<or> name = '''' \<or> b \<noteq> ''dlq'' \<or> mid = '''' \<or> c \<noteq> ''replay'' then NotFound w s
          else if rqMethod r = ''POST'' then api_replayDLQ ops name mid inp r w s
          else MethodNotAllowed ''POST'' w s
      | _ \<Rightarrow> NotFound w s)"

subsection \<open>The interface as an endpoint\<close>

lemma api_ops_answer:
  assumes "unsent rid w"
  shows "answers rid (api_enqueue ops decode pd q inp r w s)" "answers rid (api_consume ops q inp r w s)"
    "answers rid (api_stats ops q inp r w s)" "answers rid (api_listDLQ ops q inp r w s)"
    "answers rid (api_replayDLQ ops q mid inp r w s)" "answers rid (api_ack ops q mid inp r w s)"
proof -
  note s = sends_writeError [OF assms] sends_writeJSON [OF assms]
  show "answers rid (api_enqueue ops decode pd q inp r w s)"
    unfolding api_enqueue_def Let_def by (simp add: s split: sum.splits prod.splits)
  show "answers rid (api_consume ops q inp r w s)"
    unfolding api_consume_def by (auto simp: s answers_def [of _ "(Inl _, _)"] assms split: sum.splits prod.splits list.splits)
  show "answers rid (api_stats ops q inp r w s)" unfolding api_stats_def by (simp add: s split: sum.splits prod.splits)
  show "answers rid (api_listDLQ ops q inp r w s)" unfolding api_listDLQ_def by (simp add: s split: sum.splits prod.splits)
  show "answers rid (api_replayDLQ ops q mid inp r w s)" unfolding api_replayDLQ_def by (simp add: s split: sum.splits prod.splits)
  show "answers rid (api_ack ops q mid inp r w s)" unfolding api_ack_def by (simp add: s split: sum.splits prod.splits)
qed

lemma route_cases:
  assumes "\<And>a n b. xs = [a, n, b] \<Longrightarrow> P (f a n b)" "\<And>a n b m. xs = [a, n, b, m] \<Longrightarrow> P (g a n b m)"
    "\<And>a n b m c. xs = [a, n, b, m, c] \<Longrightarrow> P (k a n b m c)" "P z"
  shows "P (case xs of [a, n, b] \<Rightarrow> f a n b | [a, n, b, m] \<Rightarrow> g a n b m | [a, n, b, m, c] \<Rightarrow> k a n b m c | _ \<Rightarrow> z)"
  using assms by (auto split: list.split)

interpretation api: endpoint "api_mux ops decode ParseDuration" for ops decode ParseDuration
proof unfold_locales
  fix rid w inp r s
  assume w: "unsent rid w"
  note steps = api_ops_answer [OF w] NotFound_answers [OF w] MethodNotAllowed_answers [OF w]
  show "answers rid (api_mux ops decode ParseDuration inp r w s)"
    unfolding api_mux_def by (rule route_cases) (simp_all add: steps)
qed

end
