(* ===== verification/Dashboard.thy ===== *)
theory Dashboard
  imports HTTP_Server
begin

text \<open>
  Package \<open>internal/dashboard\<close>: the pages of the web interface as the data their templates get. The
  templates themselves, and an error while one is executed, are not modelled.
\<close>

text \<open>\<open>sort.Strings\<close>; equal strings are indistinguishable, so a stable sort gives its result.\<close>

definition sort_Strings :: "string list \<Rightarrow> string list" where
  "sort_Strings qs = SliceStable string_less qs"

definition queue_stat :: "string \<Rightarrow> queue_stats \<Rightarrow> queueStat" where
  "queue_stat q st = \<lparr>qsName = q, qsDepth = qDepth st, qsProcessed = qProcessed st, qsErrors = qErrors st,
     qsRetries = qRetries st, qsDead = qDead st\<rparr>"

fun collect_loop :: "'s storage_ops \<Rightarrow> string list \<Rightarrow> (string \<times> queue_stats) list \<Rightarrow> 's \<Rightarrow> (string \<times> queue_stats) list \<times> 's" where
  "collect_loop ops [] stats s = (stats, s)"
| "collect_loop ops (q # qs) stats s =
     (case Stats_op ops q s of
        (Inl err, s) \<Rightarrow> collect_loop ops qs stats s
      | (Inr st, s) \<Rightarrow> collect_loop ops qs (stats @ [(q, st)]) s)"

definition collectStats :: "'s storage_ops \<Rightarrow> string list \<Rightarrow> 's \<Rightarrow> queueStat list \<times> 's" where
  "collectStats ops queues s =
     (let (stats, s) = collect_loop ops (sort_Strings queues) [] s in (map (\<lambda>(q, st). queue_stat q st) stats, s))"

definition render :: "http_body \<Rightarrow> writer \<Rightarrow> writer" where
  "render page w = write_body page (set_header ''Content-Type'' ''text/html; charset=utf-8'' w)"

definition dash_index :: "'s storage_ops \<Rightarrow> string list \<Rightarrow> 's http_handler" where
  "dash_index ops queues inp r w s =
     (let (stats, s) = collectStats ops queues s in respond (render (StatsPage ''layout.html'' stats)) w s)"

definition statsPartial :: "'s storage_ops \<Rightarrow> string list \<Rightarrow> 's http_handler" where
  "statsPartial ops queues inp r w s =
     (let (stats, s) = collectStats ops queues s in respond (render (StatsPage ''stats.html'' stats)) w s)"

definition dlqPartial :: "'s storage_ops \<Rightarrow> 's http_handler" where
  "dlqPartial ops inp r w s =
     (let queue = rqQuery r ''queue''
      in if queue = '''' then respond (http_Error ''missing queue parameter'' 400) w s
         else case dlq_List ops queue 50 s of
                (Inl err, s) \<Rightarrow> respond (render (DLQPage queue [])) w s
              | (Inr records, s) \<Rightarrow> respond (render (DLQPage queue records)) w s)"

text \<open>The map of \<open>JSONHandler\<close> is encoded with its keys in order; the queues are distinct.\<close>

definition JSONHandler :: "'s storage_ops \<Rightarrow> string list \<Rightarrow> 's http_handler" where
  "JSONHandler ops queues inp r w s =
     (let (result, s) = collect_loop ops (sort_Strings queues) [] s
      in respond (\<lambda>w. write_body (JSONStatsMap result) (set_header ''Content-Type'' ''application/json'' w)) w s)"

text \<open>The ellipsis is three bytes of UTF-8; a negative limit panics.\<close>

definition truncatePayload :: "byte list \<Rightarrow> int \<Rightarrow> string result" where
  "truncatePayload payload maxLen =
     (let s = map (\<lambda>b. char_of (unat b)) payload
      in if int (length s) \<le> maxLen then Inr s
         else if maxLen < 0 then Inl (GoPanic ''slice bounds out of range'')
         else Inr (take (nat maxLen) s @ map char_of [0xE2, 0x80, 0xA6 :: nat]))"

text \<open>The routes of \<open>Register\<close> and the route for the JSON export that \<open>shoeboxd\<close> adds to them.\<close>

definition dash_mux :: "'s storage_ops \<Rightarrow> string list \<Rightarrow> 's http_handler" where
  "dash_mux ops queues inp r w s =
     (if rqPath r = [''''] then (if is_get (rqMethod r) then dash_index ops queues inp r w s else MethodNotAllowed ''GET, HEAD'' w s)
      else if rqPath r = [''partials'', ''stats'']
        then (if is_get (rqMethod r) then statsPartial ops queues inp r w s else MethodNotAllowed ''GET, HEAD'' w s)
      else if rqPath r = [''partials'', ''dlq'']
        then (if is_get (rqMethod r) then dlqPartial ops inp r w s else MethodNotAllowed ''GET, HEAD'' w s)
      else if rqPath r = [''api'', ''stats.json'']
        then (if is_get (rqMethod r) then JSONHandler ops queues inp r w s else MethodNotAllowed ''GET, HEAD'' w s)
      else NotFound w s)"

subsection \<open>The interface as an endpoint\<close>

lemma dash_ops_answer:
  assumes "unsent rid w"
  shows "answers rid (dash_index ops qs inp r w s)" "answers rid (statsPartial ops qs inp r w s)"
    "answers rid (dlqPartial ops inp r w s)" "answers rid (JSONHandler ops qs inp r w s)"
  using assms by (auto simp: dash_index_def statsPartial_def dlqPartial_def JSONHandler_def render_def Let_def
      intro!: sends_intros split: prod.splits sum.splits)

interpretation dash: endpoint "dash_mux ops queues" for ops queues
proof unfold_locales
  fix rid w inp r s
  assume w: "unsent rid w"
  note steps = dash_ops_answer [OF w] NotFound_answers [OF w] MethodNotAllowed_answers [OF w]
  show "answers rid (dash_mux ops queues inp r w s)" unfolding dash_mux_def by (simp add: steps)
qed

subsection \<open>What the page shows\<close>

lemma string_less_irrefl: "\<not> string_less a a"
  by (induction a) simp_all

lemma string_less_trans: "string_less a b \<Longrightarrow> string_less b c \<Longrightarrow> string_less a c"
proof (induction a b arbitrary: c rule: string_less.induct)
  case (4 a as b bs)
  then show ?case by (cases c) auto
qed (auto elim: string_less.elims)

lemma string_less_total: "a = b \<or> string_less a b \<or> string_less b a"
proof (induction a b rule: string_less.induct)
  case (4 a as b bs)
  have "(of_char a :: nat) = of_char b \<Longrightarrow> a = b" by simp
  with 4 show ?case by (metis linorder_neqE_nat string_less.simps(4))
qed simp_all

interpretation string_order: strict_weak_order string_less
  by unfold_locales (metis string_less_irrefl string_less_trans string_less_total)+

lemma collect_loop_law:
  assumes "collect_loop store_ops qs acc st = (stats, st')" "store_inv st" "\<forall>q \<in> set qs. user_queue q"
  shows "store_inv st' \<and> store_view st' = store_view st \<and> (\<exists>new. stats = acc @ new \<and> subseq (map fst new) qs \<and>
    (\<forall>(q, qs) \<in> set new. qDepth qs = size (aPend (store_view st) q)))"
  using assms
proof (induction qs arbitrary: acc st)
  case (Cons q qs)
  obtain r s1 where s: "Stats_op store_ops q st = (r, s1)" by fastforce
  have law: "store_inv s1 \<and> store_view s1 = store_view st \<and> (\<forall>x. r = Inr x \<longrightarrow> qDepth x = size (aPend (store_view st) q))"
    using any.Stats_law [OF Cons.prems(2) _ s] Cons.prems(3) by simp
  show ?case
  proof (cases r)
    case (Inl e)
    then have "collect_loop store_ops qs acc s1 = (stats, st')" using Cons.prems(1) s by simp
    from Cons.IH [OF this] law Cons.prems(3) show ?thesis by (auto intro: subseq_Cons')
  next
    case (Inr x)
    then have "collect_loop store_ops qs (acc @ [(q, x)]) s1 = (stats, st')" using Cons.prems(1) s by simp
    from Cons.IH [OF this] law Cons.prems(3) Inr obtain new where
      "store_inv st'" "store_view st' = store_view st" "stats = acc @ (q, x) # new" "subseq (map fst new) qs"
      "\<forall>(q, qs) \<in> set new. qDepth qs = size (aPend (store_view st) q)" by auto
    with law Inr show ?thesis by (intro conjI exI [of _ "(q, x) # new"]) auto
  qed
qed auto

lemma subseq_mset: "subseq xs ys \<Longrightarrow> mset xs \<subseteq># mset ys"
  by (induction rule: list_emb.induct) (auto simp: subset_mset.add_increasing subset_mset.le_iff_add)

lemma subseq_sorted_wrt: "subseq xs ys \<Longrightarrow> sorted_wrt P ys \<Longrightarrow> sorted_wrt P xs"
  by (induction rule: list_emb.induct) (auto dest: list_emb_set)

text \<open>
  The dashboard shows the queues as they are. On every backend, collecting the statistics of the
  registered queues changes neither the pending, the in-flight nor the dead messages; the queues listed
  are registered, each no more often than it is registered, in the order of their names, and the depth of
  each is the number of its pending messages.
\<close>

theorem collectStats_faithful:
  assumes "collectStats store_ops queues st = (stats, st')" "store_inv st" "\<forall>q \<in> set queues. user_queue q"
  shows "store_inv st' \<and> store_view st' = store_view st \<and> mset (map qsName stats) \<subseteq># mset queues \<and>
    sorted_wrt (\<lambda>a b. \<not> string_less b a) (map qsName stats) \<and>
    (\<forall>x \<in> set stats. qsDepth x = size (aPend (store_view st) (qsName x)))"
proof -
  obtain raw where raw: "collect_loop store_ops (sort_Strings queues) [] st = (raw, st')" "stats = map (\<lambda>(q, st). queue_stat q st) raw"
    using assms(1) by (auto simp: collectStats_def split: prod.splits)
  have "\<forall>q \<in> set (sort_Strings queues). user_queue q" using assms(3) by (simp add: sort_Strings_def)
  from collect_loop_law [OF raw(1) assms(2) this]
  have law: "store_inv st'" "store_view st' = store_view st" "subseq (map fst raw) (sort_Strings queues)"
      "\<forall>(q, qs) \<in> set raw. qDepth qs = size (aPend (store_view st) q)" by auto
  have names: "map qsName stats = map fst raw" by (simp add: raw(2) queue_stat_def case_prod_beta comp_def)
  have "mset (map fst raw) \<subseteq># mset queues" using subseq_mset [OF law(3)] by (simp add: sort_Strings_def)
  moreover have "sorted_wrt (\<lambda>a b. \<not> string_less b a) (map fst raw)"
    using subseq_sorted_wrt [OF law(3)] string_order.SliceStable_sorted [of queues] by (simp add: sort_Strings_def)
  moreover have "\<forall>x \<in> set stats. qsDepth x = size (aPend (store_view st) (qsName x))"
    using law(4) by (auto simp: raw(2) queue_stat_def)
  ultimately show ?thesis using law(1,2) unfolding names by blast
qed

theorem collectStats_faithful_witness:
  "\<forall>x \<in> set (fst (collectStats store_ops [''b'', ''a''] (MemoryStore (push_queue ''a'' zero_message NewMemory)))).
     qsDepth x = (if qsName x = ''a'' then 1 else 0)"
proof -
  let ?st = "MemoryStore (push_queue ''a'' zero_message NewMemory)"
  have inv: "store_inv ?st" by (simp add: push_queue_def mem_inv_def NewMemory_def)
  have u: "user_queue ''a''" "user_queue ''b''" by (auto simp: user_queue_def strings_HasSuffix_def simp del: HasSuffix_iff)
  have "\<forall>q \<in> set [''b'', ''a'']. user_queue q" using u by simp
  from collectStats_faithful [OF prod.collapse [symmetric] inv this]
  show ?thesis using u by (auto simp: push_queue_def NewMemory_def)
qed

lemma byte_char: "of_char (char_of (unat b)) = (b :: byte)"
proof -
  have "(of_char (char_of (unat b)) :: byte) = of_nat (of_char (char_of (unat b)) :: nat)" by (simp only: of_nat_of_char)
  also have "(of_char (char_of (unat b)) :: nat) = unat b" using unsigned_less [of b, where ?'a = nat] by simp
  finally show ?thesis by simp
qed

text \<open>
  Payloads on the page are bounded. For a limit that is not negative, what the page shows of a payload
  is at most three bytes longer than the limit, which are the ellipsis, and never changes a payload that
  fits; otherwise it begins with the first bytes of the payload. Bytes are counted, not characters: a
  payload of three bytes that is one character, the euro sign, is cut inside the character.
\<close>

theorem truncatePayload_bound:
  assumes "0 \<le> maxLen"
  shows "(\<exists>s. truncatePayload payload maxLen = Inr s \<and> int (length s) \<le> maxLen + 3 \<and>
      (int (length payload) \<le> maxLen \<longrightarrow> bytes_of_string s = payload) \<and>
      take (nat maxLen) (bytes_of_string s) = take (nat maxLen) payload) \<and>
    truncatePayload [0xE2, 0x82, 0xAC] 1 = Inr (map char_of [0xE2, 0xE2, 0x80, 0xA6 :: nat])"
proof -
  have b: "map (\<lambda>c. of_char c :: byte) (map (\<lambda>b. char_of (unat b)) p) = p" for p :: "byte list"
    by (induction p) (simp_all add: byte_char)
  show ?thesis using assms b [of payload] b [of "take (nat maxLen) payload"]
    by (auto simp: truncatePayload_def bytes_of_string_def Let_def take_map comp_def)
qed

end
