(* ===== verification/Shoeboxd.thy ===== *)
theory Shoeboxd
  imports Server_Config Webhook HTTP_API Dashboard
begin

text \<open>
  Command \<open>cmd/shoeboxd\<close>: the flags over the configuration, the engine and its webhooks, the routes of the
  server and the end of the process. The file reader, the YAML parser, the databases, the Prometheus
  client and its page, the HTTP client of the webhooks and the JSON decoder are parameters. Log output is
  not modelled.
\<close>

subsection \<open>Start\<close>

record flags =
  fgConfig :: string
  fgAddr :: string
  fgStorage :: string
  fgPath :: string
  fgDSN :: string
  fgSchema :: string
  fgAuthToken :: string

definition override_flags :: "flags \<Rightarrow> Config \<Rightarrow> Config" where
  "override_flags f c = c\<lparr>
     cfServer := (cfServer c)\<lparr>scAddr := (if fgAddr f \<noteq> '''' then fgAddr f else scAddr (cfServer c)),
       scAuthToken := (if fgAuthToken f \<noteq> '''' then fgAuthToken f else scAuthToken (cfServer c))\<rparr>,
     cfStorage := (cfStorage c)\<lparr>stKind := (if fgStorage f \<noteq> '''' then fgStorage f else stKind (cfStorage c)),
       stPath := (if fgPath f \<noteq> '''' then fgPath f else stPath (cfStorage c)),
       stDSN := (if fgDSN f \<noteq> '''' then fgDSN f else stDSN (cfStorage c)),
       stSchema := (if fgSchema f \<noteq> '''' then fgSchema f else stSchema (cfStorage c))\<rparr>\<rparr>"

definition zero_Options :: Options where
  "zero_Options = \<lparr>qoStorage = Memory, qoPath = '''', qoDSN = '''', qoSchema = '''', qoConcurrency = 0,
     qoMetricsRegistry = None, qoDedupe = \<lparr>doPolicy = '''', doCapacity = 0\<rparr>,
     qoBatching = \<lparr>boEnabled = False, boAckBatchSize = 0, boAckFlushInterval = 0\<rparr>\<rparr>"

definition engine_options :: "StorageConfig \<Rightarrow> Options option" where
  "engine_options st =
     (if stKind st = ''memory'' then Some (zero_Options\<lparr>qoStorage := Memory\<rparr>)
      else if stKind st = ''sqlite'' then Some (zero_Options\<lparr>qoStorage := SQLite, qoPath := stPath st\<rparr>)
      else if stKind st = ''postgres''
        then Some (zero_Options\<lparr>qoStorage := Postgres, qoDSN := stDSN st, qoSchema := stSchema st\<rparr>)
      else None)"

definition webhook_opts :: "WebhookConfig \<Rightarrow> WebhookOption list" where
  "webhook_opts wh =
     (if sint (wcTimeout wh) > 0 then [WithWebhookTimeout (wcTimeout wh)] else []) @
     (if wcContentType wh \<noteq> '''' then [WithWebhookContentType (wcContentType wh)] else []) @
     (if wcSecret wh \<noteq> '''' then [WithWebhookSecret (wcSecret wh)] else [])"

fun register_webhooks ::
  "'w http_env \<Rightarrow> (int \<times> int) \<times> bool \<Rightarrow> (string \<times> WebhookConfig) list \<Rightarrow> 'w Queue \<Rightarrow> 'w Queue" where
  "register_webhooks E base [] q = q"
| "register_webhooks E base ((queue, wh) # whs) q =
     register_webhooks E base whs (snd (Handle queue (WebhookHandler E base (wcURL wh) None (webhook_opts wh)) [] q))"

text \<open>How far \<open>main\<close> gets: the process has ended with a code, hangs while it opens a database, or serves.\<close>

datatype 'w start = Exit int | Hangs | Serving Config "'w Queue"

definition main_start ::
  "flags \<Rightarrow> yaml_parser \<Rightarrow> fileReader \<Rightarrow> env \<Rightarrow> 'r must_register \<Rightarrow> nat \<Rightarrow> 'w http_env \<Rightarrow> (int \<times> int) \<times> bool \<Rightarrow> 'r \<Rightarrow>
   'w start \<times> 'r" where
  "main_start f yaml read env mreg fresh E base rs =
     (case loadWith yaml (fgConfig f) read of
        Inl err \<Rightarrow> (Exit 1, rs)
      | Inr cfg \<Rightarrow>
          let cfg = override_flags f cfg
          in case engine_options (cfStorage cfg) of
               None \<Rightarrow> (Exit 2, rs)
             | Some opts \<Rightarrow>
                 (case New_Queue env mreg fresh opts rs of
                    (Failed (GoPanic p), rs) \<Rightarrow> (Exit 2, rs)
                  | (Failed err, rs) \<Rightarrow> (Exit 1, rs)
                  | (Blocked, rs) \<Rightarrow> (Hangs, rs)
                  | (Done q, rs) \<Rightarrow> (Serving cfg (register_webhooks E base (cfWebhooks cfg) q), rs)))"

subsection \<open>Routes\<close>

definition StripAPI :: "'s http_middleware" where
  "StripAPI h inp r w s = h inp (r\<lparr>rqPath := drop 1 (rqPath r)\<rparr>) w s"

definition api_side :: "Config \<Rightarrow> 's storage_ops \<Rightarrow> json_decoder \<Rightarrow> duration_parser \<Rightarrow> 's http_handler" where
  "api_side cfg ops decode ParseDuration =
     Chain [HTTP_RecoveryMiddleware, RequestIDMiddleware, HTTP_LoggingMiddleware, AuthMiddleware (scAuthToken (cfServer cfg))]
       (StripAPI (api_mux ops decode ParseDuration))"

definition dash_side :: "Config \<Rightarrow> 's storage_ops \<Rightarrow> string list \<Rightarrow> 's http_handler" where
  "dash_side cfg ops queues =
     Chain [HTTP_RecoveryMiddleware, RequestIDMiddleware, HTTP_LoggingMiddleware,
         BasicAuthMiddleware (scDashboardUser (cfServer cfg)) (scDashboardPassword (cfServer cfg))]
       (dash_mux ops queues)"

text \<open>
  The multiplexer takes the most specific pattern: \<open>GET /metrics\<close>, then \<open>/api/\<close>, then \<open>/\<close>; it redirects
  \<open>/api\<close> to \<open>/api/\<close> with status 307, as it does since Go 1.26, the version of \<open>go.mod\<close>. \<open>promhttp\<close> is the
  handler of the metrics page. The path of the request is cleaned and decoded here; what happens before
  is \<open>serve_target\<close>, below.
\<close>

definition server_mux ::
  "Config \<Rightarrow> 's http_handler \<Rightarrow> 's storage_ops \<Rightarrow> json_decoder \<Rightarrow> duration_parser \<Rightarrow> string list \<Rightarrow> 's http_handler" where
  "server_mux cfg promhttp ops decode ParseDuration queues inp r w s =
     (if rqPath r = [''metrics''] \<and> is_get (rqMethod r) then promhttp inp r w s
      else if rqPath r = [''api''] then Redirect 307 ''/api/'' w s
      else if take 1 (rqPath r) = [''api''] then api_side cfg ops decode ParseDuration inp r w s
      else dash_side cfg ops queues inp r w s)"

text \<open>
  A request as it comes in, its target an asterisk or the segments of the escaped path. The server answers
  \<open>OPTIONS *\<close> itself; the multiplexer refuses any other asterisk, redirects \<open>/api\<close>, and redirects a path
  that is not clean to the cleaned one, all of this outside the middleware. \<open>moved\<close> is the status of the
  last redirect, which the documentation of \<open>net/http\<close> does not fix. \<open>StripPrefix\<close> has to find its prefix
  in the escaped path as well: an escaped spelling of the segment \<open>api\<close> reaches the middleware of the API
  and then \<open>NotFound\<close>. CONNECT, whose path is not cleaned, is outside the model.
\<close>

datatype target = Asterisk | Path "string list"

definition api_not_found :: "Config \<Rightarrow> 's http_handler" where
  "api_not_found cfg =
     Chain [HTTP_RecoveryMiddleware, RequestIDMiddleware, HTTP_LoggingMiddleware, AuthMiddleware (scAuthToken (cfServer cfg))]
       (\<lambda>inp r. NotFound)"

definition serve_target ::
  "int \<Rightarrow> Config \<Rightarrow> 's http_handler \<Rightarrow> 's storage_ops \<Rightarrow> json_decoder \<Rightarrow> duration_parser \<Rightarrow> string list \<Rightarrow>
   target \<Rightarrow> 's http_handler" where
  "serve_target moved cfg promhttp ops decode ParseDuration queues tgt inp r w s =
     (case tgt of
        Asterisk \<Rightarrow>
          if rqMethod r = ''OPTIONS'' then respond (\<lambda>w. WriteHeader 200 (set_header ''Content-Length'' ''0'' w)) w s
          else respond (\<lambda>w. WriteHeader 400 (set_header ''Connection'' ''close'' w)) w s
      | Path segs \<Rightarrow>
          let path = cleanPath segs; r = r\<lparr>rqPath := map PathUnescape path\<rparr>
          in if rqPath r = [''api''] then server_mux cfg promhttp ops decode ParseDuration queues inp r w s
             else if path \<noteq> segs then Redirect moved (path_text path) w s
             else if take 1 (rqPath r) = [''api''] \<and> take 1 segs \<noteq> [''api''] then api_not_found cfg inp r w s
             else server_mux cfg promhttp ops decode ParseDuration queues inp r w s)"

text \<open>What arrives at the client: \<open>net/http\<close> does not send the body of an answer to HEAD.\<close>

definition client_sees :: "request \<Rightarrow> writer \<Rightarrow> int option \<times> http_body list" where
  "client_sees r w = (map_option fst (wSent w), if rqMethod r = ''HEAD'' then [] else wBody w)"

subsection \<open>End\<close>

fun refreshDepthGauges :: "(string \<Rightarrow> nat \<Rightarrow> 'g \<Rightarrow> 'g) \<Rightarrow> string list list \<Rightarrow> 'w Queue \<Rightarrow> 'g \<Rightarrow> 'g \<times> 'w Queue" where
  "refreshDepthGauges set_depth [] q g = (g, q)"
| "refreshDepthGauges set_depth (ks # ticks) q g =
     (let (g, q) = UpdateDepthGauges set_depth ks q g in refreshDepthGauges set_depth ticks q g)"

text \<open>
  What ends the wait of \<open>main\<close>, and what it does then, in order. \<open>os.Exit\<close> runs no deferred call; a return
  runs them, the last one first.
\<close>

datatype main_event = ServerError | Signal

datatype main_action = SrvShutdown | ShutdownCancel | GaugeCancel | QueueShutdown | ProcessExit int

definition main_end :: "main_event \<Rightarrow> main_action list" where
  "main_end ev =
     (case ev of
        ServerError \<Rightarrow> [ProcessExit 1]
      | Signal \<Rightarrow> [SrvShutdown, ShutdownCancel, GaugeCancel, QueueShutdown, ProcessExit 0])"

section \<open>What the server guarantees\<close>

lemma provided_token_rqID [simp]: "provided_token (r\<lparr>rqID := x\<rparr>) = provided_token r"
  by (simp add: provided_token_def Let_def)

lemma api_side_eq: "api_side cfg ops decode pd =
    HTTP_RecoveryMiddleware (RequestIDMiddleware (HTTP_LoggingMiddleware
      (AuthMiddleware (scAuthToken (cfServer cfg)) (StripAPI (api_mux ops decode pd)))))"
  by (simp add: api_side_def Chain_foldr)

lemma dash_side_eq: "dash_side cfg ops queues =
    HTTP_RecoveryMiddleware (RequestIDMiddleware (HTTP_LoggingMiddleware
      (BasicAuthMiddleware (scDashboardUser (cfServer cfg)) (scDashboardPassword (cfServer cfg)) (dash_mux ops queues))))"
  by (simp add: dash_side_def Chain_foldr)

interpretation stripped: endpoint "StripAPI (api_mux ops decode ParseDuration)" for ops decode ParseDuration
  by unfold_locales (simp add: StripAPI_def api.h_answers)

interpretation api_guarded: endpoint "HTTP_LoggingMiddleware (AuthMiddleware token (StripAPI (api_mux ops decode ParseDuration)))"
  for token ops decode ParseDuration
  by (rule endpoint.logging_endpoint, rule stripped.auth_endpoint)

interpretation dash_guarded: endpoint "HTTP_LoggingMiddleware (BasicAuthMiddleware user password (dash_mux ops queues))"
  for user password ops queues
  by (rule endpoint.logging_endpoint, rule dash.basic_auth_endpoint)

lemma server_sends:
  assumes "\<not> (rqPath r = [''metrics''] \<and> is_get (rqMethod r))" "rqPath r \<noteq> [''api'']"
  shows "\<exists>w' s'. server_mux cfg promhttp ops decode pd queues inp r new_writer s = (Inr (), w', s') \<and> sends (correlation_id inp r) w'"
proof (cases "take 1 (rqPath r) = [''api'']")
  case True
  then have "server_mux cfg promhttp ops decode pd queues inp r new_writer s = api_side cfg ops decode pd inp r new_writer s"
    using assms by (auto simp: server_mux_def)
  then show ?thesis unfolding api_side_eq by (simp only: api_guarded.guarded)
next
  case False
  then have "server_mux cfg promhttp ops decode pd queues inp r new_writer s = dash_side cfg ops queues inp r new_writer s"
    using assms by (auto simp: server_mux_def)
  then show ?thesis unfolding dash_side_eq by (simp only: dash_guarded.guarded)
qed

interpretation not_found: endpoint "\<lambda>inp r. NotFound"
  by unfold_locales (rule NotFound_answers)

interpretation not_found_guarded: endpoint "HTTP_LoggingMiddleware (AuthMiddleware token (\<lambda>inp r. NotFound))" for token
  by (rule endpoint.logging_endpoint, rule not_found.auth_endpoint)

lemma api_not_found_sends:
  "\<exists>w' s'. api_not_found cfg inp r new_writer s = (Inr (), w', s') \<and> sends (correlation_id inp r) w'"
  unfolding api_not_found_def Chain_foldr by (simp only: foldr.simps comp_def id_apply not_found_guarded.guarded)

lemma correlation_id_rqPath [simp]: "correlation_id inp (r\<lparr>rqPath := x\<rparr>) = correlation_id inp r"
  by (simp add: correlation_id_def)

lemma serve_clean:
  assumes "cleanPath segs = segs" "map PathUnescape segs \<noteq> [''api'']"
    and "\<not> (map PathUnescape segs = [''metrics''] \<and> is_get (rqMethod r))"
  shows "\<exists>w' s'. serve_target moved cfg promhttp ops decode pd queues (Path segs) inp r new_writer s = (Inr (), w', s') \<and>
    sends (correlation_id inp r) w'"
  using assms server_sends [of "r\<lparr>rqPath := map PathUnescape segs\<rparr>" cfg promhttp ops decode pd queues inp s]
    api_not_found_sends [of cfg inp "r\<lparr>rqPath := map PathUnescape segs\<rparr>" s]
  by (simp add: serve_target_def Let_def)


definition get_request :: "string list \<Rightarrow> request" where
  "get_request path = \<lparr>rqMethod = ''GET'', rqPath = path, rqHeader = (\<lambda>_. ''''), rqBasicAuth = None, rqQuery = (\<lambda>_. ''''), rqBody = [], rqID = None\<rparr>"

definition at_nine :: inputs where
  "at_nine = \<lparr>inNow = 9, inClock = 9, inIDRand = Some [0xC0], inUnixNano = 9, inRand = Some [0xAB], inClockText = ''''\<rparr>"


text \<open>
  C4. Without the credentials nothing is read and nothing changes. A request for a path under \<open>/api/\<close> that
  does not carry the configured token, as \<open>X-API-Key\<close> or as a bearer token, and a request for the
  dashboard without the configured user and password, get status 401 and the body \<open>unauthorized\<close>, and
  leave the backend exactly as it was, whatever the path and the method.
\<close>

theorem unauthorized_changes_nothing:
  assumes "\<not> (rqPath r = [''metrics''] \<and> is_get (rqMethod r))" "rqPath r \<noteq> [''api'']"
    and "if take 1 (rqPath r) = [''api''] then scAuthToken (cfServer cfg) \<noteq> '''' \<and> provided_token r \<noteq> scAuthToken (cfServer cfg)
      else scDashboardUser (cfServer cfg) \<noteq> '''' \<and>
        rqBasicAuth r \<noteq> Some (scDashboardUser (cfServer cfg), scDashboardPassword (cfServer cfg))"
  shows "\<exists>w' hd. server_mux cfg promhttp ops decode ParseDuration queues inp r new_writer s = (Inr (), w', s) \<and>
    wSent w' = Some (401, hd) \<and> wBody w' = [JSONError ''unauthorized''] \<and>
    (take 1 (rqPath r) \<noteq> [''api''] \<longrightarrow> hd ''WWW-Authenticate'' = Some ''Basic realm=\"shoebox\", charset=\"UTF-8\"'')"
proof -
  note chain_defs = HTTP_RecoveryMiddleware_def RequestIDMiddleware_def HTTP_LoggingMiddleware_def respond_def new_writer_def writer_defs
  show ?thesis
  proof (cases "take 1 (rqPath r) = [''api'']")
    case True
    with assms have "server_mux cfg promhttp ops decode ParseDuration queues inp r new_writer s =
        api_side cfg ops decode ParseDuration inp r new_writer s" by (auto simp: server_mux_def)
    with True assms(3) show ?thesis by (simp add: api_side_eq AuthMiddleware_def chain_defs)
  next
    case False
    with assms have "server_mux cfg promhttp ops decode ParseDuration queues inp r new_writer s =
        dash_side cfg ops queues inp r new_writer s" by (auto simp: server_mux_def)
    with False assms(3) show ?thesis
      by (auto simp: dash_side_eq BasicAuthMiddleware_def chain_defs split: option.splits)
  qed
qed

definition secured :: Config where
  "secured = zero_config\<lparr>cfServer := \<lparr>scAddr = '''', scAuthToken = ''t'', scDashboardUser = ''u'', scDashboardPassword = ''p''\<rparr>\<rparr>"

theorem unauthorized_changes_nothing_witness:
  "\<exists>w' hd. server_mux secured (\<lambda>_ _. respond id) memory_ops (\<lambda>_ _. Inl ErrEmpty) (\<lambda>_. Inl ErrEmpty) [] at_nine
       (get_request [''api'', ''queues'', ''q'', ''messages'', ''next'']) new_writer NewMemory = (Inr (), w', NewMemory) \<and>
     wSent w' = Some (401, hd)"
  using unauthorized_changes_nothing [of "get_request [''api'', ''queues'', ''q'', ''messages'', ''next'']" secured "\<lambda>_ _. respond id" memory_ops
      "\<lambda>_ _. Inl ErrEmpty" "\<lambda>_. Inl ErrEmpty" "[]" at_nine NewMemory]
  by (auto simp: get_request_def secured_def provided_token_def)

text \<open>What a permitted request for a path under \<open>/api/\<close> reaches.\<close>

definition permitted :: "Config \<Rightarrow> request \<Rightarrow> bool" where
  "permitted cfg r \<longleftrightarrow> scAuthToken (cfServer cfg) = '''' \<or> provided_token r = scAuthToken (cfServer cfg)"

definition api_request :: "inputs \<Rightarrow> request \<Rightarrow> string list \<Rightarrow> request" where
  "api_request inp r path = r\<lparr>rqID := Some (correlation_id inp r), rqPath := path\<rparr>"

lemma permitted_api:
  assumes "permitted cfg r" "rqPath r = ''api'' # path" "path \<noteq> []"
    and "api_mux ops decode pd inp (api_request inp r path)
      (set_header ''X-Request-ID'' (correlation_id inp r) new_writer) s = (Inr u, w', s')"
  shows "server_mux cfg promhttp ops decode pd queues inp r new_writer s = (Inr (), w', s')"
  using assms by (auto simp: server_mux_def api_side_eq HTTP_RecoveryMiddleware_def RequestIDMiddleware_def HTTP_LoggingMiddleware_def
      AuthMiddleware_def permitted_def StripAPI_def api_request_def Let_def)

lemma status_JSON [simp]:
  "client_sees r (writeJSON code v (set_header k x new_writer)) = (Some code, if rqMethod r = ''HEAD'' then [] else [v])"
  "client_sees r (writeError code msg (set_header k x new_writer)) = (Some code, if rqMethod r = ''HEAD'' then [] else [JSONError msg])"
  by (simp_all add: client_sees_def new_writer_def writer_defs)

lemma api_request_sel [simp]:
  "rqPath (api_request inp r path) = path" "rqMethod (api_request inp r path) = rqMethod r" "rqBody (api_request inp r path) = rqBody r"
  by (simp_all add: api_request_def)

text \<open>
  C9. The JSON export cannot be reached. \<open>main\<close> registers \<open>GET /api/stats.json\<close> on the multiplexer of the
  dashboard, which answers it with the counters of the queues; but the server sends every path under
  \<open>/api/\<close> to the multiplexer of the API, which has no such route: a permitted request gets status 404.
\<close>

theorem stats_json_unreachable:
  assumes "permitted cfg r" "rqMethod r = ''GET''" "rqPath r = [''api'', ''stats.json'']"
  shows "(\<exists>w s' res. dash_mux ops queues inp r new_writer s = (Inr (), w, s') \<and> client_sees r w = (Some 200, [JSONStatsMap res])) \<and>
    (\<exists>w. server_mux cfg promhttp ops decode ParseDuration queues inp r new_writer s = (Inr (), w, s) \<and>
      client_sees r w = (Some 404, [PlainText ''404 page not found'']))"
proof
  show "\<exists>w s' res. dash_mux ops queues inp r new_writer s = (Inr (), w, s') \<and> client_sees r w = (Some 200, [JSONStatsMap res])"
    using assms by (auto simp: dash_mux_def is_get_def JSONHandler_def respond_def client_sees_def new_writer_def writer_defs split: prod.splits)
  let ?w = "set_header ''X-Request-ID'' (correlation_id inp r) new_writer"
  have nf: "api_mux ops decode ParseDuration inp (api_request inp r [''stats.json'']) ?w s = (Inr (), http_Error ''404 page not found'' 404 ?w, s)"
    by (simp add: api_mux_def NotFound_def respond_def)
  have "client_sees r (http_Error ''404 page not found'' 404 ?w) = (Some 404, [PlainText ''404 page not found''])"
    using assms(2) by (simp add: client_sees_def new_writer_def writer_defs)
  with permitted_api [OF assms(1,3) _ nf] show "\<exists>w. server_mux cfg promhttp ops decode ParseDuration queues inp r new_writer s = (Inr (), w, s) \<and>
      client_sees r w = (Some 404, [PlainText ''404 page not found''])" by blast
qed

theorem stats_json_unreachable_witness:
  "\<exists>w. server_mux zero_config (\<lambda>_ _. respond id) memory_ops (\<lambda>_ _. Inl ErrEmpty) (\<lambda>_. Inl ErrEmpty) [''q''] at_nine
       (get_request [''api'', ''stats.json'']) new_writer NewMemory = (Inr (), w, NewMemory) \<and>
     client_sees (get_request [''api'', ''stats.json'']) w = (Some 404, [PlainText ''404 page not found''])"
proof -
  have "permitted zero_config (get_request [''api'', ''stats.json''])" "rqMethod (get_request [''api'', ''stats.json'']) = ''GET''"
      "rqPath (get_request [''api'', ''stats.json'']) = [''api'', ''stats.json'']"
    by (simp_all add: permitted_def get_request_def zero_config_def)
  then show ?thesis by (rule conjunct2 [OF stats_json_unreachable])
qed

subsection \<open>Consuming over HTTP, on every backend\<close>

lemma pull_route:
  assumes "is_get (rqMethod r)" "q \<noteq> ''''"
  shows "api_mux ops decode pd inp (api_request inp r [''queues'', q, ''messages'', ''next'']) w s =
    api_consume ops q inp (api_request inp r [''queues'', q, ''messages'', ''next'']) w s"
  using assms by (simp add: api_mux_def)

lemma ack_route:
  assumes "rqMethod r = ''DELETE''" "q \<noteq> ''''" "mid \<noteq> ''''"
  shows "api_mux ops decode pd inp (api_request inp r [''queues'', q, ''messages'', mid]) w s =
    api_ack ops q mid inp (api_request inp r [''queues'', q, ''messages'', mid]) w s"
  using assms by (simp add: api_mux_def is_get_def)

text \<open>
  What a permitted pull does: GET and HEAD differ in what the client gets to see, not in what they do.
\<close>

lemma api_pull:
  assumes "permitted cfg r" "is_get (rqMethod r)" "rqPath r = [''api'', ''queues'', q, ''messages'', ''next'']" "user_queue q" "q \<noteq> ''''"
    and "store_inv st" "server_mux cfg promhttp store_ops decode pd queues inp r new_writer st = (res, w, st')"
  shows "store_inv st' \<and>
    ((\<exists>m. client_sees r w = (Some 200, if rqMethod r = ''HEAD'' then [] else [JSONMessage m]) \<and> mID m \<in># aPend (store_view st) q \<and>
       store_view st' = a_Dequeue q [mID m] (store_view st)) \<or>
     (\<exists>code body. client_sees r w = (Some code, body) \<and> code \<in> {404, 500} \<and> store_view st' = store_view st))"
proof -
  let ?w = "set_header ''X-Request-ID'' (correlation_id inp r) new_writer"
  let ?path = "[''queues'', q, ''messages'', ''next'']"
  obtain dr s1 where d: "Dequeue_op store_ops (inClock inp) q 1 st = (dr, s1)" by fastforce
  note mux = permitted_api [OF assms(1,3), where ops = store_ops and decode = decode and pd = pd and promhttp = promhttp and queues = queues,
      unfolded pull_route [OF assms(2,5)]]
  show ?thesis
  proof (cases dr)
    case (Inl e)
    then have "api_consume store_ops q inp (api_request inp r ?path) ?w st =
        (Inr (), (if errors_Is e ErrEmpty then writeError 404 ''no messages available'' ?w else writeError 500 ''dequeue failed'' ?w), s1)"
      using d by (simp add: api_consume_def respond_def)
    from mux [OF _ this] assms(7) have "w = (if errors_Is e ErrEmpty then writeError 404 ''no messages available'' ?w
        else writeError 500 ''dequeue failed'' ?w)" "st' = s1" by simp_all
    moreover have "store_inv s1 \<and> store_view s1 = store_view st"
      using any.Dequeue_err [OF assms(6,4), of 1 "inClock inp" e s1] d Inl by simp
    ultimately show ?thesis by simp
  next
    case (Inr ms)
    have law: "store_inv s1 \<and> ms \<noteq> [] \<and> int (length ms) \<le> 1 \<and> mset (map mID ms) \<subseteq># aPend (store_view st) q \<and>
        store_view s1 = a_Dequeue q (map mID ms) (store_view st)"
      using any.Dequeue_ok [OF assms(6,4), of 1 "inClock inp" ms s1] d Inr by simp
    then obtain m where m: "ms = [m]" by (cases ms) auto
    then have "api_consume store_ops q inp (api_request inp r ?path) ?w st = (Inr (), writeJSON 200 (JSONMessage m) ?w, s1)"
      using d Inr by (simp add: api_consume_def respond_def)
    from mux [OF _ this] assms(7) have "w = writeJSON 200 (JSONMessage m) ?w" "st' = s1" by simp_all
    then show ?thesis using law m by auto
  qed
qed

lemma api_acknowledge:
  assumes "permitted cfg r" "rqMethod r = ''DELETE''" "rqPath r = [''api'', ''queues'', q, ''messages'', mid]" "user_queue q" "q \<noteq> ''''" "mid \<noteq> ''''"
    and "store_inv st" "server_mux cfg promhttp store_ops decode pd queues inp r new_writer st = (res, w, st')"
  shows "store_inv st' \<and>
    (client_sees r w = (Some 200, [JSONStatus ''acked'']) \<and> store_view st' = a_AckBatch q [mid] (store_view st) \<or>
     client_sees r w = (Some 500, [JSONError ''ack failed'']) \<and> store_view st' = store_view st)"
proof -
  let ?w = "set_header ''X-Request-ID'' (correlation_id inp r) new_writer"
  obtain ar s1 where a: "Ack_op store_ops q mid st = (ar, s1)" by fastforce
  let ?ans = "case ar of Inl _ \<Rightarrow> writeError 500 ''ack failed'' ?w | Inr _ \<Rightarrow> writeJSON 200 (JSONStatus ''acked'') ?w"
  have "api_ack store_ops q mid inp (api_request inp r [''queues'', q, ''messages'', mid]) ?w st = (Inr (), ?ans, s1)"
    using a by (simp add: api_ack_def respond_def split: sum.splits)
  from permitted_api [OF assms(1,3), where ops = store_ops and decode = decode and pd = pd and promhttp = promhttp and queues = queues,
      unfolded ack_route [OF assms(2,5,6)], OF _ this] assms(8)
  have "w = ?ans" "st' = s1" by simp_all
  with any.Ack_law [OF assms(7,4) a] show ?thesis using assms(2) by (cases ar) simp_all
qed

text \<open>
  Consuming over HTTP, on every backend. When a permitted GET of \<open>/api/queues/q/messages/next\<close> answers
  200, the body is one message that was pending in the queue; it is then in flight and no longer pending,
  so no other consumer or worker can get it. When the DELETE of that message answers 200, it has left the
  queue, and nothing else in the backend has changed since before the GET.
\<close>

theorem http_consume_and_ack:
  assumes "store_inv st" "exclusive (store_view st)" "user_queue q" "q \<noteq> ''''"
    and "permitted cfg r" "rqMethod r = ''GET''" "rqPath r = [''api'', ''queues'', q, ''messages'', ''next'']"
    and "server_mux cfg promhttp store_ops decode ParseDuration queues inp r new_writer st = (res, w, st')"
    and "client_sees r w = (Some 200, body)"
    and "permitted cfg r'" "rqMethod r' = ''DELETE''" "rqPath r' = [''api'', ''queues'', q, ''messages'', mid]" "mid \<noteq> ''''"
    and "server_mux cfg promhttp store_ops decode ParseDuration queues inp' r' new_writer st' = (res', w', st'')"
    and "client_sees r' w' = (Some 200, body')"
  shows "\<exists>m. body = [JSONMessage m] \<and> mID m \<in># aPend (store_view st) q \<and>
    mID m \<in> aInfl (store_view st') q \<and> mID m \<notin># aPend (store_view st') q \<and> store_inv st'' \<and>
    (mid = mID m \<longrightarrow> store_view st'' = (store_view st)\<lparr>aPend := (aPend (store_view st))(q := aPend (store_view st) q - {#mid#})\<rparr>)"
proof -
  let ?v = "store_view st"
  have get: "is_get (rqMethod r)" using assms(6) by (simp add: is_get_def)
  from api_pull [OF assms(5) get assms(7,3,4,1,8)] assms(6,9)
  obtain m where m: "body = [JSONMessage m]" "mID m \<in># aPend ?v q" "store_view st' = a_Dequeue q [mID m] ?v" "store_inv st'" by auto
  from api_acknowledge [OF assms(10-12,3,4,13) m(4) assms(14)] assms(15)
  have ack: "store_inv st''" "store_view st'' = a_AckBatch q [mid] (store_view st')" by auto
  have "mID m \<notin> aInfl ?v q" using exclusiveD(1) [OF assms(2)] m(2) by blast
  moreover have "mID m \<notin># aPend ?v q - {#mID m#}" using exclusiveD(2) [OF assms(2)] m(2) by (simp add: in_diff_count not_less)
  ultimately show ?thesis using m ack by (auto simp: a_Dequeue_def a_AckBatch_def)
qed

text \<open>The same three requests on a memory backend, computed.\<close>

lemma memory_post:
  assumes "permitted cfg r" "rqMethod r = ''POST''" "rqPath r = [''api'', ''queues'', q, ''messages'']" "ValidQueueName q" "q \<noteq> ''''"
    and "decode (take maxPayloadSize (rqBody r)) (length (rqBody r) > maxPayloadSize) = Inr req" "erPayload req \<noteq> ''''" "erDelay req = ''''"
  shows "server_mux cfg promhttp store_ops decode pd queues inp r new_writer (MemoryStore m) =
    (Inr (), writeJSON 201 (JSONID (newRequestID inp)) (set_header ''X-Request-ID'' (correlation_id inp r) new_writer),
     MemoryStore (push_queue q (zero_message\<lparr>mID := newRequestID inp, mQueue := q, mPayload := bytes_of_string (erPayload req),
       mMetadata := erMetadata req, mCreatedAt := inClock inp, mScheduledAt := inClock inp\<rparr>) m))"
  by (rule permitted_api [OF assms(1,3)])
    (use assms(2,4-) in \<open>simp_all add: api_mux_def api_enqueue_def respond_def store_ops_def dispatch_def mem_Enqueue_def zero_message_def IsZero_def Let_def\<close>)

lemma memory_pull:
  assumes "permitted cfg r" "rqMethod r = ''GET''" "rqPath r = [''api'', ''queues'', q, ''messages'', ''next'']" "q \<noteq> ''''"
    and "mem_queues m q = [msg]" "mScheduledAt msg \<le> inClock inp"
  shows "server_mux cfg promhttp store_ops decode pd queues inp r new_writer (MemoryStore m) =
    (Inr (), writeJSON 200 (JSONMessage msg) (set_header ''X-Request-ID'' (correlation_id inp r) new_writer),
     MemoryStore ((sort_pending q m)\<lparr>mem_queues := (mem_queues (sort_pending q m))(q := []),
       mem_inflight := (mem_inflight m)(q := insert (mID msg) (mem_inflight m q))\<rparr>))"
proof -
  have sorted: "mem_queues (sort_pending q m) q = [msg]" using assms(5) by (simp add: sort_pending_def SliceStable_def)
  show ?thesis
    by (rule permitted_api [OF assms(1,3)])
      (use assms(2,4-) sorted in \<open>simp_all add: pull_route is_get_def api_consume_def respond_def store_ops_def dispatch_def mem_Dequeue_def Let_def\<close>)
qed

lemma memory_pull_empty:
  assumes "permitted cfg r" "rqMethod r = ''GET''" "rqPath r = [''api'', ''queues'', q, ''messages'', ''next'']" "q \<noteq> ''''" "mem_queues m q = []"
  shows "server_mux cfg promhttp store_ops decode pd queues inp r new_writer (MemoryStore m) =
    (Inr (), writeError 404 ''no messages available'' (set_header ''X-Request-ID'' (correlation_id inp r) new_writer), MemoryStore m)"
  by (rule permitted_api [OF assms(1,3)])
    (use assms(2,4-) in \<open>simp_all add: pull_route is_get_def api_consume_def respond_def store_ops_def dispatch_def mem_Dequeue_def Let_def\<close>)

lemma memory_delete:
  assumes "permitted cfg r" "rqMethod r = ''DELETE''" "rqPath r = [''api'', ''queues'', q, ''messages'', mid]" "q \<noteq> ''''" "mid \<noteq> ''''"
  shows "server_mux cfg promhttp store_ops decode pd queues inp r new_writer (MemoryStore m) =
    (Inr (), writeJSON 200 (JSONStatus ''acked'') (set_header ''X-Request-ID'' (correlation_id inp r) new_writer), MemoryStore (snd (mem_Ack q mid m)))"
  by (rule permitted_api [OF assms(1,3)])
    (use assms(2,4-) in \<open>simp_all add: ack_route api_ack_def respond_def store_ops_def dispatch_def mem_Ack_def Let_def\<close>)

lemma mem_Ack_frame:
  "mem_queues (snd (mem_Ack q i m)) = mem_queues m"
  "i \<in> mem_inflight m q \<Longrightarrow> qProcessed (the (mem_counters (snd (mem_Ack q i m)) q)) =
     (case mem_counters m q of None \<Rightarrow> 0 | Some c \<Rightarrow> qProcessed c) + 1"
  by (auto simp: mem_Ack_def update_stats_def statsFor_def zero_stats_def Let_def split: option.splits)

definition delete_request :: "string list \<Rightarrow> request" where
  "delete_request path = (get_request path)\<lparr>rqMethod := ''DELETE''\<rparr>"

abbreviation next_path :: "string list" where
  "next_path \<equiv> [''api'', ''queues'', ''q'', ''messages'', ''next'']"

definition one_message :: store where
  "one_message = MemoryStore (push_queue ''q'' (plain_message 9 ''a'' ''q'' [7]) NewMemory)"

lemma one_message_ok: "store_inv one_message" "exclusive (store_view one_message)"
  by (simp_all add: one_message_def push_queue_def mem_inv_def NewMemory_def exclusive_def places_def)

lemma request_sel [simp]:
  "rqMethod (get_request p) = ''GET''" "rqPath (get_request p) = p" "permitted zero_config (get_request p)"
  "rqMethod (delete_request p) = ''DELETE''" "rqPath (delete_request p) = p" "permitted zero_config (delete_request p)"
  by (simp_all add: get_request_def delete_request_def permitted_def zero_config_def)

theorem http_consume_and_ack_witness:
  "\<exists>w st' w' st''.
     server_mux zero_config (\<lambda>_ _. respond id) store_ops (\<lambda>_ _. Inl ErrEmpty) (\<lambda>_. Inl ErrEmpty) [] at_nine (get_request next_path)
       new_writer one_message = (Inr (), w, st') \<and>
     server_mux zero_config (\<lambda>_ _. respond id) store_ops (\<lambda>_ _. Inl ErrEmpty) (\<lambda>_. Inl ErrEmpty) [] at_nine
       (delete_request [''api'', ''queues'', ''q'', ''messages'', ''a'']) new_writer st' = (Inr (), w', st'') \<and>
     ''a'' \<in> aInfl (store_view st') ''q'' \<and> aPend (store_view st'') ''q'' = {#}"
proof -
  let ?m = "push_queue ''q'' (plain_message 9 ''a'' ''q'' [7]) NewMemory"
  have q: "mem_queues ?m ''q'' = [plain_message 9 ''a'' ''q'' [7]]" by (simp add: push_queue_def NewMemory_def)
  note get = memory_pull [OF request_sel(3,1,2) _ q, where inp = at_nine and promhttp = "\<lambda>_ _. respond id" and decode = "\<lambda>_ _. Inl ErrEmpty"
      and pd = "\<lambda>_. Inl ErrEmpty" and queues = "[]", folded one_message_def]
  note del = memory_delete [OF request_sel(6,4,5), where inp = at_nine and promhttp = "\<lambda>_ _. respond id" and decode = "\<lambda>_ _. Inl ErrEmpty"
      and pd = "\<lambda>_. Inl ErrEmpty" and queues = "[]" and q = "''q''" and mid = "''a''"]
  obtain w st' where g: "server_mux zero_config (\<lambda>_ _. respond id) store_ops (\<lambda>_ _. Inl ErrEmpty) (\<lambda>_. Inl ErrEmpty) [] at_nine (get_request next_path)
       new_writer one_message = (Inr (), w, st')" "client_sees (get_request next_path) w = (Some 200, [JSONMessage (plain_message 9 ''a'' ''q'' [7])])"
      "\<exists>m'. st' = MemoryStore m'"
    using get by (simp add: at_nine_def)
  then obtain m' w' st'' where d: "st' = MemoryStore m'" "server_mux zero_config (\<lambda>_ _. respond id) store_ops (\<lambda>_ _. Inl ErrEmpty) (\<lambda>_. Inl ErrEmpty) [] at_nine
       (delete_request [''api'', ''queues'', ''q'', ''messages'', ''a'']) new_writer st' = (Inr (), w', st'')"
      "client_sees (delete_request [''api'', ''queues'', ''q'', ''messages'', ''a'']) w' = (Some 200, [JSONStatus ''acked''])"
    using del by auto
  have "aPend (store_view one_message) ''q'' = {#''a''#}" using q user_queue_q by (simp add: one_message_def plain_message_def build_message_def)
  with http_consume_and_ack [OF one_message_ok user_queue_q _ request_sel(3,1,2) g(1,2) request_sel(6,4,5) _ d(2,3)] g(1) d(2)
  show ?thesis by auto
qed

text \<open>
  C10. A HEAD request takes a message away. The pattern \<open>GET /queues/{name}/messages/next\<close> also matches HEAD:
  when a permitted HEAD request for it answers 200, a message that was pending is in flight, as after a
  GET, but the answer has no body, so the client cannot know which message it has to acknowledge.
\<close>

theorem HEAD_consumes:
  assumes "store_inv st" "user_queue q" "q \<noteq> ''''"
    and "permitted cfg r" "rqMethod r = ''HEAD''" "rqPath r = [''api'', ''queues'', q, ''messages'', ''next'']"
    and "server_mux cfg promhttp store_ops decode ParseDuration queues inp r new_writer st = (res, w, st')"
    and "client_sees r w = (Some 200, body)"
  shows "body = [] \<and> (\<exists>i. i \<in># aPend (store_view st) q \<and> store_view st' = a_Dequeue q [i] (store_view st))"
proof -
  have "is_get (rqMethod r)" using assms(5) by (simp add: is_get_def)
  from api_pull [OF assms(4) this assms(6,2,3,1,7)] assms(5,8) show ?thesis by auto
qed

theorem HEAD_consumes_witness:
  "\<exists>w st' i. server_mux zero_config (\<lambda>_ _. respond id) store_ops (\<lambda>_ _. Inl ErrEmpty) (\<lambda>_. Inl ErrEmpty) [] at_nine
       ((get_request next_path)\<lparr>rqMethod := ''HEAD''\<rparr>) new_writer one_message = (Inr (), w, st') \<and>
     client_sees ((get_request next_path)\<lparr>rqMethod := ''HEAD''\<rparr>) w = (Some 200, []) \<and>
     store_view st' = a_Dequeue ''q'' [i] (store_view one_message)"
proof -
  let ?r = "(get_request next_path)\<lparr>rqMethod := ''HEAD''\<rparr>"
  have r: "permitted zero_config ?r" "rqMethod ?r = ''HEAD''" "rqPath ?r = next_path" "is_get (rqMethod ?r)"
    by (simp_all add: get_request_def permitted_def zero_config_def is_get_def)
  let ?w = "writeJSON 200 (JSONMessage (plain_message 9 ''a'' ''q'' [7])) (set_header ''X-Request-ID'' (correlation_id at_nine ?r) new_writer)"
  obtain st' where "api_mux store_ops (\<lambda>_ _. Inl ErrEmpty) (\<lambda>_. Inl ErrEmpty) at_nine (api_request at_nine ?r [''queues'', ''q'', ''messages'', ''next''])
      (set_header ''X-Request-ID'' (correlation_id at_nine ?r) new_writer) one_message = (Inr (), ?w, st')"
    unfolding pull_route [OF r(4), of "''q''", simplified]
    by (simp add: api_consume_def respond_def one_message_def store_ops_def dispatch_def mem_Dequeue_def push_queue_def NewMemory_def
        sort_pending_def SliceStable_def at_nine_def Let_def)
  from permitted_api [OF r(1,3) _ this] have
    s: "server_mux zero_config (\<lambda>_ _. respond id) store_ops (\<lambda>_ _. Inl ErrEmpty) (\<lambda>_. Inl ErrEmpty) [] at_nine ?r new_writer one_message = (Inr (), ?w, st')"
    by simp
  moreover have c: "client_sees ?r ?w = (Some 200, [])" by simp
  ultimately show ?thesis using HEAD_consumes [OF one_message_ok(1) user_queue_q _ r(1-3) s c] by blast
qed

text \<open>
  C5. A message over HTTP and back. On a memory backend whose queue is empty, a permitted POST with a valid
  queue name and a body that decodes to a payload without a delay answers 201 with a fresh identifier; the
  next GET answers 200 with the message of that identifier, payload and metadata; after the DELETE of the
  identifier answers 200, a further GET answers 404, and the counter of processed messages is one higher.
\<close>

theorem http_roundtrip:
  assumes "ValidQueueName q" "q \<noteq> ''''" "mem_queues m q = []" "newRequestID inp \<noteq> ''''" "inClock inp \<le> inClock inp'"
    and "permitted cfg rp" "rqMethod rp = ''POST''" "rqPath rp = [''api'', ''queues'', q, ''messages'']"
    and "decode (take maxPayloadSize (rqBody rp)) (length (rqBody rp) > maxPayloadSize) = Inr req" "erPayload req \<noteq> ''''" "erDelay req = ''''"
    and "permitted cfg rg" "rqMethod rg = ''GET''" "rqPath rg = [''api'', ''queues'', q, ''messages'', ''next'']"
    and "permitted cfg rd" "rqMethod rd = ''DELETE''" "rqPath rd = [''api'', ''queues'', q, ''messages'', newRequestID inp]"
  shows "\<exists>w1 m1 w2 m2 w3 m3 w4 msg.
    server_mux cfg promhttp store_ops decode ParseDuration queues inp rp new_writer (MemoryStore m) = (Inr (), w1, MemoryStore m1) \<and>
    client_sees rp w1 = (Some 201, [JSONID (newRequestID inp)]) \<and>
    server_mux cfg promhttp store_ops decode ParseDuration queues inp' rg new_writer (MemoryStore m1) = (Inr (), w2, MemoryStore m2) \<and>
    client_sees rg w2 = (Some 200, [JSONMessage msg]) \<and> mID msg = newRequestID inp \<and>
    mPayload msg = bytes_of_string (erPayload req) \<and> mMetadata msg = erMetadata req \<and>
    server_mux cfg promhttp store_ops decode ParseDuration queues inp' rd new_writer (MemoryStore m2) = (Inr (), w3, MemoryStore m3) \<and>
    client_sees rd w3 = (Some 200, [JSONStatus ''acked'']) \<and>
    server_mux cfg promhttp store_ops decode ParseDuration queues inp' rg new_writer (MemoryStore m3) = (Inr (), w4, MemoryStore m3) \<and>
    client_sees rg w4 = (Some 404, [JSONError ''no messages available'']) \<and>
    qProcessed (the (mem_counters m3 q)) = (case mem_counters m q of None \<Rightarrow> 0 | Some c \<Rightarrow> qProcessed c) + 1"
proof -
  let ?msg = "zero_message\<lparr>mID := newRequestID inp, mQueue := q, mPayload := bytes_of_string (erPayload req),
       mMetadata := erMetadata req, mCreatedAt := inClock inp, mScheduledAt := inClock inp\<rparr>"
  let ?m1 = "push_queue q ?msg m"
  have q1: "mem_queues ?m1 q = [?msg]" using assms(3) by (simp add: push_queue_def)
  note post = memory_post [where decode = decode and promhttp = promhttp and pd = ParseDuration and queues = queues and inp = inp and m = m,
      OF assms(6-8,1,2,9-11)]
  note pull = memory_pull [where decode = decode and promhttp = promhttp and pd = ParseDuration and queues = queues and inp = inp',
      OF assms(12-14,2) q1]
  let ?m2 = "(sort_pending q ?m1)\<lparr>mem_queues := (mem_queues (sort_pending q ?m1))(q := []),
       mem_inflight := (mem_inflight ?m1)(q := insert (mID ?msg) (mem_inflight ?m1 q))\<rparr>"
  note del = memory_delete [where decode = decode and promhttp = promhttp and pd = ParseDuration and queues = queues and inp = inp' and m = ?m2,
      OF assms(15-17,2,4)]
  let ?m3 = "snd (mem_Ack q (newRequestID inp) ?m2)"
  have q3: "mem_queues ?m3 q = []" by (simp add: mem_Ack_frame(1))
  have "newRequestID inp \<in> mem_inflight ?m2 q" "mem_counters ?m2 = mem_counters m" by (simp_all add: push_queue_def)
  then have c3: "qProcessed (the (mem_counters ?m3 q)) = (case mem_counters m q of None \<Rightarrow> 0 | Some c \<Rightarrow> qProcessed c) + 1"
    using mem_Ack_frame(2) [of "newRequestID inp" ?m2 q] by simp
  note empty = memory_pull_empty [where decode = decode and promhttp = promhttp and pd = ParseDuration and queues = queues and inp = inp',
      OF assms(12-14,2) q3]
  have due: "mScheduledAt ?msg \<le> inClock inp'" using assms(5) by simp
  show ?thesis
    by (intro exI conjI, rule post, simp add: assms(7), rule pull [OF due], simp add: assms(13), simp, simp, simp, rule del, simp add: assms(16), rule empty,
        simp add: assms(13), rule c3)
qed

definition text_decoder :: json_decoder where
  "text_decoder body over = Inr \<lparr>erPayload = map (\<lambda>b. char_of (unat b)) body, erDelay = '''', erMetadata = Map.empty\<rparr>"

theorem http_roundtrip_witness:
  "\<exists>w1 m1 w2 m2 msg.
     server_mux zero_config (\<lambda>_ _. respond id) store_ops text_decoder (\<lambda>_. Inl ErrEmpty) [] at_nine
       ((get_request [''api'', ''queues'', ''q'', ''messages''])\<lparr>rqMethod := ''POST'', rqBody := [65]\<rparr>) new_writer (MemoryStore NewMemory) =
       (Inr (), w1, MemoryStore m1) \<and>
     server_mux zero_config (\<lambda>_ _. respond id) store_ops text_decoder (\<lambda>_. Inl ErrEmpty) [] at_nine (get_request next_path) new_writer
       (MemoryStore m1) = (Inr (), w2, MemoryStore m2) \<and>
     client_sees (get_request next_path) w2 = (Some 200, [JSONMessage msg]) \<and> mPayload msg = bytes_of_string [char_of (65 :: nat)]"
proof -
  let ?r = "(get_request [''api'', ''queues'', ''q'', ''messages''])\<lparr>rqMethod := ''POST'', rqBody := [65]\<rparr>"
  have r: "permitted zero_config ?r" "rqMethod ?r = ''POST''" "rqPath ?r = [''api'', ''queues'', ''q'', ''messages'']" "rqBody ?r = [65]"
    by (simp_all add: get_request_def permitted_def zero_config_def)
  have d: "text_decoder (take maxPayloadSize (rqBody ?r)) (length (rqBody ?r) > maxPayloadSize) =
      Inr \<lparr>erPayload = [char_of (65 :: nat)], erDelay = '''', erMetadata = Map.empty\<rparr>"
    by (simp add: r(4) text_decoder_def maxPayloadSize_def)
  have i: "newRequestID at_nine \<noteq> ''''" by (simp add: newRequestID_def at_nine_def NewMessageID_def)
  have e: "mem_queues NewMemory ''q'' = []" by (simp add: NewMemory_def)
  from http_roundtrip [where decode = text_decoder and promhttp = "\<lambda>_ _. respond id" and ParseDuration = "\<lambda>_. Inl ErrEmpty" and queues = "[]",
      OF ValidQueueName_q _ e i order_refl r(1-3) d _ _ request_sel(3,1,2,6,4,5)]
  have "\<exists>w1 m1 w2 m2 msg.
     server_mux zero_config (\<lambda>_ _. respond id) store_ops text_decoder (\<lambda>_. Inl ErrEmpty) [] at_nine ?r new_writer (MemoryStore NewMemory) =
       (Inr (), w1, MemoryStore m1) \<and>
     server_mux zero_config (\<lambda>_ _. respond id) store_ops text_decoder (\<lambda>_. Inl ErrEmpty) [] at_nine (get_request next_path) new_writer
       (MemoryStore m1) = (Inr (), w2, MemoryStore m2) \<and>
     client_sees (get_request next_path) w2 = (Some 200, [JSONMessage msg]) \<and>
     mPayload msg = bytes_of_string (erPayload \<lparr>erPayload = [char_of (65 :: nat)], erDelay = '''', erMetadata = Map.empty\<rparr>)"
    unfolding enqueueRequest.simps by blast
  then show ?thesis by simp
qed

subsection \<open>Start of the process\<close>

lemma webhook_opts_effect:
  "webhook_options (webhook_opts wh) default_webhook =
     \<lparr>whTimeout = (if sint (wcTimeout wh) > 0 then wcTimeout wh else 10 * second),
      whContentType = (if wcContentType wh \<noteq> '''' then wcContentType wh else ''application/json''), whSecret = wcSecret wh, whMaxIdleConns = 16\<rparr>"
  by (simp add: webhook_opts_def default_webhook_def WithWebhookTimeout_def WithWebhookContentType_def WithWebhookSecret_def)

lemma Handle_frame: "queue' \<noteq> queue \<Longrightarrow> b_handlers (q_b (snd (Handle queue fn opts q))) queue' = b_handlers (q_b q) queue'"
  "b_mw (q_b (snd (Handle queue fn opts q))) = b_mw (q_b q)" "Store (snd (Handle queue fn opts q)) = Store q"
  by (auto simp: Handle_def Register_def Store_def Let_def split: prod.splits)

lemma register_webhooks_frame:
  "b_mw (q_b (register_webhooks E base whs q)) = b_mw (q_b q)" "Store (register_webhooks E base whs q) = Store q"
  "queue \<notin> fst ` set whs \<Longrightarrow> b_handlers (q_b (register_webhooks E base whs q)) queue = b_handlers (q_b q) queue"
  by (induction E base whs q rule: register_webhooks.induct) (auto simp: Handle_frame)

lemma register_webhooks_handler:
  assumes "distinct (map fst whs)" "(queue, wh) \<in> set whs" "b_mw (q_b q) = []"
  shows "b_handlers (q_b (register_webhooks E base whs q)) queue =
    Some \<lparr>h_fn = WebhookHandler E base (wcURL wh) None (webhook_opts wh),
      h_opts = normalize_handler_options \<lparr>hoMaxRetries = 5, hoBackoff = None, hoTimeout = 0\<rparr>,
      h_chain = WebhookHandler E base (wcURL wh) None (webhook_opts wh)\<rparr>"
  using assms
proof (induction E base whs q rule: register_webhooks.induct)
  case (2 E base n w whs q)
  show ?case
  proof (cases "queue = n")
    case True
    with 2 have "wh = w" "n \<notin> fst ` set whs" by (auto simp: image_iff)
    with True 2(4) show ?thesis by (simp add: register_webhooks_frame Handle_handler chain_def)
  qed (use 2 in \<open>auto simp: Handle_frame\<close>)
qed simp

lemma main_start_ServingE:
  fixes q :: "'w Queue"
  assumes "main_start f yaml read env mreg fresh E base rs = (Serving cfg q, rs')"
  obtains c opts q0 where "loadWith yaml (fgConfig f) read = Inr c" "cfg = override_flags f c"
    "engine_options (cfStorage cfg) = Some opts" "New_Queue env mreg fresh opts rs = (Done q0, rs')"
    "q = register_webhooks E base (cfWebhooks cfg) q0"
proof -
  obtain c where c: "loadWith yaml (fgConfig f) read = Inr c"
    using assms by (cases "loadWith yaml (fgConfig f) read") (simp_all add: main_start_def)
  let ?cfg = "override_flags f c"
  obtain opts where opts: "engine_options (cfStorage ?cfg) = Some opts"
    using assms c by (cases "engine_options (cfStorage ?cfg)") (simp_all add: main_start_def)
  obtain r rs1 where n: "New_Queue env mreg fresh opts rs = (r :: 'w Queue outcome, rs1)" by fastforce
  show thesis
  proof (cases r)
    case (Done q0)
    then show thesis using assms c opts n by (intro that [of c opts q0]) (auto simp: main_start_def Let_def)
  next
    case (Failed e)
    then show thesis using assms c opts n by (cases e) (simp_all add: main_start_def)
  next
    case Blocked
    then show thesis using assms c opts n by (simp add: main_start_def)
  qed
qed

text \<open>
  What a started server is. When \<open>main\<close> gets as far as serving, the file has been read as a valid
  configuration and every flag that is not empty has replaced its field; the engine is on the backend of
  the resulting kind, in a state that satisfies the contract of the storage interface. The queues with a
  handler are exactly those of the webhooks in the file, each with the URL, content type and secret of its
  entry, the timeout of its entry if that is positive and ten seconds otherwise, and five retries.
\<close>

theorem main_serving:
  assumes "main_start f yaml read env mreg fresh E base rs = (Serving cfg q, rs')" "env_ok env"
    and "\<And>c. loadWith yaml (fgConfig f) read = Inr c \<Longrightarrow> distinct (map fst (cfWebhooks c))"
  shows "\<exists>c. loadWith yaml (fgConfig f) read = Inr c \<and> cfg = override_flags f c \<and>
    kind_of (Store q) = (if stKind (cfStorage cfg) = ''memory'' then Memory else if stKind (cfStorage cfg) = ''sqlite'' then SQLite else Postgres) \<and>
    store_inv (Store q) \<and>
    (\<forall>queue. b_handlers (q_b q) queue \<noteq> None \<longleftrightarrow> queue \<in> fst ` set (cfWebhooks c)) \<and>
    (\<forall>(queue, wh) \<in> set (cfWebhooks c). \<exists>h wopts. b_handlers (q_b q) queue = Some h \<and>
       h_chain h = WebhookHandler E base (wcURL wh) None wopts \<and> hoMaxRetries (h_opts h) = 5 \<and>
       webhook_options wopts default_webhook =
         \<lparr>whTimeout = (if sint (wcTimeout wh) > 0 then wcTimeout wh else 10 * second), whContentType = wcContentType wh,
          whSecret = wcSecret wh, whMaxIdleConns = 16\<rparr>)"
proof -
  from assms(1) obtain c opts q0 where c: "loadWith yaml (fgConfig f) read = Inr c"
    and e: "cfg = override_flags f c" "engine_options (cfStorage cfg) = Some opts"
      "New_Queue env mreg fresh opts rs = (Done q0, rs')" "q = register_webhooks E base (cfWebhooks cfg) q0"
    by (rule main_start_ServingE)
  have w: "cfWebhooks cfg = cfWebhooks c" by (simp add: e(1) override_flags_def)
  from e(3) obtain st where st: "buildStorage env (normalize_options opts) = Done st"
      "q_b q0 = New (queue_options st (normalize_options opts))" "Store q0 = st" by (rule New_Queue_DoneE)
  have q0: "b_mw (q_b q0) = []" "b_handlers (q_b q0) = Map.empty" by (simp_all add: st(2) New_def Let_def)
  have kind: "qoStorage opts = (if stKind (cfStorage cfg) = ''memory'' then Memory else if stKind (cfStorage cfg) = ''sqlite'' then SQLite else Postgres)"
    using e(2) by (auto simp: engine_options_def split: if_splits)
  have ok: "kind_of (Store q) = qoStorage opts" "store_inv (Store q)"
    using buildStorage_ok [OF st(1) assms(2)] st(3) by (simp_all add: e(4) register_webhooks_frame)
  note h = register_webhooks_handler [OF assms(3) [OF c] _ q0(1), of _ _ E base]
  have "\<exists>h wopts. b_handlers (q_b q) queue = Some h \<and> h_chain h = WebhookHandler E base (wcURL wh) None wopts \<and> hoMaxRetries (h_opts h) = 5 \<and>
       webhook_options wopts default_webhook =
         \<lparr>whTimeout = (if sint (wcTimeout wh) > 0 then wcTimeout wh else 10 * second), whContentType = wcContentType wh,
          whSecret = wcSecret wh, whMaxIdleConns = 16\<rparr>" if i: "(queue, wh) \<in> set (cfWebhooks c)" for queue wh
  proof -
    have "webhook_options (webhook_opts wh) default_webhook =
         \<lparr>whTimeout = (if sint (wcTimeout wh) > 0 then wcTimeout wh else 10 * second), whContentType = wcContentType wh,
          whSecret = wcSecret wh, whMaxIdleConns = 16\<rparr>" using loaded_webhook [OF c i] by (simp add: webhook_opts_effect)
    moreover have "hoMaxRetries (normalize_handler_options \<lparr>hoMaxRetries = 5, hoBackoff = None, hoTimeout = 0\<rparr>) = 5"
      by (simp add: normalize_handler_options_def)
    ultimately show ?thesis using h [OF i]
      by (intro exI [of _ "\<lparr>h_fn = WebhookHandler E base (wcURL wh) None (webhook_opts wh),
          h_opts = normalize_handler_options \<lparr>hoMaxRetries = 5, hoBackoff = None, hoTimeout = 0\<rparr>,
          h_chain = WebhookHandler E base (wcURL wh) None (webhook_opts wh)\<rparr>"] exI [of _ "webhook_opts wh"]) (simp add: e(4) w)
  qed
  moreover have "b_handlers (q_b q) queue \<noteq> None \<longleftrightarrow> queue \<in> fst ` set (cfWebhooks c)" for queue
    using h register_webhooks_frame(3) [of queue "cfWebhooks c" E base q0] by (force simp: e(4) w q0(2))
  ultimately show ?thesis using c e(1) ok kind unfolding case_prod_beta by (intro exI [of _ c]) (metis surjective_pairing)
qed

definition webhook_yaml :: yaml_parser where
  "webhook_yaml data = Inr (zero_config\<lparr>cfStorage := \<lparr>stKind = ''sqlite'', stPath = '''', stDSN = '''', stSchema = ''''\<rparr>,
     cfWebhooks := [(''q'', \<lparr>wcURL = ''http://h'', wcTimeout = - 1, wcContentType = '''', wcSecret = ''k''\<rparr>)]\<rparr>)"

definition memory_flags :: flags where
  "memory_flags = \<lparr>fgConfig = ''c.yaml'', fgAddr = '''', fgStorage = ''memory'', fgPath = '''', fgDSN = '''', fgSchema = '''', fgAuthToken = ''t''\<rparr>"

lemma New_zero_Options:
  "\<exists>(q :: 'w Queue) rs'. New_Queue example_env set_registry 0 zero_Options (\<lambda>_. {}) = (Done q, rs')"
proof -
  have "distinct (metric_names ''shoebox'')" by (simp add: metric_names_def)
  then have "fst (register_all set_registry (FreshRegistry 0) (metric_names ''shoebox'') (\<lambda>_. {})) = Inr ()"
    by (rule register_all_fresh) simp
  then show ?thesis
    by (auto simp: New_Queue_def NewMetrics_def as_registerer_def buildStorage_def normalize_options_def zero_Options_def Let_def
        DedupePolicyDurable_def split: prod.splits sum.splits)
qed

text \<open>A start of the example, with one webhook.\<close>

lemma memory_start:
  "\<exists>cfg q rs' c. main_start memory_flags webhook_yaml (\<lambda>_. Inr []) example_env set_registry 0 redirecting ((100, 2), True) (\<lambda>_. {}) =
       (Serving cfg q, rs') \<and> loadWith webhook_yaml (fgConfig memory_flags) (\<lambda>_. Inr []) = Inr c \<and> cfg = override_flags memory_flags c \<and>
     map fst (cfWebhooks c) = [''q''] \<and> map fst (cfWebhooks cfg) = [''q'']"
proof -
  obtain c where c: "loadWith webhook_yaml ''c.yaml'' (\<lambda>_. Inr []) = Inr c" "map fst (cfWebhooks c) = [''q'']"
    by (simp add: loadWith_def parseBytes_def webhook_yaml_def validate_def defaults_def storage_defaults_def webhook_defaults_def zero_config_def)
  obtain q0 rs' where n: "New_Queue example_env set_registry 0 zero_Options (\<lambda>_. {}) = (Done (q0 :: http_request list Queue), rs')"
    using New_zero_Options by blast
  have e: "engine_options (cfStorage (override_flags memory_flags c)) = Some zero_Options"
    by (simp add: engine_options_def override_flags_def memory_flags_def zero_Options_def)
  let ?cfg = "override_flags memory_flags c"
  let ?q = "register_webhooks redirecting ((100, 2), True) (cfWebhooks ?cfg) q0"
  have "main_start memory_flags webhook_yaml (\<lambda>_. Inr []) example_env set_registry 0 redirecting ((100, 2), True) (\<lambda>_. {}) =
      (Serving ?cfg ?q, rs')"
    using c(1) e n by (simp add: main_start_def memory_flags_def Let_def)
  moreover have "fgConfig memory_flags = ''c.yaml''" "cfWebhooks ?cfg = cfWebhooks c" by (simp_all add: memory_flags_def override_flags_def)
  ultimately show ?thesis using c by (intro exI [of _ ?cfg] exI [of _ ?q] exI [of _ rs'] exI [of _ c]) simp
qed

theorem main_serving_witness:
  "\<exists>cfg q rs'. main_start memory_flags webhook_yaml (\<lambda>_. Inr []) example_env set_registry 0 redirecting ((100, 2), True) (\<lambda>_. {}) =
       (Serving cfg q, rs') \<and>
     kind_of (Store q) = Memory \<and> b_handlers (q_b q) ''q'' \<noteq> None \<and> b_handlers (q_b q) ''other'' = None"
proof -
  obtain cfg q rs' c where s: "main_start memory_flags webhook_yaml (\<lambda>_. Inr []) example_env set_registry 0 redirecting ((100, 2), True) (\<lambda>_. {}) =
       (Serving cfg q, rs')" and c: "loadWith webhook_yaml (fgConfig memory_flags) (\<lambda>_. Inr []) = Inr c" "cfg = override_flags memory_flags c"
      "map fst (cfWebhooks c) = [''q'']" by (insert memory_start, elim exE conjE) (rule that)
  have d: "distinct (map fst (cfWebhooks c'))" if "loadWith webhook_yaml (fgConfig memory_flags) (\<lambda>_. Inr []) = Inr c'" for c'
    using that c(1,3) by simp
  have k: "stKind (cfStorage cfg) = ''memory''" by (simp add: c(2) override_flags_def memory_flags_def)
  have i: "fst ` set (cfWebhooks c) = {''q''}" using c(3) by (metis list.set(1,2) set_map)
  obtain c' where c': "loadWith webhook_yaml (fgConfig memory_flags) (\<lambda>_. Inr []) = Inr c'"
      "kind_of (Store q) = Memory" "\<And>queue. b_handlers (q_b q) queue \<noteq> None \<longleftrightarrow> queue \<in> fst ` set (cfWebhooks c')"
    using main_serving [OF s env_ok_example d] unfolding k by auto
  have "c' = c" using c'(1) c(1) by simp
  with c'(3) [of "''q''"] c'(3) [of "''other''"] i c'(2) s show ?thesis by (intro exI [of _ cfg] exI [of _ q] exI [of _ rs']) simp
qed

text \<open>
  A flag does not repair a file. The file is validated before the flags replace its fields: when its
  \<open>storage.kind\<close> is unknown, the process ends with code 1 whatever the flags are, also when \<open>--storage\<close>
  names a known kind. An unknown kind in the flag itself ends it with code 2, before anything is opened.
\<close>

theorem flags_do_not_repair_file:
  assumes "fgConfig f \<noteq> ''''" "read (fgConfig f) = Inr data" "yaml data = Inr c"
  shows "(stKind (cfStorage c) \<notin> {'''', ''memory'', ''sqlite'', ''postgres''} \<longrightarrow>
      main_start f yaml read env mreg fresh E base rs = (Exit 1, rs)) \<and>
    (validate (defaults c) = Inr () \<and> fgStorage f \<notin> {'''', ''memory'', ''sqlite'', ''postgres''} \<longrightarrow>
      main_start f yaml read env mreg fresh E base rs = (Exit 2, rs))"
  using assms by (auto simp: main_start_def loadWith_def parseBytes_def validate_def defaults_def storage_defaults_def
      engine_options_def override_flags_def Let_def)

definition redis_yaml :: yaml_parser where
  "redis_yaml data = Inr (zero_config\<lparr>cfStorage := \<lparr>stKind = ''redis'', stPath = '''', stDSN = '''', stSchema = ''''\<rparr>\<rparr>)"

theorem flags_do_not_repair_file_witness:
  "main_start memory_flags redis_yaml (\<lambda>_. Inr []) example_env set_registry 0 redirecting ((100, 2), True) (\<lambda>_. {}) = (Exit 1, \<lambda>_. {})"
  using flags_do_not_repair_file [of memory_flags "\<lambda>_. Inr []" "[]" redis_yaml _ example_env set_registry 0 redirecting "((100, 2), True)" "\<lambda>_. {}"]
  by (simp add: memory_flags_def redis_yaml_def)

end
