(* ===== verification/Server_System.thy ===== *)
theory Server_System
  imports Shoeboxd
begin

text \<open>
  The server beside the broker. \<open>shoeboxd\<close> gives its HTTP handlers the backend of the queue
  (\<open>q.Store()\<close>), on which the goroutines of the broker work at the same time. A request is served as
  steps of the system \<open>sys_step\<close>, on the store the broker has at that moment: what a GET of
  \<open>messages/next\<close> returns is then held by a client, until its DELETE.
\<close>

subsection \<open>Requests on the system\<close>

definition at_store :: "('s, 'w) sys \<Rightarrow> 's \<Rightarrow> ('s, 'w) sys" where
  "at_store y s = y\<lparr>sy_b := (sy_b y)\<lparr>b_store := s\<rparr>\<rparr>"

definition pulled_by :: "request \<Rightarrow> writer \<Rightarrow> (string \<Rightarrow> string list) \<Rightarrow> string \<Rightarrow> string list" where
  "pulled_by r w pu =
     (case rqPath r of
        [a, b, q, c, d] \<Rightarrow>
          if a \<noteq> ''api'' \<or> b \<noteq> ''queues'' \<or> c \<noteq> ''messages'' then pu
          else if is_get (rqMethod r) \<and> d = ''next''
            then (case wBody w of [JSONMessage m] \<Rightarrow> pu(q := mID m # pu q) | _ \<Rightarrow> pu)
          else if rqMethod r = ''DELETE'' \<and> wBody w = [JSONStatus ''acked''] then pu(q := remove1 d (pu q))
          else pu
      | _ \<Rightarrow> pu)"

definition serve_http ::
  "Config \<Rightarrow> store http_handler \<Rightarrow> json_decoder \<Rightarrow> duration_parser \<Rightarrow> string list \<Rightarrow> inputs \<Rightarrow> request \<Rightarrow> (store, 'w) sys \<Rightarrow>
   writer \<times> (store, 'w) sys" where
  "serve_http cfg promhttp decode ParseDuration ks inp r y =
     (let (res, w, st) = server_mux cfg promhttp store_ops decode ParseDuration (Queues ks (sy_b y)) inp r new_writer (b_store (sy_b y))
      in (w, (at_store y st)\<lparr>sy_pulled := pulled_by r w (sy_pulled y)\<rparr>))"

text \<open>
  What clients owe: no name of a dead-letter queue, and no DELETE of a message they did not take. The
  identifier of an enqueued message is fresh, which \<open>NewMessageID\<close> makes as good as certain.
\<close>

definition obeys :: "inputs \<Rightarrow> request \<Rightarrow> (store, 'w) sys \<Rightarrow> bool" where
  "obeys inp r y \<longleftrightarrow>
     (case rqPath r of
        a # b # q # rest \<Rightarrow>
          user_queue q \<and> fresh_id q (newRequestID inp) (store_view (b_store (sy_b y))) \<and>
          (rqMethod r = ''DELETE'' \<longrightarrow> (\<forall>d. rest = [''messages'', d] \<longrightarrow> d \<in> set (sy_pulled y q)))
      | _ \<Rightarrow> True)"

lemma at_store_sel [simp]:
  "b_store (sy_b (at_store y s)) = s" "at_store (at_store y s) s' = at_store y s'" "at_store y (b_store (sy_b y)) = y"
  "sy_pulled (at_store y s) = sy_pulled y" "b_handlers (sy_b (at_store y s)) = b_handlers (sy_b y)"
  by (simp_all add: at_store_def)

lemma pulled_same [simp]: "(y :: ('s, 'w) sys)\<lparr>sy_pulled := sy_pulled y\<rparr> = y"
  by simp

subsection \<open>Routes\<close>

lemma api_mux_rule:
  assumes "\<And>q. rqPath r = [''queues'', q, ''messages''] \<Longrightarrow> rqMethod r = ''POST'' \<Longrightarrow> P (api_enqueue ops decode pd q inp r w s)"
    and "\<And>q. rqPath r = [''queues'', q, ''stats''] \<Longrightarrow> P (api_stats ops q inp r w s)"
    and "\<And>q. rqPath r = [''queues'', q, ''dlq''] \<Longrightarrow> P (api_listDLQ ops q inp r w s)"
    and "\<And>q. rqPath r = [''queues'', q, ''messages'', ''next''] \<Longrightarrow> is_get (rqMethod r) \<Longrightarrow> P (api_consume ops q inp r w s)"
    and "\<And>q mid. rqPath r = [''queues'', q, ''messages'', mid] \<Longrightarrow> rqMethod r = ''DELETE'' \<Longrightarrow> P (api_ack ops q mid inp r w s)"
    and "\<And>q mid. rqPath r = [''queues'', q, ''dlq'', mid, ''replay''] \<Longrightarrow> P (api_replayDLQ ops q mid inp r w s)"
    and "P (NotFound w s)" "\<And>a. P (MethodNotAllowed a w s)"
  shows "P (api_mux ops decode pd inp r w s)"
  unfolding api_mux_def by (rule route_cases) (simp_all add: assms)

subsection \<open>Each handler is a step\<close>

lemma pulled_by_other:
  "wBody w = [b] \<Longrightarrow> \<forall>m. b \<noteq> JSONMessage m \<Longrightarrow> b \<noteq> JSONStatus ''acked'' \<Longrightarrow> pulled_by r w pu = pu"
  by (auto simp: pulled_by_def split: list.split http_body.split)

lemma pulled_by_short: "length (rqPath r) \<noteq> 5 \<Longrightarrow> pulled_by r w pu = pu"
  by (auto simp: pulled_by_def split: list.split)

definition final :: "unit result \<Rightarrow> writer \<Rightarrow> writer" where
  "final res w = (case res of Inl p \<Rightarrow> writeError 500 ''internal panic'' w | Inr _ \<Rightarrow> w)"

text \<open>\<open>after y r x\<close> is the system after the handler gave \<open>x\<close> for the request \<open>r\<close>.\<close>

definition after :: "('s, 'w) sys \<Rightarrow> request \<Rightarrow> unit result \<times> writer \<times> 's \<Rightarrow> ('s, 'w) sys" where
  "after y r x = (let (res, w, st) = x in (at_store y st)\<lparr>sy_pulled := pulled_by r (final res w) (sy_pulled y)\<rparr>)"

lemma after_respond:
  assumes "pulled_by r (f w) (sy_pulled y) = sy_pulled y"
  shows "after y r (respond f w st) = at_store y st"
  using assms by (simp add: after_def respond_def final_def at_store_def)

lemma body_after [simp]:
  "wBody w = [] \<Longrightarrow> wBody (writeJSON c v w) = [v]" "wBody w = [] \<Longrightarrow> wBody (writeError c m w) = [JSONError m]"
  "wBody w = [] \<Longrightarrow> wBody (http_Error m c w) = [PlainText m]" "wBody w = [] \<Longrightarrow> wBody (write_body v w) = [v]"
  "wBody (set_header k x w) = wBody w"
  by (simp_all add: writer_defs split: option.split)

lemma after_error [simp]: "wBody w = [] \<Longrightarrow> after y r (respond (writeError c m) w st) = at_store y st"
  by (intro after_respond pulled_by_other [of _ "JSONError m"]) simp_all

lemma after_nothing [simp]:
  "wBody w = [] \<Longrightarrow> after y r (NotFound w st) = at_store y st" "wBody w = [] \<Longrightarrow> after y r (MethodNotAllowed a w st) = at_store y st"
  unfolding NotFound_def MethodNotAllowed_def
  by (intro after_respond pulled_by_other [of _ "PlainText _"]; simp)+

lemma after_JSON [simp]:
  "wBody w = [] \<Longrightarrow> \<forall>m. v \<noteq> JSONMessage m \<Longrightarrow> v \<noteq> JSONStatus ''acked'' \<Longrightarrow> after y r (respond (writeJSON c v) w st) = at_store y st"
  by (intro after_respond pulled_by_other [of _ v]) simp_all

abbreviation reach :: "store schedule_ops \<Rightarrow> store options \<Rightarrow> 'w \<Rightarrow> (store, 'w) sys \<Rightarrow> bool" where
  "reach sops opts world \<equiv> sys_reachable store_ops sops store_view opts world"

lemma api_enqueue_cases:
  obtains (rejected) c m where "api_enqueue ops decode pd q inp r w s = respond (writeError c m) w s"
  | (failed) msg c m s' where "mID msg = newRequestID inp" "s' = snd (Enqueue_op ops (inClock inp) q msg s)"
      "api_enqueue ops decode pd q inp r w s = respond (writeError c m) w s'"
  | (stored) msg c s' where "mID msg = newRequestID inp" "s' = snd (Enqueue_op ops (inClock inp) q msg s)"
      "api_enqueue ops decode pd q inp r w s = respond (writeJSON c (JSONID (newRequestID inp))) w s'"
proof (cases "ValidQueueName q")
  case False
  then show thesis using rejected by (simp add: api_enqueue_def)
next
  case valid: True
  show thesis
  proof (cases "decode (take maxPayloadSize (rqBody r)) (length (rqBody r) > maxPayloadSize)")
    case (Inl e)
    then show thesis using rejected valid by (simp add: api_enqueue_def)
  next
    case req: (Inr req)
    let ?d = "if erDelay req \<noteq> '''' then pd (erDelay req) else Inr 0"
    show thesis
    proof (cases "erPayload req = '''' \<or> (\<exists>e. ?d = Inl e)")
      case True
      then consider "erPayload req = ''''" | e where "erPayload req \<noteq> ''''" "erDelay req \<noteq> ''''" "pd (erDelay req) = Inl e"
        by (auto split: if_splits)
      then show thesis
      proof cases
        case 1
        show thesis by (rule rejected) (use valid req 1 in \<open>simp add: api_enqueue_def\<close>)
      next
        case (2 e)
        show thesis by (rule rejected) (use valid req 2 in \<open>simp add: api_enqueue_def Let_def\<close>)
      qed
    next
      case False
      then obtain d where d: "?d = Inr d" by (cases ?d) auto
      let ?m0 = "zero_message\<lparr>mID := newRequestID inp, mQueue := q, mPayload := bytes_of_string (erPayload req), mMetadata := erMetadata req\<rparr>"
      let ?m = "if sint d > 0 then ?m0\<lparr>mScheduledAt := time_add (inNow inp) d\<rparr> else ?m0"
      obtain er s' where e: "Enqueue_op ops (inClock inp) q ?m s = (er, s')" by fastforce
      have m: "mID ?m = newRequestID inp" "s' = snd (Enqueue_op ops (inClock inp) q ?m s)" by (simp_all add: e)
      have "api_enqueue ops decode pd q inp r w s = (case er of
          Inl err \<Rightarrow> respond (writeError 500 ''enqueue failed'') w s'
        | Inr _ \<Rightarrow> respond (writeJSON 201 (JSONID (newRequestID inp))) w s')"
        using valid req False d e m(1) by (cases er) (simp_all add: api_enqueue_def Let_def)
      then show thesis using failed [OF m] stored [OF m] by (cases er) simp_all
    qed
  qed
qed

lemma enqueue_steps:
  assumes "reach sops opts world y" "user_queue q" "fresh_id q (newRequestID inp) (store_view (b_store (sy_b y)))" "wBody w = []"
  shows "reach sops opts world (after y r (api_enqueue store_ops decode pd q inp r' w (b_store (sy_b y))))"
proof -
  have step: "reach sops opts world (at_store y (snd (Enqueue_op store_ops t q msg (b_store (sy_b y)))))" if "mID msg = newRequestID inp" for t msg
    unfolding at_store_def by (rule sr_step [OF assms(1) s_store_Enqueue]) (use assms that in simp_all)
  show ?thesis
    by (cases rule: api_enqueue_cases [where ops = store_ops and decode = decode and pd = pd and q = q and inp = inp and r = r' and w = w and s = "b_store (sy_b y)"])
      (use assms(1,4) step in simp_all)
qed

lemma stats_steps:
  assumes "reach sops opts world y" "user_queue q" "wBody w = []"
  shows "reach sops opts world (after y r (api_stats store_ops q inp r' w (b_store (sy_b y))))"
proof -
  have "reach sops opts world (y\<lparr>sy_b := snd (b_Stats store_ops q (sy_b y))\<rparr>)" by (rule sr_step [OF assms(1) s_Stats [OF assms(2)]])
  then have "reach sops opts world (at_store y (snd (Stats_op store_ops q (b_store (sy_b y)))))"
    by (simp add: at_store_def b_Stats_def split_beta)
  then show ?thesis using assms(3) by (auto simp: api_stats_def split: sum.split prod.split)
qed

lemma list_steps:
  assumes "reach sops opts world y"
  shows "reach sops opts world (at_store y (snd (dlq_List store_ops q l (b_store (sy_b y)))))"
proof -
  have "reach sops opts world (at_store y (snd (List_op store_ops qn n (b_store (sy_b y)))))" for qn n
    unfolding at_store_def by (rule sr_step [OF assms s_List])
  then show ?thesis by (auto simp: dlq_List_def Let_def split: sum.split prod.split) (metis snd_conv)+
qed

lemma replay_steps:
  assumes "reach sops opts world y" "user_queue q" "wBody w = []"
  shows "reach sops opts world (after y r (api_replayDLQ store_ops q mid inp r' w (b_store (sy_b y))))"
proof -
  have "reach sops opts world (at_store y (snd (Replay_op store_ops t q mid (b_store (sy_b y)))))" for t
    unfolding at_store_def by (rule sr_step [OF assms(1) s_Replay [OF assms(2)]])
  then have "reach sops opts world (at_store y (snd (dlq_Replay store_ops t q mid (b_store (sy_b y)))))" for t
    by (auto simp: dlq_Replay_def split: sum.split prod.split) (metis snd_conv)+
  then show ?thesis using assms(3) by (auto simp: api_replayDLQ_def split: sum.split prod.split) (metis snd_conv)+
qed

lemma listDLQ_steps:
  assumes "reach sops opts world y" "wBody w = []"
  shows "reach sops opts world (after y r (api_listDLQ store_ops q inp r' w (b_store (sy_b y))))"
  using list_steps [OF assms(1)] assms(2) by (auto simp: api_listDLQ_def split: sum.split prod.split) (metis snd_conv)+

lemma pull_steps:
  assumes "reach sops opts world y" "user_queue q" "wBody w = []" "rqPath r = [''api'', ''queues'', q, ''messages'', ''next'']" "is_get (rqMethod r)" "store_inv (b_store (sy_b y))"
  shows "reach sops opts world (after y r (api_consume store_ops q inp r' w (b_store (sy_b y))))"
proof -
  obtain dr s where d: "Dequeue_op store_ops (inClock inp) q 1 (b_store (sy_b y)) = (dr, s)" by fastforce
  have step: "reach sops opts world (y\<lparr>sy_b := (sy_b y)\<lparr>b_store := s\<rparr>,
      sy_pulled := (sy_pulled y)(q := (case dr of Inl e \<Rightarrow> [] | Inr ms \<Rightarrow> map mID ms) @ sy_pulled y q)\<rparr>)"
    by (rule sr_step [OF assms(1) s_pull [OF assms(2) d]])
  show ?thesis
  proof (cases dr)
    case (Inl e)
    then show ?thesis using step d assms(3) by (simp add: api_consume_def at_store_def)
  next
    case (Inr ms)
    show ?thesis
    proof (cases ms)
      case Nil
      then show ?thesis using step d Inr assms(3) by (simp add: api_consume_def at_store_def after_def final_def pulled_by_other [where b = "JSONError _"])
    next
      case (Cons m ms')
      have "ms' = []" using any.Dequeue_ok [OF assms(6,2) _ d [unfolded Inr]] Cons by simp
      then show ?thesis using step d Inr Cons assms(3-5)
        by (simp add: api_consume_def at_store_def after_def final_def respond_def pulled_by_def)
    qed
  qed
qed

lemma ack_steps:
  assumes "reach sops opts world y" "user_queue q" "wBody w = []" "rqPath r = [''api'', ''queues'', q, ''messages'', mid]" "rqMethod r = ''DELETE''"
    "mid \<in> set (sy_pulled y q)"
  shows "reach sops opts world (after y r (api_ack store_ops q mid inp r' w (b_store (sy_b y))))"
proof -
  obtain ar s where a: "Ack_op store_ops q mid (b_store (sy_b y)) = (ar, s)" by fastforce
  have step: "reach sops opts world (y\<lparr>sy_b := (sy_b y)\<lparr>b_store := s\<rparr>,
      sy_pulled := (sy_pulled y)(q := (case ar of Inl e \<Rightarrow> sy_pulled y q | Inr u \<Rightarrow> remove1 mid (sy_pulled y q)))\<rparr>)"
    by (rule sr_step [OF assms(1) s_pull_ack [OF assms(2,6) a]])
  show ?thesis
  proof (cases ar)
    case (Inl e)
    then show ?thesis using step a assms(3) by (simp add: api_ack_def at_store_def)
  next
    case (Inr u)
    then show ?thesis using step a assms(3-5)
      by (simp add: api_ack_def at_store_def after_def final_def respond_def pulled_by_def is_get_def)
  qed
qed

lemma collect_steps:
  assumes "reach sops opts world y" "\<forall>q \<in> set qs. user_queue q"
  shows "reach sops opts world (at_store y (snd (collect_loop store_ops qs acc (b_store (sy_b y)))))"
  using assms
proof (induction qs arbitrary: acc y)
  case (Cons q qs)
  have "reach sops opts world (y\<lparr>sy_b := snd (b_Stats store_ops q (sy_b y))\<rparr>)" using Cons.prems by (intro sr_step [OF Cons.prems(1) s_Stats]) simp
  then have r: "reach sops opts world (at_store y (snd (Stats_op store_ops q (b_store (sy_b y)))))"
    by (simp add: at_store_def b_Stats_def split_beta)
  obtain x s1 where s: "Stats_op store_ops q (b_store (sy_b y)) = (x, s1)" by fastforce
  from Cons.IH [OF r] Cons.prems(2) s show ?case by (cases x) simp_all
qed simp

lemma after_page [simp]:
  "wBody w = [] \<Longrightarrow> after y r (respond (render (StatsPage n st)) w s) = at_store y s"
  "wBody w = [] \<Longrightarrow> after y r (respond (render (DLQPage n rs)) w s) = at_store y s"
  "wBody w = [] \<Longrightarrow> after y r (respond (\<lambda>w. write_body (JSONStatsMap m) (set_header k v w)) w s) = at_store y s"
  "wBody w = [] \<Longrightarrow> after y r (respond (http_Error msg c) w s) = at_store y s"
  by (intro after_respond pulled_by_other [of _ "StatsPage n st"] pulled_by_other [of _ "DLQPage n rs"] pulled_by_other [of _ "JSONStatsMap m"]
      pulled_by_other [of _ "PlainText msg"]; simp add: render_def)+

lemma dash_steps:
  assumes "reach sops opts world y" "\<forall>q \<in> set queues. user_queue q" "wBody w = []"
  shows "reach sops opts world (after y r (dash_mux store_ops queues inp r' w (b_store (sy_b y))))"
proof -
  have c: "reach sops opts world (at_store y (snd (collect_loop store_ops (sort_Strings queues) [] (b_store (sy_b y)))))"
    by (rule collect_steps [OF assms(1)]) (use assms(2) in \<open>simp add: sort_Strings_def\<close>)
  then have "reach sops opts world (after y r (dash_index store_ops queues inp r' w (b_store (sy_b y))))"
    "reach sops opts world (after y r (statsPartial store_ops queues inp r' w (b_store (sy_b y))))"
    "reach sops opts world (after y r (JSONHandler store_ops queues inp r' w (b_store (sy_b y))))"
    using assms(3) by (auto simp: dash_index_def statsPartial_def JSONHandler_def collectStats_def split: prod.splits)
  moreover have "reach sops opts world (after y r (dlqPartial store_ops inp r' w (b_store (sy_b y))))"
    using list_steps [OF assms(1), of "rqQuery r' ''queue''" 50] assms(1,3)
    by (auto simp: dlqPartial_def Let_def split: prod.splits sum.splits)
  ultimately show ?thesis using assms(1,3) by (simp add: dash_mux_def)
qed

lemma api_steps:
  assumes "reach sops opts world y" "obeys inp r y" "wBody w = []" "store_inv (b_store (sy_b y))"
    and "rqPath r = ''api'' # rqPath r'" "rqMethod r' = rqMethod r"
  shows "reach sops opts world (after y r (api_mux store_ops decode pd inp r' w (b_store (sy_b y))))"
proof (rule api_mux_rule [where P = "\<lambda>x. reach sops opts world (after y r x)"])
  fix q
  assume p: "rqPath r' = [''queues'', q, ''messages'']"
  then have "user_queue q" "fresh_id q (newRequestID inp) (store_view (b_store (sy_b y)))" using assms(2,5) by (simp_all add: obeys_def)
  then show "reach sops opts world (after y r (api_enqueue store_ops decode pd q inp r' w (b_store (sy_b y))))"
    by (rule enqueue_steps [OF assms(1) _ _ assms(3)])
next
  fix q
  assume "rqPath r' = [''queues'', q, ''stats'']"
  then have "user_queue q" using assms(2,5) by (simp add: obeys_def)
  then show "reach sops opts world (after y r (api_stats store_ops q inp r' w (b_store (sy_b y))))" by (rule stats_steps [OF assms(1) _ assms(3)])
next
  fix q
  show "reach sops opts world (after y r (api_listDLQ store_ops q inp r' w (b_store (sy_b y))))" by (rule listDLQ_steps [OF assms(1,3)])
next
  fix q
  assume p: "rqPath r' = [''queues'', q, ''messages'', ''next'']" "is_get (rqMethod r')"
  then have u: "user_queue q" "rqPath r = [''api'', ''queues'', q, ''messages'', ''next'']" "is_get (rqMethod r)"
    using assms(2,5,6) by (simp_all add: obeys_def)
  show "reach sops opts world (after y r (api_consume store_ops q inp r' w (b_store (sy_b y))))"
    by (rule pull_steps [OF assms(1) u(1) assms(3) u(2,3) assms(4)])
next
  fix q mid
  assume p: "rqPath r' = [''queues'', q, ''messages'', mid]" "rqMethod r' = ''DELETE''"
  then have u: "user_queue q" "rqPath r = [''api'', ''queues'', q, ''messages'', mid]" "rqMethod r = ''DELETE''" "mid \<in> set (sy_pulled y q)"
    using assms(2,5,6) by (simp_all add: obeys_def)
  show "reach sops opts world (after y r (api_ack store_ops q mid inp r' w (b_store (sy_b y))))"
    by (rule ack_steps [OF assms(1) u(1) assms(3) u(2-4)])
next
  fix q mid
  assume "rqPath r' = [''queues'', q, ''dlq'', mid, ''replay'']"
  then have "user_queue q" using assms(2,5) by (simp add: obeys_def)
  then show "reach sops opts world (after y r (api_replayDLQ store_ops q mid inp r' w (b_store (sy_b y))))" by (rule replay_steps [OF assms(1) _ assms(3)])
qed (use assms(1,3) in simp_all)

subsection \<open>The chain around the handlers\<close>

lemma after_guard:
  "after y r (HTTP_RecoveryMiddleware (RequestIDMiddleware (HTTP_LoggingMiddleware h)) inp r w s) =
   after y r (h inp (r\<lparr>rqID := Some (correlation_id inp r)\<rparr>) (set_header ''X-Request-ID'' (correlation_id inp r) w) s)"
  by (simp add: HTTP_RecoveryMiddleware_def RequestIDMiddleware_def HTTP_LoggingMiddleware_def Let_def after_def final_def split: prod.split sum.split)

lemma after_denied [simp]:
  "wBody w = [] \<Longrightarrow> after y r (respond (\<lambda>w. writeError c m (set_header k v w)) w st) = at_store y st"
  by (intro after_respond pulled_by_other [of _ "JSONError m"]) simp_all

lemma after_auth:
  assumes "wBody w = []"
  shows "after y r (AuthMiddleware token h inp r' w s) \<in> {at_store y s, after y r (h inp r' w s)}"
    "after y r (BasicAuthMiddleware user password h inp r' w s) \<in> {at_store y s, after y r (h inp r' w s)}"
  using assms by (auto simp: AuthMiddleware_def BasicAuthMiddleware_def split: option.split)

lemma server_steps:
  assumes "reach sops opts world y" "store_inv (b_store (sy_b y))" "\<forall>q \<in> set queues. user_queue q" "obeys inp r y"
    and "\<not> (rqPath r = [''metrics''] \<and> is_get (rqMethod r))"
  shows "reach sops opts world (after y r (server_mux cfg promhttp store_ops decode pd queues inp r new_writer (b_store (sy_b y))))"
proof -
  let ?s = "b_store (sy_b y)" and ?w = "set_header ''X-Request-ID'' (correlation_id inp r) new_writer" and ?r = "r\<lparr>rqID := Some (correlation_id inp r)\<rparr>"
  have w: "wBody ?w = []" by (simp add: new_writer_def)
  consider "rqPath r = [''api'']" | p ps where "rqPath r = ''api'' # p # ps" | "take 1 (rqPath r) \<noteq> [''api'']"
    by (cases "rqPath r" rule: remdups_adj.cases) auto
  then show ?thesis
  proof cases
    case 1
    then have "after y r (Redirect 307 ''/api/'' new_writer ?s) = y"
      unfolding Redirect_def by (subst after_respond) (simp_all add: pulled_by_short)
    with 1 assms(1) show ?thesis by (simp add: server_mux_def)
  next
    case (2 p ps)
    have "reach sops opts world (after y r (StripAPI (api_mux store_ops decode pd) inp ?r ?w ?s))"
      unfolding StripAPI_def by (rule api_steps [OF assms(1,4) w assms(2)]) (use 2 in simp_all)
    with after_auth(1) [OF w, of y r "scAuthToken (cfServer cfg)" "StripAPI (api_mux store_ops decode pd)" inp ?r ?s] 2 assms(1) show ?thesis
      by (auto simp: server_mux_def api_side_eq after_guard)
  next
    case 3
    have "server_mux cfg promhttp store_ops decode pd queues inp r new_writer ?s = dash_side cfg store_ops queues inp r new_writer ?s"
      using 3 assms(5) by (auto simp: server_mux_def)
    with after_auth(2) [OF w, of y r "scDashboardUser (cfServer cfg)" "scDashboardPassword (cfServer cfg)" "dash_mux store_ops queues" inp ?r ?s] dash_steps [OF assms(1,3) w, of r inp ?r] assms(1) show ?thesis
      by (auto simp: dash_side_eq after_guard)
  qed
qed

lemma serve_after:
  assumes "\<not> (rqPath r = [''metrics''] \<and> is_get (rqMethod r))"
  shows "snd (serve_http cfg promhttp decode pd ks inp r y) =
    after y r (server_mux cfg promhttp store_ops decode pd (Queues ks (sy_b y)) inp r new_writer (b_store (sy_b y)))"
proof -
  have "\<exists>w s. server_mux cfg promhttp store_ops decode pd (Queues ks (sy_b y)) inp r new_writer (b_store (sy_b y)) = (Inr (), w, s)"
  proof (cases "rqPath r = [''api'']")
    case True
    then show ?thesis by (simp add: server_mux_def Redirect_def respond_def)
  next
    case False
    from server_sends [OF assms False] show ?thesis by metis
  qed
  then show ?thesis by (auto simp: serve_http_def after_def final_def)
qed

lemma serve_reach:
  assumes "reach (store_schedule_ops ks' jsonb collate) opts world y" "store_inv (optStorage opts)" "exclusive (store_view (optStorage opts))"
    and "obeys inp r y" "\<not> (rqPath r = [''metrics''] \<and> is_get (rqMethod r))"
  shows "reach (store_schedule_ops ks' jsonb collate) opts world (snd (serve_http cfg promhttp decode pd ks inp r y))"
proof -
  have "own_inv store_inv store_view y" by (rule anys.own_reachable [OF assms(1-3)])
  then have "store_inv (b_store (sy_b y))" "\<forall>q \<in> set (Queues ks (sy_b y)). user_queue q" by (simp_all add: own_inv_def Queues_def)
  then show ?thesis unfolding serve_after [OF assms(5)] by (rule server_steps [OF assms(1) _ _ assms(4,5)])
qed

lemma serve_takes:
  assumes "serve_http cfg promhttp decode pd ks inp r y = (w, y')" "is_get (rqMethod r)"
    and "rqPath r = [''api'', ''queues'', n, ''messages'', ''next'']" "wBody w = [JSONMessage m]"
  shows "sy_pulled y' n = mID m # sy_pulled y n \<and> owed (sy_b y') n = owed (sy_b y) n \<and>
    mset (held y' n) = add_mset (mID m) (mset (held y n))"
proof -
  from assms(1) obtain st where y': "y' = (at_store y st)\<lparr>sy_pulled := pulled_by r w (sy_pulled y)\<rparr>" by (auto simp: serve_http_def split: prod.splits)
  have "pulled_by r w (sy_pulled y) = (sy_pulled y)(n := mID m # sy_pulled y n)" using assms(2-4) by (simp add: pulled_by_def)
  then show ?thesis by (simp add: y' at_store_def owed_def held_def busy_def)
qed

lemma New_Queue_store_ok:
  assumes "New_Queue env mreg fresh opts rs = (Done q, rs')" "env_ok env"
  shows "store_inv (optStorage (queue_options (Store q) (normalize_options opts)))"
    "exclusive (store_view (optStorage (queue_options (Store q) (normalize_options opts))))"
proof -
  from assms(1) obtain st where st: "buildStorage env (normalize_options opts) = Done st" "Store q = st" by (rule New_Queue_DoneE)
  with buildStorage_ok [OF st(1) assms(2)] show "store_inv (optStorage (queue_options (Store q) (normalize_options opts)))"
    "exclusive (store_view (optStorage (queue_options (Store q) (normalize_options opts))))" by (simp_all add: queue_options_def)
qed

subsection \<open>The running server\<close>

text \<open>
  \<open>start_webhooks\<close> is the loop of \<open>main\<close> over the webhooks with the dispatchers it starts. A server runs from
  there by the steps of its goroutines and by requests, in any order.
\<close>

fun start_webhooks ::
  "'w http_env \<Rightarrow> (int \<times> int) \<times> bool \<Rightarrow> (string \<times> WebhookConfig) list \<Rightarrow> 'w Queue \<Rightarrow> (store, 'w) sys \<Rightarrow> (store, 'w) sys" where
  "start_webhooks E base [] q y = y"
| "start_webhooks E base ((queue, wh) # whs) q y =
     (let (started, q) = Handle queue (WebhookHandler E base (wcURL wh) None (webhook_opts wh)) [] q
      in start_webhooks E base whs q (start_dispatcher queue (started, q_b q) y))"

inductive server_runs ::
  "Config \<Rightarrow> store http_handler \<Rightarrow> json_decoder \<Rightarrow> duration_parser \<Rightarrow> string list \<Rightarrow> store schedule_ops \<Rightarrow> (store, 'w) sys \<Rightarrow> (store, 'w) sys \<Rightarrow> bool"
  for cfg promhttp decode ParseDuration ks sops y0 where
  sv_start: "server_runs cfg promhttp decode ParseDuration ks sops y0 y0"
| sv_step: "server_runs cfg promhttp decode ParseDuration ks sops y0 y \<Longrightarrow> sys_step store_ops sops store_view y y' \<Longrightarrow>
     server_runs cfg promhttp decode ParseDuration ks sops y0 y'"
| sv_request: "server_runs cfg promhttp decode ParseDuration ks sops y0 y \<Longrightarrow> obeys inp r y \<Longrightarrow>
     \<not> (rqPath r = [''metrics''] \<and> is_get (rqMethod r)) \<Longrightarrow> serve_http cfg promhttp decode ParseDuration ks inp r y = (w, y') \<Longrightarrow>
     server_runs cfg promhttp decode ParseDuration ks sops y0 y'"

lemma start_webhooks_reach:
  assumes "reach sops opts world y" "sy_b y = q_b q" "\<not> b_closed (q_b q)" "\<forall>queue \<in> fst ` set whs. user_queue queue"
  shows "reach sops opts world (start_webhooks E base whs q y) \<and> sy_b (start_webhooks E base whs q y) = q_b (register_webhooks E base whs q)"
  using assms
proof (induction E base whs q y rule: start_webhooks.induct)
  case (2 E base queue wh whs q y)
  let ?fn = "WebhookHandler E base (wcURL wh) None (webhook_opts wh)"
  obtain started q' where h: "Handle queue ?fn [] q = (started, q')" by fastforce
  let ?y = "start_dispatcher queue (started, q_b q') y"
  obtain ho where ho: "Register queue ?fn ho (q_b q) = (started, q_b q')"
    using h by (auto simp: Handle_def Let_def split: prod.splits)
  then have "?y = start_dispatcher queue (Register queue ?fn ho (sy_b y)) y" by (simp add: 2(3))
  moreover have "reach sops opts world (start_dispatcher queue (Register queue ?fn ho (sy_b y)) y)"
    by (rule sr_step [OF 2(2) s_Register]) (use 2(3-5) in simp_all)
  ultimately have "reach sops opts world ?y" by simp
  moreover have "sy_b ?y = q_b q'" by (simp add: start_dispatcher_def)
  moreover have "b_closed (snd (Register queue ?fn ho (q_b q))) = b_closed (q_b q)" by (simp add: Register_def Let_def)
  then have "\<not> b_closed (q_b q')" using ho 2(4) by simp
  ultimately show ?case using 2(1) [OF h [symmetric] refl] 2(5) h by simp
qed simp

lemma start_webhooks_places:
  assumes "\<And>n. sy_pc y n = (if b_dispatching (q_b q) n then Top else Stopped)"
  shows "sy_pc (start_webhooks E base whs q y) n = (if n \<in> fst ` set whs \<or> b_dispatching (q_b q) n then Top else Stopped)"
    "sy_workers (start_webhooks E base whs q y) = sy_workers y" "sy_pulled (start_webhooks E base whs q y) = sy_pulled y"
    "sy_world (start_webhooks E base whs q y) = sy_world y"
proof -
  have "(\<forall>n. sy_pc (start_webhooks E base whs q y) n = (if n \<in> fst ` set whs \<or> b_dispatching (q_b q) n then Top else Stopped)) \<and>
    sy_workers (start_webhooks E base whs q y) = sy_workers y \<and> sy_pulled (start_webhooks E base whs q y) = sy_pulled y \<and>
    sy_world (start_webhooks E base whs q y) = sy_world y"
    using assms
  proof (induction E base whs q y rule: start_webhooks.induct)
    case (2 E base queue wh whs q y)
    obtain started q' where h: "Handle queue (WebhookHandler E base (wcURL wh) None (webhook_opts wh)) [] q = (started, q')" by fastforce
    have s: "fst (Register n fn ho b) = (\<not> b_dispatching b n)" "b_dispatching (snd (Register n fn ho b)) = (b_dispatching b)(n := True)"
      for n fn ho and b :: "(store, 'a) broker" by (auto simp: Register_def Let_def fun_eq_iff)
    have d: "started = (\<not> b_dispatching (q_b q) queue)" "b_dispatching (q_b q') = (b_dispatching (q_b q))(queue := True)"
      using h s [of queue] by (auto simp: Handle_def Let_def split_beta)
    let ?y = "start_dispatcher queue (started, q_b q') y"
    have "sy_pc ?y n = (if b_dispatching (q_b q') n then Top else Stopped)" for n
      using 2(2) by (auto simp: start_dispatcher_def d)
    from 2(1) [OF h [symmetric] refl this] d(2) h show ?case by (auto simp: start_dispatcher_def)
  qed simp
  then show "sy_pc (start_webhooks E base whs q y) n = (if n \<in> fst ` set whs \<or> b_dispatching (q_b q) n then Top else Stopped)"
    "sy_workers (start_webhooks E base whs q y) = sy_workers y" "sy_pulled (start_webhooks E base whs q y) = sy_pulled y"
    "sy_world (start_webhooks E base whs q y) = sy_world y" by blast+
qed

lemma server_runs_reach:
  assumes "server_runs cfg promhttp decode pd ks (store_schedule_ops ks' jsonb collate) y0 y"
    and "reach (store_schedule_ops ks' jsonb collate) opts world y0" "store_inv (optStorage opts)" "exclusive (store_view (optStorage opts))"
  shows "reach (store_schedule_ops ks' jsonb collate) opts world y"
  using assms(1)
proof induction
  case sv_start
  show ?case by (rule assms(2))
next
  case (sv_step y y')
  then show ?case by (blast intro: sr_step)
next
  case (sv_request y inp r w y')
  from serve_reach [OF sv_request(5) assms(3,4) sv_request(2,3), of cfg promhttp decode pd ks] sv_request(4) show ?case by simp
qed

end
