(* ===== verification/Spec2Isabelle.thy ===== *)
theory Spec2Isabelle
  imports Broker_Delivery Broker_Shutdown SQL_Delivery Schema_Postgres Tracing Example_Programs Server_System
begin

text \<open>
  \<^bold>\<open>Shoebox: an embedded message queue and its server\<close>

  \<^bold>\<open>The program.\<close> A \<open>Queue\<close> (\<open>shoebox.go\<close>) is a broker over a storage backend. Callers enqueue messages;
  for every registered queue a dispatcher goroutine dequeues what is due and starts a worker per message,
  which runs the middleware and the handler and then acknowledges the message, schedules a retry or moves
  it to the dead-letter queue. A backend (memory, SQLite, PostgreSQL) keeps each message pending, in flight
  or dead. \<open>shoeboxd\<close> serves the same engine over HTTP, with webhooks as handlers and a dashboard.

  \<^bold>\<open>Theories, from the leaves to the root.\<close>
  \<^item> \<open>Shoebox_Prelude\<close>: times and durations (\<open>int\<close> nanoseconds, \<open>64 word\<close>), errors as values of \<open>err + 'a\<close>, the
    pieces of the Go library the code uses, the locale \<open>strict_weak_order\<close> of the comparison functions.
  \<^item> \<open>Naming\<close> (\<open>internal/naming\<close>), \<open>Retry\<close> (\<open>internal/retry\<close>), \<open>Dedupe\<close> (\<open>internal/broker/dedupe.go\<close>).
  \<^item> \<open>Storage\<close> (\<open>storage.go\<close>): messages, schedules and the two storage interfaces as records of operations.
    \<open>Store_Contract\<close>: what a backend promises, on identifiers, as the locales \<open>queue_store\<close> and
    \<open>schedule_store\<close>.
  \<^item> \<open>Memory_Store\<close> (\<open>memory.go\<close>); \<open>Go_Time\<close> (RFC 3339 texts, with the offset of a location),
    \<open>SQL_Database\<close> (tables, statements, transactions, a driver any call of which may fail, and the formats of the process), \<open>SQLite_Store\<close>, \<open>Postgres_Store\<close>
    (\<open>sqlite.go\<close>, \<open>postgres.go\<close>); \<open>SQL_Atomicity\<close> and \<open>SQL_Delivery\<close> on both; \<open>Schema\<close>,
    \<open>Schema_Upgrade\<close>, \<open>Schema_Postgres\<close> (\<open>migrations\<close> and the opening of databases); \<open>Backends\<close>, the
    dynamic dispatch of the interfaces. The locales of the contract are interpreted on all three backends
    and on the dispatch.
  \<^item> \<open>Broker\<close> (\<open>broker.go\<close>, \<open>handler.go\<close>, \<open>middleware.go\<close>): every method as a function on the broker's
    state. \<open>Broker_System\<close>: the goroutines and the calls of clients as the step relation \<open>sys_step\<close>; the
    dispatcher's test for the end of a drain is a sequence of steps, one per call it makes;
    \<open>Broker_Ownership\<close>: who holds a message, by rule induction in the contract; \<open>Broker_Delivery\<close>: one
    message over its retries; \<open>Broker_Shutdown\<close>: several queues under one shutdown.
  \<^item> \<open>Queue_API\<close> (\<open>shoebox.go\<close>, \<open>options.go\<close>, \<open>metrics.go\<close>, \<open>middleware.go\<close>, \<open>task.go\<close>) and
    \<open>Queue_Guarantees\<close>; \<open>Tracing\<close> (\<open>otel/otel.go\<close>); \<open>Webhook\<close> (\<open>webhook.go\<close>).
  \<^item> \<open>DLQ\<close> (\<open>internal/dlq\<close>), \<open>HTTP_Server\<close> (\<open>internal/api/middleware.go\<close> and what it uses of \<open>net/http\<close>,
    the locale \<open>endpoint\<close> of a router), \<open>HTTP_API\<close> (\<open>internal/api/handler.go\<close>), \<open>Dashboard\<close>
    (\<open>internal/dashboard\<close>), \<open>Server_Config\<close> (\<open>internal/config\<close>), \<open>Shoeboxd\<close> (\<open>cmd/shoeboxd\<close>);
    \<open>Server_System\<close>: the runs of a started server, requests as steps of \<open>sys_step\<close> beside the goroutines of
    the broker.
  \<^item> \<open>Example_Programs\<close> (\<open>examples/\<close>, \<open>otel/example\<close>): the example programs as clients of the public interface.

  \<^bold>\<open>What is shown.\<close> Exclusive delivery on every backend for any interleaving and any failures; what a
  completed drain has seen of its queue, and that the store is closed last; delivery order, retries and their
  spacing, acknowledgement batching and deduplication against reference definitions; atomicity of the SQLite
  methods, schema upgrades, recovery after a crash, the round trip of a message through SQLite in any zone and
  when its texts hold a message due; that the server answers every request, keeps the unauthorized out,
  moves messages as the contract says and, beside the goroutines, breaks none of the
  broker's guarantees. Some theorems state where the code falls short of its documentation; their texts say so.

  \<^bold>\<open>Conventions and assumptions.\<close> Operations take the readings of the clock and the fresh identifiers they use
  as arguments. Loops are recursive functions; the only loop that may not end, the catch-up of a schedule, is
  a \<open>partial_function\<close> proved to return for positive intervals; opening a database that waits for ever is
  the outcome \<open>Blocked\<close>. No fuel is used; the rounds of a delivery are the list of the times at which the
  dispatcher looks.
  \<^item> A call of a SQL driver that reports an error has had no effect and a transaction whose \<open>COMMIT\<close> reports one is
    rolled back; a connection lost during a \<open>COMMIT\<close> is outside the model. SQLite has one connection.
  \<^item> A time is an instant. The texts SQLite stores depend on locations: the local zone and the offsets a message's
    times carry are the arbitrary functions \<open>fZone\<close> and \<open>fOffsets\<close> of the process; where the code calls \<open>UTC()\<close>
    the offset is 0. Metadata passes through \<open>json.Marshal\<close>, the arbitrary function \<open>fJSON\<close>; \<open>json_law\<close> is what is
    used of it.
  \<^item> \<open>Attempts\<close>, \<open>MaxRetries\<close> and \<open>Priority\<close> (Go \<open>int\<close>) are unbounded; durations and the counters
    of statistics that are reported have their 64 bits.
  \<^item> The step relation takes callers at their documented obligations: fresh identifiers (random, 128 bits), queue
    names that are not reserved, no registration after a shutdown; HTTP clients DELETE only messages they took.
  \<^item> The Prometheus client, the HTTP client (\<open>hcFollowsRedirects\<close> is what the program tells it), HMAC, JSON, YAML, the
    jsonb cast of PostgreSQL, random numbers and OpenTelemetry are parameters. Of \<open>net/http\<close> the model has the
    routing, the cleaning of paths and the redirects of \<open>ServeMux\<close> (\<open>serve_target\<close>); the status of the redirect to
    a cleaned path is a parameter, that of \<open>/api\<close> to \<open>/api/\<close> is 307, as in the Go release that \<open>go.mod\<close> names.

  \<^bold>\<open>Not modelled.\<close> Log records; HTML templates; the listener and the timeouts of \<open>net/http\<close> and the deadlines
  of requests, beyond that a backend may fail at any call; what the example programs print; \<open>message.go\<close>, which
  only names types; CONNECT requests. A call of the backend is one step of the system. What a worker does when its
  handler has returned, with the flush of a full buffer, and the flush of a shutdown are one step each; the flushes of
  the acknowledgement loop and of a drain are several. A request is one step of the system at a time; the dashboard,
  which reads one queue after the other, and \<open>RegisterPeriodic\<close>, which lists the jobs and then inserts one, are
  sequences of calls with nothing in between.
\<close>

section \<open>Properties of the whole program\<close>

text \<open>
  C1. No message is with two workers at once, in a queue that \<open>New\<close> opened. Take any options \<open>New\<close>
  accepts, on any of the three backends, with databases whose messages have a primary key, and any
  interleaving of the goroutines of the broker with calls of clients, those of the HTTP interface on the
  shared backend included, any call of the backend possibly failing. In every state reached, the messages
  in the hands of the dispatcher, of the workers and of the HTTP consumers of a queue, those in a batch that
  is being acknowledged and those whose acknowledgement is still owed are pairwise different; the backend holds each of them as in
  flight, and none of them as pending, so no \<open>Dequeue\<close> can return it a second time.
\<close>

theorem no_concurrent_duplicate_delivery:
  assumes "New_Queue env mreg fresh opts rs = (Done q, rs')" "env_ok env"
    and "sys_reachable store_ops (store_schedule_ops ks jsonb collate) store_view (queue_options (Store q) (normalize_options opts)) w y"
  shows "sy_b (sys_init (queue_options (Store q) (normalize_options opts)) w) = q_b q \<and>
    distinct (held y n @ owed (sy_b y) n) \<and>
    set (held y n @ owed (sy_b y) n) \<subseteq> aInfl (store_view (b_store (sy_b y))) n \<and>
    (\<forall>i \<in> set (held y n @ owed (sy_b y) n). i \<notin># aPend (store_view (b_store (sy_b y))) n)"
proof -
  from assms(1) obtain st where st: "buildStorage env (normalize_options opts) = Done st"
      "q_b q = New (queue_options st (normalize_options opts))" "Store q = st" by (rule New_Queue_DoneE)
  have ok: "store_inv (optStorage (queue_options (Store q) (normalize_options opts)))"
      "exclusive (store_view (optStorage (queue_options (Store q) (normalize_options opts))))"
    using buildStorage_ok [OF st(1) assms(2)] st(3) by (simp_all add: queue_options_def)
  show ?thesis
    using any_no_duplicate [OF assms(3) ok] st(2,3) by (simp add: sys_init_def)
qed

text \<open>The queue of the example, with a handler on one queue, a message, and the step that takes it.\<close>

abbreviation any_options :: "store options" where
  "any_options \<equiv> queue_options (MemoryStore NewMemory) memory_options"

definition any_started :: "(store, unit) sys" where
  "any_started = (let y = sys_init any_options () in start_dispatcher ''q'' (Register ''q'' (\<lambda>c m w. (Inr None, w))
     \<lparr>hoMaxRetries = 1, hoBackoff = None, hoTimeout = 0\<rparr> (sy_b y)) y)"

definition any_filled :: "(store, unit) sys" where
  "any_filled = any_started\<lparr>sy_b := snd (b_Enqueue store_ops 9 9 9 ''a'' ''q'' [] quiet_opts (sy_b any_started))\<rparr>"

lemma any_sel: "sy_pc any_started ''q'' = Top" "b_store (sy_b any_started) = MemoryStore NewMemory" "\<not> b_aborted (sy_b any_started)"
    "b_concurrency (sy_b any_started) = 2" "b_paused (sy_b any_started) = Map.empty" "sy_workers any_started = []"
    "b_dispatchC (sy_b any_started) ''q'' = Some False" "sy_pulled any_started ''q'' = []" "sy_ack any_started = AckWait"
  by (simp_all add: any_started_def start_dispatcher_def Register_def Let_def sys_init_def New_def queue_options_def memory_options_def)

abbreviation any_reach :: "(store, unit) sys \<Rightarrow> bool" where
  "any_reach \<equiv> sys_reachable store_ops (store_schedule_ops [] Some (\<lambda>_ _. False)) store_view any_options ()"

lemma any_started_reach: "any_reach any_started"
  unfolding any_started_def Let_def
  by (rule sr_step [OF sr_init], rule s_Register)
    (use user_queue_q in \<open>simp_all add: sys_init_def New_def Let_def queue_options_def memory_options_def\<close>)

lemma any_filled_reach: "any_reach any_filled"
  unfolding any_filled_def
  by (rule sr_step [OF any_started_reach], rule s_Enqueue) (use user_queue_q in \<open>simp_all add: fresh_id_def any_sel NewMemory_def\<close>)

abbreviation filled_message :: message where
  "filled_message \<equiv> build_message ''a'' ''q'' [] quiet_opts 9 9"

lemma any_filled_sel:
  "b_store (sy_b any_filled) = MemoryStore (snd (mem_Enqueue 9 ''q'' filled_message NewMemory))" "\<not> b_aborted (sy_b any_filled)"
  "b_concurrency (sy_b any_filled) = 2" "b_paused (sy_b any_filled) = Map.empty" "sy_pc any_filled ''q'' = Top" "sy_workers any_filled = []"
  "sy_pulled any_filled ''q'' = []" "sy_ack any_filled = AckWait"
  by (simp_all add: any_filled_def b_Enqueue_def enqueueMessage_def quiet_opts_def any_sel store_ops_def dispatch_def
      mem_Enqueue_def wake_def Let_def split: option.splits)

lemma any_reach_memory_queue:
  assumes "any_reach y"
  shows "sys_reachable store_ops (store_schedule_ops [] Some (\<lambda>_ _. False)) store_view
    (queue_options (Store (memory_queue :: unit Queue)) (normalize_options memory_options)) () y"
  using assms by (simp add: normalize_memory_options Store_def memory_queue_def queue_options_def)

theorem no_concurrent_duplicate_delivery_witness:
  "\<exists>y. any_reach y \<and> held y ''q'' = [''a''] \<and> ''a'' \<in> aInfl (store_view (b_store (sy_b y))) ''q''"
proof -
  obtain b where top: "dispatch_top store_ops 9 ''q'' (sy_b any_filled) = (Got [filled_message], b)"
    by (simp add: dispatch_top_def isPaused_def pausedFlag_def any_filled_sel store_ops_def dispatch_def mem_Dequeue_def mem_Enqueue_def
        push_queue_def NewMemory_def sort_pending_def SliceStable_def Let_def build_message_def IsZero_def quiet_opts_def)
  let ?y = "any_filled\<lparr>sy_b := b, sy_pc := (sy_pc any_filled)(''q'' := Spawning [filled_message])\<rparr>"
  have reach: "any_reach ?y"
    by (rule sr_step [OF any_filled_reach], rule s_top [OF any_filled_sel(5), where tS = 9]) (simp add: top)
  have held: "held ?y ''q'' = [''a'']" by (simp add: held_pc busy_def any_filled_sel on_queue_def build_message_def Let_def)
  obtain rs' where
    n: "New_Queue example_env set_registry 0 memory_options (\<lambda>_. {}) = (Done (memory_queue :: unit Queue), rs')"
    using New_memory_queue by blast
  from no_concurrent_duplicate_delivery [OF n env_ok_example any_reach_memory_queue [OF reach], of "''q''"] held reach
  show ?thesis by (intro exI [of _ ?y]) auto
qed

text \<open>
  C26. What a completed drain has seen. Take a queue that \<open>New\<close> opened, on any backend, and any
  interleaving as above. When the dispatcher of a queue finds its drain or the shutdown complete, at
  the call of \<open>Stats\<close> that ends the test, no worker of the queue is running and no message of the
  queue is pending; what is still in the hands of the broker or of clients is what HTTP consumers have taken and a
  batch that the acknowledgement loop has taken out of the map and not yet settled. The same holds of
  workers and messages at the close of the channel that tells \<open>Drain\<close> to return. (Between the call of \<open>Stats\<close> and that
  close another caller may enqueue: nothing is said of the pending messages then.)
\<close>

theorem drain_leaves_nothing:
  assumes "New_Queue env mreg fresh opts rs = (Done q, rs')" "env_ok env"
    and "sys_reachable store_ops (store_schedule_ops ks jsonb collate) store_view (queue_options (Store q) (normalize_options opts)) w y"
  shows "(\<forall>c b'. sy_pc y n = InDrain c Counting \<and> drain_step store_ops n c Counting (sy_b y) = (after_drain c True, b') \<longrightarrow>
      on_queue n (sy_workers y) = [] \<and> aPend (store_view (b_store b')) n = {#} \<and> held y n = sy_pulled y n @ batch_of (sy_ack y) n) \<and>
    (sy_pc y n = Signalling \<longrightarrow> on_queue n (sy_workers y) = [] \<and> held y n = sy_pulled y n @ batch_of (sy_ack y) n)"
proof -
  note ok = New_Queue_store_ok [OF assms(1,2)]
  have "quiet_inv y" using sys_reachable_invs [OF assms(3)] by blast
  then have "sy_pc y n = Signalling \<Longrightarrow> on_queue n (sy_workers y) = []" by (simp add: quiet_inv_def)
  then show ?thesis using anys.reachable_drained [OF assms(3) ok] by (auto simp: held_def busy_def)
qed

text \<open>A drain of the queue of the example, which is empty, up to the call of \<open>Stats\<close>.\<close>

theorem drain_leaves_nothing_witness:
  "\<exists>y b'. any_reach y \<and> sy_pc y ''q'' = InDrain ByDrain Counting \<and>
     drain_step store_ops ''q'' ByDrain Counting (sy_b y) = (after_drain ByDrain True, b') \<and> aPend (store_view (b_store b')) ''q'' = {#}"
proof -
  let ?b = "snd (Drain_begin ''q'' (sy_b any_started))"
  let ?y = "any_started\<lparr>sy_b := ?b\<rparr>" and ?b1 = "snd (isPaused ''q'' ?b)"
  let ?at = "\<lambda>pc. ?y\<lparr>sy_b := ?b1, sy_pc := (sy_pc any_started)(''q'' := pc)\<rparr>"
  have b: "\<not> b_aborted ?b" "b_inflight ?b1 ''q'' = Some 0" "b_pendingAcks ?b1 = Map.empty" "b_store ?b1 = MemoryStore NewMemory" "b_store ?b = MemoryStore NewMemory"
    "\<not> b_aborted ?b1" "\<not> draining ?b1" "isQueueDraining ''q'' ?b1" "\<not> fst (isPaused ''q'' ?b)"
    by (simp_all add: any_started_def start_dispatcher_def Register_def Let_def sys_init_def New_def queue_options_def memory_options_def
        Drain_begin_def isPaused_def pausedFlag_def draining_def isQueueDraining_def)
  have drain: "any_reach ?y" by (rule sr_step [OF any_started_reach s_Drain_begin])
  have "goto ''q'' (dispatch_top store_ops 9 ''q'' ?b) ?y = Some (?at Empty)"
    using b by (simp add: dispatch_top_def split_beta store_ops_def dispatch_def mem_Dequeue_def NewMemory_def)
  then have r: "any_reach (?at Empty)" by (intro sr_step [OF drain s_top [where tS = 9]]) (simp_all add: any_sel)
  have stage: "any_reach (?at pc')" if "any_reach (?at pc)" "dispatch_stage store_ops ''q'' pc ?b1 = Some (nx, ?b1)"
      "goto ''q'' (nx, ?b1) (?at pc) = Some (?at pc')" for pc pc' nx
    by (rule sr_step [OF that(1) s_empty]) (use that(2,3) in simp_all)
  have r: "any_reach (?at Second)" by (rule stage [OF r, where nx = NextSecond]) (use b in \<open>simp_all add: dispatch_empty_def\<close>)
  have r: "any_reach (?at (InDrain ByDrain Quiet))"
    by (rule stage [OF r, where nx = "NextDrain ByDrain Quiet"]) (use b in \<open>simp_all add: dispatch_second_def\<close>)
  have r: "any_reach (?at (InDrain ByDrain Flush))"
    by (rule stage [OF r, where nx = "NextDrain ByDrain Flush"]) (use b in \<open>simp_all add: quiescent_def inflightFor_def\<close>)
  have "?b1\<lparr>b_pendingAcks := Map.empty\<rparr> = ?b1" using b(3) by simp
  then have r: "any_reach (?at (InDrain ByDrain Counting))"
    by (intro stage [OF r, where nx = "NextDrain ByDrain Counting"]) (use b in \<open>simp_all add: flush_take_def\<close>)
  obtain b' where stats: "drain_step store_ops ''q'' ByDrain Counting ?b1 = (after_drain ByDrain True, b')"
    using b(4) by (simp add: store_ops_def dispatch_def mem_Stats_def statsFor_def NewMemory_def)
  obtain rs' where
    n: "New_Queue example_env set_registry 0 memory_options (\<lambda>_. {}) = (Done (memory_queue :: unit Queue), rs')"
    using New_memory_queue by blast
  from drain_leaves_nothing [OF n env_ok_example any_reach_memory_queue [OF r], of "''q''"] stats r
  show ?thesis by (intro exI [of _ "?at (InDrain ByDrain Counting)"] exI [of _ b']) simp
qed

section \<open>The server beside the broker\<close>

text \<open>
  C7. The server as a whole is safe. Take a server that \<open>main\<close> started, with webhooks for queues whose names
  are not reserved, and let it run: its dispatchers, workers and loops and any HTTP requests, permitted or
  not, in any order, any call of the backend possibly failing. Every state it reaches is one the broker
  alone could reach, in which every message is held at most once and is then in flight. The clients keep to
  their part: no reserved queue name, no DELETE of a message they did not take, and new identifiers are
  fresh.
\<close>

theorem server_runs_safely:
  assumes "main_start f yaml read env mreg fresh E base rs = (Serving cfg q, rs')" "env_ok env"
    and "\<forall>n \<in> fst ` set (cfWebhooks cfg). user_queue n"
  shows "\<exists>opts y0. sy_b y0 = q_b q \<and> sy_world y0 = world \<and> sy_workers y0 = [] \<and> sy_pulled y0 = (\<lambda>_. []) \<and>
    (\<forall>n. sy_pc y0 n = (if n \<in> fst ` set (cfWebhooks cfg) then Top else Stopped)) \<and>
    (\<forall>promhttp decode ParseDuration ks ks' jsonb collate y.
      server_runs cfg promhttp decode ParseDuration ks (store_schedule_ops ks' jsonb collate) y0 y \<longrightarrow>
      reach (store_schedule_ops ks' jsonb collate) opts world y \<and>
      (\<forall>n. distinct (held y n @ owed (sy_b y) n) \<and> set (held y n @ owed (sy_b y) n) \<subseteq> aInfl (store_view (b_store (sy_b y))) n))"
proof -
  from assms(1) obtain opts q0 where n: "New_Queue env mreg fresh opts rs = (Done q0, rs')" "q = register_webhooks E base (cfWebhooks cfg) q0"
    by (rule main_start_ServingE)
  from n(1) obtain st where st: "q_b q0 = New (queue_options st (normalize_options opts))" "Store q0 = st" by (rule New_Queue_DoneE)
  let ?o = "queue_options (Store q0) (normalize_options opts)"
  let ?y0 = "start_webhooks E base (cfWebhooks cfg) q0 (sys_init ?o world)"
  note ok = New_Queue_store_ok [OF n(1) assms(2)]
  have b: "sy_b (sys_init ?o world) = q_b q0" "\<not> b_closed (q_b q0)" "\<And>m. \<not> b_dispatching (q_b q0) m"
    by (simp_all add: st sys_init_def New_def Let_def)
  have pc: "sy_pc (sys_init ?o world) m = (if b_dispatching (q_b q0) m then Top else Stopped)" for m by (simp add: b(3) sys_init_def)
  note start = start_webhooks_reach [OF sr_init b(1,2) assms(3), of _ E base]
  note places = start_webhooks_places [OF pc, of E base "cfWebhooks cfg"]
  have "reach (store_schedule_ops ks' jsonb collate) ?o world y \<and>
      (\<forall>n. distinct (held y n @ owed (sy_b y) n) \<and> set (held y n @ owed (sy_b y) n) \<subseteq> aInfl (store_view (b_store (sy_b y))) n)"
    if "server_runs cfg promhttp decode ParseDuration ks (store_schedule_ops ks' jsonb collate) ?y0 y" for promhttp decode ParseDuration ks ks' jsonb collate y
  proof -
    have r: "reach (store_schedule_ops ks' jsonb collate) ?o world y" by (rule server_runs_reach [OF that conjunct1 [OF start] ok])
    with any_no_duplicate [OF r ok] show ?thesis by blast
  qed
  moreover have "sy_b ?y0 = q_b q" using start by (simp add: n(2))
  moreover have "sy_world ?y0 = world" "sy_workers ?y0 = []" "sy_pulled ?y0 = (\<lambda>_. [])"
    "\<forall>n. sy_pc ?y0 n = (if n \<in> fst ` set (cfWebhooks cfg) then Top else Stopped)"
    by (simp_all add: places b(3)) (simp_all add: sys_init_def)
  ultimately show ?thesis by (intro exI [of _ ?o] exI [of _ ?y0]) blast
qed

theorem server_runs_safely_witness:
  "\<exists>cfg q rs'. main_start memory_flags webhook_yaml (\<lambda>_. Inr []) example_env set_registry 0 redirecting ((100, 2), True) (\<lambda>_. {}) =
       (Serving cfg q, rs') \<and>
     (\<exists>opts y0. sy_b y0 = q_b q \<and> sy_pc y0 ''q'' = Top \<and> reach (store_schedule_ops [] Some (\<lambda>_ _. False)) opts [] y0)"
proof -
  obtain cfg q rs' where m: "main_start memory_flags webhook_yaml (\<lambda>_. Inr []) example_env set_registry 0 redirecting ((100, 2), True) (\<lambda>_. {}) =
       (Serving cfg q, rs')" and w: "map fst (cfWebhooks cfg) = [''q'']" by (insert memory_start, elim exE conjE) (rule that)
  have ns: "fst ` set (cfWebhooks cfg) = {''q''}" using w by (metis list.set(1,2) set_map)
  then have u: "\<forall>n \<in> fst ` set (cfWebhooks cfg). user_queue n" using user_queue_q by simp
  from server_runs_safely [OF m env_ok_example u, of "[]", unfolded ns] obtain opts y0 where
    y: "sy_b y0 = q_b q" "\<forall>n. sy_pc y0 n = (if n \<in> {''q''} then Top else Stopped)"
      "\<forall>promhttp decode ParseDuration ks ks' jsonb collate y.
        server_runs cfg promhttp decode ParseDuration ks (store_schedule_ops ks' jsonb collate) y0 y \<longrightarrow>
        reach (store_schedule_ops ks' jsonb collate) opts [] y \<and>
        (\<forall>n. distinct (held y n @ owed (sy_b y) n) \<and> set (held y n @ owed (sy_b y) n) \<subseteq> aInfl (store_view (b_store (sy_b y))) n)"
    by (elim exE conjE) (rule that)
  have "reach (store_schedule_ops [] Some (\<lambda>_ _. False)) opts [] y0" using y(3) sv_start by metis
  with y(1,2) m show ?thesis by (intro exI [of _ cfg] exI [of _ q] exI [of _ rs'] conjI exI [of _ opts] exI [of _ y0]) simp_all
qed

text \<open>A GET on the queue of the example, which has one message.\<close>

abbreviation serve_get :: "(store, unit) sys \<Rightarrow> writer \<times> (store, unit) sys" where
  "serve_get y \<equiv> serve_http zero_config (\<lambda>_ _. respond id) (\<lambda>_ _. Inl ErrEmpty) (\<lambda>_. Inl ErrEmpty) [''q''] at_nine (get_request next_path) y"

lemma get_filled: "obeys at_nine (get_request next_path) any_filled"
    "\<exists>w y' m. serve_get any_filled = (w, y') \<and> wBody w = [JSONMessage m] \<and> mID m = ''a''"
proof -
  let ?m = "snd (mem_Enqueue 9 ''q'' filled_message NewMemory)"
  have q: "mem_queues ?m ''q'' = [filled_message\<lparr>mCreatedAt := 9\<rparr>]" "mScheduledAt (filled_message\<lparr>mCreatedAt := 9\<rparr>) \<le> inClock at_nine"
    by (simp_all add: mem_Enqueue_def push_queue_def NewMemory_def build_message_def IsZero_def quiet_opts_def Let_def at_nine_def)
  show "obeys at_nine (get_request next_path) any_filled"
    using user_queue_q by (simp add: obeys_def any_filled_sel fresh_id_def mem_Enqueue_def push_queue_def NewMemory_def build_message_def
        newRequestID_def NewMessageID_def at_nine_def Let_def)
  show "\<exists>w y' m. serve_get any_filled = (w, y') \<and> wBody w = [JSONMessage m] \<and> mID m = ''a''"
    unfolding serve_http_def any_filled_sel(1) memory_pull [OF request_sel(3,1,2) _ q, simplified]
    by (simp add: new_writer_def build_message_def Let_def)
qed

text \<open>
  C8. A consumer over HTTP and the workers do not share a message. When a GET of \<open>messages/next\<close> gives a
  message, no worker, no dispatcher and no other consumer of the queue has it and no acknowledgement is owed
  for it; from then on it is held once, by this consumer.
\<close>

theorem http_pull_is_exclusive:
  assumes "New_Queue env mreg fresh opts rs = (Done q, rs')" "env_ok env"
    and "reach (store_schedule_ops ks' jsonb collate) (queue_options (Store q) (normalize_options opts)) world y"
    and "obeys inp r y" "is_get (rqMethod r)" "rqPath r = [''api'', ''queues'', n, ''messages'', ''next'']"
    and "serve_http cfg promhttp decode ParseDuration ks inp r y = (w, y')" "wBody w = [JSONMessage m]"
  shows "mID m \<notin> set (held y n @ owed (sy_b y) n) \<and> sy_pulled y' n = mID m # sy_pulled y n \<and>
    count (mset (held y' n @ owed (sy_b y') n)) (mID m) = 1"
proof -
  note ok = New_Queue_store_ok [OF assms(1,2)]
  have "reach (store_schedule_ops ks' jsonb collate) (queue_options (Store q) (normalize_options opts)) world y'"
    using serve_reach [OF assms(3) ok assms(4), of cfg promhttp decode ParseDuration ks] assms(6,7) by simp
  from any_no_duplicate [OF this ok, of n] have d: "distinct (held y' n @ owed (sy_b y') n)" by blast
  from serve_takes [OF assms(7) assms(5,6,8)] have t: "sy_pulled y' n = mID m # sy_pulled y n" "owed (sy_b y') n = owed (sy_b y) n"
      "mset (held y' n) = add_mset (mID m) (mset (held y n))" by simp_all
  have "mset (held y' n @ owed (sy_b y') n) = mset (mID m # held y n @ owed (sy_b y) n)" by (simp add: t)
  with d have "distinct (mID m # held y n @ owed (sy_b y) n)" by (metis mset_eq_imp_distinct_iff)
  moreover have "mID m \<in> set (held y' n @ owed (sy_b y') n)" using t(3) by (metis UnI1 set_append set_mset_mset union_single_eq_member)
  ultimately show ?thesis using t(1) d [unfolded distinct_count_atmost_1] by simp
qed

theorem http_pull_is_exclusive_witness:
  "\<exists>w y' m. serve_get any_filled = (w, y') \<and> wBody w = [JSONMessage m] \<and> sy_pulled y' ''q'' = [''a''] \<and>
     count (mset (held y' ''q'' @ owed (sy_b y') ''q'')) ''a'' = 1"
proof -
  obtain w y' m where g: "serve_get any_filled = (w, y')" "wBody w = [JSONMessage m]" "mID m = ''a''" using get_filled(2) by blast
  obtain rs' where
    n: "New_Queue example_env set_registry 0 memory_options (\<lambda>_. {}) = (Done (memory_queue :: unit Queue), rs')"
    using New_memory_queue by blast
  from http_pull_is_exclusive [OF n env_ok_example any_reach_memory_queue [OF any_filled_reach] get_filled(1) _ request_sel(2) g(1,2)] g
  show ?thesis by (auto simp: is_get_def any_filled_sel)
qed

end
